(* ===== verification/Prelude.thy ===== *)
theory Prelude
  imports Main "HOL-Library.Word"
begin

text \<open>
  Shared vocabulary of the development: the machine integers of the firmware, blocks of memory
  as byte lists with the effect of \<^verbatim>\<open>memcpy\<close>, the little-endian getters and putters that
  \<^verbatim>\<open>air_session.c\<close>, \<^verbatim>\<open>codec_wire.h\<close> and \<^verbatim>\<open>spi_protocol.h\<close> repeat, and the
  28-bit Bluetooth clock in half-slots and half-microseconds. The collections \<open>mem_simps\<close>,
  \<open>le_simps\<close> and \<open>eval_simps\<close> carry the facts the component proofs share.
\<close>

unbundle bit_operations_syntax

type_synonym u8 = "8 word"
type_synonym u16 = "16 word"
type_synonym u32 = "32 word"
type_synonym u64 = "64 word"
type_synonym bytes = "u8 list"

named_theorems mem_simps "reading back blocks of memory"
named_theorems le_simps "little-endian integers"
named_theorems eval_simps "equations that evaluate closed terms"

section \<open>Iteration counts\<close>

lemma funpow_8 [eval_simps]: "(f ^^ 8) x = f (f (f (f (f (f (f (f x)))))))"
  by (simp add: eval_nat_numeral)

lemma funpow_3 [eval_simps]: "(f ^^ 3) x = f (f (f x))"
  by (simp add: eval_nat_numeral)

section \<open>Blocks of memory\<close>

text \<open>
  \<open>memcpy_at dst off src\<close> is the buffer \<open>dst\<close> after \<^verbatim>\<open>memcpy(dst + off, src, n)\<close> with
  \<open>n = length src\<close>, for a copy that stays inside \<open>dst\<close>.
\<close>

definition memcpy_at :: "'a list \<Rightarrow> nat \<Rightarrow> 'a list \<Rightarrow> 'a list" where
  "memcpy_at dst off src = take off dst @ src @ drop (off + length src) dst"

definition block :: "nat \<Rightarrow> nat \<Rightarrow> 'a list \<Rightarrow> 'a list" where
  "block off n xs = take n (drop off xs)"

lemma length_memcpy_at [mem_simps]:
  "off + length src \<le> length dst \<Longrightarrow> length (memcpy_at dst off src) = length dst"
  by (simp add: memcpy_at_def)

lemma nth_memcpy_at [mem_simps]:
  "off + length src \<le> length dst \<Longrightarrow> i < length dst \<Longrightarrow>
   memcpy_at dst off src ! i =
     (if off \<le> i \<and> i < off + length src then src ! (i - off) else dst ! i)"
  by (auto simp: memcpy_at_def nth_append)

lemma length_block [mem_simps]: "off + n \<le> length xs \<Longrightarrow> length (block off n xs) = n"
  by (simp add: block_def)

lemma nth_block [mem_simps]: "i < n \<Longrightarrow> off + n \<le> length xs \<Longrightarrow> block off n xs ! i = xs ! (off + i)"
  by (simp add: block_def)

lemma block_memcpy_same [mem_simps]:
  "off + length src \<le> length dst \<Longrightarrow> block off (length src) (memcpy_at dst off src) = src"
  by (simp add: block_def memcpy_at_def)

lemma block_memcpy_other [mem_simps]:
  assumes "off + length src \<le> length dst" and "p + n \<le> length dst"
    and "p + n \<le> off \<or> off + length src \<le> p"
  shows "block p n (memcpy_at dst off src) = block p n dst"
proof (rule nth_equalityI)
  show "length (block p n (memcpy_at dst off src)) = length (block p n dst)"
    using assms by (simp add: mem_simps)
  fix i
  assume "i < length (block p n (memcpy_at dst off src))"
  then have "i < n" by (simp add: block_def)
  then show "block p n (memcpy_at dst off src) ! i = block p n dst ! i"
    using assms by (auto simp: mem_simps)
qed

lemma memcpy_at_0 [mem_simps]: "memcpy_at dst 0 src = src @ drop (length src) dst"
  by (simp add: memcpy_at_def)

lemma memcpy_at_append:
  "off + length xs + length ys \<le> length d \<Longrightarrow>
   memcpy_at (memcpy_at d off xs) (off + length xs) ys = memcpy_at d off (xs @ ys)"
  by (cases xs) (auto simp: memcpy_at_def min_def ac_simps)

lemma memcpy_at_single: "off < length d \<Longrightarrow> d[off := x] = memcpy_at d off [x]"
  by (simp add: memcpy_at_def upd_conv_take_nth_drop)

lemma memcpy_at_empty [simp]: "memcpy_at d off [] = d"
  by (simp add: memcpy_at_def)

lemma differ_at:
  assumes "length xs = length ys" and "k < length ys" and "\<And>j. j \<noteq> k \<Longrightarrow> j < length ys \<Longrightarrow> xs ! j = ys ! j"
  shows "xs = take k ys @ xs ! k # drop (Suc k) ys"
proof -
  have "xs = ys[k := xs ! k]"
    by (rule nth_equalityI) (use assms in \<open>auto simp: nth_list_update\<close>)
  then show ?thesis using upd_conv_take_nth_drop [OF assms(2)] by metis
qed

section \<open>Little-endian integers\<close>

definition put16 :: "u16 \<Rightarrow> bytes" where
  "put16 v = [ucast v, ucast (drop_bit 8 v)]"

definition put24 :: "u32 \<Rightarrow> bytes" where
  "put24 v = put16 (ucast v) @ [ucast (drop_bit 16 v)]"

definition put32 :: "u32 \<Rightarrow> bytes" where
  "put32 v = put16 (ucast v) @ put16 (ucast (drop_bit 16 v))"

definition get16 :: "bytes \<Rightarrow> nat \<Rightarrow> u16" where
  "get16 p i = ucast (p ! i) OR push_bit 8 (ucast (p ! (i + 1)))"

definition get32 :: "bytes \<Rightarrow> nat \<Rightarrow> u32" where
  "get32 p i = ucast (p ! i) OR push_bit 8 (ucast (p ! (i + 1)))
     OR push_bit 16 (ucast (p ! (i + 2))) OR push_bit 24 (ucast (p ! (i + 3)))"

lemma bit_beyond [simp]:
  "8 \<le> n \<Longrightarrow> \<not> bit (a :: u8) n" "16 \<le> n \<Longrightarrow> \<not> bit (b :: u16) n" "32 \<le> n \<Longrightarrow> \<not> bit (c :: u32) n"
  using bit_imp_le_length [of a n] bit_imp_le_length [of b n] bit_imp_le_length [of c n] by auto

lemma length_put [simp]:
  "length (put16 v) = 2" "length (put24 w) = 3" "length (put32 w) = 4"
  by (simp_all add: put16_def put24_def put32_def)

lemma get16_put16 [le_simps]: "get16 (put16 v) 0 = v"
  unfolding get16_def put16_def by (rule bit_eqI) (auto simp: bit_simps)

lemma put16_get16 [le_simps]: "put16 (get16 [a, b] 0) = [a, b]"
  unfolding get16_def put16_def by (auto intro!: bit_eqI simp: bit_simps)

lemma put32_bytes: "put32 v =
  [ucast v, ucast (drop_bit 8 v), ucast (drop_bit 16 v), ucast (drop_bit 24 v)]"
proof -
  have "ucast (ucast v :: u16) = (ucast v :: u8)"
    and "ucast (drop_bit 8 (ucast v :: u16)) = (ucast (drop_bit 8 v) :: u8)"
    and "ucast (ucast (drop_bit 16 v) :: u16) = (ucast (drop_bit 16 v) :: u8)"
    and "ucast (drop_bit 8 (ucast (drop_bit 16 v) :: u16)) = (ucast (drop_bit 24 v) :: u8)"
    by (rule bit_eqI; simp add: bit_simps)+
  then show ?thesis by (simp add: put32_def put16_def)
qed

lemma get32_bits: "k < 4 \<Longrightarrow> m < 8 \<Longrightarrow> bit (get32 p i) (8 * k + m) = bit (p ! (i + k)) m"
proof -
  assume k: "k < 4" and m: "m < 8"
  from k consider "k = 0" | "k = 1" | "k = 2" | "k = 3" by linarith
  then show ?thesis
    by cases (use m in \<open>simp_all add: get32_def bit_simps\<close>)
qed

lemma get32_inj: "get32 p i = get32 q j \<Longrightarrow> k < 4 \<Longrightarrow> p ! (i + k) = q ! (j + k)"
proof (rule bit_eqI)
  fix m
  assume eq: "get32 p i = get32 q j" "k < 4" and "possible_bit TYPE(u8) m"
  then have "m < 8" by (simp add: possible_bit_word)
  then show "bit (p ! (i + k)) m = bit (q ! (j + k)) m"
    using get32_bits [OF eq(2), of m p i] get32_bits [OF eq(2), of m q j] eq(1) by simp
qed

lemma put32_bits: "k < 4 \<Longrightarrow> m < 8 \<Longrightarrow> bit (put32 v ! k) m = bit v (8 * k + m)"
proof -
  assume k: "k < 4" and m: "m < 8"
  from k consider "k = 0" | "k = 1" | "k = 2" | "k = 3" by linarith
  then show ?thesis
    by cases (use m in \<open>simp_all add: put32_bytes bit_simps\<close>)
qed

lemma get32_put32 [le_simps]: "get32 (put32 v) 0 = v"
proof (rule bit_eqI)
  fix n
  assume "possible_bit TYPE(u32) n"
  then have "n div 8 < 4" "n mod 8 < 8" by (auto simp: possible_bit_word)
  then show "bit (get32 (put32 v) 0) n = bit v n"
    using get32_bits [of "n div 8" "n mod 8"] put32_bits [of "n div 8" "n mod 8"] by simp
qed

lemma get16_bytes: "get16 p i = get16 [p ! i, p ! (i + 1)] 0"
  by (simp add: get16_def)

lemma get32_bytes: "get32 p i = get32 [p ! i, p ! (i + 1), p ! (i + 2), p ! (i + 3)] 0"
  by (simp add: get32_def get16_def numeral_2_eq_2 numeral_3_eq_3)

lemma get16_read: "p ! i = ucast v \<Longrightarrow> p ! (i + 1) = ucast (drop_bit 8 v) \<Longrightarrow> get16 p i = v"
  using get16_put16 [of v] by (simp add: get16_bytes [of p] put16_def)

lemma get32_read: "p ! i = ucast v \<Longrightarrow> p ! (i + 1) = ucast (drop_bit 8 v) \<Longrightarrow> p ! (i + 2) = ucast (drop_bit 16 v) \<Longrightarrow>
    p ! (i + 3) = ucast (drop_bit 24 v) \<Longrightarrow> get32 p i = v"
  using get32_put32 [of v] by (simp add: get32_bytes [of p] put32_bytes)

lemma get32_at: "i + 3 < length p \<Longrightarrow> get32 p i = get32 (block i 4 p) 0"
  by (simp add: get32_def block_def)

lemma get16_at: "i + 1 < length p \<Longrightarrow> get16 p i = get16 (block i 2 p) 0"
  by (simp add: get16_def block_def)

lemma get32_memcpy_same [le_simps]:
  "i + 4 \<le> length p \<Longrightarrow> get32 (memcpy_at p i (put32 v)) i = v"
  using block_memcpy_same [of i "put32 v" p]
  by (simp add: get32_at length_memcpy_at le_simps)

lemma get32_memcpy_other [le_simps]:
  "off + length src \<le> length p \<Longrightarrow> i + 4 \<le> length p \<Longrightarrow> i + 4 \<le> off \<or> off + length src \<le> i \<Longrightarrow>
   get32 (memcpy_at p off src) i = get32 p i"
  by (simp add: get32_at length_memcpy_at block_memcpy_other)

lemma get16_memcpy_same [le_simps]:
  "i + 2 \<le> length p \<Longrightarrow> get16 (memcpy_at p i (put16 v)) i = v"
  using block_memcpy_same [of i "put16 v" p]
  by (simp add: get16_at length_memcpy_at le_simps)

lemma get16_memcpy_other [le_simps]:
  "off + length src \<le> length p \<Longrightarrow> i + 2 \<le> length p \<Longrightarrow> i + 2 \<le> off \<or> off + length src \<le> i \<Longrightarrow>
   get16 (memcpy_at p off src) i = get16 p i"
  by (simp add: get16_at length_memcpy_at block_memcpy_other)

section \<open>Word bounds\<close>

lemma unat_and_mask: "unat (x AND mask n) = unat x mod 2 ^ n"
  by (simp add: take_bit_eq_mask [symmetric] unsigned_take_bit_eq) (simp add: take_bit_eq_mod)

lemma u32_less [simp]: "unat (x :: u32) < 4294967296"
  using unsigned_less [of x] by simp

lemma u16_less [simp]: "unat (x :: u16) < 65536"
  using unsigned_less [of x] by simp

lemma u8_less [simp]: "unat (x :: u8) < 256"
  using unsigned_less [of x] by simp

lemma unat_ucast_down [eval_simps]:
  "LENGTH('b) < LENGTH('a) \<Longrightarrow>
   unat (ucast (a :: 'a::len word) :: 'b::len word) = unat a mod 2 ^ LENGTH('b)"
  by (simp add: unsigned_ucast_eq take_bit_eq_mod)

lemma unat_ucast_up [eval_simps]:
  "LENGTH('a) \<le> LENGTH('b) \<Longrightarrow> unat (ucast (a :: 'a::len word) :: 'b::len word) = unat a"
  by (rule unsigned_ucast_eq [THEN trans], rule take_bit_nat_eq_self,
      rule less_le_trans [OF unsigned_less]) simp

lemmas unat_ucast = unat_ucast_down unat_ucast_up

lemma unat_of_nat_u8: "n < 256 \<Longrightarrow> unat (of_nat n :: u8) = n"
  by (simp add: unat_of_nat)

lemma of_nat_u8_eq: "a < 256 \<Longrightarrow> b < 256 \<Longrightarrow> (of_nat a :: u8) = of_nat b \<longleftrightarrow> a = b"
  using unat_of_nat_u8 by metis

lemma unat_sub_u32: "unat (a - b :: u32) = (unat a + (4294967296 - unat b)) mod 4294967296"
proof (cases "unat b \<le> unat a")
  case True
  have "unat a + (4294967296 - unat b) = (unat a - unat b) + 4294967296"
    using True u32_less [of b] by linarith
  moreover have "unat a - unat b < 4294967296" using u32_less [of a] by linarith
  ultimately show ?thesis using True by (simp only: unat_sub_if' if_True mod_add_self2 mod_less)
next
  case False
  then have "unat a + (4294967296 - unat b) < 4294967296"
    using u32_less [of b] by linarith
  moreover have "unat a + (4294967296 - unat b) = unat a + 4294967296 - unat b"
    using u32_less [of b] by linarith
  ultimately show ?thesis using False by (simp add: unat_sub_if')
qed

section \<open>Bits of small words\<close>

lemma masked_bit: "unat a < 2 ^ k \<Longrightarrow> k \<le> n \<Longrightarrow> \<not> bit (a :: 'a::len word) n"
proof
  assume a: "unat a < 2 ^ k" "k \<le> n" and "bit a n"
  then have "bit (unat a) n" by (simp add: bit_unsigned_iff bit_imp_possible_bit)
  then have "2 ^ n \<le> unat a" by (metis bit_iff_odd div_less even_zero not_le)
  moreover have "(2::nat) ^ k \<le> 2 ^ n" using a by simp
  ultimately show False using a by linarith
qed

lemma xor_right_cancel: "(c :: 'a::len word) XOR e = d XOR e \<Longrightarrow> c = d"
  by (metis xor.assoc xor_self_eq xor.right_neutral)

lemma xor_left_cancel: "(e :: 'a::len word) XOR c = e XOR d \<Longrightarrow> c = d"
  by (metis xor.commute xor_right_cancel)

lemma ucast_u8_u32_inj: "(ucast (a :: u8) :: u32) = ucast b \<Longrightarrow> a = b"
proof -
  assume h: "(ucast a :: u32) = ucast b"
  have "bit a n = bit b n" for n
    using arg_cong [OF h, of "\<lambda>w. bit w n"] by (cases "n < 8") (simp_all add: bit_simps)
  then show "a = b" by (simp add: bit_eq_iff)
qed

lemma nibbles:
  assumes "a \<le> 15" and "b \<le> (15 :: u8)"
  shows "drop_bit 4 (push_bit 4 a OR b) = a" and "(push_bit 4 a OR b) AND 15 = b"
proof -
  have m: "(15 :: u8) = mask 4" by (simp add: mask_eq_exp_minus_1)
  have "unat a < 2 ^ 4" "unat b < 2 ^ 4" using assms by (simp_all add: word_le_nat_alt)
  then have na: "\<And>n. bit a n \<Longrightarrow> n < 4" and nb: "\<And>n. bit b n \<Longrightarrow> n < 4"
    by (meson masked_bit not_le)+
  show "drop_bit 4 (push_bit 4 a OR b) = a"
    by (rule bit_eqI) (auto simp: bit_simps dest: na nb)
  show "(push_bit 4 a OR b) AND 15 = b"
    unfolding m by (rule bit_eqI) (auto simp: bit_simps dest: na nb)
qed

lemma split_nibbles:
  fixes x :: u8
  shows "drop_bit 4 x \<le> 15" and "x AND 15 \<le> 15" and "push_bit 4 (drop_bit 4 x) OR (x AND 15) = x"
proof -
  have m: "(15 :: u8) = mask 4" by (simp add: mask_eq_exp_minus_1)
  have "unat x < 2 ^ 8" using unsigned_less [of x] by simp
  then show "drop_bit 4 x \<le> 15"
    by (simp add: word_le_nat_alt drop_bit_eq_div unat_div_distrib less_mult_imp_div_less flip: less_Suc_eq_le)
  show "x AND 15 \<le> 15" by (rule word_and_le1)
  show "push_bit 4 (drop_bit 4 x) OR (x AND 15) = x"
    unfolding m by (rule bit_eqI) (auto simp: bit_simps)
qed

lemma u8_less_4: "unat (k :: u8) < 4 \<Longrightarrow> k \<in> {0, 1, 2, 3}"
proof -
  assume "unat k < 4"
  then have "unat k = 0 \<or> unat k = 1 \<or> unat k = 2 \<or> unat k = 3" by linarith
  then show ?thesis by (auto simp: word_unat_eq_iff)
qed

section \<open>The Bluetooth clock\<close>

text \<open>
  A coarse tick is 312.5 microseconds, 625 half-microseconds; the coarse counter has 28 bits. The
  position of \<open>(hs, hus)\<close> is its number of half-microseconds, on a clock that wraps after
  \<open>CLOCK_SPAN\<close>.
\<close>

definition CLOCK_MASK :: u32 where "CLOCK_MASK = 0x0fffffff"

definition CLOCK_SPAN :: nat where "CLOCK_SPAN = 268435456 * 625"

definition clock_pos :: "u32 \<Rightarrow> u16 \<Rightarrow> nat" where
  "clock_pos hs hus = unat hs * 625 + unat hus"

lemma clock_carry: "(h + f div 625) mod 268435456 * 625 + f mod 625 = (h * 625 + f) mod CLOCK_SPAN"
proof -
  have "(h * 625 + f) mod CLOCK_SPAN = ((h + f div 625) * 625 + f mod 625) mod (625 * 268435456)"
    by (simp add: CLOCK_SPAN_def algebra_simps)
  also have "\<dots> = 625 * (((h + f div 625) * 625 + f mod 625) div 625 mod 268435456)
      + ((h + f div 625) * 625 + f mod 625) mod 625"
    by (rule mod_mult2_eq)
  finally show ?thesis by simp
qed

lemma clock_mask: "CLOCK_MASK = mask 28" "(ucast CLOCK_MASK :: u64) = mask 28"
  by (simp_all add: CLOCK_MASK_def mask_eq_exp_minus_1)

end
