(* ===== verification/AirFrame.thy ===== *)
theory AirFrame
  imports Prelude
begin

text \<open>
  Model of \<^verbatim>\<open>firmware/radio/src/air_frame.c\<close>: the record framing of the 5 ms Air
  aggregates. \<open>air_downlink_build\<close> packs the records of a frame, each with the two low bytes of
  a chained CRC-32; \<open>air_uplink_parse\<close> and \<open>air_uplink_parse_control\<close> split a received
  aggregate. A pointer parameter is an option (\<open>None\<close> for NULL), an array and its count are one
  list, and \<open>outs\<close> says that the output pointers are not NULL. \<open>Inl\<close> is a negative return,
  after which the code has written nothing; \<open>Inr\<close> holds the outputs.
\<close>

section \<open>Data\<close>

datatype air_frame_result = AIR_FRAME_ARGUMENT | AIR_FRAME_CAPACITY | AIR_FRAME_MALFORMED

record air_tx_record =
  tx_payload :: "bytes option"
  tx_length :: nat
  tx_stream_id :: u8
  tx_sequence :: u8
  tx_ack :: u8
  tx_kind :: u8

record air_rx_record =
  rx_payload :: bytes
  rx_length :: nat
  rx_stream_id :: u8
  rx_sequence :: u8
  rx_ack :: u8
  rx_kind :: u8
  rx_flags :: u8

record air_control_record =
  ctl_payload :: bytes
  ctl_length :: nat
  ctl_header :: u8
  ctl_present :: bool

definition AIR_MAX_STREAMS :: nat where "AIR_MAX_STREAMS = 4"
definition AIR_MAX_AGGREGATE :: nat where "AIR_MAX_AGGREGATE = 255"
definition AIR_MAX_RECORD_PAYLOAD :: nat where "AIR_MAX_RECORD_PAYLOAD = 127"

lemmas air_limits = AIR_MAX_STREAMS_def AIR_MAX_AGGREGATE_def AIR_MAX_RECORD_PAYLOAD_def

section \<open>Checksum\<close>

definition crc32_bit :: "u32 \<Rightarrow> u32" where
  "crc32_bit crc = drop_bit 1 crc XOR (if crc AND 1 \<noteq> 0 then 0xedb88320 else 0)"

definition crc32_byte :: "u32 \<Rightarrow> u8 \<Rightarrow> u32" where
  "crc32_byte crc b = (crc32_bit ^^ 8) (crc XOR ucast b)"

definition crc32_continue :: "u32 \<Rightarrow> bytes \<Rightarrow> u32" where
  "crc32_continue seed data = NOT (foldl crc32_byte (NOT seed) data)"

section \<open>Building a downlink aggregate\<close>

definition sizes_valid :: "bytes option \<Rightarrow> bool" where
  "sizes_valid sizes = (case sizes of None \<Rightarrow> False | Some s \<Rightarrow>
     length s \<noteq> 0 \<and> length s \<le> AIR_MAX_STREAMS \<and>
     (\<forall>i < length s. s ! i \<noteq> 0 \<and> unat (s ! i) \<le> AIR_MAX_RECORD_PAYLOAD \<and>
        (\<forall>j < i. s ! j \<noteq> s ! i)))"

text \<open>The loop that looks a record length up; it stops at \<open>length s\<close> when no size matches.\<close>

fun size_index :: "bytes \<Rightarrow> nat \<Rightarrow> nat" where
  "size_index [] len = 0"
| "size_index (s # ss) len = (if unat s \<noteq> len then Suc (size_index ss len) else 0)"

record downlink_scan =
  sc_total :: nat
  sc_mask :: u8
  sc_selector :: nat
  sc_selected :: bool

text \<open>The guards of the first loop that do not depend on earlier records but the last.\<close>

definition tx_record_bad :: "air_tx_record option \<Rightarrow> air_tx_record \<Rightarrow> bool" where
  "tx_record_bad prev r \<longleftrightarrow>
     unat (tx_stream_id r) \<ge> AIR_MAX_STREAMS \<or> tx_sequence r > 15 \<or> tx_ack r > 15 \<or> tx_kind r > 3 \<or>
     (case prev of None \<Rightarrow> False | Some p \<Rightarrow> tx_stream_id r \<le> tx_stream_id p) \<or>
     tx_length r > AIR_MAX_RECORD_PAYLOAD \<or> (tx_length r \<noteq> 0 \<and> tx_payload r = None)"

definition scan_record :: "bytes \<Rightarrow> air_tx_record option \<Rightarrow> air_tx_record \<Rightarrow> downlink_scan
    \<Rightarrow> air_frame_result + downlink_scan" where
  "scan_record sizes prev r s =
     (if tx_record_bad prev r then Inl AIR_FRAME_ARGUMENT
      else
        let index = size_index sizes (tx_length r) in
        if tx_length r \<noteq> 0 \<and> (index = length sizes \<or> (sc_selected s \<and> index \<noteq> sc_selector s))
        then Inl AIR_FRAME_ARGUMENT
        else
          let s = (if tx_length r \<noteq> 0 then s\<lparr>sc_selector := index, sc_selected := True\<rparr> else s) in
          Inr (s\<lparr>sc_mask := sc_mask s OR push_bit (unat (tx_stream_id r)) 1,
                 sc_total := sc_total s + (4 + tx_length r)\<rparr>))"

fun scan_records :: "bytes \<Rightarrow> air_tx_record option \<Rightarrow> air_tx_record list \<Rightarrow> downlink_scan
    \<Rightarrow> air_frame_result + downlink_scan" where
  "scan_records sizes prev [] s = Inr s"
| "scan_records sizes prev (r # rs) s =
     (case scan_record sizes prev r s of
        Inl e \<Rightarrow> Inl e
      | Inr s' \<Rightarrow> scan_records sizes (Some r) rs s')"

definition tx_bytes :: "air_tx_record \<Rightarrow> bytes" where
  "tx_bytes r = (case tx_payload r of None \<Rightarrow> [] | Some p \<Rightarrow> take (tx_length r) p)"

definition downlink_header :: "air_tx_record \<Rightarrow> bytes" where
  "downlink_header r =
     [push_bit 4 (tx_sequence r) OR tx_ack r,
      tx_kind r OR (if tx_length r \<noteq> 0 then 0 else 4)]"

definition downlink_crc :: "u8 \<Rightarrow> bytes \<Rightarrow> bytes \<Rightarrow> u32" where
  "downlink_crc stream payload header =
     crc32_continue (crc32_continue (0xffffff00 OR ucast stream) payload) header"

text \<open>The second loop: the bytes of each record are written at the cursor.\<close>

fun downlink_emit :: "bytes \<Rightarrow> nat \<Rightarrow> air_tx_record list \<Rightarrow> bytes \<times> nat" where
  "downlink_emit dst cursor [] = (dst, cursor)"
| "downlink_emit dst cursor (r # rs) =
     (let header = downlink_header r;
          crc = downlink_crc (tx_stream_id r) (tx_bytes r) header;
          dst = memcpy_at dst cursor header;
          cursor = cursor + length header;
          dst = (if tx_length r \<noteq> 0 then memcpy_at dst cursor (tx_bytes r) else dst);
          cursor = cursor + tx_length r;
          dst = dst[cursor := ucast crc];
          dst = dst[cursor + 1 := ucast (drop_bit 8 crc)]
      in downlink_emit dst (cursor + 2) rs)"

definition air_downlink_build :: "bytes option \<Rightarrow> nat \<Rightarrow> air_tx_record list option \<Rightarrow> bytes option
    \<Rightarrow> u8 \<Rightarrow> bool \<Rightarrow> air_frame_result + (bytes \<times> nat \<times> u8)" where
  "air_downlink_build dst capacity records sizes flags outs =
     (case (dst, records, sizes) of
        (Some d, Some rs, Some ss) \<Rightarrow>
          if \<not> outs \<or> length rs = 0 \<or> length rs > AIR_MAX_STREAMS \<or> flags AND NOT 0x70 \<noteq> 0 \<or>
             \<not> sizes_valid sizes
          then Inl AIR_FRAME_ARGUMENT
          else
            (case scan_records ss None rs
                 \<lparr>sc_total = 1, sc_mask = 0, sc_selector = 0, sc_selected = False\<rparr> of
               Inl e \<Rightarrow> Inl e
             | Inr s \<Rightarrow>
                 if sc_total s > AIR_MAX_AGGREGATE \<or> sc_total s > capacity
                 then Inl AIR_FRAME_CAPACITY
                 else
                   let d = d[0 := flags OR of_nat (sc_selector s)];
                       (d, cursor) = downlink_emit d 1 rs
                   in Inr (d, cursor, sc_mask s))
      | _ \<Rightarrow> Inl AIR_FRAME_ARGUMENT)"

section \<open>Parsing an uplink aggregate\<close>

definition uplink_record :: "bytes \<Rightarrow> nat \<Rightarrow> nat \<Rightarrow> u8 \<Rightarrow> air_rx_record" where
  "uplink_record src cursor n sid =
     (let h0 = src ! cursor; h1 = src ! (cursor + 1) in
      \<lparr>rx_payload = block (cursor + 2) n src, rx_length = n, rx_stream_id = sid,
       rx_sequence = drop_bit 4 h0, rx_ack = h0 AND 15, rx_kind = h1 AND 3, rx_flags = h1\<rparr>)"

fun uplink_records :: "bytes \<Rightarrow> u8 \<Rightarrow> nat \<Rightarrow> u8 list \<Rightarrow> nat \<Rightarrow> air_rx_record list
    \<Rightarrow> air_frame_result + (nat \<times> air_rx_record list)" where
  "uplink_records src stream_mask sz [] cursor decoded = Inr (cursor, decoded)"
| "uplink_records src stream_mask sz (sid # sids) cursor decoded =
     (if stream_mask AND push_bit (unat sid) 1 = 0
      then uplink_records src stream_mask sz sids cursor decoded
      else if length src - cursor < 2 then Inl AIR_FRAME_MALFORMED
      else
        let n = (if src ! (cursor + 1) AND 0x0c \<noteq> 0 then 0 else sz) in
        if n > length src - (cursor + 2) then Inl AIR_FRAME_MALFORMED
        else uplink_records src stream_mask sz sids (cursor + 2 + n)
               (decoded @ [uplink_record src cursor n sid]))"

definition no_control :: air_control_record where
  "no_control = \<lparr>ctl_payload = [], ctl_length = 0, ctl_header = 0, ctl_present = False\<rparr>"

text \<open>The optional trailer: the cursor after it and the control record.\<close>

definition uplink_tail :: "bytes \<Rightarrow> nat \<Rightarrow> bool \<Rightarrow> bool
    \<Rightarrow> air_frame_result + (nat \<times> air_control_record)" where
  "uplink_tail src cursor has_control control =
     (if has_control then
        if \<not> control \<or> length src - cursor < 2 \<or>
           length src - cursor - 2 \<noteq> unat (src ! (cursor + 1)) \<or> src ! cursor AND 3 = 0 \<or>
           (src ! (cursor + 1) = 0 \<and> src ! cursor AND 3 \<noteq> 1)
        then Inl AIR_FRAME_MALFORMED
        else Inr (length src,
          \<lparr>ctl_payload = block (cursor + 2) (unat (src ! (cursor + 1))) src,
           ctl_length = unat (src ! (cursor + 1)), ctl_header = src ! cursor, ctl_present = True\<rparr>)
      else Inr (cursor, no_control))"

definition uplink_parse :: "bytes option \<Rightarrow> u8 \<Rightarrow> bytes option \<Rightarrow> nat \<Rightarrow> bool \<Rightarrow> bool \<Rightarrow> bool
    \<Rightarrow> air_frame_result + (air_rx_record list \<times> air_control_record)" where
  "uplink_parse src stream_mask sizes capacity outs has_control control =
     (case (src, sizes) of
        (Some b, Some ss) \<Rightarrow>
          if \<not> outs \<or> stream_mask = 0 \<or> stream_mask AND 0xf0 \<noteq> 0 \<or> \<not> sizes_valid sizes
          then Inl AIR_FRAME_ARGUMENT
          else if length b = 0 \<or> length b > AIR_MAX_AGGREGATE then Inl AIR_FRAME_MALFORMED
          else
            let selector = unat (b ! 0 AND 3) in
            if selector \<ge> length ss then Inl AIR_FRAME_MALFORMED
            else
              (case uplink_records b stream_mask (unat (ss ! selector)) [0, 1, 2, 3] 1 [] of
                 Inl e \<Rightarrow> Inl e
               | Inr (cursor, decoded) \<Rightarrow>
                   (case uplink_tail b cursor has_control control of
                      Inl e \<Rightarrow> Inl e
                    | Inr (cursor, tail) \<Rightarrow>
                        if cursor \<noteq> length b then Inl AIR_FRAME_MALFORMED
                        else if length decoded > capacity then Inl AIR_FRAME_CAPACITY
                        else Inr (decoded, tail)))
      | _ \<Rightarrow> Inl AIR_FRAME_ARGUMENT)"

definition air_uplink_parse :: "bytes option \<Rightarrow> u8 \<Rightarrow> bytes option \<Rightarrow> nat \<Rightarrow> bool
    \<Rightarrow> air_frame_result + air_rx_record list" where
  "air_uplink_parse src stream_mask sizes capacity outs =
     (case uplink_parse src stream_mask sizes capacity outs False False of
        Inl e \<Rightarrow> Inl e | Inr (records, _) \<Rightarrow> Inr records)"

definition air_uplink_parse_control :: "bytes option \<Rightarrow> u8 \<Rightarrow> bytes option \<Rightarrow> nat \<Rightarrow> bool \<Rightarrow> bool
    \<Rightarrow> air_frame_result + (air_rx_record list \<times> air_control_record)" where
  "air_uplink_parse_control src header sizes capacity outs control =
     (if \<not> control then Inl AIR_FRAME_ARGUMENT
      else uplink_parse src (drop_bit 3 header AND 15) sizes capacity outs
             (header AND 1 \<noteq> 0) control)"

section \<open>The checksum\<close>

lemma crc32_bit_bits: "n < 32 \<Longrightarrow>
  bit (crc32_bit c) n = (bit c (n + 1) \<noteq> (bit c 0 \<and> bit (0xedb88320 :: u32) n))"
  by (simp add: crc32_bit_def bit_simps and_one_eq bit_0 odd_iff_mod_2_eq_one)

lemma crc32_bit_inj: "crc32_bit c = crc32_bit d \<Longrightarrow> c = d"
proof -
  assume eq: "crc32_bit c = crc32_bit d"
  have top: "bit (crc32_bit x) 31 = bit x 0" for x
    using crc32_bit_bits [of 31 x] by simp
  with eq have low: "bit c 0 = bit d 0" by metis
  have "bit c n = bit d n" if "n < 32" for n
  proof (cases n)
    case 0
    with low show ?thesis by simp
  next
    case (Suc m)
    with that have "m < 32" by simp
    with crc32_bit_bits [of m c] crc32_bit_bits [of m d] eq low Suc show ?thesis by auto
  qed
  then show ?thesis by (auto intro: bit_eqI simp: possible_bit_word)
qed

lemma crc32_byte_inj_state: "crc32_byte c b = crc32_byte d b \<Longrightarrow> c = d"
  by (auto simp: crc32_byte_def eval_simps dest!: crc32_bit_inj xor_right_cancel)

lemma crc32_byte_inj_data: "crc32_byte c a = crc32_byte c b \<Longrightarrow> a = b"
  by (auto simp: crc32_byte_def eval_simps dest!: crc32_bit_inj xor_left_cancel ucast_u8_u32_inj)

lemma crc32_fold_inj: "foldl crc32_byte c ys = foldl crc32_byte d ys \<Longrightarrow> c = d"
  by (induction ys arbitrary: c d) (auto dest: crc32_byte_inj_state)

lemma crc32_continue_append:
  "crc32_continue seed (xs @ ys) = crc32_continue (crc32_continue seed xs) ys"
  by (simp add: crc32_continue_def)

lemma crc32_continue_detects_byte:
  "a \<noteq> b \<Longrightarrow> crc32_continue seed (xs @ a # ys) \<noteq> crc32_continue seed (xs @ b # ys)"
  by (auto simp: crc32_continue_def dest: crc32_fold_inj crc32_byte_inj_data)

lemma crc32_check_value: "crc32_continue 0 [49, 50, 51, 52, 53, 54, 55, 56, 57] = 0xcbf43926"
  by (simp add: crc32_continue_def crc32_byte_def crc32_bit_def eval_simps)

section \<open>The downlink aggregate\<close>

definition tx_wf :: "air_tx_record \<Rightarrow> bool" where
  "tx_wf r \<longleftrightarrow> (case tx_payload r of None \<Rightarrow> True | Some p \<Rightarrow> tx_length r \<le> length p)"

definition record_image :: "air_tx_record \<Rightarrow> bytes" where
  "record_image r =
     (let crc = downlink_crc (tx_stream_id r) (tx_bytes r) (downlink_header r)
      in downlink_header r @ tx_bytes r @ [ucast crc, ucast (drop_bit 8 crc)])"

lemma length_downlink_header [simp]: "length (downlink_header r) = 2"
  by (simp add: downlink_header_def)

lemma length_tx_bytes: "tx_wf r \<Longrightarrow> (tx_length r \<noteq> 0 \<longrightarrow> tx_payload r \<noteq> None) \<Longrightarrow> length (tx_bytes r) = tx_length r"
  by (auto simp: tx_wf_def tx_bytes_def split: option.splits)

lemma length_record_image: "length (record_image r) = 4 + length (tx_bytes r)"
  by (simp add: record_image_def Let_def)

lemma downlink_emit_image:
  assumes "\<forall>r \<in> set rs. length (tx_bytes r) = tx_length r"
    and "cursor + (\<Sum>r\<leftarrow>rs. 4 + tx_length r) \<le> length d"
  shows "downlink_emit d cursor rs =
    (memcpy_at d cursor (concat (map record_image rs)), cursor + (\<Sum>r\<leftarrow>rs. 4 + tx_length r))"
  using assms
proof (induction rs arbitrary: d cursor)
  case Nil
  then show ?case by simp
next
  case (Cons r rs)
  let ?h = "downlink_header r" and ?p = "tx_bytes r"
  let ?crc = "downlink_crc (tx_stream_id r) ?p ?h"
  have len: "length ?p = tx_length r" using Cons.prems by simp
  have room: "cursor + (4 + length ?p) \<le> length d" using Cons.prems len by simp
  let ?d2 = "memcpy_at (memcpy_at d cursor ?h) (cursor + length ?h) ?p"
  have d2: "?d2 = memcpy_at d cursor (?h @ ?p)"
    using room by (intro memcpy_at_append) simp
  have p0: "(if tx_length r \<noteq> 0 then memcpy_at (memcpy_at d cursor ?h) (cursor + length ?h) ?p
      else memcpy_at d cursor ?h) = memcpy_at d cursor (?h @ ?p)"
    using d2 len by auto
  have "(memcpy_at d cursor (?h @ ?p))[cursor + 2 + tx_length r := ucast ?crc,
      cursor + 2 + tx_length r + 1 := ucast (drop_bit 8 ?crc)] = memcpy_at d cursor (record_image r)"
    using room len
    by (simp add: memcpy_at_single length_memcpy_at record_image_def Let_def)
       (simp add: memcpy_at_def min_def list_update_append)
  then have "downlink_emit d cursor (r # rs) =
      downlink_emit (memcpy_at d cursor (record_image r)) (cursor + length (record_image r)) rs"
    using p0 len by (simp add: Let_def length_record_image eval_nat_numeral)
  also have "\<dots> = (memcpy_at (memcpy_at d cursor (record_image r)) (cursor + length (record_image r))
        (concat (map record_image rs)),
      cursor + length (record_image r) + (\<Sum>r\<leftarrow>rs. 4 + tx_length r))"
    using Cons.prems room len
    by (intro Cons.IH) (simp_all add: length_record_image length_memcpy_at)
  also have "length (concat (map record_image rs)) = (\<Sum>r\<leftarrow>rs. 4 + tx_length r)"
    using Cons.prems(1) by (induction rs) (simp_all add: length_record_image)
  then have "memcpy_at (memcpy_at d cursor (record_image r)) (cursor + length (record_image r))
        (concat (map record_image rs)) = memcpy_at d cursor (concat (map record_image (r # rs)))"
    using Cons.prems len by (subst memcpy_at_append) (simp_all add: length_record_image)
  finally show ?case using len by (simp add: length_record_image)
qed
definition fields_ok :: "air_tx_record \<Rightarrow> bool" where
  "fields_ok r \<longleftrightarrow> unat (tx_stream_id r) < 4 \<and> tx_sequence r \<le> 15 \<and> tx_ack r \<le> 15 \<and>
     tx_kind r \<le> 3 \<and> tx_length r \<le> 127 \<and> (tx_length r \<noteq> 0 \<longrightarrow> tx_payload r \<noteq> None)"

definition prev_stream :: "air_tx_record option \<Rightarrow> u8 list" where
  "prev_stream prev = (case prev of None \<Rightarrow> [] | Some p \<Rightarrow> [tx_stream_id p])"

definition nonzero_lengths :: "air_tx_record list \<Rightarrow> nat list" where
  "nonzero_lengths rs = filter (\<lambda>n. n \<noteq> 0) (map tx_length rs)"

lemma size_index_le: "size_index ss n \<le> length ss"
  by (induction ss) auto

lemma size_index_found: "size_index ss n < length ss \<Longrightarrow> unat (ss ! size_index ss n) = n"
  by (induction ss) (auto split: if_splits)

lemma size_index_member: "size_index ss n = length ss \<longleftrightarrow> n \<notin> unat ` set ss"
  by (induction ss) (auto)

lemma size_index_eq:
  "distinct ss \<Longrightarrow> k < length ss \<Longrightarrow> size_index ss (unat (ss ! k)) = k"
proof -
  assume d: "distinct ss" and k: "k < length ss"
  then have "size_index ss (unat (ss ! k)) \<noteq> length ss" by (simp add: size_index_member)
  then have "size_index ss (unat (ss ! k)) < length ss"
    using size_index_le [of ss "unat (ss ! k)"] by linarith
  moreover from size_index_found [OF this] have "ss ! size_index ss (unat (ss ! k)) = ss ! k"
    by (simp add: word_unat_eq_iff)
  ultimately show ?thesis using d k by (simp add: nth_eq_iff_index_eq)
qed

lemma sorted_wrt_prev: "sorted_wrt (<) (prev_stream prev @ map tx_stream_id (r # rs)) \<longleftrightarrow>
   (case prev of None \<Rightarrow> True | Some p \<Rightarrow> tx_stream_id p < tx_stream_id r) \<and>
   sorted_wrt (<) (prev_stream (Some r) @ map tx_stream_id rs)"
  by (cases prev) (auto simp: prev_stream_def)

lemma tx_record_bad_iff: "\<not> tx_record_bad prev r \<longleftrightarrow> fields_ok r \<and>
   (case prev of None \<Rightarrow> True | Some p \<Rightarrow> tx_stream_id p < tx_stream_id r)"
  by (auto simp: tx_record_bad_def fields_ok_def air_limits not_le not_less split: option.splits)

lemma agree_insert:
  assumes "P l" and "Q l"
  shows "(\<forall>n \<in> insert l N. P n \<and> Q n \<and> (\<forall>m \<in> insert l N. m = n)) \<longleftrightarrow>
    (\<forall>n \<in> N. P n \<and> n = l \<and> (\<forall>m \<in> N. m = n))"
  using assms by auto

lemma scan_records_iff:
  assumes "distinct ss" and "sc_selected s \<longrightarrow> sc_selector s < length ss"
  shows "(\<exists>s'. scan_records ss prev rs s = Inr s') \<longleftrightarrow>
    (\<forall>r \<in> set rs. fields_ok r) \<and> sorted_wrt (<) (prev_stream prev @ map tx_stream_id rs) \<and>
    (\<forall>n \<in> set (nonzero_lengths rs). n \<in> unat ` set ss \<and>
       (sc_selected s \<longrightarrow> n = unat (ss ! sc_selector s)) \<and>
       (\<forall>m \<in> set (nonzero_lengths rs). m = n))"
  using assms
proof (induction rs arbitrary: prev s)
  case Nil
  then show ?case by (simp add: nonzero_lengths_def prev_stream_def split: option.splits)
next
  case (Cons r rs)
  show ?case
  proof (cases "tx_record_bad prev r")
    case True
    then have "\<not> (fields_ok r \<and> (case prev of None \<Rightarrow> True | Some p \<Rightarrow> tx_stream_id p < tx_stream_id r))"
      using tx_record_bad_iff by blast
    moreover have "scan_records ss prev (r # rs) s = Inl AIR_FRAME_ARGUMENT"
      using True by (simp add: scan_record_def)
    ultimately show ?thesis unfolding sorted_wrt_prev by auto
  next
    case False
    then have ok: "fields_ok r"
      "case prev of None \<Rightarrow> True | Some p \<Rightarrow> tx_stream_id p < tx_stream_id r"
      using tx_record_bad_iff by blast+
    let ?i = "size_index ss (tx_length r)"
    show ?thesis
    proof (cases "tx_length r = 0")
      case True
      let ?s = "s\<lparr>sc_mask := sc_mask s OR push_bit (unat (tx_stream_id r)) 1,
                 sc_total := sc_total s + 4\<rparr>"
      have "scan_records ss prev (r # rs) s = scan_records ss (Some r) rs ?s"
        using False True by (simp add: scan_record_def)
      moreover have "nonzero_lengths (r # rs) = nonzero_lengths rs"
        using True by (simp add: nonzero_lengths_def)
      ultimately show ?thesis
        using Cons.IH [of ?s "Some r"] Cons.prems ok sorted_wrt_prev [of prev r rs] by simp
    next
      case nz: False
      let ?s = "s\<lparr>sc_selector := ?i, sc_selected := True,
         sc_mask := sc_mask s OR push_bit (unat (tx_stream_id r)) 1,
         sc_total := sc_total s + (4 + tx_length r)\<rparr>"
      have nzl: "nonzero_lengths (r # rs) = tx_length r # nonzero_lengths rs"
        using nz by (simp add: nonzero_lengths_def)
      show ?thesis
      proof (cases "?i = length ss \<or> (sc_selected s \<and> ?i \<noteq> sc_selector s)")
        case True
        then have "\<not> (\<exists>s'. scan_records ss prev (r # rs) s = Inr s')"
          using False nz by (auto simp: scan_record_def)
        moreover have "\<not> (tx_length r \<in> unat ` set ss \<and>
            (sc_selected s \<longrightarrow> tx_length r = unat (ss ! sc_selector s)))"
          using True
        proof (elim disjE conjE)
          assume "?i = length ss"
          then show ?thesis using size_index_member by blast
        next
          assume "sc_selected s" and "?i \<noteq> sc_selector s"
          then show ?thesis using size_index_eq [of ss "sc_selector s"] Cons.prems by metis
        qed
        ultimately show ?thesis unfolding nzl by (meson list.set_intros(1))
      next
        case sel: False
        then have i: "?i < length ss" using size_index_le [of ss "tx_length r"] by linarith
        have step: "scan_records ss prev (r # rs) s = scan_records ss (Some r) rs ?s"
          using False nz sel by (auto simp: scan_record_def Let_def)
        have idx: "unat (ss ! ?i) = tx_length r" using size_index_found [OF i] .
        have "tx_length r \<in> unat ` set ss" using sel size_index_member by blast
        moreover have "sc_selected s \<longrightarrow> tx_length r = unat (ss ! sc_selector s)"
          using sel idx by auto
        ultimately have q: "(\<forall>n \<in> insert (tx_length r) (set (nonzero_lengths rs)). n \<in> unat ` set ss \<and>
            (sc_selected s \<longrightarrow> n = unat (ss ! sc_selector s)) \<and>
            (\<forall>m \<in> insert (tx_length r) (set (nonzero_lengths rs)). m = n)) \<longleftrightarrow>
          (\<forall>n \<in> set (nonzero_lengths rs). n \<in> unat ` set ss \<and> n = tx_length r \<and>
            (\<forall>m \<in> set (nonzero_lengths rs). m = n))"
          by (rule agree_insert)
        have ih: "(\<exists>s'. scan_records ss (Some r) rs ?s = Inr s') \<longleftrightarrow>
          (\<forall>r \<in> set rs. fields_ok r) \<and>
          sorted_wrt (<) (prev_stream (Some r) @ map tx_stream_id rs) \<and>
          (\<forall>n \<in> set (nonzero_lengths rs). n \<in> unat ` set ss \<and> n = tx_length r \<and>
            (\<forall>m \<in> set (nonzero_lengths rs). m = n))"
          using Cons.IH [of ?s "Some r"] Cons.prems(1) i idx by simp
        show ?thesis
          unfolding step nzl list.set(2) q ih sorted_wrt_prev using ok by blast
      qed
    qed
  qed
qed

lemma scan_records_result:
  assumes "scan_records ss prev rs s = Inr s'" and "sc_selected s \<longrightarrow> sc_selector s < length ss"
  shows "sc_total s' = sc_total s + (\<Sum>r\<leftarrow>rs. 4 + tx_length r)"
    and "sc_mask s' = foldl (\<lambda>m r. m OR push_bit (unat (tx_stream_id r)) 1) (sc_mask s) rs"
    and "sc_selected s' \<longrightarrow> sc_selector s' < length ss"
    and "\<not> sc_selected s' \<longrightarrow> sc_selector s' = sc_selector s"
    and "sc_selected s \<longrightarrow> sc_selected s' \<and> sc_selector s' = sc_selector s"
    and "\<forall>r \<in> set rs. tx_length r \<noteq> 0 \<longrightarrow>
      sc_selected s' \<and> unat (ss ! sc_selector s') = tx_length r"
proof -
  have "sc_total s' = sc_total s + (\<Sum>r\<leftarrow>rs. 4 + tx_length r) \<and>
    sc_mask s' = foldl (\<lambda>m r. m OR push_bit (unat (tx_stream_id r)) 1) (sc_mask s) rs \<and>
    (sc_selected s' \<longrightarrow> sc_selector s' < length ss) \<and>
    (\<not> sc_selected s' \<longrightarrow> sc_selector s' = sc_selector s) \<and>
    (sc_selected s \<longrightarrow> sc_selected s' \<and> sc_selector s' = sc_selector s) \<and>
    (\<forall>r \<in> set rs. tx_length r \<noteq> 0 \<longrightarrow> sc_selected s' \<and> unat (ss ! sc_selector s') = tx_length r)"
    using assms
  proof (induction rs arbitrary: prev s)
    case Nil
    then show ?case by simp
  next
    case (Cons r rs)
    from Cons.prems(1) obtain s1 where one: "scan_record ss prev r s = Inr s1"
      and rest: "scan_records ss (Some r) rs s1 = Inr s'"
      by (auto split: sum.splits)
    let ?i = "size_index ss (tx_length r)"
    from one have s1: "sc_total s1 = sc_total s + (4 + tx_length r)"
      "sc_mask s1 = sc_mask s OR push_bit (unat (tx_stream_id r)) 1"
      "tx_length r = 0 \<longrightarrow> sc_selector s1 = sc_selector s \<and> sc_selected s1 = sc_selected s"
      "tx_length r \<noteq> 0 \<longrightarrow> ?i \<noteq> length ss \<and> sc_selector s1 = ?i \<and> sc_selected s1 \<and>
         (sc_selected s \<longrightarrow> ?i = sc_selector s)"
      by (auto simp: scan_record_def Let_def split: if_splits)
    have i: "tx_length r \<noteq> 0 \<longrightarrow> ?i < length ss \<and> unat (ss ! ?i) = tx_length r"
      using s1(4) size_index_le [of ss "tx_length r"] size_index_found [of ss "tx_length r"]
      by (metis le_neq_implies_less)
    have "sc_selected s1 \<longrightarrow> sc_selector s1 < length ss"
      using Cons.prems(2) s1 i by (cases "tx_length r = 0") auto
    from Cons.IH [OF rest this] s1 i show ?case
      by (cases "tx_length r = 0") auto
  qed
  then show "sc_total s' = sc_total s + (\<Sum>r\<leftarrow>rs. 4 + tx_length r)"
    and "sc_mask s' = foldl (\<lambda>m r. m OR push_bit (unat (tx_stream_id r)) 1) (sc_mask s) rs"
    and "sc_selected s' \<longrightarrow> sc_selector s' < length ss"
    and "\<not> sc_selected s' \<longrightarrow> sc_selector s' = sc_selector s"
    and "sc_selected s \<longrightarrow> sc_selected s' \<and> sc_selector s' = sc_selector s"
    and "\<forall>r \<in> set rs. tx_length r \<noteq> 0 \<longrightarrow>
      sc_selected s' \<and> unat (ss ! sc_selector s') = tx_length r"
    by blast+
qed

section \<open>A reference receiver for downlink aggregates\<close>

text \<open>
  What a headset needs to recover from an aggregate: the records in stream order, each with its
  fields and payload, after the truncated checksum has been compared.
\<close>

record air_view =
  v_stream :: u8
  v_sequence :: u8
  v_ack :: u8
  v_kind :: u8
  v_payload :: bytes

definition tx_view :: "air_tx_record \<Rightarrow> air_view" where
  "tx_view r = \<lparr>v_stream = tx_stream_id r, v_sequence = tx_sequence r, v_ack = tx_ack r,
     v_kind = tx_kind r, v_payload = tx_bytes r\<rparr>"

fun downlink_decode :: "nat \<Rightarrow> u8 \<Rightarrow> u8 list \<Rightarrow> bytes \<Rightarrow> air_view list option" where
  "downlink_decode sz streams [] bs = (if bs = [] then Some [] else None)"
| "downlink_decode sz streams (sid # sids) bs =
     (if streams AND push_bit (unat sid) 1 = 0 then downlink_decode sz streams sids bs
      else
        (case bs of
           h0 # h1 # rest \<Rightarrow>
             let n = (if h1 AND 4 \<noteq> 0 then 0 else sz);
                 p = take n rest;
                 crc = downlink_crc sid p [h0, h1]
             in if length rest < n + 2 \<or> block n 2 rest \<noteq> [ucast crc, ucast (drop_bit 8 crc)]
                then None
                else map_option ((#) \<lparr>v_stream = sid, v_sequence = drop_bit 4 h0, v_ack = h0 AND 15,
                       v_kind = h1 AND 3, v_payload = p\<rparr>)
                     (downlink_decode sz streams sids (drop (n + 2) rest))
         | _ \<Rightarrow> None))"

lemma kind_byte:
  assumes "k \<le> (3 :: u8)"
  shows "(k OR 4) AND 4 \<noteq> 0" and "k AND 4 = 0" and "k AND 3 = k" and "(k OR 4) AND 3 = k"
proof -
  have "unat k < 4" using assms by (simp add: word_le_nat_alt)
  then have "k \<in> {0, 1, 2, 3}" by (rule u8_less_4)
  then show "(k OR 4) AND 4 \<noteq> 0" "k AND 4 = 0" "k AND 3 = k" "(k OR 4) AND 3 = k" by auto
qed


lemma scan_mask_bits: "bit (foldl (\<lambda>m r. m OR push_bit (unat (tx_stream_id r)) (1 :: u8)) m rs) n \<longleftrightarrow>
    bit m n \<or> (n < 8 \<and> (\<exists>r \<in> set rs. unat (tx_stream_id r) = n))"
  by (induction rs arbitrary: m) (auto simp: bit_simps bit_1_iff)

lemma scan_mask_member: "unat sid < 4 \<Longrightarrow>
    foldl (\<lambda>m r. m OR push_bit (unat (tx_stream_id r)) (1 :: u8)) 0 rs AND push_bit (unat sid) 1 \<noteq> 0 \<longleftrightarrow>
    sid \<in> tx_stream_id ` set rs"
  unfolding bit_iff_and_push_bit_not_eq_0 [symmetric] scan_mask_bits
  by (auto simp: word_unat_eq_iff image_iff) metis

lemma decode_record_image:
  assumes "fields_ok r" and "length (tx_bytes r) = tx_length r" and "tx_length r \<noteq> 0 \<longrightarrow> sz = tx_length r"
    and "streams AND push_bit (unat (tx_stream_id r)) 1 \<noteq> 0"
  shows "downlink_decode sz streams (tx_stream_id r # sids) (record_image r @ rest) =
    map_option ((#) (tx_view r)) (downlink_decode sz streams sids rest)"
proof -
  have k: "tx_kind r \<le> 3" and sq: "tx_sequence r \<le> 15" and ak: "tx_ack r \<le> 15"
    using assms(1) by (auto simp: fields_ok_def)
  let ?h1 = "tx_kind r OR (if tx_length r \<noteq> 0 then 0 else 4)"
  have n: "(if ?h1 AND 4 \<noteq> 0 then 0 else sz) = tx_length r"
    using assms(3) kind_byte [OF k] by auto
  have v: "?h1 AND 3 = tx_kind r" using kind_byte [OF k] by auto
  show ?thesis
    using assms(2,4) n v nibbles [OF sq ak]
    by (simp add: record_image_def downlink_header_def Let_def block_def tx_view_def numeral_2_eq_2)
qed

lemma downlink_decode_images:
  assumes "sorted_wrt (<) sids" and "sorted_wrt (<) (map tx_stream_id rs)"
    and "tx_stream_id ` set rs \<subseteq> set sids"
    and "\<forall>sid \<in> set sids. streams AND push_bit (unat sid) 1 \<noteq> 0 \<longleftrightarrow> sid \<in> tx_stream_id ` set rs"
    and "\<forall>r \<in> set rs. fields_ok r \<and> length (tx_bytes r) = tx_length r \<and> (tx_length r \<noteq> 0 \<longrightarrow> sz = tx_length r)"
  shows "downlink_decode sz streams sids (concat (map record_image rs)) = Some (map tx_view rs)"
  using assms
proof (induction sids arbitrary: rs)
  case Nil
  then show ?case by simp
next
  case (Cons sid sids)
  show ?case
  proof (cases "sid \<in> tx_stream_id ` set rs")
    case False
    then have "downlink_decode sz streams sids (concat (map record_image rs)) = Some (map tx_view rs)"
      using Cons.prems by (intro Cons.IH) auto
    with False Cons.prems(4) show ?thesis by simp
  next
    case True
    then obtain r rs' where rs: "rs = r # rs'" by (cases rs) auto
    have "tx_stream_id r = sid"
    proof (rule ccontr)
      assume "tx_stream_id r \<noteq> sid"
      then have "tx_stream_id r \<in> set sids" using Cons.prems(3) rs by auto
      then have "sid < tx_stream_id r" using Cons.prems(1) by auto
      moreover have "tx_stream_id r \<le> sid" using True Cons.prems(2) rs by force
      ultimately show False by simp
    qed
    have later: "\<forall>s \<in> tx_stream_id ` set rs'. sid < s"
      using Cons.prems(2) rs \<open>tx_stream_id r = sid\<close> by auto
    have "downlink_decode sz streams sids (concat (map record_image rs')) = Some (map tx_view rs')"
    proof (rule Cons.IH)
      show "tx_stream_id ` set rs' \<subseteq> set sids" using Cons.prems(3) later rs by force
      show "\<forall>s \<in> set sids. (streams AND push_bit (unat s) 1 \<noteq> 0) = (s \<in> tx_stream_id ` set rs')"
        using Cons.prems(1,4) rs \<open>tx_stream_id r = sid\<close> by auto
    qed (use Cons.prems rs in auto)
    moreover have "streams AND push_bit (unat (tx_stream_id r)) 1 \<noteq> 0"
      using Cons.prems(4) True \<open>tx_stream_id r = sid\<close> by simp
    ultimately show ?thesis
      using decode_record_image [of r sz streams sids "concat (map record_image rs')"]
        Cons.prems(5) rs \<open>tx_stream_id r = sid\<close> by simp
  qed
qed

definition length_selector :: "bytes \<Rightarrow> air_tx_record list \<Rightarrow> nat" where
  "length_selector ss rs = (case nonzero_lengths rs of [] \<Rightarrow> 0 | n # _ \<Rightarrow> size_index ss n)"

definition aggregate_image :: "u8 \<Rightarrow> bytes \<Rightarrow> air_tx_record list \<Rightarrow> bytes" where
  "aggregate_image flags ss rs =
     (flags OR of_nat (length_selector ss rs)) # concat (map record_image rs)"

definition stream_bits :: "air_tx_record list \<Rightarrow> u8" where
  "stream_bits rs = foldl (\<lambda>m r. m OR push_bit (unat (tx_stream_id r)) 1) 0 rs"

definition downlink_legal :: "bytes \<Rightarrow> air_tx_record list \<Rightarrow> u8 \<Rightarrow> bool" where
  "downlink_legal ss rs flags \<longleftrightarrow>
     rs \<noteq> [] \<and> length rs \<le> 4 \<and> flags AND NOT 0x70 = 0 \<and> sizes_valid (Some ss) \<and>
     (\<forall>r \<in> set rs. fields_ok r) \<and> sorted_wrt (<) (map tx_stream_id rs) \<and>
     set (nonzero_lengths rs) \<subseteq> unat ` set ss \<and>
     (\<forall>n \<in> set (nonzero_lengths rs). \<forall>m \<in> set (nonzero_lengths rs). m = n)"

definition downlink_size :: "air_tx_record list \<Rightarrow> nat" where
  "downlink_size rs = 1 + (\<Sum>r\<leftarrow>rs. 4 + tx_length r)"

lemma sizes_valid_distinct: "sizes_valid (Some ss) \<Longrightarrow> distinct ss \<and> ss \<noteq> []"
  by (auto simp: sizes_valid_def distinct_conv_nth) (metis linorder_neqE_nat)

abbreviation scan_start :: downlink_scan where
  "scan_start \<equiv> \<lparr>sc_total = 1, sc_mask = 0, sc_selector = 0, sc_selected = False\<rparr>"

lemma scan_error: "scan_records ss prev rs s = Inl e \<Longrightarrow> e = AIR_FRAME_ARGUMENT"
  by (induction rs arbitrary: prev s)
     (auto simp: scan_record_def Let_def split: sum.splits if_splits)

lemma scan_from_start:
  assumes "sizes_valid (Some ss)"
  shows "(\<exists>s. scan_records ss None rs scan_start = Inr s) \<longleftrightarrow>
    (\<forall>r \<in> set rs. fields_ok r) \<and> sorted_wrt (<) (map tx_stream_id rs) \<and>
     set (nonzero_lengths rs) \<subseteq> unat ` set ss \<and>
     (\<forall>n \<in> set (nonzero_lengths rs). \<forall>m \<in> set (nonzero_lengths rs). m = n)"
  using scan_records_iff [of ss scan_start None rs] sizes_valid_distinct [OF assms]
  by (simp add: prev_stream_def) blast

lemma scan_no_payload:
  "scan_records ss prev rs s = Inr s' \<Longrightarrow> \<forall>r \<in> set rs. tx_length r = 0 \<Longrightarrow>
   sc_selector s' = sc_selector s"
  by (induction rs arbitrary: prev s)
     (force simp: scan_record_def Let_def split: sum.splits if_splits)+

lemma scan_selector:
  assumes "distinct ss" and "scan_records ss None rs scan_start = Inr s"
  shows "sc_selector s = length_selector ss rs"
proof (cases "nonzero_lengths rs")
  case Nil
  then have "\<forall>r \<in> set rs. tx_length r = 0"
    by (auto simp: nonzero_lengths_def filter_empty_conv)
  with Nil show ?thesis using scan_no_payload [OF assms(2)] by (simp add: length_selector_def)
next
  case (Cons n ns)
  then have "n \<in> set (nonzero_lengths rs)" by simp
  then obtain r where r: "r \<in> set rs" "tx_length r = n" "n \<noteq> 0" by (auto simp: nonzero_lengths_def)
  then have "sc_selected s \<and> unat (ss ! sc_selector s) = n"
    using scan_records_result(6) [OF assms(2)] by auto
  moreover have "sc_selector s < length ss"
    using calculation scan_records_result(3) [OF assms(2)] by simp
  ultimately have "size_index ss n = sc_selector s" using size_index_eq [OF assms(1)] by blast
  with Cons show ?thesis by (simp add: length_selector_def)
qed

lemma emit_aggregate:
  assumes "downlink_size rs \<le> length d" and "\<forall>r \<in> set rs. length (tx_bytes r) = tx_length r"
  shows "downlink_emit (d[0 := b]) 1 rs =
    (memcpy_at d 0 (b # concat (map record_image rs)), downlink_size rs)"
proof -
  have "d \<noteq> []" using assms(1) by (auto simp: downlink_size_def)
  have "d[0 := b] = memcpy_at d 0 [b]"
    using assms(1) by (intro memcpy_at_single) (auto simp: downlink_size_def)
  moreover have "length (concat (map record_image rs)) = (\<Sum>r\<leftarrow>rs. 4 + tx_length r)"
    using assms(2) by (induction rs) (simp_all add: length_record_image)
  moreover have "memcpy_at (memcpy_at d 0 [b]) (0 + length [b]) (concat (map record_image rs)) =
      memcpy_at d 0 ([b] @ concat (map record_image rs))"
    using assms calculation(2) by (intro memcpy_at_append) (simp add: downlink_size_def)
  ultimately show ?thesis
    using downlink_emit_image [OF assms(2), of 1 "d[0 := b]"] assms(1) \<open>d \<noteq> []\<close>
    by (simp add: downlink_size_def length_memcpy_at Suc_le_eq)
qed

lemma fields_ok_payload: "fields_ok r \<Longrightarrow> tx_wf r \<Longrightarrow> length (tx_bytes r) = tx_length r"
  by (intro length_tx_bytes) (auto simp: fields_ok_def)

lemma air_downlink_build_cases:
  assumes "\<forall>r \<in> set rs. tx_wf r" and "capacity \<le> length d"
  shows "air_downlink_build (Some d) capacity (Some rs) (Some ss) flags True =
    (if \<not> downlink_legal ss rs flags then Inl AIR_FRAME_ARGUMENT
     else if downlink_size rs > min 255 capacity then Inl AIR_FRAME_CAPACITY
     else Inr (memcpy_at d 0 (aggregate_image flags ss rs), downlink_size rs, stream_bits rs))"
proof (cases "rs \<noteq> [] \<and> length rs \<le> 4 \<and> flags AND NOT 0x70 = 0 \<and> sizes_valid (Some ss)")
  case False
  then show ?thesis by (auto simp: air_downlink_build_def downlink_legal_def air_limits)
next
  case guards: True
  then have ss: "distinct ss" using sizes_valid_distinct by blast
  show ?thesis
  proof (cases "scan_records ss None rs scan_start")
    case (Inl e)
    then have "\<not> downlink_legal ss rs flags"
      using scan_from_start [of ss rs] guards unfolding downlink_legal_def by auto
    moreover from scan_error [OF Inl] have "e = AIR_FRAME_ARGUMENT" .
    ultimately show ?thesis
      using guards Inl by (auto simp: air_downlink_build_def air_limits)
  next
    case (Inr s)
    then have legal: "downlink_legal ss rs flags"
      using scan_from_start [of ss rs] guards unfolding downlink_legal_def by auto
    have total: "sc_total s = downlink_size rs" and smask: "sc_mask s = stream_bits rs"
      using scan_records_result(1,2) [OF Inr] by (simp_all add: downlink_size_def stream_bits_def)
    have sel: "sc_selector s = length_selector ss rs" using scan_selector [OF ss Inr] .
    have len: "\<forall>r \<in> set rs. length (tx_bytes r) = tx_length r"
      using legal assms(1) fields_ok_payload by (auto simp: downlink_legal_def)
    show ?thesis
    proof (cases "downlink_size rs > min 255 capacity")
      case True
      then show ?thesis using guards Inr total legal
        by (auto simp: air_downlink_build_def air_limits)
    next
      case False
      then have "downlink_size rs \<le> length d" using assms(2) by simp
      from emit_aggregate [OF this len] show ?thesis
        using guards Inr total smask sel legal False
        by (auto simp: air_downlink_build_def air_limits aggregate_image_def)
    qed
  qed
qed

lemma selector_bits:
  assumes "flags AND NOT 0x70 = (0 :: u8)" and "k < 4"
  shows "(flags OR of_nat k) AND 3 = of_nat k"
proof -
  have "flags AND 3 = (flags AND NOT 0x70) AND 3" by (simp add: and.assoc)
  then have "flags AND 3 = 0" using assms(1) by simp
  moreover have "of_nat k AND (3 :: u8) = of_nat k"
  proof -
    from assms(2) consider "k = 0" | "k = 1" | "k = 2" | "k = 3" by linarith
    then show ?thesis by cases simp_all
  qed
  ultimately show ?thesis using word_ao_dist [of flags "of_nat k" 3] by simp
qed

lemma length_selector_less:
  "downlink_legal ss rs flags \<Longrightarrow> length_selector ss rs < 4 \<and> length_selector ss rs < length ss"
proof -
  assume legal: "downlink_legal ss rs flags"
  then have ss: "distinct ss" "ss \<noteq> []" "length ss \<le> 4"
    using sizes_valid_distinct by (auto simp: downlink_legal_def sizes_valid_def air_limits)
  show ?thesis
  proof (cases "nonzero_lengths rs")
    case Nil
    then show ?thesis using ss by (simp add: length_selector_def)
  next
    case (Cons n ns)
    then have "n \<in> unat ` set ss" using legal by (auto simp: downlink_legal_def)
    then have "size_index ss n < length ss"
      using size_index_member [of ss n] size_index_le [of ss n] by linarith
    with Cons ss show ?thesis by (simp add: length_selector_def)
  qed
qed

lemma legal_record_sizes:
  assumes "downlink_legal ss rs flags" and "r \<in> set rs" and "tx_length r \<noteq> 0"
  shows "unat (ss ! length_selector ss rs) = tx_length r"
proof -
  have mem: "tx_length r \<in> set (nonzero_lengths rs)"
    using assms(2,3) by (auto simp: nonzero_lengths_def)
  then obtain n ns where n: "nonzero_lengths rs = n # ns" by (cases "nonzero_lengths rs") auto
  then have "n = tx_length r" using assms(1) mem by (auto simp: downlink_legal_def)
  moreover have "size_index ss n < length ss"
    using length_selector_less [OF assms(1)] n by (simp add: length_selector_def)
  ultimately show ?thesis using size_index_found n by (simp add: length_selector_def)
qed

lemma legal_decodes:
  assumes "downlink_legal ss rs flags" and "\<forall>r \<in> set rs. tx_wf r"
  shows "downlink_decode (unat (ss ! length_selector ss rs)) (stream_bits rs) [0, 1, 2, 3]
    (concat (map record_image rs)) = Some (map tx_view rs)"
proof (rule downlink_decode_images)
  show "sorted_wrt (<) [0, 1, 2, 3 :: u8]" by simp
  show "sorted_wrt (<) (map tx_stream_id rs)" using assms(1) by (simp add: downlink_legal_def)
  have ok: "\<forall>r \<in> set rs. fields_ok r" using assms(1) by (simp add: downlink_legal_def)
  then have "\<forall>r \<in> set rs. tx_stream_id r \<in> {0, 1, 2, 3}"
    using u8_less_4 unfolding fields_ok_def by blast
  then show "tx_stream_id ` set rs \<subseteq> set [0, 1, 2, 3]" by auto
  show "\<forall>sid \<in> set [0, 1, 2, 3]. (stream_bits rs AND push_bit (unat sid) 1 \<noteq> 0) =
      (sid \<in> tx_stream_id ` set rs)"
  proof
    fix sid :: u8
    assume "sid \<in> set [0, 1, 2, 3]"
    then have "unat sid < 4" by auto
    then show "(stream_bits rs AND push_bit (unat sid) 1 \<noteq> 0) = (sid \<in> tx_stream_id ` set rs)"
      unfolding stream_bits_def by (rule scan_mask_member)
  qed
  show "\<forall>r \<in> set rs. fields_ok r \<and> length (tx_bytes r) = tx_length r \<and>
      (tx_length r \<noteq> 0 \<longrightarrow> unat (ss ! length_selector ss rs) = tx_length r)"
    using ok assms fields_ok_payload legal_record_sizes [OF assms(1)] by blast
qed

text \<open>What a receiver that knows the stream bitmap and the size table reads in an aggregate.\<close>

definition downlink_receive :: "bytes \<Rightarrow> u8 \<Rightarrow> bytes \<Rightarrow> air_view list option" where
  "downlink_receive ss streams agg =
     (case agg of [] \<Rightarrow> None
      | h # body \<Rightarrow>
          if unat (h AND 3) \<ge> length ss then None
          else downlink_decode (unat (ss ! unat (h AND 3))) streams [0, 1, 2, 3] body)"

section \<open>Uplink aggregates\<close>

text \<open>The wire image of a parsed record and of the control trailer, and when they are well formed.\<close>

definition rx_image :: "air_rx_record \<Rightarrow> bytes" where
  "rx_image r = [push_bit 4 (rx_sequence r) OR rx_ack r, rx_flags r] @ rx_payload r"

definition rx_ok :: "nat \<Rightarrow> air_rx_record \<Rightarrow> bool" where
  "rx_ok sz r \<longleftrightarrow> rx_length r = length (rx_payload r) \<and>
     rx_length r = (if rx_flags r AND 0x0c \<noteq> 0 then 0 else sz) \<and> rx_kind r = rx_flags r AND 3 \<and>
     rx_sequence r \<le> 15 \<and> rx_ack r \<le> 15"

definition control_image :: "air_control_record \<Rightarrow> bytes" where
  "control_image c = (if ctl_present c then [ctl_header c, of_nat (ctl_length c)] @ ctl_payload c else [])"

definition control_ok :: "bool \<Rightarrow> bool \<Rightarrow> air_control_record \<Rightarrow> bool" where
  "control_ok has_control control c \<longleftrightarrow>
     (if has_control then control \<and> ctl_present c \<and> ctl_length c = length (ctl_payload c) \<and>
        ctl_length c < 256 \<and> ctl_header c AND 3 \<noteq> 0 \<and> (ctl_length c = 0 \<longrightarrow> ctl_header c AND 3 = 1)
      else c = no_control)"

lemma rx_ok_parsed:
  assumes "cursor + 2 + n \<le> length src" and "n = (if src ! (cursor + 1) AND 0x0c \<noteq> 0 then 0 else sz)"
  shows "rx_ok sz (uplink_record src cursor n sid)"
    and "rx_image (uplink_record src cursor n sid) = block cursor (2 + n) src"
    and "rx_stream_id (uplink_record src cursor n sid) = sid"
proof -
  show "rx_stream_id (uplink_record src cursor n sid) = sid"
    by (simp add: uplink_record_def Let_def)
  have "drop_bit 4 (src ! cursor) \<le> 15" "(src ! cursor) AND 15 \<le> 15"
    by (rule split_nibbles)+
  then show "rx_ok sz (uplink_record src cursor n sid)"
    using assms by (simp add: rx_ok_def uplink_record_def Let_def length_block)
  have "drop cursor src = src ! cursor # src ! (cursor + 1) # drop (cursor + 2) src"
    using assms(1) by (simp add: Cons_nth_drop_Suc)
  then show "rx_image (uplink_record src cursor n sid) = block cursor (2 + n) src"
    using split_nibbles by (simp add: rx_image_def uplink_record_def Let_def block_def)
qed

lemma block_append:
  "block c (m + n) xs = block c m xs @ block (c + m) n xs"
  by (simp add: block_def take_add add.commute)

lemma block_split:
  "c + m \<le> e \<Longrightarrow> block c (e - c) xs = block c m xs @ block (c + m) (e - (c + m)) xs"
  using block_append [of c m "e - (c + m)" xs] by simp

lemma rx_image_at:
  assumes "rx_ok sz r" and "c + length (rx_image r) \<le> length src"
    and "block c (length (rx_image r)) src = rx_image r"
  shows "(if src ! (c + 1) AND 0x0c \<noteq> 0 then 0 else sz) = length (rx_payload r)"
    and "uplink_record src c (length (rx_payload r)) (rx_stream_id r) = r"
proof -
  have at: "i < length (rx_image r) \<Longrightarrow> src ! (c + i) = rx_image r ! i" for i
    using nth_block [of i "length (rx_image r)" c src] assms(2,3) by simp
  have h: "src ! c = push_bit 4 (rx_sequence r) OR rx_ack r" "src ! (c + 1) = rx_flags r"
    using at [of 0] at [of 1] by (simp_all add: rx_image_def)
  have pay: "block (c + 2) (length (rx_payload r)) src = rx_payload r"
  proof -
    have "block c 2 src @ block (c + 2) (length (rx_payload r)) src =
        [push_bit 4 (rx_sequence r) OR rx_ack r, rx_flags r] @ rx_payload r"
      using assms(3) block_append [of c 2 "length (rx_payload r)" src] by (simp add: rx_image_def)
    moreover have "length (block c 2 src) = 2"
      using assms(2) by (simp add: rx_image_def length_block)
    ultimately show ?thesis by (subst (asm) append_eq_append_conv) simp_all
  qed
  show "(if src ! (c + 1) AND 0x0c \<noteq> 0 then 0 else sz) = length (rx_payload r)"
    using assms(1) h by (simp add: rx_ok_def)
  show "uplink_record src c (length (rx_payload r)) (rx_stream_id r) = r"
    using assms(1) h pay nibbles [of "rx_sequence r" "rx_ack r"]
    by (cases r) (simp add: uplink_record_def rx_ok_def Let_def)
qed

lemma uplink_head:
  assumes "\<forall>r \<in> set rs. rx_ok sz r" and "cursor' = cursor + length (concat (map rx_image rs))"
    and "cursor' \<le> length src" and "block cursor (cursor' - cursor) src = concat (map rx_image rs)"
    and "map rx_stream_id rs = sid # sids"
  shows "cursor + 2 + (if src ! (cursor + 1) AND 0x0c \<noteq> 0 then 0 else sz) \<le> length src"
    and "\<exists>ts. rs = uplink_record src cursor (if src ! (cursor + 1) AND 0x0c \<noteq> 0 then 0 else sz) sid # ts"
proof -
  obtain r ts where rs: "rs = r # ts" and sid: "rx_stream_id r = sid"
    using assms(5) by (cases rs) auto
  have ok: "rx_ok sz r" and le: "cursor + length (rx_image r) \<le> length src"
    using assms(1-3) rs by auto
  have "block cursor (length (rx_image r)) src = take (length (rx_image r)) (concat (map rx_image rs))"
    unfolding assms(4) [symmetric] using assms(2) rs by (simp add: block_def min_def)
  then have "block cursor (length (rx_image r)) src = rx_image r" using rs by simp
  from rx_image_at [OF ok le this]
  show "cursor + 2 + (if src ! (cursor + 1) AND 0x0c \<noteq> 0 then 0 else sz) \<le> length src"
    and "\<exists>ts. rs = uplink_record src cursor (if src ! (cursor + 1) AND 0x0c \<noteq> 0 then 0 else sz) sid # ts"
    using rs sid le by (simp_all add: rx_image_def)
qed

lemma ex_cons_iff:
  assumes "\<And>xs. P xs \<longleftrightarrow> Q (x # xs)" and "\<And>xs. Q xs \<Longrightarrow> \<exists>ys. xs = x # ys"
  shows "(\<exists>xs. P xs) \<longleftrightarrow> (\<exists>xs. Q xs)"
  using assms by metis

lemma uplink_records_iff:
  assumes "cursor \<le> length src"
  shows "uplink_records src stream_mask sz sids cursor decoded = Inr (cursor', decoded') \<longleftrightarrow>
    (\<exists>rs. decoded' = decoded @ rs \<and>
       map rx_stream_id rs = filter (\<lambda>sid. stream_mask AND push_bit (unat sid) 1 \<noteq> 0) sids \<and>
       (\<forall>r \<in> set rs. rx_ok sz r) \<and> cursor' = cursor + length (concat (map rx_image rs)) \<and>
       cursor' \<le> length src \<and> block cursor (cursor' - cursor) src = concat (map rx_image rs))"
  using assms
proof (induction sids arbitrary: cursor decoded)
  case Nil
  then show ?case by (auto simp: block_def)
next
  case (Cons sid sids)
  show ?case
  proof (cases "stream_mask AND push_bit (unat sid) 1 = 0")
    case True
    then show ?thesis using Cons.IH [OF Cons.prems, of decoded] by simp
  next
    case sel: False
    let ?n = "if src ! (cursor + 1) AND 0x0c \<noteq> 0 then 0 else sz"
    let ?R = "\<lambda>decoded cursor sids rs. decoded' = decoded @ rs \<and>
       map rx_stream_id rs = filter (\<lambda>sid. stream_mask AND push_bit (unat sid) 1 \<noteq> 0) sids \<and>
       (\<forall>r \<in> set rs. rx_ok sz r) \<and> cursor' = cursor + length (concat (map rx_image rs)) \<and>
       cursor' \<le> length src \<and> block cursor (cursor' - cursor) src = concat (map rx_image rs)"
    show ?thesis
    proof (cases "cursor + 2 + ?n \<le> length src")
      case True
      let ?r = "uplink_record src cursor ?n sid"
      note ok = rx_ok_parsed [OF True refl, of sid]
      have "uplink_records src stream_mask sz (sid # sids) cursor decoded =
          uplink_records src stream_mask sz sids (cursor + 2 + ?n) (decoded @ [?r])"
        using True sel by (auto simp: Let_def)
      then have step: "uplink_records src stream_mask sz (sid # sids) cursor decoded = Inr (cursor', decoded')
          \<longleftrightarrow> (\<exists>rs. ?R (decoded @ [?r]) (cursor + 2 + ?n) sids rs)"
        using Cons.IH [OF True, of "decoded @ [?r]"] by simp
      have len: "length (rx_image ?r) = 2 + ?n"
        using ok(2) True by (simp add: length_block)
      have split: "block cursor (cursor' - cursor) src =
          rx_image ?r @ block (cursor + 2 + ?n) (cursor' - (cursor + 2 + ?n)) src"
        if "cursor + 2 + ?n \<le> cursor'"
        using block_split [of cursor "2 + ?n" cursor' src] that unfolding ok(2) add.assoc by blast
      have "?R (decoded @ [?r]) (cursor + 2 + ?n) sids rs \<longleftrightarrow> ?R decoded cursor (sid # sids) (?r # rs)" for rs
      proof (cases "cursor' = cursor + 2 + ?n + length (concat (map rx_image rs))")
        case eq: True
        then have "cursor + 2 + ?n \<le> cursor'" by simp
        from split [OF this] show ?thesis using ok(1,3) len sel eq by (simp add: add.assoc)
      next
        case False
        then show ?thesis using len by auto
      qed
      moreover have "?R decoded cursor (sid # sids) rs \<Longrightarrow> \<exists>ts. rs = ?r # ts" for rs
      proof -
        assume R: "?R decoded cursor (sid # sids) rs"
        have "map rx_stream_id rs = sid # filter (\<lambda>sid. stream_mask AND push_bit (unat sid) 1 \<noteq> 0) sids"
          using R sel by (simp only: filter.simps if_True not_False_eq_True)
        then show ?thesis
          by (rule uplink_head(2) [rotated -1]) (insert R, (elim conjE, assumption)+)
      qed
      ultimately show ?thesis unfolding step by (rule ex_cons_iff)
    next
      case False
      then have "\<not> (\<exists>x. uplink_records src stream_mask sz (sid # sids) cursor decoded = Inr x)"
        using sel by (auto simp: Let_def)
      moreover have "\<not> ?R decoded cursor (sid # sids) rs" for rs
      proof
        assume R: "?R decoded cursor (sid # sids) rs"
        have "map rx_stream_id rs = sid # filter (\<lambda>sid. stream_mask AND push_bit (unat sid) 1 \<noteq> 0) sids"
          using R sel by (simp only: filter.simps if_True not_False_eq_True)
        then have "cursor + 2 + ?n \<le> length src"
          by (rule uplink_head(1) [rotated -1]) (insert R, (elim conjE, assumption)+)
        with False show False by (rule notE)
      qed
      ultimately show ?thesis by blast
    qed
  qed
qed

lemma uplink_tail_iff:
  assumes "c \<le> length src"
  shows "(uplink_tail src c has_control control = Inr (c', t) \<and> c' = length src) \<longleftrightarrow>
    c' = length src \<and> control_ok has_control control t \<and> drop c src = control_image t"
proof (cases has_control)
  case False
  then show ?thesis using assms
    by (auto simp: uplink_tail_def control_ok_def control_image_def no_control_def)
next
  case True
  show ?thesis
  proof (cases "length src - c < 2")
    case short: True
    then have "length (drop c src) < 2" by simp
    moreover have "control_ok has_control control t \<Longrightarrow> length (control_image t) \<ge> 2"
      using True by (simp add: control_ok_def control_image_def)
    ultimately have "control_ok has_control control t \<Longrightarrow> drop c src \<noteq> control_image t"
      by fastforce
    then show ?thesis using True short by (auto simp: uplink_tail_def)
  next
    case False
    then have d: "drop c src = src ! c # src ! (c + 1) # drop (c + 2) src"
      by (simp add: Cons_nth_drop_Suc)
    have b: "block (c + 2) (length src - c - 2) src = drop (c + 2) src" by (simp add: block_def)
    have w: "length src - c - 2 = unat (src ! (c + 1)) \<longleftrightarrow>
        length src - c - 2 < 256 \<and> src ! (c + 1) = of_nat (length src - c - 2)"
      using unsigned_less [of "src ! (c + 1)"] by (auto simp: unat_of_nat)
    let ?n = "length src - c - 2"
    have z: "?n = unat (src ! (c + 1)) \<Longrightarrow> src ! (c + 1) = 0 \<longleftrightarrow> ?n = 0"
      by (simp add: unat_eq_0)
    have lhs: "(uplink_tail src c has_control control = Inr (c', t) \<and> c' = length src) \<longleftrightarrow>
        c' = length src \<and> control \<and> ?n = unat (src ! (c + 1)) \<and> src ! c AND 3 \<noteq> 0 \<and>
        (?n = 0 \<longrightarrow> src ! c AND 3 = 1) \<and>
        t = \<lparr>ctl_payload = drop (c + 2) src, ctl_length = ?n, ctl_header = src ! c, ctl_present = True\<rparr>"
      using True False z b by (auto simp: uplink_tail_def)
    have "length (drop (c + 2) src) = ?n" by simp
    then show ?thesis unfolding lhs w using True d
      by (cases t) (auto simp: control_ok_def control_image_def)
  qed
qed

text \<open>
  A well-formed aggregate: a selector byte naming a length of the table, one record for every
  stream of the bitmap in ascending order, and the control trailer when the PDU has one.
\<close>

definition uplink_frame :: "u8 \<Rightarrow> bytes \<Rightarrow> bool \<Rightarrow> bool \<Rightarrow> air_rx_record list \<Rightarrow> air_control_record
    \<Rightarrow> bytes \<Rightarrow> bool" where
  "uplink_frame stream_mask ss has_control control rs t b \<longleftrightarrow>
     length b \<le> AIR_MAX_AGGREGATE \<and> b \<noteq> [] \<and> unat (b ! 0 AND 3) < length ss \<and>
     b = b ! 0 # concat (map rx_image rs) @ control_image t \<and>
     map rx_stream_id rs = filter (\<lambda>sid. stream_mask AND push_bit (unat sid) 1 \<noteq> 0) [0, 1, 2, 3] \<and>
     (\<forall>r \<in> set rs. rx_ok (unat (ss ! unat (b ! 0 AND 3))) r) \<and> control_ok has_control control t"

lemma uplink_body_iff:
  assumes "b \<noteq> []"
  shows "(\<exists>c. uplink_records b stream_mask sz sids 1 [] = Inr (c, rs) \<and>
      uplink_tail b c has_control control = Inr (length b, t)) \<longleftrightarrow>
    map rx_stream_id rs = filter (\<lambda>sid. stream_mask AND push_bit (unat sid) 1 \<noteq> 0) sids \<and>
    (\<forall>r \<in> set rs. rx_ok sz r) \<and> control_ok has_control control t \<and>
    b = b ! 0 # concat (map rx_image rs) @ control_image t"
proof -
  let ?img = "concat (map rx_image rs)"
  have le: "1 \<le> length b" using assms by (cases b) auto
  obtain h rest where b: "b = h # rest" using assms by (cases b) auto
  have "rest = ?img @ control_image t \<longleftrightarrow>
      take (length ?img) rest = ?img \<and> length ?img \<le> length rest \<and> drop (length ?img) rest = control_image t"
    by (metis append_take_drop_id append_eq_conv_conj le_add1 length_append)
  then have split: "(block 1 (length ?img) b = ?img \<and> 1 + length ?img \<le> length b \<and>
      drop (1 + length ?img) b = control_image t) \<longleftrightarrow> b = b ! 0 # ?img @ control_image t"
    unfolding b by (simp add: block_def del: length_concat)
  have recs: "uplink_records b stream_mask sz sids 1 [] = Inr (c, rs) \<longleftrightarrow>
      map rx_stream_id rs = filter (\<lambda>sid. stream_mask AND push_bit (unat sid) 1 \<noteq> 0) sids \<and>
      (\<forall>r \<in> set rs. rx_ok sz r) \<and> c = 1 + length ?img \<and>
      1 + length ?img \<le> length b \<and> block 1 (length ?img) b = ?img" for c
    using uplink_records_iff [OF le, of stream_mask sz sids "[]" c rs] by (auto simp del: length_concat)
  have tail: "1 + length ?img \<le> length b \<Longrightarrow>
      uplink_tail b (1 + length ?img) has_control control = Inr (length b, t) \<longleftrightarrow>
      control_ok has_control control t \<and> drop (1 + length ?img) b = control_image t"
    using uplink_tail_iff [of "1 + length ?img" b has_control control "length b" t] by simp
  show ?thesis unfolding recs split [symmetric] using tail by blast
qed

lemma uplink_records_error:
  "uplink_records src stream_mask sz sids cursor decoded = Inl e \<Longrightarrow> e = AIR_FRAME_MALFORMED"
  by (induction sids arbitrary: cursor decoded) (auto simp: Let_def split: if_splits)

lemma uplink_tail_error: "uplink_tail src c has_control control = Inl e \<Longrightarrow> e = AIR_FRAME_MALFORMED"
  by (auto simp: uplink_tail_def split: if_splits)

definition uplink_args :: "u8 \<Rightarrow> bytes \<Rightarrow> bool \<Rightarrow> bool" where
  "uplink_args stream_mask ss outs \<longleftrightarrow>
     outs \<and> stream_mask \<noteq> 0 \<and> stream_mask AND 0xf0 = 0 \<and> sizes_valid (Some ss)"

declare uplink_records.simps [simp del]

lemma uplink_parse_eq:
  "uplink_parse (Some b) stream_mask (Some ss) capacity outs has_control control =
     (if \<not> uplink_args stream_mask ss outs then Inl AIR_FRAME_ARGUMENT
      else if b = [] \<or> length b > AIR_MAX_AGGREGATE \<or> unat (b ! 0 AND 3) \<ge> length ss
      then Inl AIR_FRAME_MALFORMED
      else (case uplink_records b stream_mask (unat (ss ! unat (b ! 0 AND 3))) [0, 1, 2, 3] 1 [] of
              Inl e \<Rightarrow> Inl AIR_FRAME_MALFORMED
            | Inr (c, rs) \<Rightarrow>
                (case uplink_tail b c has_control control of
                   Inl e \<Rightarrow> Inl AIR_FRAME_MALFORMED
                 | Inr (c, t) \<Rightarrow>
                     if c \<noteq> length b then Inl AIR_FRAME_MALFORMED
                     else if length rs > capacity then Inl AIR_FRAME_CAPACITY
                     else Inr (rs, t))))"
proof (cases "uplink_args stream_mask ss outs")
  case False
  then show ?thesis by (auto simp: uplink_parse_def uplink_args_def)
next
  case True
  then show ?thesis
    by (simp add: uplink_parse_def uplink_args_def Let_def uplink_records_error uplink_tail_error
        split: sum.split prod.split)
qed

lemma uplink_parse_steps:
  "uplink_parse (Some b) stream_mask (Some ss) capacity outs has_control control = Inr (rs, t) \<longleftrightarrow>
     uplink_args stream_mask ss outs \<and> b \<noteq> [] \<and> length b \<le> AIR_MAX_AGGREGATE \<and>
     unat (b ! 0 AND 3) < length ss \<and> length rs \<le> capacity \<and>
     (\<exists>c. uplink_records b stream_mask (unat (ss ! unat (b ! 0 AND 3))) [0, 1, 2, 3] 1 [] = Inr (c, rs) \<and>
       uplink_tail b c has_control control = Inr (length b, t))"
  unfolding uplink_parse_eq by (auto split: sum.splits if_splits)

lemma uplink_parse_iff:
  "uplink_parse (Some b) stream_mask (Some ss) capacity outs has_control control = Inr (rs, t) \<longleftrightarrow>
     uplink_args stream_mask ss outs \<and> length rs \<le> capacity \<and>
     uplink_frame stream_mask ss has_control control rs t b"
  unfolding uplink_parse_steps uplink_frame_def using uplink_body_iff by blast

lemma uplink_parse_room:
  "uplink_parse (Some b) stream_mask (Some ss) capacity outs has_control control = Inl AIR_FRAME_CAPACITY \<longleftrightarrow>
     (\<exists>rs t. uplink_parse (Some b) stream_mask (Some ss) (length rs) outs has_control control = Inr (rs, t) \<and>
        length rs > capacity)"
  unfolding uplink_parse_eq by (auto split: sum.splits if_splits)

lemma uplink_frame_parsed:
  "uplink_args stream_mask ss outs \<Longrightarrow>
     uplink_frame stream_mask ss has_control control rs t b \<longleftrightarrow>
     uplink_parse (Some b) stream_mask (Some ss) (length rs) outs has_control control = Inr (rs, t)"
  by (simp add: uplink_parse_iff)

lemma frame_result_cases:
  assumes "p \<noteq> Inl AIR_FRAME_ARGUMENT"
  obtains "p = Inl AIR_FRAME_CAPACITY" | "p = Inl AIR_FRAME_MALFORMED" | x where "p = Inr x"
  using assms by (cases p) (metis air_frame_result.exhaust)+

lemma uplink_parse_error:
  "uplink_parse (Some b) stream_mask (Some ss) capacity outs has_control control = Inl e \<longleftrightarrow>
     (if \<not> uplink_args stream_mask ss outs then e = AIR_FRAME_ARGUMENT
      else if \<exists>rs t. uplink_frame stream_mask ss has_control control rs t b \<and> length rs > capacity
           then e = AIR_FRAME_CAPACITY
      else e = AIR_FRAME_MALFORMED \<and> (\<nexists>rs t. uplink_frame stream_mask ss has_control control rs t b))"
proof (cases "uplink_args stream_mask ss outs")
  case False
  then show ?thesis by (auto simp: uplink_parse_eq)
next
  case args: True
  let ?p = "uplink_parse (Some b) stream_mask (Some ss) capacity outs has_control control"
  have room: "?p = Inl AIR_FRAME_CAPACITY \<longleftrightarrow>
      (\<exists>rs t. uplink_frame stream_mask ss has_control control rs t b \<and> length rs > capacity)"
    unfolding uplink_parse_room uplink_frame_parsed [OF args] ..
  have fit: "(\<exists>x. ?p = Inr x) \<longleftrightarrow>
      (\<exists>rs t. uplink_frame stream_mask ss has_control control rs t b \<and> length rs \<le> capacity)"
    using uplink_parse_iff [of b stream_mask ss capacity outs has_control control] args by auto
  have "?p \<noteq> Inl AIR_FRAME_ARGUMENT"
    using args unfolding uplink_parse_eq by (auto split: sum.splits if_splits)
  then consider "?p = Inl AIR_FRAME_CAPACITY" | "?p = Inl AIR_FRAME_MALFORMED" | x where "?p = Inr x"
    by (rule frame_result_cases)
  then show ?thesis
  proof cases
    case 1
    then have "\<exists>rs t. uplink_frame stream_mask ss has_control control rs t b \<and> length rs > capacity"
      using room by blast
    with 1 args show ?thesis by auto
  next
    case 2
    then have "\<not> (\<exists>rs t. uplink_frame stream_mask ss has_control control rs t b \<and> length rs > capacity)"
      and "\<not> (\<exists>rs t. uplink_frame stream_mask ss has_control control rs t b \<and> length rs \<le> capacity)"
      using room fit by simp_all
    moreover from this have "\<not> (\<exists>rs t. uplink_frame stream_mask ss has_control control rs t b)"
      by (meson not_le)
    ultimately show ?thesis using 2 args by auto
  next
    case 3
    then have "\<not> (\<exists>rs t. uplink_frame stream_mask ss has_control control rs t b \<and> length rs > capacity)"
      and "\<exists>rs t. uplink_frame stream_mask ss has_control control rs t b \<and> length rs \<le> capacity"
      using room fit by simp_all
    then show ?thesis using 3 args by auto
  qed
qed

lemma downlink_received:
  assumes built: "air_downlink_build (Some d) capacity (Some rs) (Some ss) flags True = Inr (d', n, streams)"
    and wf: "\<forall>r \<in> set rs. tx_wf r" and cap: "capacity \<le> length d"
  shows "downlink_receive ss streams (take n d') = Some (map tx_view rs) \<and>
    n \<le> 255 \<and> n \<le> capacity \<and> length d' = length d \<and> drop n d' = drop n d"
proof -
  from built air_downlink_build_cases [OF wf cap, of ss flags]
  have legal: "downlink_legal ss rs flags" and size: "downlink_size rs \<le> min 255 capacity"
    and out: "d' = memcpy_at d 0 (aggregate_image flags ss rs)" "n = downlink_size rs"
      "streams = stream_bits rs"
    by (auto split: if_splits)
  have len: "length (aggregate_image flags ss rs) = n"
  proof -
    have "\<forall>r \<in> set rs. length (tx_bytes r) = tx_length r"
      using legal wf fields_ok_payload by (auto simp: downlink_legal_def)
    then have "length (concat (map record_image rs)) = (\<Sum>r\<leftarrow>rs. 4 + tx_length r)"
      by (induction rs) (simp_all add: length_record_image)
    then show ?thesis by (simp add: aggregate_image_def out downlink_size_def)
  qed
  have n: "n \<le> 255 \<and> n \<le> capacity" using size out by simp
  have d': "d' = aggregate_image flags ss rs @ drop n d" using out len by (simp add: memcpy_at_0)
  have rest: "length d' = length d \<and> drop n d' = drop n d" using d' len n cap by simp
  have k: "length_selector ss rs < 4" "length_selector ss rs < length ss"
    using length_selector_less [OF legal] by auto
  have "flags AND NOT 0x70 = 0" using legal by (simp add: downlink_legal_def)
  from selector_bits [OF this k(1)]
  have "unat ((flags OR of_nat (length_selector ss rs)) AND 3) = length_selector ss rs"
    using k(1) by (simp add: unat_of_nat)
  moreover have "take n d' = aggregate_image flags ss rs" using d' len by simp
  ultimately have "downlink_receive ss streams (take n d') = Some (map tx_view rs)"
    using k legal_decodes [OF legal wf] out
    by (simp add: downlink_receive_def aggregate_image_def del: downlink_decode.simps)
  with n rest show ?thesis by blast
qed

section \<open>Properties\<close>

text \<open>\<open>air_downlink_build\<close> on every branch. With output pointers and a buffer of the announced
  capacity it refuses as \<open>AIR_FRAME_ARGUMENT\<close> exactly when the records, size table or flags break
  the contract, as \<open>AIR_FRAME_CAPACITY\<close> exactly when the legal aggregate is longer than 255 bytes
  or than the buffer, and otherwise writes exactly the aggregate image, its length and the stream bitmap.\<close>

theorem downlink_build_cases:
  assumes "\<forall>r \<in> set rs. tx_wf r" and "capacity \<le> length d"
  shows "air_downlink_build (Some d) capacity (Some rs) (Some ss) flags True =
    (if \<not> downlink_legal ss rs flags then Inl AIR_FRAME_ARGUMENT
     else if downlink_size rs > min 255 capacity then Inl AIR_FRAME_CAPACITY
     else Inr (memcpy_at d 0 (aggregate_image flags ss rs), downlink_size rs, stream_bits rs))"
  by (rule air_downlink_build_cases [OF assms])

definition ex_records :: "air_tx_record list" where
  "ex_records =
     [\<lparr>tx_payload = Some [1, 2, 3], tx_length = 3, tx_stream_id = 0, tx_sequence = 5, tx_ack = 2, tx_kind = 1\<rparr>,
      \<lparr>tx_payload = None, tx_length = 0, tx_stream_id = 2, tx_sequence = 6, tx_ack = 2, tx_kind = 0\<rparr>]"

lemma ex_records_wf: "\<forall>r \<in> set ex_records. tx_wf r"
  by (simp add: ex_records_def tx_wf_def)

lemma ex_records_legal: "downlink_legal [95, 3] ex_records 0x10"
  by (simp add: downlink_legal_def ex_records_def sizes_valid_def air_limits fields_ok_def
      nonzero_lengths_def less_Suc_eq all_simps)

lemma ex_records_size: "downlink_size ex_records = 12"
  by (simp add: downlink_size_def ex_records_def)

theorem downlink_build_cases_witness:
  "air_downlink_build (Some (replicate 14 0)) 14 (Some ex_records) (Some [95, 3]) 0x10 True =
     Inr (memcpy_at (replicate 14 0) 0 (aggregate_image 0x10 [95, 3] ex_records), 12, stream_bits ex_records)
   \<and> air_downlink_build (Some (replicate 14 0)) 11 (Some ex_records) (Some [95, 3]) 0x10 True = Inl AIR_FRAME_CAPACITY"
  using downlink_build_cases [OF ex_records_wf, where capacity = 14 and d = "replicate 14 0" and ss = "[95, 3]" and flags = "0x10"]
    downlink_build_cases [OF ex_records_wf, where capacity = 11 and d = "replicate 14 0" and ss = "[95, 3]" and flags = "0x10"]
  by (simp add: ex_records_legal ex_records_size)

text \<open>C1: everything \<open>air_downlink_build\<close> emits is decoded back, without loss, by a receiver that
  knows only the stream bitmap and the size table; the build stays inside the buffer, within 255
  bytes, and leaves every byte behind the aggregate as it was.\<close>

theorem downlink_roundtrip:
  assumes built: "air_downlink_build (Some d) capacity (Some rs) (Some ss) flags True = Inr (d', n, streams)"
    and wf: "\<forall>r \<in> set rs. tx_wf r" and cap: "capacity \<le> length d"
  shows "downlink_receive ss streams (take n d') = Some (map tx_view rs) \<and>
    n \<le> 255 \<and> n \<le> capacity \<and> length d' = length d \<and> drop n d' = drop n d"
  by (rule downlink_received [OF assms])

theorem downlink_roundtrip_witness:
  "downlink_receive [95, 3] (stream_bits ex_records) (aggregate_image 0x10 [95, 3] ex_records)
     = Some (map tx_view ex_records) \<and> length (map tx_view ex_records) = 2"
proof -
  let ?d = "replicate 12 0"
  have built: "air_downlink_build (Some ?d) 12 (Some ex_records) (Some [95, 3]) 0x10 True =
      Inr (memcpy_at ?d 0 (aggregate_image 0x10 [95, 3] ex_records), 12, stream_bits ex_records)"
    using air_downlink_build_cases [OF ex_records_wf, where capacity = 12 and d = ?d and ss = "[95, 3]" and flags = "0x10"]
    by (simp add: ex_records_legal ex_records_size)
  have "length (aggregate_image 0x10 [95, 3] ex_records) = 12"
    by (simp add: aggregate_image_def length_record_image ex_records_def tx_bytes_def)
  then show ?thesis
    using downlink_roundtrip [OF built ex_records_wf] by (simp add: memcpy_at_0 ex_records_def)
qed

text \<open>C7: \<open>air_uplink_parse_control\<close> accepts exactly the well-formed aggregates, and without loss:
  it returns records and a control trailer exactly when the aggregate is the selector byte followed
  by the encodings of these records, one per stream of the PDU header's bitmap, and of this trailer.\<close>

theorem uplink_control_accepts:
  "air_uplink_parse_control (Some b) header (Some ss) capacity outs control = Inr (rs, t) \<longleftrightarrow>
     control \<and> uplink_args (drop_bit 3 header AND 15) ss outs \<and> length rs \<le> capacity \<and>
     uplink_frame (drop_bit 3 header AND 15) ss (header AND 1 \<noteq> 0) control rs t b"
  by (cases control) (simp_all add: air_uplink_parse_control_def uplink_parse_iff)

text \<open>The negative results of \<open>air_uplink_parse\<close>: \<open>AIR_FRAME_ARGUMENT\<close> for a bad bitmap, size
  table or output pointer only, \<open>AIR_FRAME_CAPACITY\<close> exactly when a well-formed aggregate has more
  records than the caller's array, and \<open>AIR_FRAME_MALFORMED\<close> exactly when nothing encodes to it.\<close>

theorem uplink_parse_errors:
  "air_uplink_parse (Some b) stream_mask (Some ss) capacity outs = Inl e \<longleftrightarrow>
     (if \<not> uplink_args stream_mask ss outs then e = AIR_FRAME_ARGUMENT
      else if \<exists>rs t. uplink_frame stream_mask ss False False rs t b \<and> length rs > capacity
           then e = AIR_FRAME_CAPACITY
      else e = AIR_FRAME_MALFORMED \<and> (\<nexists>rs t. uplink_frame stream_mask ss False False rs t b))"
  unfolding uplink_parse_error [symmetric] air_uplink_parse_def by (auto split: sum.split)

end
