(* ===== verification/AirSession.thy ===== *)
theory AirSession
  imports Prelude
begin

text \<open>
  Model of \<^verbatim>\<open>firmware/radio/src/air_session.c\<close> and \<^verbatim>\<open>e0_request.h\<close>: the E0/E1/E2 negotiation of
  an Air session is turned into a plan (start of the session on the 28-bit Bluetooth clock, and the
  E2 message), and subevent start times are derived from a plan. A NULL pointer is \<open>None\<close>;
  \<open>out\<close> says that the output pointers are not NULL. \<open>Inl\<close> is a negative return, which leaves
  the output unchanged.
\<close>

section \<open>Data\<close>

definition ULL_AIR_E2_BYTES :: nat where "ULL_AIR_E2_BYTES = 68"
definition ULL_AIR_INTERVAL_US :: u32 where "ULL_AIR_INTERVAL_US = 5000"
definition ULL_AIR_SUBINTERVAL_US :: u32 where "ULL_AIR_SUBINTERVAL_US = 1420"
definition ULL_AIR_SUBEVENTS :: u32 where "ULL_AIR_SUBEVENTS = 3"
definition GROUP_SPAN_US :: u32 where "GROUP_SPAN_US = ULL_AIR_SUBINTERVAL_US * ULL_AIR_SUBEVENTS"

lemmas session_constants = CLOCK_MASK_def ULL_AIR_E2_BYTES_def ULL_AIR_INTERVAL_US_def
  ULL_AIR_SUBINTERVAL_US_def ULL_AIR_SUBEVENTS_def GROUP_SPAN_US_def

record ull_air_anchor =
  an_hs :: u32
  an_interval_hs :: u32
  an_hus :: u16
  an_event_counter :: u16

record ull_air_session_seed =
  sd_access_address :: u32
  sd_event_counter :: u32
  sd_channel_map :: bytes
  sd_receive_enabled :: u8
  sd_iv :: bytes
  sd_key :: bytes

record ull_air_session_plan =
  pl_start_hs :: u32
  pl_start_hus :: u16
  pl_acl_instant :: u16
  pl_event_counter :: u32
  pl_access_address :: u32
  pl_offset_us :: u32
  pl_e2 :: bytes

datatype session_error = SESSION_REFUSED | SESSION_INSTANT

definition e0_parameters :: bytes where
  "e0_parameters =
     [0xe0, 0x01, 0x01, 0x02, 0x01, 0x02, 0x02, 0x5f, 0x10, 0x28, 0x00, 0x88, 0x13, 0x00, 0x88, 0x13,
      0x00, 0x5f, 0x00, 0x28, 0x00, 0x03, 0x02, 0x8c, 0x05, 0x00, 0x11, 0x01, 0x01, 0x04, 0x00, 0xd0,
      0x07, 0x00, 0xa0, 0x0f, 0x00]"

section \<open>Building a plan\<close>

definition e0_expected :: "bytes \<Rightarrow> bytes" where
  "e0_expected proposal =
     (if proposal ! 2 = 2 then e0_parameters[2 := 2, 9 := 0, 19 := 0, 26 := 1] else e0_parameters)"

definition channels_used :: "bytes \<Rightarrow> nat" where
  "channels_used cm = (\<Sum>i\<leftarrow>[0..<37]. unat (drop_bit (i mod 8) (cm ! (i div 8)) AND 1))"

definition plan_refused :: "bytes \<Rightarrow> bytes \<Rightarrow> ull_air_anchor \<Rightarrow> ull_air_session_seed \<Rightarrow> u32 \<Rightarrow> bool" where
  "plan_refused proposal reply anchor seed offset_us \<longleftrightarrow>
     take 37 proposal \<noteq> e0_expected proposal \<or> reply ! 0 \<noteq> 0xe1 \<or>
     block 1 8 reply \<noteq> block 31 8 proposal \<or>
     an_hs anchor > CLOCK_MASK \<or> an_hus anchor > 624 \<or> an_interval_hs anchor \<noteq> 96 \<or>
     sd_receive_enabled seed > 1 \<or> sd_access_address seed = 0 \<or>
     sd_channel_map seed ! 4 AND 0xe0 \<noteq> 0 \<or> offset_us < 2000 \<or> offset_us > 4000 \<or>
     (proposal ! 2 = 2 \<and> sd_receive_enabled seed \<noteq> 0)"

definition plan_e2 :: "bytes \<Rightarrow> ull_air_session_seed \<Rightarrow> u32 \<Rightarrow> u16 \<Rightarrow> bytes" where
  "plan_e2 proposal seed offset_us instant =
     (let p = replicate ULL_AIR_E2_BYTES 0;
          p = p[0 := 0xe2];
          p = memcpy_at p 1 (put32 (sd_access_address seed));
          p = memcpy_at p 5 (put24 offset_us);
          p = memcpy_at p 8 (put24 GROUP_SPAN_US);
          p = memcpy_at p 11 (put24 GROUP_SPAN_US);
          p = p[14 := 0];
          p = memcpy_at p 15 (put16 instant);
          p = p[17 := 1];
          p = p[18 := sd_receive_enabled seed];
          p = memcpy_at p 19 (sd_channel_map seed);
          p = memcpy_at p 24 (put32 (sd_event_counter seed));
          p = memcpy_at p 28 (put32 1026);
          p = memcpy_at p 32 (put32 (1026 +
                (if proposal ! 2 = 2 \<or> sd_receive_enabled seed \<noteq> 0 then 302 else 142)));
          p = memcpy_at p 36 (put32 0xffffffff);
          p = memcpy_at p 40 (put32 0xffffffff);
          p = memcpy_at p 44 (sd_iv seed);
          p = memcpy_at p 52 (sd_key seed)
      in p)"

definition ull_air_session_plan_build :: "bool \<Rightarrow> bytes option \<Rightarrow> bytes option \<Rightarrow> ull_air_anchor option
    \<Rightarrow> ull_air_session_seed option \<Rightarrow> u32 \<Rightarrow> session_error + ull_air_session_plan" where
  "ull_air_session_plan_build out proposal reply anchor seed offset_us =
     (case (proposal, reply, anchor, seed) of
        (Some proposal, Some reply, Some anchor, Some seed) \<Rightarrow>
          if \<not> out \<or> plan_refused proposal reply anchor seed offset_us then Inl SESSION_REFUSED
          else if channels_used (sd_channel_map seed) < 2 then Inl SESSION_REFUSED
          else
            let instant = get16 proposal 37;
                ahead = instant - an_event_counter anchor in
            if ahead < 2 \<or> ahead > 32 then Inl SESSION_INSTANT
            else
              let fine = ucast (an_hus anchor) + offset_us * 2 in
              Inr \<lparr>pl_start_hs = (an_hs anchor + ucast ahead * an_interval_hs anchor + fine div 625) AND CLOCK_MASK,
                   pl_start_hus = ucast (fine mod 625),
                   pl_acl_instant = instant,
                   pl_event_counter = sd_event_counter seed,
                   pl_access_address = sd_access_address seed,
                   pl_offset_us = offset_us,
                   pl_e2 = plan_e2 proposal seed offset_us instant\<rparr>
      | _ \<Rightarrow> Inl SESSION_REFUSED)"

section \<open>Subevent times\<close>

definition ull_air_session_time :: "ull_air_session_plan option \<Rightarrow> u32 \<Rightarrow> u8 \<Rightarrow> bool \<Rightarrow> (u32 \<times> u16) option" where
  "ull_air_session_time plan event_index subevent outs =
     (case plan of None \<Rightarrow> None
      | Some p \<Rightarrow>
          if \<not> outs \<or> ucast subevent \<ge> ULL_AIR_SUBEVENTS \<or> pl_start_hs p > CLOCK_MASK \<or> pl_start_hus p > 624
          then None
          else
            let fine = ucast (pl_start_hus p)
                  + ucast event_index * ucast (ULL_AIR_INTERVAL_US * 2)
                  + ucast subevent * ucast (ULL_AIR_SUBINTERVAL_US * 2) :: u64 in
            Some (ucast ((ucast (pl_start_hs p) + fine div 625) AND ucast CLOCK_MASK), ucast (fine mod 625)))"

lemma session_fine:
  fixes hus :: u16 and i :: u32 and s :: u8
  shows "unat (ucast hus + ucast i * ucast (ULL_AIR_INTERVAL_US * 2)
      + ucast s * ucast (ULL_AIR_SUBINTERVAL_US * 2) :: u64) = unat hus + unat i * 10000 + unat s * 2840"
proof -
  have i: "unat i \<le> 4294967295" using u32_less [of i] by linarith
  have s: "unat s \<le> 255" using u8_less [of s] by linarith
  have h: "unat hus \<le> 65535" using u16_less [of hus] by linarith
  have "unat (ucast i * 10000 :: u64) = unat i * 10000"
    using i by (simp add: unat_word_ariths unat_ucast)
  moreover have "unat (ucast s * 2840 :: u64) = unat s * 2840"
    using s by (simp add: unat_word_ariths unat_ucast)
  ultimately show ?thesis
    using i s h by (simp add: session_constants unat_word_ariths unat_ucast)
qed

lemma session_time_value:
  "ull_air_session_time (Some p) i s True = Some (hs, hus) \<Longrightarrow>
     unat hs = (unat (pl_start_hs p) + (unat (pl_start_hus p) + unat i * 10000 + unat s * 2840) div 625) mod 268435456 \<and>
     unat hus = (unat (pl_start_hus p) + unat i * 10000 + unat s * 2840) mod 625"
proof -
  assume a: "ull_air_session_time (Some p) i s True = Some (hs, hus)"
  define fine where "fine = (ucast (pl_start_hus p) + ucast i * ucast (ULL_AIR_INTERVAL_US * 2)
      + ucast s * ucast (ULL_AIR_SUBINTERVAL_US * 2) :: u64)"
  have f: "unat fine = unat (pl_start_hus p) + unat i * 10000 + unat s * 2840"
    unfolding fine_def by (rule session_fine)
  from a have hs: "hs = ucast ((ucast (pl_start_hs p) + fine div 625) AND mask 28)"
    and hus: "hus = ucast (fine mod 625)"
    by (auto simp: ull_air_session_time_def Let_def fine_def clock_mask(2) split: if_splits)
  have q: "unat (fine div 625) = unat fine div 625" by (simp add: unat_div_distrib)
  have "unat fine \<le> 42949673741230"
    using f u16_less [of "pl_start_hus p"] u32_less [of i] u8_less [of s] by linarith
  then have "unat fine div 625 \<le> 68719480000" by linarith
  moreover have "unat (pl_start_hs p) \<le> 4294967295" using u32_less [of "pl_start_hs p"] by linarith
  ultimately have "unat (ucast (pl_start_hs p) + fine div 625) = unat (pl_start_hs p) + unat fine div 625"
    by (simp only: unat_word_ariths(1) q) (simp add: unat_ucast)
  then have "unat hs = (unat (pl_start_hs p) + unat fine div 625) mod 268435456"
    unfolding hs by (simp add: unat_ucast unat_and_mask)
  moreover have "unat hus = unat fine mod 625"
    unfolding hus by (simp add: unat_ucast unat_mod_distrib)
  ultimately show ?thesis by (simp add: f)
qed

lemma plan_build_cases:
  "ull_air_session_plan_build True (Some proposal) (Some reply) (Some anchor) (Some seed) offset_us = Inr p \<longleftrightarrow>
     \<not> plan_refused proposal reply anchor seed offset_us \<and> 2 \<le> channels_used (sd_channel_map seed) \<and>
     2 \<le> get16 proposal 37 - an_event_counter anchor \<and> get16 proposal 37 - an_event_counter anchor \<le> 32 \<and>
     p = \<lparr>pl_start_hs = (an_hs anchor + ucast (get16 proposal 37 - an_event_counter anchor) * an_interval_hs anchor
             + (ucast (an_hus anchor) + offset_us * 2) div 625) AND CLOCK_MASK,
          pl_start_hus = ucast ((ucast (an_hus anchor) + offset_us * 2) mod 625),
          pl_acl_instant = get16 proposal 37, pl_event_counter = sd_event_counter seed,
          pl_access_address = sd_access_address seed, pl_offset_us = offset_us,
          pl_e2 = plan_e2 proposal seed offset_us (get16 proposal 37)\<rparr>"
  by (auto simp: ull_air_session_plan_build_def Let_def not_less)

lemma plan_start_value:
  fixes hs off :: u32 and hus ahead :: u16
  assumes "hs \<le> CLOCK_MASK" and "hus \<le> 624" and "off \<le> 4000" and "ahead \<le> 32"
  shows "unat ((hs + ucast ahead * 96 + (ucast hus + off * 2) div 625) AND CLOCK_MASK) =
      (unat hs + unat ahead * 96 + (unat hus + unat off * 2) div 625) mod 268435456"
    and "unat (ucast ((ucast hus + off * 2) mod 625) :: u16) = (unat hus + unat off * 2) mod 625"
proof -
  have b: "unat hs \<le> 268435455" "unat hus \<le> 624" "unat off \<le> 4000" "unat ahead \<le> 32"
    using assms by (simp_all add: CLOCK_MASK_def word_le_nat_alt)
  have fine: "unat (ucast hus + off * 2) = unat hus + unat off * 2"
    using b by (simp add: unat_word_ariths unat_ucast)
  have q: "unat ((ucast hus + off * 2) div 625) = (unat hus + unat off * 2) div 625"
    using fine by (simp add: unat_div_distrib)
  have "unat ((ucast hus + off * 2) div 625) \<le> 8624" unfolding q using b by linarith
  moreover have "unat (ucast ahead * 96 :: u32) = unat ahead * 96"
    using b by (simp add: unat_word_ariths unat_ucast)
  ultimately have "unat (hs + ucast ahead * 96 + (ucast hus + off * 2) div 625) =
      unat hs + unat ahead * 96 + (unat hus + unat off * 2) div 625"
    using b q by (simp add: unat_word_ariths)
  then show "unat ((hs + ucast ahead * 96 + (ucast hus + off * 2) div 625) AND CLOCK_MASK) =
      (unat hs + unat ahead * 96 + (unat hus + unat off * 2) div 625) mod 268435456"
    by (simp add: clock_mask(1) unat_and_mask)
  show "unat (ucast ((ucast hus + off * 2) mod 625) :: u16) = (unat hus + unat off * 2) mod 625"
    using fine by (simp add: unat_ucast unat_mod_distrib)
qed

lemma memcpy_snoc:
  "n = length xs \<Longrightarrow> n + length ys \<le> length d \<Longrightarrow>
   memcpy_at (memcpy_at d 0 xs) n ys = memcpy_at d 0 (xs @ ys)"
  using memcpy_at_append [of 0 xs ys d] by simp

lemma plan_e2_image:
  assumes "length (sd_channel_map seed) = 5" and "length (sd_iv seed) = 8" and "length (sd_key seed) = 16"
  shows "plan_e2 proposal seed offset_us instant =
     [0xe2] @ put32 (sd_access_address seed) @ put24 offset_us @ put24 GROUP_SPAN_US @ put24 GROUP_SPAN_US
     @ [0] @ put16 instant @ [1, sd_receive_enabled seed] @ sd_channel_map seed @ put32 (sd_event_counter seed)
     @ put32 1026 @ put32 (1026 + (if proposal ! 2 = 2 \<or> sd_receive_enabled seed \<noteq> 0 then 302 else 142))
     @ put32 0xffffffff @ put32 0xffffffff @ sd_iv seed @ sd_key seed" (is "_ = ?img")
proof -
  let ?z = "replicate 68 (0 :: u8)"
  let ?slots = "put32 (1026 + (if proposal ! 2 = 2 \<or> sd_receive_enabled seed \<noteq> 0 then 302 else 142))"
  have "plan_e2 proposal seed offset_us instant = memcpy_at ?z 0 ?img"
    unfolding plan_e2_def Let_def ULL_AIR_E2_BYTES_def
    using assms
    by (simp add: memcpy_at_single length_memcpy_at memcpy_snoc)
  moreover have "length ?img = 68" using assms by simp
  ultimately show ?thesis by (simp add: memcpy_at_0)
qed

section \<open>Properties\<close>

text \<open>The start of a session is exact. When a plan is built the instant is 2 to 32 ACL events
  ahead of the anchor, and the start of the session is, on the wrapping half-microsecond clock, the
  anchor plus 30 ms for every event ahead plus the offset, normalised to less than a coarse tick.\<close>

theorem plan_start_exact:
  assumes "ull_air_session_plan_build True (Some proposal) (Some reply) (Some anchor) (Some seed) offset_us = Inr p"
  shows "2 \<le> unat (get16 proposal 37 - an_event_counter anchor) \<and>
    unat (get16 proposal 37 - an_event_counter anchor) \<le> 32 \<and> unat (pl_start_hus p) < 625 \<and>
    clock_pos (pl_start_hs p) (pl_start_hus p) =
      (clock_pos (an_hs anchor) (an_hus anchor)
         + unat (get16 proposal 37 - an_event_counter anchor) * 60000 + 2 * unat offset_us) mod CLOCK_SPAN"
proof -
  let ?ahead = "get16 proposal 37 - an_event_counter anchor"
  let ?fine = "unat (an_hus anchor) + unat offset_us * 2"
  from assms have ok: "\<not> plan_refused proposal reply anchor seed offset_us" and ahead: "2 \<le> ?ahead" "?ahead \<le> 32"
    and p: "pl_start_hs p = (an_hs anchor + ucast ?ahead * 96 + (ucast (an_hus anchor) + offset_us * 2) div 625) AND CLOCK_MASK"
      "pl_start_hus p = ucast ((ucast (an_hus anchor) + offset_us * 2) mod 625)"
    unfolding plan_build_cases plan_refused_def by auto
  have "an_hs anchor \<le> CLOCK_MASK" "an_hus anchor \<le> 624" "offset_us \<le> 4000"
    using ok by (auto simp: plan_refused_def)
  note start = plan_start_value [OF this ahead(2), folded p]
  have "clock_pos (pl_start_hs p) (pl_start_hus p) =
      (unat (an_hs anchor) + unat ?ahead * 96 + ?fine div 625) mod 268435456 * 625 + ?fine mod 625"
    unfolding clock_pos_def start ..
  also have "\<dots> = ((unat (an_hs anchor) + unat ?ahead * 96) * 625 + ?fine) mod CLOCK_SPAN"
    by (rule clock_carry)
  also have "(unat (an_hs anchor) + unat ?ahead * 96) * 625 + ?fine =
      clock_pos (an_hs anchor) (an_hus anchor) + unat ?ahead * 60000 + 2 * unat offset_us"
    by (simp add: clock_pos_def)
  finally show ?thesis using ahead start(2) by (simp add: word_le_nat_alt)
qed

text \<open>The negotiation the header describes: a proposal for stream 1, answered as it stands.\<close>

definition ex_proposal :: bytes where "ex_proposal = e0_parameters @ [0x10, 0x01]"
definition ex_reply :: bytes where "ex_reply = 0xe1 # block 31 8 ex_proposal"
definition ex_anchor :: ull_air_anchor where
  "ex_anchor = \<lparr>an_hs = 0x0fffffff, an_interval_hs = 96, an_hus = 600, an_event_counter = 0x010a\<rparr>"
definition ex_seed :: ull_air_session_seed where
  "ex_seed = \<lparr>sd_access_address = 0x8e89bed6, sd_event_counter = 7, sd_channel_map = [255, 255, 255, 255, 31],
     sd_receive_enabled = 1, sd_iv = replicate 8 3, sd_key = replicate 16 9\<rparr>"

lemmas ex_session = ex_proposal_def ex_reply_def ex_anchor_def ex_seed_def e0_parameters_def

lemma ex_session_built:
  "\<exists>p. ull_air_session_plan_build True (Some ex_proposal) (Some ex_reply) (Some ex_anchor) (Some ex_seed) 2000 = Inr p"
proof -
  have "\<not> plan_refused ex_proposal ex_reply ex_anchor ex_seed 2000"
    by (simp add: plan_refused_def ex_session e0_expected_def block_def CLOCK_MASK_def)
  moreover have "channels_used (sd_channel_map ex_seed) = 37"
    by (simp add: channels_used_def ex_seed_def upt_rec drop_bit_eq_div)
  moreover have "get16 ex_proposal 37 - an_event_counter ex_anchor = 6"
    by (simp add: get16_def ex_session)
  ultimately show ?thesis using plan_build_cases by auto
qed

theorem plan_start_exact_witness:
  "\<exists>p. ull_air_session_plan_build True (Some ex_proposal) (Some ex_reply) (Some ex_anchor) (Some ex_seed) 2000 = Inr p \<and>
     clock_pos (pl_start_hs p) (pl_start_hus p) = 363975"
proof -
  obtain p where p: "ull_air_session_plan_build True (Some ex_proposal) (Some ex_reply) (Some ex_anchor)
      (Some ex_seed) 2000 = Inr p" using ex_session_built by blast
  have "get16 ex_proposal 37 - an_event_counter ex_anchor = 6"
    by (simp add: get16_def ex_session)
  with plan_start_exact [OF p] p show ?thesis
    by (auto simp: clock_pos_def CLOCK_SPAN_def ex_anchor_def)
qed

lemma block_peel:
  "length xs \<le> k \<Longrightarrow> block k n (xs @ ys) = block (k - length xs) n ys"
  "0 < k \<Longrightarrow> block k n (x # ys) = block (k - 1) n ys"
  "n = length xs \<Longrightarrow> block 0 n (xs @ ys) = xs"
  "n = length xs \<Longrightarrow> block 0 n xs = xs"
  by (auto simp: block_def drop_Cons')

lemma nth_block_1: "k < length xs \<Longrightarrow> xs ! k = hd (block k 1 xs)"
  by (simp add: block_def hd_drop_conv_nth)

text \<open>C12: the subevent times of an accepted plan are exact: for any event index and any of the three
  subevents a time is returned, normalised, and it is the start plus 5 ms for every event and
  1.42 ms for every subevent on the wrapping clock, without an accumulated rounding error.\<close>

theorem session_time_exact:
  assumes "pl_start_hs p \<le> CLOCK_MASK" and "pl_start_hus p \<le> 624" and "s < 3"
  shows "\<exists>hs hus. ull_air_session_time (Some p) i s True = Some (hs, hus) \<and> unat hus < 625 \<and>
    hs \<le> CLOCK_MASK \<and> clock_pos hs hus =
      (clock_pos (pl_start_hs p) (pl_start_hus p) + unat i * 10000 + unat s * 2840) mod CLOCK_SPAN"
proof -
  have "unat s < 3" using assms(3) by (simp add: word_less_nat_alt)
  then have "\<not> ULL_AIR_SUBEVENTS \<le> ucast s"
    by (simp add: session_constants word_le_nat_alt unat_ucast)
  then obtain hs hus where t: "ull_air_session_time (Some p) i s True = Some (hs, hus)"
    using assms(1,2) by (auto simp: ull_air_session_time_def Let_def not_less)
  let ?fine = "unat (pl_start_hus p) + unat i * 10000 + unat s * 2840"
  note v = session_time_value [OF t]
  have "clock_pos hs hus = (unat (pl_start_hs p) + ?fine div 625) mod 268435456 * 625 + ?fine mod 625"
    using v by (simp add: clock_pos_def)
  also have "\<dots> = (unat (pl_start_hs p) * 625 + ?fine) mod CLOCK_SPAN" by (rule clock_carry)
  finally have "clock_pos hs hus =
      (clock_pos (pl_start_hs p) (pl_start_hus p) + unat i * 10000 + unat s * 2840) mod CLOCK_SPAN"
    by (simp add: clock_pos_def add.assoc)
  moreover have "hs \<le> CLOCK_MASK" using v by (simp add: CLOCK_MASK_def word_le_nat_alt flip: less_Suc_eq_le)
  moreover have "unat hus < 625" using v by simp
  ultimately show ?thesis using t by blast
qed

definition ex_plan :: ull_air_session_plan where
  "ex_plan = \<lparr>pl_start_hs = 0x0fffffff, pl_start_hus = 624, pl_acl_instant = 0, pl_event_counter = 0,
     pl_access_address = 1, pl_offset_us = 2000, pl_e2 = []\<rparr>"

theorem session_time_exact_witness:
  "\<exists>hs hus. ull_air_session_time (Some ex_plan) 0xffffffff 2 True = Some (hs, hus) \<and>
     clock_pos hs hus = (268435455 * 625 + 624 + 4294967295 * 10000 + 2 * 2840) mod CLOCK_SPAN"
  using session_time_exact [of ex_plan 2 "0xffffffff"]
  by (auto simp: ex_plan_def CLOCK_MASK_def clock_pos_def)

text \<open>The E2 message of a plan is 68 bytes long and announces the session of the plan: the peer
  that reads its fields gets the access address, offset, instant, channel map, event counter, reply
  offsets, initialisation vector and key of the seed, and the same instant and counter as the plan.\<close>

theorem plan_e2_layout:
  assumes "ull_air_session_plan_build True (Some proposal) (Some reply) (Some anchor) (Some seed) offset_us = Inr p"
    and "length (sd_channel_map seed) = 5" and "length (sd_iv seed) = 8" and "length (sd_key seed) = 16"
  shows "length (pl_e2 p) = ULL_AIR_E2_BYTES \<and> pl_e2 p ! 0 = 0xe2 \<and>
    get32 (pl_e2 p) 1 = pl_access_address p \<and> pl_access_address p = sd_access_address seed \<and>
    block 5 3 (pl_e2 p) = put24 (pl_offset_us p) \<and> get16 (pl_e2 p) 15 = pl_acl_instant p \<and>
    pl_e2 p ! 18 = sd_receive_enabled seed \<and> block 19 5 (pl_e2 p) = sd_channel_map seed \<and>
    get32 (pl_e2 p) 24 = pl_event_counter p \<and> get32 (pl_e2 p) 28 = 1026 \<and>
    get32 (pl_e2 p) 32 = (if proposal ! 2 = 2 \<or> sd_receive_enabled seed \<noteq> 0 then 1328 else 1168) \<and>
    block 44 8 (pl_e2 p) = sd_iv seed \<and> block 52 16 (pl_e2 p) = sd_key seed"
proof -
  let ?slots = "1026 + (if proposal ! 2 = 2 \<or> sd_receive_enabled seed \<noteq> 0 then 302 else 142) :: u32"
  from assms(1) have p: "pl_acl_instant p = get16 proposal 37" "pl_event_counter p = sd_event_counter seed"
      "pl_access_address p = sd_access_address seed" "pl_offset_us p = offset_us"
    and e2: "pl_e2 p = plan_e2 proposal seed offset_us (get16 proposal 37)"
    unfolding plan_build_cases by simp_all
  define slots where "slots = (1026 + (if proposal ! 2 = 2 \<or> sd_receive_enabled seed \<noteq> 0 then 302 else 142) :: u32)"
  note img = plan_e2_image [OF assms(2-4), of proposal offset_us "get16 proposal 37", folded e2 slots_def]
  have len: "length (pl_e2 p) = 68" unfolding img using assms(2-4) by simp
  have g32: "i + 3 < 68 \<Longrightarrow> get32 (pl_e2 p) i = get32 (block i 4 (pl_e2 p)) 0" for i
    by (rule get32_at) (simp add: len)
  note peel = block_peel get32_put32 assms(2-4)
  have "get32 (pl_e2 p) 1 = sd_access_address seed" "get32 (pl_e2 p) 24 = sd_event_counter seed"
      "get32 (pl_e2 p) 28 = 1026" "get32 (pl_e2 p) 32 = slots"
    using g32 [of 1] g32 [of 24] g32 [of 28] g32 [of 32] by (simp_all add: img peel)
  moreover have "get16 (pl_e2 p) 15 = get16 proposal 37"
    using get16_at [of 15 "pl_e2 p"] len by (simp add: img peel get16_put16)
  moreover have "block 5 3 (pl_e2 p) = put24 offset_us" "block 19 5 (pl_e2 p) = sd_channel_map seed"
      "block 44 8 (pl_e2 p) = sd_iv seed" "block 52 16 (pl_e2 p) = sd_key seed"
    by (simp_all add: img peel)
  moreover have "pl_e2 p ! 0 = 0xe2" "pl_e2 p ! 18 = sd_receive_enabled seed"
    using nth_block_1 [of 18 "pl_e2 p"] len by (simp_all add: img block_def)
  moreover have "slots = (if proposal ! 2 = 2 \<or> sd_receive_enabled seed \<noteq> 0 then 1328 else 1168)"
    by (simp add: slots_def)
  ultimately show ?thesis using len p by (simp add: ULL_AIR_E2_BYTES_def)
qed

theorem plan_e2_layout_witness:
  "\<exists>p. ull_air_session_plan_build True (Some ex_proposal) (Some ex_reply) (Some ex_anchor) (Some ex_seed) 2000 = Inr p \<and>
     get32 (pl_e2 p) 1 = 0x8e89bed6 \<and> get32 (pl_e2 p) 32 = 1328"
proof -
  obtain p where p: "ull_air_session_plan_build True (Some ex_proposal) (Some ex_reply) (Some ex_anchor)
      (Some ex_seed) 2000 = Inr p" using ex_session_built by blast
  then show ?thesis using plan_e2_layout [OF p] by (auto simp: ex_seed_def)
qed

end
