(* ===== verification/PhyPacket.thy ===== *)
theory PhyPacket
  imports Prelude
begin

text \<open>
  Model of \<^verbatim>\<open>firmware/radio/src/phy_packet.c\<close>: complete uncoded packets (preamble, access
  address, PDU and CRC-24, whitened), the whitening of an embedded packet, and the clock correction
  for a wrapped packet. The loops over the bits of a byte are folds over \<open>[0..<8]\<close>; \<open>None\<close> is the
  return value -1, after which nothing has been written.
\<close>

definition ULL_PHY_PACKET_MAX :: nat where "ULL_PHY_PACKET_MAX = 255"

section \<open>Whitening\<close>

definition whiten_bit :: "u8 \<times> u8 \<Rightarrow> nat \<Rightarrow> u8 \<times> u8" where
  "whiten_bit s i = (case s of (lfsr, b) \<Rightarrow>
     if lfsr AND 1 \<noteq> 0 then (drop_bit 1 (lfsr XOR 0x88), b XOR push_bit i 1) else (drop_bit 1 lfsr, b))"

definition whiten_byte :: "u8 \<Rightarrow> u8 \<Rightarrow> u8 \<times> u8" where
  "whiten_byte lfsr b = foldl whiten_bit (lfsr, b) [0..<8]"

fun whiten_bytes :: "u8 \<Rightarrow> bytes \<Rightarrow> bytes" where
  "whiten_bytes lfsr [] = []"
| "whiten_bytes lfsr (b # bs) = (let (lfsr, b) = whiten_byte lfsr b in b # whiten_bytes lfsr bs)"

text \<open>For the two header bytes in front of the data the register advances and no byte is changed.\<close>

definition whiten_skip :: "u8 \<Rightarrow> u8" where
  "whiten_skip lfsr = fst (whiten_byte lfsr 0)"

definition ull_phy_outer_whitening :: "bytes option \<Rightarrow> u8 \<Rightarrow> bytes option" where
  "ull_phy_outer_whitening bytes channel =
     (case bytes of None \<Rightarrow> None
      | Some bs \<Rightarrow>
          if length bs > ULL_PHY_PACKET_MAX \<or> channel > 39 then None
          else Some (whiten_bytes (whiten_skip (whiten_skip (channel OR 0x40))) bs))"

section \<open>Packets\<close>

definition reverse8 :: "u8 \<Rightarrow> u8" where
  "reverse8 x =
     (let x = drop_bit 4 x OR push_bit 4 x;
          x = drop_bit 2 (x AND 0xcc) OR push_bit 2 (x AND 0x33)
      in drop_bit 1 (x AND 0xaa) OR push_bit 1 (x AND 0x55))"

definition crc24_bit :: "u32 \<Rightarrow> u32 \<Rightarrow> u32" where
  "crc24_bit crc d =
     (let feedback = (drop_bit 23 crc XOR d) AND 1;
          crc = push_bit 1 crc AND 0xffffff
      in if feedback \<noteq> 0 then crc XOR 0x65b else crc)"

definition crc24_byte :: "u32 \<Rightarrow> u8 \<Rightarrow> u32" where
  "crc24_byte crc b = foldl (\<lambda>c i. crc24_bit c (drop_bit i (ucast b))) crc [0..<8]"

definition crc24 :: "u32 \<Rightarrow> bytes \<Rightarrow> u32" where
  "crc24 crc_init pdu = foldl crc24_byte crc_init pdu"

definition crc24_bytes :: "u32 \<Rightarrow> bytes" where
  "crc24_bytes crc = map (\<lambda>i. reverse8 (ucast (drop_bit (16 - 8 * i) crc))) [0..<3]"

definition ull_phy_packet_build :: "bytes option \<Rightarrow> nat \<Rightarrow> bool \<Rightarrow> u32 \<Rightarrow> u32 \<Rightarrow> u8 \<Rightarrow> u8 \<Rightarrow> bytes option
    \<Rightarrow> (bytes \<times> nat) option" where
  "ull_phy_packet_build out capacity written aa crc_init channel phy pdu =
     (case (out, pdu) of
        (Some out, Some pdu) \<Rightarrow>
          if \<not> written \<or> phy < 1 \<or> phy > 2 \<or> channel > 39 \<or> crc_init > 0xffffff \<or> length pdu < 2 \<or>
             length pdu > ULL_PHY_PACKET_MAX - 4 - 3 - unat phy
          then None
          else
            let total = unat phy + 4 + length pdu + 3 in
            if capacity < total then None
            else
              let preamble = replicate (unat phy) (if aa AND 1 \<noteq> 0 then 0x55 else 0xaa);
                  address = map (\<lambda>i. ucast (drop_bit (8 * i) aa)) [0..<4];
                  body = pdu @ crc24_bytes (crc24 crc_init pdu)
              in Some (memcpy_at out 0 (preamble @ address @ whiten_bytes (channel OR 0x40) body), total)
      | _ \<Rightarrow> None)"

definition ull_phy_dtm_start :: "u32 \<Rightarrow> u16 \<Rightarrow> u8 \<Rightarrow> bool \<Rightarrow> (u32 \<times> u16) option" where
  "ull_phy_dtm_start inner_hs inner_hus phy outs =
     (if \<not> outs \<or> inner_hs > CLOCK_MASK \<or> inner_hus > 624 \<or> phy < 1 \<or> phy > 2 then None
      else
        let hus = int (unat inner_hus) - (if phy = 1 then 112 else 64);
            (hus, hs) = (if hus < 0 then (hus + 625, (inner_hs - 1) AND CLOCK_MASK) else (hus, inner_hs))
        in Some (hs, word_of_int hus))"

section \<open>Keystreams\<close>

text \<open>
  A byte transformer that XORs a keystream which does not depend on the data. Applying it twice from
  the same state restores the data, and it never changes the number of bytes.
\<close>

locale xor_stream =
  fixes step :: "'s \<Rightarrow> u8 \<Rightarrow> 's \<times> u8"
    and run :: "'s \<Rightarrow> bytes \<Rightarrow> bytes"
    and advance :: "'s \<Rightarrow> 's"
    and key :: "'s \<Rightarrow> u8"
  assumes step: "step s b = (advance s, b XOR key s)"
    and run_Nil: "run s [] = []"
    and run_Cons: "run s (b # bs) = snd (step s b) # run (fst (step s b)) bs"
begin

lemma run_length: "length (run s bs) = length bs"
  by (induction bs arbitrary: s) (simp_all add: run_Nil run_Cons)

lemma run_run: "run s (run s bs) = bs"
  by (induction bs arbitrary: s) (simp_all add: run_Nil run_Cons step xor.assoc)

lemma run_nth: "i < length bs \<Longrightarrow> run s bs ! i = bs ! i XOR key ((advance ^^ i) s)"
proof (induction bs arbitrary: s i)
  case (Cons b bs)
  then show ?case by (cases i) (simp_all add: run_Cons step funpow_swap1)
qed simp

lemma run_update: "run s (cs[k := x]) = (run s cs)[k := x XOR key ((advance ^^ k) s)]"
  by (rule nth_equalityI, simp add: run_length)
    (case_tac "i = k"; simp add: run_length run_nth)

lemma run_corrupt:
  assumes "k < length bs" and "x \<noteq> run s bs ! k"
  shows "\<exists>a. a \<noteq> bs ! k \<and> run s ((run s bs)[k := x]) = bs[k := a]"
proof (intro exI conjI)
  show "run s ((run s bs)[k := x]) = bs[k := x XOR key ((advance ^^ k) s)]"
    by (simp add: run_update run_run)
  show "x XOR key ((advance ^^ k) s) \<noteq> bs ! k"
  proof
    assume "x XOR key ((advance ^^ k) s) = bs ! k"
    then have "x = bs ! k XOR key ((advance ^^ k) s)"
      by (metis xor.assoc xor_self_eq xor.right_neutral)
    then show False using assms by (simp add: run_nth)
  qed
qed

lemma run_inj: "run s xs = run s ys \<Longrightarrow> xs = ys"
  by (metis run_run)

end

definition whiten_key :: "u8 \<Rightarrow> u8" where "whiten_key lfsr = snd (whiten_byte lfsr 0)"

lemma whiten_bit_xor: "whiten_bit (lfsr, b XOR c) k = (fst (whiten_bit (lfsr, b) k), snd (whiten_bit (lfsr, b) k) XOR c)"
  by (simp add: whiten_bit_def ac_simps)

lemma whiten_fold:
  "foldl whiten_bit (lfsr, b XOR c) ks =
     (fst (foldl whiten_bit (lfsr, b) ks), snd (foldl whiten_bit (lfsr, b) ks) XOR c)"
proof (induction ks arbitrary: lfsr b)
  case (Cons k ks)
  show ?case
    using Cons.IH [of "fst (whiten_bit (lfsr, b) k)" "snd (whiten_bit (lfsr, b) k)"]
    by (simp add: whiten_bit_xor)
qed simp

interpretation whitening: xor_stream whiten_byte whiten_bytes whiten_skip whiten_key
proof
  show "whiten_byte lfsr b = (whiten_skip lfsr, b XOR whiten_key lfsr)" for lfsr b
    unfolding whiten_byte_def whiten_skip_def whiten_key_def
    using whiten_fold [of lfsr 0 b "[0..<8]"] by (simp add: xor.commute)
qed (simp_all split: prod.split)

section \<open>The CRC-24\<close>

lemma bit_u32_mask24: "bit (0xffffff :: u32) n \<longleftrightarrow> n < 24"
proof -
  have "(0xffffff :: u32) = mask 24" by (simp add: mask_eq_exp_minus_1)
  then show ?thesis by (simp only: bit_mask_iff) (auto simp: possible_bit_word)
qed

lemma bit_poly24: "bit (0x65b :: u32) 0" "n \<ge> 24 \<Longrightarrow> \<not> bit (0x65b :: u32) n"
proof -
  show "bit (0x65b :: u32) 0" by simp
  have "unat (0x65b :: u32) < 2 ^ 24" by simp
  then show "n \<ge> 24 \<Longrightarrow> \<not> bit (0x65b :: u32) n" by (rule masked_bit)
qed

text \<open>One step of the register, with the feedback bit explicit.\<close>

definition crc24_feedback :: "u32 \<Rightarrow> bool \<Rightarrow> bool" where
  "crc24_feedback c d \<longleftrightarrow> bit c 23 \<noteq> d"

definition crc24_shift :: "u32 \<Rightarrow> bool \<Rightarrow> u32" where
  "crc24_shift c d = (push_bit 1 c AND 0xffffff) XOR (if crc24_feedback c d then 0x65b else 0)"

lemma and_one_bit: "(w :: 'a::len word) AND 1 \<noteq> 0 \<longleftrightarrow> bit w 0"
  by (simp add: and_one_eq bit_0 odd_iff_mod_2_eq_one)

lemma crc24_bit_shift: "crc24_bit c d = crc24_shift c (bit d 0)"
proof -
  have "(drop_bit 23 c XOR d) AND 1 \<noteq> 0 \<longleftrightarrow> crc24_feedback c (bit d 0)"
    unfolding and_one_bit by (simp add: bit_xor_iff bit_drop_bit_eq crc24_feedback_def)
  then show ?thesis by (simp add: crc24_bit_def Let_def crc24_shift_def)
qed

definition byte_bits :: "u8 \<Rightarrow> bool list" where
  "byte_bits b = map (bit b) [0..<8]"

lemma crc24_byte_bits: "crc24_byte c b = foldl crc24_shift c (byte_bits b)"
proof -
  have "crc24_bit x (drop_bit i (ucast b)) = crc24_shift x (bit b i)" for x i
    unfolding crc24_bit_shift by (cases "i < 32") (simp_all add: bit_drop_bit_eq bit_ucast_iff possible_bit_word)
  then show ?thesis by (simp add: crc24_byte_def byte_bits_def foldl_map)
qed

lemma crc24_shift_bit: "bit (crc24_shift c d) n \<longleftrightarrow>
    n < 24 \<and> ((n \<noteq> 0 \<and> bit c (n - 1)) \<noteq> (crc24_feedback c d \<and> bit (0x65b :: u32) n))"
proof -
  have "bit (push_bit 1 c AND 0xffffff) n \<longleftrightarrow> n < 24 \<and> n \<noteq> 0 \<and> bit c (n - 1)"
    by (simp only: bit_and_iff bit_push_bit_iff bit_u32_mask24 possible_bit_word) auto
  then show ?thesis
    using bit_poly24(2) [of n] by (cases "crc24_feedback c d") (auto simp: crc24_shift_def bit_xor_iff not_less)
qed

definition agree :: "nat \<Rightarrow> u32 \<Rightarrow> u32 \<Rightarrow> bool" where
  "agree k c c' \<longleftrightarrow> (\<forall>n < k. bit c n = bit c' n)"

lemma crc24_step_back:
  assumes "agree (Suc j) (crc24_shift c d) (crc24_shift c' d')" and "j < 24"
  shows "crc24_feedback c d = crc24_feedback c' d'" and "agree j c c'"
proof -
  have at: "n \<le> j \<Longrightarrow> bit (crc24_shift c d) n = bit (crc24_shift c' d') n" for n
    using assms(1) by (simp add: agree_def)
  show fb: "crc24_feedback c d = crc24_feedback c' d'"
    using at [of 0] bit_poly24(1) by (simp only: crc24_shift_bit) simp
  show "agree j c c'"
    unfolding agree_def
  proof (intro allI impI)
    fix n
    assume "n < j"
    then show "bit c n = bit c' n"
      using at [of "Suc n"] fb assms(2) by (simp add: crc24_shift_bit) blast
  qed
qed

lemma crc24_shift_inj:
  assumes "crc24_shift c d = crc24_shift c' d" and "\<And>n. n \<ge> 24 \<Longrightarrow> bit c n = bit c' n"
  shows "c = c'"
proof (rule bit_word_eqI)
  fix n
  have ag: "agree (Suc 23) (crc24_shift c d) (crc24_shift c' d)" using assms(1) by (simp add: agree_def)
  from crc24_step_back [OF ag] have "bit c 23 = bit c' 23" "agree 23 c c'"
    by (auto simp: crc24_feedback_def)
  then show "bit c n = bit c' n"
    using assms(2) [of n] by (cases "n < 23 \<or> n = 23") (auto simp: agree_def)
qed

lemma crc24_bits_inj:
  "length ds = length ds' \<Longrightarrow> length ds + j \<le> 24 \<Longrightarrow>
   agree (length ds + j) (foldl crc24_shift c ds) (foldl crc24_shift c' ds') \<Longrightarrow>
   agree j c c' \<and> (c = c' \<longrightarrow> ds = ds')"
proof (induction ds ds' arbitrary: c c' j rule: list_induct2)
  case (Cons d ds d' ds')
  have "agree (Suc j) (crc24_shift c d) (crc24_shift c' d') \<and>
      (crc24_shift c d = crc24_shift c' d' \<longrightarrow> ds = ds')"
    using Cons.IH [of "Suc j"] Cons.prems by simp
  moreover from this have "crc24_feedback c d = crc24_feedback c' d'" "agree j c c'"
    using crc24_step_back [of j c d c' d'] Cons.prems(1) by simp_all
  ultimately show ?case by (auto simp: crc24_feedback_def)
qed simp

definition crc24_state :: "u32 \<Rightarrow> bool" where
  "crc24_state c \<longleftrightarrow> (\<forall>n \<ge> 24. \<not> bit c n)"

lemma crc24_state_shift: "crc24_state (crc24_shift c d)"
  by (simp add: crc24_state_def crc24_shift_bit)

lemma crc24_state_fold: "crc24_state c \<Longrightarrow> crc24_state (foldl crc24_shift c ds)"
  by (induction ds arbitrary: c) (simp_all add: crc24_state_shift)

lemma crc24_state_byte: "crc24_state c \<Longrightarrow> crc24_state (crc24_byte c b)"
  by (simp add: crc24_byte_bits crc24_state_fold)

lemma crc24_state_crc: "crc24_state c \<Longrightarrow> crc24_state (crc24 c bs)"
  by (induction bs arbitrary: c) (simp_all add: crc24_def crc24_state_byte)

lemma crc24_state_init: "c \<le> 0xffffff \<Longrightarrow> crc24_state c"
proof -
  assume "c \<le> 0xffffff"
  then have "unat c < 2 ^ 24" by (simp add: word_le_nat_alt)
  then show ?thesis using masked_bit [of c 24] by (simp add: crc24_state_def)
qed

lemma crc24_fold_inj:
  "crc24_state c \<Longrightarrow> crc24_state c' \<Longrightarrow> foldl crc24_shift c ds = foldl crc24_shift c' ds \<Longrightarrow> c = c'"
proof (induction ds arbitrary: c c')
  case (Cons d ds)
  then have "crc24_shift c d = crc24_shift c' d" using crc24_state_shift by simp
  then show ?case
    by (rule crc24_shift_inj) (use Cons.prems in \<open>simp add: crc24_state_def\<close>)
qed simp

lemma crc24_byte_inj:
  assumes "crc24_byte c b = crc24_byte c b'"
  shows "b = b'"
proof -
  have "byte_bits b = byte_bits b'"
    using crc24_bits_inj [of "byte_bits b" "byte_bits b'" 16 c c] assms
    by (simp add: crc24_byte_bits byte_bits_def agree_def)
  then have "\<forall>n < 8. bit b n = bit b' n" by (simp add: byte_bits_def)
  then show ?thesis by (intro bit_word_eqI) simp
qed

lemma crc24_detects_byte:
  assumes "crc24_state c" and "a \<noteq> b"
  shows "crc24 c (xs @ a # ys) \<noteq> crc24 c (xs @ b # ys)"
proof
  assume "crc24 c (xs @ a # ys) = crc24 c (xs @ b # ys)"
  then have eq: "foldl crc24_byte (crc24_byte (crc24 c xs) a) ys = foldl crc24_byte (crc24_byte (crc24 c xs) b) ys"
    by (simp add: crc24_def)
  have "crc24_state u \<Longrightarrow> crc24_state v \<Longrightarrow> foldl crc24_byte u ys = foldl crc24_byte v ys \<Longrightarrow> u = v" for u v
    by (induction ys arbitrary: u v) (auto simp: crc24_byte_bits dest: crc24_fold_inj intro: crc24_state_fold)
  from this [OF _ _ eq] have "crc24_byte (crc24 c xs) a = crc24_byte (crc24 c xs) b"
    using assms(1) crc24_state_byte crc24_state_crc by blast
  then show False using crc24_byte_inj assms(2) by blast
qed

lemma bit_int_mask24 [simp]: "bit (0xffffff :: int) n \<longleftrightarrow> n < 24"
proof -
  have "(0xffffff :: int) = mask 24" by (simp add: mask_eq_exp_minus_1)
  then show ?thesis by (simp only: bit_mask_iff) simp
qed

lemma reverse8_bit: "n < 8 \<Longrightarrow> bit (reverse8 x) n = bit x (7 - n)"
proof -
  assume "n < 8"
  then consider "n = 0" | "n = 1" | "n = 2" | "n = 3" | "n = 4" | "n = 5" | "n = 6" | "n = 7" by linarith
  then show ?thesis
    unfolding reverse8_def Let_def
      bit_or_iff bit_and_iff bit_drop_bit_eq bit_push_bit_iff possible_bit_word o_def
    by cases simp_all
qed

lemma crc24_shift_out:
  "crc24_state c \<Longrightarrow> k \<le> 24 \<Longrightarrow>
   foldl crc24_shift c (map (\<lambda>i. bit c (23 - i)) [0..<k]) = push_bit k c AND 0xffffff"
proof (induction k)
  case 0
  then show ?case
    by (intro bit_word_eqI) (auto simp: bit_u32_mask24 bit_and_iff crc24_state_def simp flip: not_le)
next
  case (Suc k)
  let ?s = "push_bit k c AND 0xffffff"
  have "bit ?s 23 = bit c (23 - k)"
    using Suc.prems by (simp add: bit_and_iff bit_u32_mask24 bit_push_bit_iff)
  then have "crc24_shift ?s (bit c (23 - k)) = push_bit 1 ?s AND 0xffffff"
    by (simp add: crc24_shift_def crc24_feedback_def)
  also have "\<dots> = push_bit (Suc k) c AND 0xffffff"
    by (intro bit_word_eqI, simp only: bit_and_iff bit_push_bit_iff bit_u32_mask24 possible_bit_word) auto
  finally show ?case using Suc by simp
qed

lemma crc24_bytes_bits:
  "byte_bits (reverse8 (ucast (drop_bit (16 - 8 * i) c))) = map (\<lambda>k. bit c (23 - 8 * i - k)) [0..<8]"
  if "i < 3" for i
  unfolding byte_bits_def
proof (rule map_cong)
  fix k
  assume "k \<in> set [0..<8]"
  then have k: "k < 8" by simp
  then have "23 - 8 * i - k = 16 - 8 * i + (7 - k)" using that by linarith
  moreover have "bit (reverse8 (ucast (drop_bit (16 - 8 * i) c))) k = bit c (16 - 8 * i + (7 - k))"
    using k by (simp only: reverse8_bit bit_ucast_iff bit_drop_bit_eq possible_bit_word o_def) auto
  ultimately show "bit (reverse8 (ucast (drop_bit (16 - 8 * i) c))) k = bit c (23 - 8 * i - k)" by simp
qed simp

lemma crc24_residue:
  assumes "crc24_state c"
  shows "crc24 c (crc24_bytes c) = 0"
proof -
  have bits: "concat (map byte_bits (crc24_bytes c)) = map (\<lambda>i. bit c (23 - i)) [0..<24]"
    using crc24_bytes_bits [of 0 c] crc24_bytes_bits [of 1 c] crc24_bytes_bits [of 2 c]
    by (simp add: crc24_bytes_def upt_rec)
  have "crc24 c bs = foldl crc24_shift c (concat (map byte_bits bs))" for bs c
    by (induction bs arbitrary: c) (simp_all add: crc24_def crc24_byte_bits)
  then have "crc24 c (crc24_bytes c) = push_bit 24 c AND 0xffffff"
    using crc24_shift_out [OF assms, of 24] by (simp add: bits)
  also have "\<dots> = 0"
    by (rule bit_word_eqI) (simp add: bit_and_iff bit_push_bit_iff bit_u32_mask24)
  finally show ?thesis .
qed

section \<open>A receiver\<close>

text \<open>
  What the link layer of the peer does with a packet: it skips preamble and access address, removes
  the whitening, checks the CRC by its residue and delivers the PDU.
\<close>

definition packet_receive :: "u32 \<Rightarrow> u8 \<Rightarrow> u8 \<Rightarrow> bytes \<Rightarrow> bytes option" where
  "packet_receive crc_init channel phy packet =
     (let body = whiten_bytes (channel OR 0x40) (drop (unat phy + 4) packet) in
      if crc24 crc_init body = 0 then Some (take (length body - 3) body) else None)"

definition packet_image :: "u32 \<Rightarrow> u32 \<Rightarrow> u8 \<Rightarrow> u8 \<Rightarrow> bytes \<Rightarrow> bytes" where
  "packet_image aa crc_init channel phy pdu =
     replicate (unat phy) (if aa AND 1 \<noteq> 0 then 0x55 else 0xaa) @ put32 aa @
     whiten_bytes (channel OR 0x40) (pdu @ crc24_bytes (crc24 crc_init pdu))"

lemma length_crc24_bytes [simp]: "length (crc24_bytes c) = 3"
  by (simp add: crc24_bytes_def)

lemma length_packet_image [simp]: "length (packet_image aa crc_init channel phy pdu) = unat phy + 4 + length pdu + 3"
  by (simp add: packet_image_def whitening.run_length)

lemma packet_build_image:
  assumes "ull_phy_packet_build (Some out) capacity True aa crc_init channel phy (Some pdu) = Some (out', n)"
    and "capacity \<le> length out"
  shows "n = unat phy + 4 + length pdu + 3" and "n \<le> 255" and "n \<le> capacity" and "crc_init \<le> 0xffffff"
    and "out' = packet_image aa crc_init channel phy pdu @ drop n out"
proof -
  have addr: "map (\<lambda>i. ucast (drop_bit (8 * i) aa)) [0..<4] = put32 aa"
    by (simp add: put32_bytes upt_rec)
  let ?n = "unat phy + 4 + length pdu + 3"
  from assms(1) have g: "\<not> (phy < 1 \<or> phy > 2)" "crc_init \<le> 0xffffff"
      "length pdu \<le> ULL_PHY_PACKET_MAX - 4 - 3 - unat phy" "?n \<le> capacity"
    and r: "n = ?n" "out' = memcpy_at out 0 (packet_image aa crc_init channel phy pdu)"
    unfolding packet_image_def addr [symmetric]
    by (auto simp: ull_phy_packet_build_def Let_def not_less split: if_splits)
  have "unat phy \<le> 2" using g(1) by (simp add: word_less_nat_alt word_le_nat_alt not_less)
  with g(3) r(1) show "n \<le> 255" by (simp add: ULL_PHY_PACKET_MAX_def)
  show "n = ?n" "n \<le> capacity" "crc_init \<le> 0xffffff" using r g by simp_all
  show "out' = packet_image aa crc_init channel phy pdu @ drop n out"
    using r by (simp add: memcpy_at_0)
qed

lemma packet_receive_image:
  assumes "crc_init \<le> 0xffffff"
  shows "packet_receive crc_init channel phy (packet_image aa crc_init channel phy pdu) = Some pdu"
proof -
  have "crc24 crc_init (pdu @ crc24_bytes (crc24 crc_init pdu)) = 0"
    using crc24_residue [OF crc24_state_crc [OF crc24_state_init [OF assms]]]
    by (simp add: crc24_def)
  then show ?thesis
    by (simp add: packet_receive_def packet_image_def whitening.run_run)
qed

lemma crc24_detects_update:
  assumes "crc24_state c" and "k < length bs" and "a \<noteq> bs ! k"
  shows "crc24 c (bs[k := a]) \<noteq> crc24 c bs"
  using crc24_detects_byte [OF assms(1,3), of "take k bs" "drop (Suc k) bs"] assms(2)
  by (simp add: upd_conv_take_nth_drop flip: id_take_nth_drop)

section \<open>Properties\<close>

text \<open>C2: a packet is received as it was built. The receiver finds the access address behind the
  preamble, and removing the whitening and checking the CRC gives exactly the PDU; the packet has at
  most 255 bytes, stays inside the buffer and leaves the bytes behind it alone.\<close>

theorem packet_roundtrip:
  assumes "ull_phy_packet_build (Some out) capacity True aa crc_init channel phy (Some pdu) = Some (out', n)"
    and "capacity \<le> length out"
  shows "packet_receive crc_init channel phy (take n out') = Some pdu \<and>
    get32 out' (unat phy) = aa \<and> n = unat phy + length pdu + 7 \<and> n \<le> 255 \<and> n \<le> capacity \<and>
    length out' = length out \<and> drop n out' = drop n out"
proof -
  note b = packet_build_image [OF assms]
  have "n = length (packet_image aa crc_init channel phy pdu)" using b(1) by simp
  then have t: "take n out' = packet_image aa crc_init channel phy pdu" using b(5) by simp
  have "get32 out' (unat phy) = get32 (block (unat phy) 4 out') 0"
    by (rule get32_at) (use b assms(2) in simp)
  also have "block (unat phy) 4 out' = put32 aa"
    unfolding b(5) packet_image_def by (simp add: block_def)
  finally have "get32 out' (unat phy) = aa" by (simp add: get32_put32)
  then show ?thesis
    using t packet_receive_image [OF b(4)] b assms(2) by simp
qed

lemma ex_packet_built:
  "\<exists>out' n. ull_phy_packet_build (Some (replicate 20 0)) 20 True 0x71764129 0x555555 37 2 (Some [2, 3, 7, 8, 9])
     = Some (out', n)"
  by (simp add: ull_phy_packet_build_def ULL_PHY_PACKET_MAX_def Let_def)

theorem packet_roundtrip_witness:
  "\<exists>out'. ull_phy_packet_build (Some (replicate 20 0)) 20 True 0x71764129 0x555555 37 2 (Some [2, 3, 7, 8, 9])
     = Some (out', 14) \<and> packet_receive 0x555555 37 2 (take 14 out') = Some [2, 3, 7, 8, 9]"
proof -
  obtain out' n where b: "ull_phy_packet_build (Some (replicate 20 0)) 20 True 0x71764129 0x555555 37 2
      (Some [2, 3, 7, 8, 9]) = Some (out', n)" using ex_packet_built by blast
  have "n = 14" using packet_build_image(1) [OF b] by simp
  with b packet_roundtrip [OF b] show ?thesis by auto
qed

text \<open>C8: a corrupted byte is always detected. Whichever byte of the whitened PDU or CRC of a built
  packet is replaced by another value on the air, the receiver rejects the packet.\<close>

theorem packet_corruption_rejected:
  assumes "ull_phy_packet_build (Some out) capacity True aa crc_init channel phy (Some pdu) = Some (out', n)"
    and "capacity \<le> length out" and "unat phy + 4 \<le> i" and "i < n" and "x \<noteq> out' ! i"
  shows "packet_receive crc_init channel phy ((take n out')[i := x]) = None"
proof -
  note b = packet_build_image [OF assms(1,2)]
  let ?body = "pdu @ crc24_bytes (crc24 crc_init pdu)"
  let ?w = "whiten_bytes (channel OR 0x40) ?body"
  let ?k = "i - (unat phy + 4)"
  have n: "n = length (packet_image aa crc_init channel phy pdu)" using b(1) by simp
  have t: "take n out' = packet_image aa crc_init channel phy pdu" using b(5) n by simp
  have k: "?k < length ?body" using assms(3,4) b(1) by simp
  have far: "\<not> i - unat phy < 4" using assms(3) by linarith
  then have w: "drop (unat phy + 4) ((take n out')[i := x]) = ?w[?k := x]"
    using assms(3) unfolding t by (simp add: packet_image_def drop_update_swap list_update_append)
  have old: "out' ! i = ?w ! ?k"
  proof -
    have "out' ! i = take n out' ! i" using assms(4) by simp
    then show ?thesis using assms(3) far unfolding t by (simp add: packet_image_def nth_append)
  qed
  have "x \<noteq> ?w ! ?k" using assms(5) old by simp
  from whitening.run_corrupt [OF k this] obtain a where a: "a \<noteq> ?body ! ?k"
    and recv: "whiten_bytes (channel OR 0x40) (?w[?k := x]) = ?body[?k := a]" by blast
  have "crc24 crc_init ?body = 0"
    using crc24_residue [OF crc24_state_crc [OF crc24_state_init [OF b(4)]]] by (simp add: crc24_def)
  then have "crc24 crc_init (?body[?k := a]) \<noteq> 0"
    using crc24_detects_update [OF crc24_state_init [OF b(4)] k a] by (rule subst)
  then show ?thesis by (simp add: packet_receive_def w recv)
qed

theorem packet_corruption_rejected_witness:
  "\<exists>out'. ull_phy_packet_build (Some (replicate 20 0)) 20 True 0x71764129 0x555555 37 2 (Some [2, 3, 7, 8, 9])
     = Some (out', 14) \<and> packet_receive 0x555555 37 2 ((take 14 out')[9 := out' ! 9 XOR 1]) = None"
proof -
  obtain out' n where b: "ull_phy_packet_build (Some (replicate 20 0)) 20 True 0x71764129 0x555555 37 2
      (Some [2, 3, 7, 8, 9]) = Some (out', n)" using ex_packet_built by blast
  have "n = 14" using packet_build_image(1) [OF b] by simp
  moreover have "out' ! 9 XOR 1 \<noteq> out' ! 9"
    by (metis xor_left_cancel xor.right_neutral xor.commute zero_neq_one)
  ultimately show ?thesis using b packet_corruption_rejected [OF b, of 9 "out' ! 9 XOR 1"] by simp
qed

text \<open>The whitening of an embedded packet cancels the radio's own. Behind any two header bytes
  the whitened bytes, whitened again by the hardware for the same channel, are the bytes the caller
  gave; applying the function twice restores its input.\<close>

theorem outer_whitening_cancels:
  assumes "ull_phy_outer_whitening (Some bs) channel = Some bs'"
  shows "drop 2 (whiten_bytes (channel OR 0x40) (h0 # h1 # bs')) = bs \<and>
    ull_phy_outer_whitening (Some bs') channel = Some bs \<and> length bs' = length bs \<and> length bs \<le> 255"
proof -
  let ?s = "whiten_skip (whiten_skip (channel OR 0x40))"
  from assms have "length bs \<le> 255" "\<not> channel > 39" and bs': "bs' = whiten_bytes ?s bs"
    by (auto simp: ull_phy_outer_whitening_def ULL_PHY_PACKET_MAX_def split: if_splits)
  moreover have "drop 2 (whiten_bytes (channel OR 0x40) (h0 # h1 # bs')) = whiten_bytes ?s bs'"
    by (simp add: whitening.step split: prod.split)
  ultimately show ?thesis
    by (simp add: ull_phy_outer_whitening_def ULL_PHY_PACKET_MAX_def whitening.run_run whitening.run_length)
qed

theorem outer_whitening_cancels_witness:
  "\<exists>bs'. ull_phy_outer_whitening (Some [1, 2, 3]) 12 = Some bs' \<and>
     drop 2 (whiten_bytes (12 OR 0x40) (2 # 3 # bs')) = [1, 2, 3]"
proof -
  obtain bs' where b: "ull_phy_outer_whitening (Some [1, 2, 3]) 12 = Some bs'"
    by (simp add: ull_phy_outer_whitening_def ULL_PHY_PACKET_MAX_def)
  then show ?thesis using outer_whitening_cancels [OF b] by blast
qed

text \<open>The start of the wrapping packet is exact. For a valid clock reading the wrapper starts 56
  microseconds (1M) or 32 microseconds (2M) earlier on the wrapping clock, as a normalised reading.\<close>

theorem dtm_start_exact:
  assumes "hs \<le> CLOCK_MASK" and "hus \<le> 624" and "phy = 1 \<or> phy = 2"
  shows "\<exists>ohs ohus. ull_phy_dtm_start hs hus phy True = Some (ohs, ohus) \<and> ohs \<le> CLOCK_MASK \<and> ohus \<le> 624 \<and>
    (clock_pos ohs ohus + (if phy = 1 then 112 else 64)) mod CLOCK_SPAN = clock_pos hs hus"
proof -
  define d :: nat where "d = (if phy = 1 then 112 else 64)"
  have d: "d = 112 \<or> d = 64" by (simp add: d_def)
  have b: "unat hs \<le> 268435455" "unat hus \<le> 624"
    using assms(1,2) by (simp_all add: CLOCK_MASK_def word_le_nat_alt)
  have guard: "ull_phy_dtm_start hs hus phy True =
      (if unat hus < d then Some ((hs - 1) AND CLOCK_MASK, word_of_int (int (unat hus) - int d + 625))
       else Some (hs, word_of_int (int (unat hus) - int d)))"
    using assms by (auto simp: ull_phy_dtm_start_def d_def not_less Let_def simp del: of_nat_unat)
  show ?thesis
  proof (cases "unat hus < d")
    case False
    then have "word_of_int (int (unat hus) - int d) = (of_nat (unat hus - d) :: u16)"
      by (simp add: of_nat_diff not_less)
    moreover have "unat (of_nat (unat hus - d) :: u16) = unat hus - d"
      using b by (simp add: unat_of_nat)
    ultimately show ?thesis
      using False b assms(1) guard by (simp add: clock_pos_def CLOCK_SPAN_def word_le_nat_alt flip: d_def)
  next
    case True
    let ?ohs = "(hs - 1) AND CLOCK_MASK"
    have "word_of_int (int (unat hus) - int d + 625) = (of_nat (unat hus + 625 - d) :: u16)"
      using d by auto
    moreover have hus: "unat (of_nat (unat hus + 625 - d) :: u16) = unat hus + 625 - d"
      using b by (simp add: unat_of_nat)
    moreover have hs: "unat ?ohs = (unat hs + 268435455) mod 268435456"
    proof -
      have "unat ?ohs = unat (hs - 1) mod 268435456" by (simp add: clock_mask(1) unat_and_mask)
      also have "\<dots> = (unat hs + 268435455) mod 268435456"
      proof (cases "unat hs = 0")
        case True
        then show ?thesis by (simp add: unat_sub_u32)
      next
        case False
        then have "unat (hs - 1) = unat hs - 1" using b by (simp add: unat_sub_u32 mod_if)
        moreover have "unat hs + 268435455 = unat hs - 1 + 268435456" using False by simp
        ultimately show ?thesis by (simp only: mod_add_self2)
      qed
      finally show ?thesis .
    qed
    moreover have "(unat ?ohs * 625 + (unat hus + 625 - d) + d) mod CLOCK_SPAN = unat hs * 625 + unat hus"
    proof -
      have "unat ?ohs * 625 + (unat hus + 625 - d) + d = unat ?ohs * 625 + 625 + unat hus" using d by auto
      also have "\<dots> mod CLOCK_SPAN = unat hs * 625 + unat hus"
      proof (cases "unat hs = 0")
        case True
        then show ?thesis using b unfolding hs by (simp add: CLOCK_SPAN_def)
      next
        case False
        then have "unat ?ohs = unat hs - 1" using b unfolding hs by (simp add: mod_if)
        then show ?thesis using False b by (simp add: CLOCK_SPAN_def algebra_simps)
      qed
      finally show ?thesis .
    qed
    moreover have "?ohs \<le> CLOCK_MASK" by (rule word_and_le1)
    moreover have "(of_nat (unat hus + 625 - d) :: u16) \<le> 624"
      using hus b d True by (simp add: word_le_nat_alt)
    ultimately show ?thesis using True guard by (simp add: clock_pos_def flip: d_def)
  qed
qed

theorem dtm_start_exact_witness:
  "\<exists>ohs ohus. ull_phy_dtm_start 0 100 1 True = Some (ohs, ohus) \<and> (clock_pos ohs ohus + 112) mod CLOCK_SPAN = 100"
  using dtm_start_exact [of 0 100 1] by (auto simp: CLOCK_MASK_def clock_pos_def)

end
