(* ===== verification/ParentAck.thy ===== *)
theory ParentAck
  imports Prelude
begin

text \<open>
  Model of \<^verbatim>\<open>firmware/radio/src/parent_ack.c\<close> and \<^verbatim>\<open>parent_ack.h\<close>: the one-bit
  acknowledgement (SN/NESN) of parent link-layer PDUs that are carried over Air after the parent
  connection has been retired. The header of a PDU has the LLID in bits 0-1, NESN in bit 2 and SN in
  bit 3. The counters are \<^verbatim>\<open>unsigned\<close>, 32 bits wide. A payload pointer is an option; the
  length is a separate argument, as in the code.
\<close>

section \<open>Known scalars\<close>

definition ull_parent_ack_wheel :: "bytes option \<Rightarrow> nat \<Rightarrow> bool" where
  "ull_parent_ack_wheel p n = (case p of None \<Rightarrow> False | Some p \<Rightarrow>
     n = 6 \<and> p ! 0 = 10 \<and> p ! 1 = 1 \<and> p ! 2 = 0 \<and> p ! 4 = 0 \<and>
     (((p ! 3 = 1 \<or> p ! 3 = 2) \<and> p ! 5 = 2) \<or> (p ! 3 = 3 \<and> p ! 5 \<le> 100)))"

definition ull_parent_ack_media :: "bytes option \<Rightarrow> nat \<Rightarrow> bool" where
  "ull_parent_ack_media p n = (case p of None \<Rightarrow> False | Some p \<Rightarrow> n = 2 \<and> p ! 0 = 13)"

definition ull_parent_ack_mic :: "bytes option \<Rightarrow> nat \<Rightarrow> bool" where
  "ull_parent_ack_mic p n = (case p of None \<Rightarrow> False | Some p \<Rightarrow>
     n = 3 \<and> (p ! 0 = 5 \<or> p ! 0 = 6) \<and> p ! 1 = 2 \<and> p ! 2 = 0)"

section \<open>State and operations\<close>

record ull_parent_ack =
  active :: bool
  tx_sn :: u8
  rx_nesn :: u8
  accepted :: u32
  duplicates :: u32
  empty :: u32
  acked :: u32
  rejected :: u32
  stale :: u32

definition ull_parent_ack_reset :: ull_parent_ack where
  "ull_parent_ack_reset = \<lparr>active = False, tx_sn = 0, rx_nesn = 0, accepted = 0, duplicates = 0,
     empty = 0, acked = 0, rejected = 0, stale = 0\<rparr>"

definition ull_parent_ack_header :: "ull_parent_ack \<Rightarrow> u8" where
  "ull_parent_ack_header s =
     (if active s then 1 OR push_bit 3 (tx_sn s) OR push_bit 2 (rx_nesn s) else 0)"

text \<open>The four shapes the code names \<open>empty\<close>, \<open>wheel\<close>, \<open>media\<close> and \<open>mic\<close>.\<close>

definition pdu_empty :: "u8 \<Rightarrow> nat \<Rightarrow> bool" where
  "pdu_empty h n \<longleftrightarrow> h AND 3 = 1 \<and> n = 0"

definition pdu_wheel :: "u8 \<Rightarrow> bytes option \<Rightarrow> nat \<Rightarrow> bool" where
  "pdu_wheel h p n = (h AND 3 = 2 \<and> n = 10 \<and> (case p of None \<Rightarrow> False | Some b \<Rightarrow>
     b ! 0 = 6 \<and> b ! 1 = 0 \<and> b ! 2 = 1 \<and> b ! 3 = 1 \<and> ull_parent_ack_wheel (Some (drop 4 b)) 6))"

definition pdu_media :: "u8 \<Rightarrow> bytes option \<Rightarrow> nat \<Rightarrow> bool" where
  "pdu_media h p n = (h AND 3 = 2 \<and> n = 6 \<and> (case p of None \<Rightarrow> False | Some b \<Rightarrow>
     b ! 0 = 2 \<and> b ! 1 = 0 \<and> b ! 2 = 1 \<and> b ! 3 = 1 \<and> ull_parent_ack_media (Some (drop 4 b)) 2))"

definition pdu_mic :: "u8 \<Rightarrow> bytes option \<Rightarrow> nat \<Rightarrow> bool" where
  "pdu_mic h p n = (h AND 3 = 2 \<and> n = 7 \<and> (case p of None \<Rightarrow> False | Some b \<Rightarrow>
     b ! 0 = 3 \<and> b ! 1 = 0 \<and> b ! 2 = 1 \<and> b ! 3 = 1 \<and> ull_parent_ack_mic (Some (drop 4 b)) 3))"

definition pdu_data :: "u8 \<Rightarrow> bytes option \<Rightarrow> nat \<Rightarrow> bool" where
  "pdu_data h p n \<longleftrightarrow> pdu_wheel h p n \<or> pdu_media h p n \<or> pdu_mic h p n"

definition hdr_nesn :: "u8 \<Rightarrow> u8" where "hdr_nesn h = drop_bit 2 h AND 1"
definition hdr_sn :: "u8 \<Rightarrow> u8" where "hdr_sn h = drop_bit 3 h AND 1"

text \<open>An acknowledgement of our PDU is independent of what the peer's PDU carries.\<close>

definition note_ack :: "ull_parent_ack \<Rightarrow> u8 \<Rightarrow> ull_parent_ack" where
  "note_ack s h = (if hdr_nesn h \<noteq> tx_sn s then s\<lparr>tx_sn := tx_sn s XOR 1, acked := acked s + 1\<rparr> else s)"

definition ull_parent_ack_receive :: "ull_parent_ack \<Rightarrow> u8 \<Rightarrow> bytes option \<Rightarrow> nat \<Rightarrow> u8 \<Rightarrow> nat
    \<Rightarrow> ull_parent_ack \<times> bool" where
  "ull_parent_ack_receive s h p n sent sent_length =
     (if h AND 0xe0 \<noteq> 0 \<or> h AND 3 = 0 \<or> n > 60 \<or> (n \<noteq> 0 \<and> p = None)
      then (s\<lparr>rejected := rejected s + 1\<rparr>, False)
      else if \<not> active s then
        if \<not> (pdu_data h p n \<or> pdu_empty h n) \<or> (pdu_empty h n \<and> sent \<noteq> 1) \<or>
           sent_length \<noteq> 0 \<or> (sent \<noteq> 0 \<and> sent \<noteq> 1) \<or> (sent = 1 \<and> hdr_nesn h \<noteq> 1)
        then (s\<lparr>rejected := rejected s + 1\<rparr>, False)
        else
          let s = s\<lparr>active := True, tx_sn := hdr_nesn h, rx_nesn := hdr_sn h XOR 1\<rparr> in
          (if pdu_empty h n then s\<lparr>empty := empty s + 1\<rparr> else s\<lparr>accepted := accepted s + 1\<rparr>, True)
      else if sent_length \<noteq> 0 \<or> sent \<noteq> ull_parent_ack_header s
      then (s\<lparr>stale := stale s + 1\<rparr>, False)
      else
        let s = note_ack s h in
        if hdr_sn h \<noteq> rx_nesn s then (s\<lparr>duplicates := duplicates s + 1\<rparr>, True)
        else if \<not> pdu_empty h n \<and> \<not> pdu_data h p n then (s\<lparr>rejected := rejected s + 1\<rparr>, False)
        else
          let s = s\<lparr>rx_nesn := rx_nesn s XOR 1\<rparr> in
          (if pdu_data h p n then s\<lparr>accepted := accepted s + 1\<rparr> else s\<lparr>empty := empty s + 1\<rparr>, True))"

text \<open>A PDU is consumed when a call counts it as accepted or empty.\<close>

definition consumed :: "ull_parent_ack \<Rightarrow> ull_parent_ack \<Rightarrow> bool" where
  "consumed s s' \<longleftrightarrow> accepted s' \<noteq> accepted s \<or> empty s' \<noteq> empty s"

section \<open>The invariant\<close>

definition bit_ok :: "u8 \<Rightarrow> bool" where "bit_ok b \<longleftrightarrow> b = 0 \<or> b = 1"

definition ack_inv :: "ull_parent_ack \<Rightarrow> bool" where
  "ack_inv s \<longleftrightarrow> bit_ok (tx_sn s) \<and> bit_ok (rx_nesn s) \<and>
     (\<not> active s \<longrightarrow> tx_sn s = 0 \<and> rx_nesn s = 0 \<and> accepted s = 0 \<and> empty s = 0 \<and> duplicates s = 0 \<and> acked s = 0)"

lemma bit_ok_and [simp]: "bit_ok (x AND 1)"
  by (simp add: bit_ok_def and_one_eq) (metis mod2_eq_if)

lemma bit_ok_hdr [simp]: "bit_ok (hdr_sn h)" "bit_ok (hdr_nesn h)"
  by (simp_all add: hdr_sn_def hdr_nesn_def)

lemma bit_ok_flip [simp]: "bit_ok b \<Longrightarrow> bit_ok (b XOR 1)"
  by (auto simp: bit_ok_def)

lemma ack_inv_reset: "ack_inv ull_parent_ack_reset"
  by (simp add: ack_inv_def ull_parent_ack_reset_def bit_ok_def)

text \<open>The outcomes of a call, each with its condition and its effect.\<close>

definition pdu_known :: "u8 \<Rightarrow> bytes option \<Rightarrow> nat \<Rightarrow> bool" where
  "pdu_known h p n \<longleftrightarrow> pdu_empty h n \<or> pdu_data h p n"

definition count_fresh :: "u8 \<Rightarrow> bytes option \<Rightarrow> nat \<Rightarrow> ull_parent_ack \<Rightarrow> ull_parent_ack" where
  "count_fresh h p n s =
     (if pdu_data h p n then s\<lparr>accepted := accepted s + 1\<rparr> else s\<lparr>empty := empty s + 1\<rparr>)"

lemma pdu_kinds: "pdu_empty h n \<Longrightarrow> \<not> pdu_data h p n"
  by (auto simp: pdu_empty_def pdu_data_def pdu_wheel_def pdu_media_def pdu_mic_def)

lemma receive_cases:
  obtains
    (refused) "ull_parent_ack_receive s h p n sent len = (s\<lparr>rejected := rejected s + 1\<rparr>, False)"
  | (bootstrap) "\<not> active s" "pdu_known h p n" "len = 0" "sent = 0 \<or> sent = 1" "sent = 1 \<longrightarrow> hdr_nesn h = 1"
      "ull_parent_ack_receive s h p n sent len =
        (count_fresh h p n (s\<lparr>active := True, tx_sn := hdr_nesn h, rx_nesn := hdr_sn h XOR 1\<rparr>), True)"
  | (old) "active s" "ull_parent_ack_receive s h p n sent len = (s\<lparr>stale := stale s + 1\<rparr>, False)"
  | (dup) "active s" "sent = ull_parent_ack_header s" "hdr_sn h \<noteq> rx_nesn s"
      "ull_parent_ack_receive s h p n sent len =
        ((note_ack s h)\<lparr>duplicates := duplicates (note_ack s h) + 1\<rparr>, True)"
  | (unknown) "active s" "sent = ull_parent_ack_header s" "hdr_sn h = rx_nesn s" "\<not> pdu_known h p n"
      "ull_parent_ack_receive s h p n sent len =
        ((note_ack s h)\<lparr>rejected := rejected (note_ack s h) + 1\<rparr>, False)"
  | (fresh) "active s" "sent = ull_parent_ack_header s" "hdr_sn h = rx_nesn s" "pdu_known h p n"
      "ull_parent_ack_receive s h p n sent len =
        (count_fresh h p n ((note_ack s h)\<lparr>rx_nesn := rx_nesn s XOR 1\<rparr>), True)"
proof -
  have rx: "rx_nesn (note_ack s h) = rx_nesn s" by (simp add: note_ack_def)
  consider (a) "h AND 0xe0 \<noteq> 0 \<or> h AND 3 = 0 \<or> n > 60 \<or> (n \<noteq> 0 \<and> p = None)"
    | (b) "\<not> (h AND 0xe0 \<noteq> 0 \<or> h AND 3 = 0 \<or> n > 60 \<or> (n \<noteq> 0 \<and> p = None))" "\<not> active s"
    | (c) "\<not> (h AND 0xe0 \<noteq> 0 \<or> h AND 3 = 0 \<or> n > 60 \<or> (n \<noteq> 0 \<and> p = None))" "active s"
    by blast
  then show thesis
  proof cases
    case a
    then have "ull_parent_ack_receive s h p n sent len = (s\<lparr>rejected := rejected s + 1\<rparr>, False)"
      unfolding ull_parent_ack_receive_def by (simp only: if_True)
    then show thesis by (rule refused)
  next
    case b
    let ?bad = "\<not> (pdu_data h p n \<or> pdu_empty h n) \<or> (pdu_empty h n \<and> sent \<noteq> 1) \<or>
           len \<noteq> 0 \<or> (sent \<noteq> 0 \<and> sent \<noteq> 1) \<or> (sent = 1 \<and> hdr_nesn h \<noteq> 1)"
    show thesis
    proof (cases ?bad)
      case True
      then have "ull_parent_ack_receive s h p n sent len = (s\<lparr>rejected := rejected s + 1\<rparr>, False)"
        unfolding ull_parent_ack_receive_def by (simp only: b if_True if_False not_False_eq_True)
      then show thesis by (rule refused)
    next
      case False
      then have "ull_parent_ack_receive s h p n sent len =
        (count_fresh h p n (s\<lparr>active := True, tx_sn := hdr_nesn h, rx_nesn := hdr_sn h XOR 1\<rparr>), True)"
        using pdu_kinds [of h n p] unfolding ull_parent_ack_receive_def count_fresh_def Let_def
        by (simp only: b if_False if_True not_False_eq_True) auto
      moreover from False have "pdu_known h p n" "len = 0" "sent = 0 \<or> sent = 1" "sent = 1 \<longrightarrow> hdr_nesn h = 1"
        by (auto simp: pdu_known_def)
      ultimately show thesis using b(2) bootstrap by blast
    qed
  next
    case c
    show thesis
    proof (cases "len \<noteq> 0 \<or> sent \<noteq> ull_parent_ack_header s")
      case True
      then have "ull_parent_ack_receive s h p n sent len = (s\<lparr>stale := stale s + 1\<rparr>, False)"
        unfolding ull_parent_ack_receive_def by (simp only: c if_True if_False not_True_eq_False)
      then show thesis using old c(2) by blast
    next
      case False
      then have r: "ull_parent_ack_receive s h p n sent len =
       (let s = note_ack s h in
        if hdr_sn h \<noteq> rx_nesn s then (s\<lparr>duplicates := duplicates s + 1\<rparr>, True)
        else if \<not> pdu_empty h n \<and> \<not> pdu_data h p n then (s\<lparr>rejected := rejected s + 1\<rparr>, False)
        else
          let s = s\<lparr>rx_nesn := rx_nesn s XOR 1\<rparr> in
          (if pdu_data h p n then s\<lparr>accepted := accepted s + 1\<rparr> else s\<lparr>empty := empty s + 1\<rparr>, True))"
        unfolding ull_parent_ack_receive_def by (simp only: c if_True if_False not_True_eq_False)
      have sent: "sent = ull_parent_ack_header s" using False by blast
      consider (1) "hdr_sn h \<noteq> rx_nesn s" | (2) "hdr_sn h = rx_nesn s" "\<not> pdu_known h p n"
        | (3) "hdr_sn h = rx_nesn s" "pdu_known h p n" by blast
      then show thesis
      proof cases
        case 1
        then have "ull_parent_ack_receive s h p n sent len =
            ((note_ack s h)\<lparr>duplicates := duplicates (note_ack s h) + 1\<rparr>, True)"
          unfolding r Let_def rx by (simp only: if_True not_False_eq_True)
        then show thesis using dup c(2) sent 1 by blast
      next
        case 2
        then have "ull_parent_ack_receive s h p n sent len =
            ((note_ack s h)\<lparr>rejected := rejected (note_ack s h) + 1\<rparr>, False)"
          unfolding r Let_def rx pdu_known_def by simp
        then show thesis using unknown c(2) sent 2 by blast
      next
        case 3
        then have "ull_parent_ack_receive s h p n sent len =
            (count_fresh h p n ((note_ack s h)\<lparr>rx_nesn := rx_nesn s XOR 1\<rparr>), True)"
          unfolding r Let_def rx pdu_known_def count_fresh_def by auto
        then show thesis using fresh c(2) sent 3 by blast
      qed
    qed
  qed
qed

lemma ack_inv_receive: "ack_inv s \<Longrightarrow> ack_inv (fst (ull_parent_ack_receive s h p n sent len))"
  by (rule receive_cases [of s h p n sent len]) (auto simp: ack_inv_def note_ack_def count_fresh_def)

section \<open>The peer and the channel\<close>

text \<open>
  The peer runs the stop-and-wait protocol of the link layer (Core 5.4, Vol 6, Part B, 4.5.9) over a
  sequence of PDUs, each an LLID and a payload. In an exchange we send a header (none before the
  connection is known, or the one empty poll; afterwards the current header or none), the peer may
  or may not hear it, and its answer with the current PDU may or may not arrive. The log collects the
  PDUs that a call consumed.
\<close>

record peer =
  pr_sn :: u8
  pr_nesn :: u8
  pr_next :: nat

definition peer_receive :: "u8 \<Rightarrow> peer \<Rightarrow> peer" where
  "peer_receive h p =
     (if h AND 3 = 0 then p
      else
        let p = (if hdr_nesn h \<noteq> pr_sn p then p\<lparr>pr_sn := pr_sn p XOR 1, pr_next := pr_next p + 1\<rparr> else p) in
        if hdr_sn h = pr_nesn p then p\<lparr>pr_nesn := pr_nesn p XOR 1\<rparr> else p)"

definition peer_header :: "u8 \<Rightarrow> bool \<Rightarrow> peer \<Rightarrow> u8" where
  "peer_header llid md p =
     (llid AND 3) OR push_bit 2 (pr_nesn p) OR push_bit 3 (pr_sn p) OR (if md then 16 else 0)"

record link =
  lk_us :: ull_parent_ack
  lk_peer :: peer
  lk_log :: "(u8 \<times> bytes) list"

definition may_send :: "ull_parent_ack \<Rightarrow> u8 \<Rightarrow> bool" where
  "may_send s h \<longleftrightarrow> h = 0 \<or> h = (if active s then ull_parent_ack_header s else 1)"

definition answer :: "(u8 \<times> bytes) \<Rightarrow> bool \<Rightarrow> u8 \<Rightarrow> link \<Rightarrow> link" where
  "answer pdu md sent l =
     (let us = fst (ull_parent_ack_receive (lk_us l) (peer_header (fst pdu) md (lk_peer l))
                  (Some (snd pdu)) (length (snd pdu)) sent 0)
      in l\<lparr>lk_us := us, lk_log := (if consumed (lk_us l) us then lk_log l @ [pdu] else lk_log l)\<rparr>)"

definition hears :: "u8 \<Rightarrow> bool \<Rightarrow> link \<Rightarrow> link" where
  "hears sent heard l = (if heard then l\<lparr>lk_peer := peer_receive sent (lk_peer l)\<rparr> else l)"

inductive link_step :: "(nat \<Rightarrow> u8 \<times> bytes) \<Rightarrow> link \<Rightarrow> link \<Rightarrow> bool" for pdus where
  lost: "may_send (lk_us l) sent \<Longrightarrow> link_step pdus l (hears sent heard l)"
| answered: "may_send (lk_us l) sent \<Longrightarrow> l' = hears sent heard l \<Longrightarrow>
    link_step pdus l (answer (pdus (pr_next (lk_peer l'))) md sent l')"

inductive link_reachable :: "(nat \<Rightarrow> u8 \<times> bytes) \<Rightarrow> link \<Rightarrow> bool" for pdus where
  start: "bit_ok (pr_sn p) \<Longrightarrow> bit_ok (pr_nesn p) \<Longrightarrow>
    link_reachable pdus \<lparr>lk_us = ull_parent_ack_reset, lk_peer = p, lk_log = []\<rparr>"
| step: "link_reachable pdus l \<Longrightarrow> link_step pdus l l' \<Longrightarrow> link_reachable pdus l'"

inductive_cases link_stepE: "link_step pdus l l'"

lemma bit_ok_cases: "bit_ok b \<Longrightarrow> (b = 0 \<Longrightarrow> P) \<Longrightarrow> (b = 1 \<Longrightarrow> P) \<Longrightarrow> P"
  by (auto simp: bit_ok_def)

lemma header_bits:
  assumes "ack_inv s" and "active s"
  shows "hdr_sn (ull_parent_ack_header s) = tx_sn s" and "hdr_nesn (ull_parent_ack_header s) = rx_nesn s"
    and "ull_parent_ack_header s AND 3 = 1"
  using assms by (auto simp: ack_inv_def ull_parent_ack_header_def hdr_sn_def hdr_nesn_def elim!: bit_ok_cases)

lemma peer_header_bits:
  assumes "bit_ok (pr_sn p)" and "bit_ok (pr_nesn p)"
  shows "hdr_sn (peer_header llid md p) = pr_sn p" and "hdr_nesn (peer_header llid md p) = pr_nesn p"
    and "peer_header llid md p AND 3 = llid AND 3" and "peer_header llid md p AND 0xe0 = 0"
proof -
  have "unat (llid AND 3) < 4"
  proof -
    have "(3 :: u8) = mask 2" by (simp add: mask_eq_exp_minus_1)
    then show ?thesis by (simp only: unat_and_mask) simp
  qed
  then have "llid AND 3 \<in> {0, 1, 2, 3}" by (rule u8_less_4)
  with assms show "hdr_sn (peer_header llid md p) = pr_sn p" "hdr_nesn (peer_header llid md p) = pr_nesn p"
    "peer_header llid md p AND 3 = llid AND 3" "peer_header llid md p AND 0xe0 = 0"
    by (auto simp: peer_header_def hdr_sn_def hdr_nesn_def elim!: bit_ok_cases)
qed

text \<open>How far the peer has come, and what has been consumed of its PDUs.\<close>

definition link_position :: "link \<Rightarrow> nat" where
  "link_position l = (if rx_nesn (lk_us l) = pr_sn (lk_peer l) then pr_next (lk_peer l) else pr_next (lk_peer l) + 1)"

definition link_inv :: "(nat \<Rightarrow> u8 \<times> bytes) \<Rightarrow> link \<Rightarrow> bool" where
  "link_inv pdus l \<longleftrightarrow> ack_inv (lk_us l) \<and> bit_ok (pr_sn (lk_peer l)) \<and> bit_ok (pr_nesn (lk_peer l)) \<and>
     (if active (lk_us l)
      then length (lk_log l) \<le> link_position l \<and>
        lk_log l = map pdus [link_position l - length (lk_log l) ..< link_position l]
      else lk_log l = [])"

lemma peer_receive_bits: "bit_ok (pr_sn p) \<Longrightarrow> bit_ok (pr_nesn p) \<Longrightarrow>
    bit_ok (pr_sn (peer_receive h p)) \<and> bit_ok (pr_nesn (peer_receive h p))"
  by (simp add: peer_receive_def Let_def)

lemma hears_position:
  assumes "link_inv pdus l" and "may_send (lk_us l) sent" and "active (lk_us l)"
  shows "link_position (hears sent heard l) = link_position l"
proof (cases "heard \<and> sent \<noteq> 0")
  case True
  then have sent: "sent = ull_parent_ack_header (lk_us l)" using assms(2,3) by (simp add: may_send_def)
  have inv: "ack_inv (lk_us l)" "bit_ok (pr_sn (lk_peer l))" using assms(1) by (simp_all add: link_inv_def)
  note h = header_bits [OF inv(1) assms(3), folded sent]
  have "bit_ok (rx_nesn (lk_us l))" using inv by (simp add: ack_inv_def)
  then show ?thesis
    using True h inv(2)
    by (auto simp: hears_def link_position_def peer_receive_def Let_def elim!: bit_ok_cases)
next
  case False
  then show ?thesis by (auto simp: hears_def peer_receive_def)
qed

lemma hears_inv:
  assumes "link_inv pdus l" and "may_send (lk_us l) sent"
  shows "link_inv pdus (hears sent heard l)"
proof -
  have p: "bit_ok (pr_sn (lk_peer (hears sent heard l)))" "bit_ok (pr_nesn (lk_peer (hears sent heard l)))"
    using assms(1) peer_receive_bits by (simp_all add: hears_def link_inv_def)
  have us: "lk_us (hears sent heard l) = lk_us l" "lk_log (hears sent heard l) = lk_log l"
    by (simp_all add: hears_def)
  show ?thesis
  proof (cases "active (lk_us l)")
    case True
    from hears_position [OF assms True] show ?thesis
      using assms(1) True p us by (simp add: link_inv_def)
  next
    case False
    then show ?thesis using assms(1) p us by (simp add: link_inv_def)
  qed
qed

lemma note_ack_simps [simp]:
  "rx_nesn (note_ack s h) = rx_nesn s" "accepted (note_ack s h) = accepted s" "empty (note_ack s h) = empty s"
  "active (note_ack s h) = active s"
  by (simp_all add: note_ack_def)

lemma link_inv_same:
  assumes "link_inv pdus l" and "ack_inv (lk_us l')" and "lk_peer l' = lk_peer l" and "lk_log l' = lk_log l"
    and "rx_nesn (lk_us l') = rx_nesn (lk_us l)" and "active (lk_us l') = active (lk_us l)"
  shows "link_inv pdus l'"
  using assms(1,2) unfolding link_inv_def link_position_def assms(3-6) by blast

lemma answer_inv:
  assumes inv: "link_inv pdus l"
  shows "link_inv pdus (answer (pdus (pr_next (lk_peer l))) md sent l)"
proof -
  let ?pdu = "pdus (pr_next (lk_peer l))"
  let ?h = "peer_header (fst ?pdu) md (lk_peer l)" and ?n = "length (snd ?pdu)"
  let ?us = "fst (ull_parent_ack_receive (lk_us l) ?h (Some (snd ?pdu)) ?n sent 0)"
  let ?l = "answer ?pdu md sent l"
  have bits: "ack_inv (lk_us l)" "bit_ok (pr_sn (lk_peer l))" "bit_ok (pr_nesn (lk_peer l))"
    using inv by (simp_all add: link_inv_def)
  have l: "lk_us ?l = ?us" "lk_peer ?l = lk_peer l"
    "lk_log ?l = (if consumed (lk_us l) ?us then lk_log l @ [?pdu] else lk_log l)"
    by (simp_all add: answer_def Let_def)
  have ok: "ack_inv ?us" using bits(1) by (rule ack_inv_receive)
  have sn: "hdr_sn ?h = pr_sn (lk_peer l)" using bits peer_header_bits by blast
  show ?thesis
  proof (rule receive_cases [of "lk_us l" ?h "Some (snd ?pdu)" ?n sent 0], goal_cases)
    case 1 \<comment> \<open>refused\<close>
    then show ?case using l ok by (intro link_inv_same [OF inv]) (simp_all add: consumed_def)
  next
    case 2 \<comment> \<open>bootstrap\<close>
    then have "lk_log l = []" using inv by (simp add: link_inv_def)
    moreover have "rx_nesn ?us \<noteq> pr_sn (lk_peer l)" "active ?us" "consumed (lk_us l) ?us"
      using 2 sn bits(2) by (auto simp: count_fresh_def consumed_def elim!: bit_ok_cases)
    ultimately show ?case using ok l bits by (simp add: link_inv_def link_position_def)
  next
    case 3 \<comment> \<open>stale\<close>
    then show ?case using l ok by (intro link_inv_same [OF inv]) (simp_all add: consumed_def)
  next
    case 4 \<comment> \<open>duplicate\<close>
    then show ?case using l ok by (intro link_inv_same [OF inv]) (simp_all add: consumed_def)
  next
    case 5 \<comment> \<open>unknown\<close>
    then show ?case using l ok by (intro link_inv_same [OF inv]) (simp_all add: consumed_def)
  next
    case 6 \<comment> \<open>fresh\<close>
    then have "rx_nesn ?us \<noteq> pr_sn (lk_peer l)" "active ?us" "consumed (lk_us l) ?us"
      using sn bits(2) by (auto simp: count_fresh_def consumed_def elim!: bit_ok_cases)
    moreover have "link_position l = pr_next (lk_peer l)" using 6 sn by (simp add: link_position_def)
    ultimately show ?case using inv ok l 6 bits
      by (auto simp: link_inv_def link_position_def Suc_diff_le)
  qed
qed

lemma link_step_inv: "link_step pdus l l' \<Longrightarrow> link_inv pdus l \<Longrightarrow> link_inv pdus l'"
  by (erule link_stepE) (auto intro: hears_inv answer_inv)

lemma link_reachable_inv: "link_reachable pdus l \<Longrightarrow> link_inv pdus l"
proof (induction rule: link_reachable.induct)
  case (start p)
  then show ?case using ack_inv_reset by (simp add: link_inv_def ull_parent_ack_reset_def)
next
  case (step l l')
  then show ?case using link_step_inv by blast
qed

section \<open>Properties\<close>


text \<open>A first poll that is heard and answered by an empty PDU.\<close>

definition ex_link :: link where
  "ex_link = answer (1, []) False 1 (hears 1 True
     \<lparr>lk_us = ull_parent_ack_reset, lk_peer = \<lparr>pr_sn = 0, pr_nesn = 0, pr_next = 0\<rparr>, lk_log = []\<rparr>)"

lemma ex_link_reachable: "link_reachable (\<lambda>i. (1, [])) ex_link"
proof -
  have "link_reachable (\<lambda>i. (1, [])) \<lparr>lk_us = ull_parent_ack_reset, lk_peer = \<lparr>pr_sn = 0, pr_nesn = 0, pr_next = 0\<rparr>, lk_log = []\<rparr>"
    by (rule link_reachable.start) (simp_all add: bit_ok_def)
  then show ?thesis
    unfolding ex_link_def
    by (rule link_reachable.step, intro link_step.answered [where pdus = "\<lambda>i. (1, [])", simplified])
      (simp_all add: may_send_def ull_parent_ack_reset_def)
qed

lemma ex_link_state: "active (lk_us ex_link)" "lk_log ex_link = [(1, [])]" "ull_parent_ack_header (lk_us ex_link) = 13"
  by (simp_all add: ex_link_def answer_def hears_def Let_def peer_receive_def peer_header_def
      ull_parent_ack_receive_def ull_parent_ack_reset_def consumed_def pdu_data_def pdu_empty_def
      pdu_wheel_def pdu_media_def pdu_mic_def hdr_sn_def hdr_nesn_def ull_parent_ack_header_def)


definition pdu_valid :: "u8 \<times> bytes \<Rightarrow> bool" where
  "pdu_valid pdu \<longleftrightarrow> fst pdu AND 3 \<noteq> 0 \<and> length (snd pdu) \<le> 60 \<and>
     pdu_known (fst pdu AND 3) (Some (snd pdu)) (length (snd pdu))"

lemma pdu_known_llid: "h AND 3 = h' AND 3 \<Longrightarrow> pdu_known h p n \<longleftrightarrow> pdu_known h' p n"
  by (simp add: pdu_known_def pdu_empty_def pdu_data_def pdu_wheel_def pdu_media_def pdu_mic_def)

text \<open>C25: progress. Once the connection is known, an exchange in which nothing is lost consumes
  exactly one further PDU of the peer, provided it is one of the known shapes.\<close>

theorem parent_lossless_progress:
  assumes "link_reachable pdus l" and "active (lk_us l)" and "\<forall>i. pdu_valid (pdus i)"
    and "sent = ull_parent_ack_header (lk_us l)" and "l' = hears sent True l"
  shows "lk_log (answer (pdus (pr_next (lk_peer l'))) md sent l') = lk_log l @ [pdus (pr_next (lk_peer l'))]
    \<and> pr_next (lk_peer l') = link_position l"
proof -
  let ?pdu = "pdus (pr_next (lk_peer l'))"
  let ?h = "peer_header (fst ?pdu) md (lk_peer l')"
  have inv: "link_inv pdus l" using assms(1) by (rule link_reachable_inv)
  then have ack: "ack_inv (lk_us l)" and sn: "bit_ok (pr_sn (lk_peer l))" and rx: "bit_ok (rx_nesn (lk_us l))"
    by (simp_all add: link_inv_def ack_inv_def)
  have may: "may_send (lk_us l) sent" using assms(2,4) by (simp add: may_send_def)
  have inv': "link_inv pdus l'" unfolding assms(5) using inv may by (rule hears_inv)
  note h = header_bits [OF ack assms(2), folded assms(4)]
  have same: "lk_us l' = lk_us l" "lk_log l' = lk_log l" by (simp_all add: assms(5) hears_def)
  have caught: "pr_sn (lk_peer l') = rx_nesn (lk_us l)"
    using h rx sn by (auto simp: assms(5) hears_def peer_receive_def Let_def elim!: bit_ok_cases)
  have "bit_ok (pr_sn (lk_peer l'))" "bit_ok (pr_nesn (lk_peer l'))" using inv' by (simp_all add: link_inv_def)
  note bits = peer_header_bits [OF this, of "fst ?pdu" md]
  have valid: "pdu_valid ?pdu" using assms(3) by blast
  have known: "pdu_known ?h (Some (snd ?pdu)) (length (snd ?pdu))"
    using valid pdu_known_llid [of ?h "fst ?pdu AND 3"] bits(3) by (simp add: pdu_valid_def and.assoc)
  have fine: "?h AND 3 \<noteq> 0" "\<not> length (snd ?pdu) > 60"
    using valid bits(3) by (simp_all add: pdu_valid_def)
  let ?res = "ull_parent_ack_receive (lk_us l) ?h (Some (snd ?pdu)) (length (snd ?pdu)) sent 0"
  have "consumed (lk_us l) (fst ?res)"
    by (rule receive_cases [of "lk_us l" ?h "Some (snd ?pdu)" "length (snd ?pdu)" sent 0])
      (use assms(2,4) bits(1,4) caught known fine in
        \<open>simp_all add: consumed_def count_fresh_def ull_parent_ack_receive_def Let_def pdu_known_def split: if_splits\<close>)
  then have "lk_log (answer ?pdu md sent l') = lk_log l @ [?pdu]"
    using same by (simp add: answer_def Let_def)
  moreover have "pr_next (lk_peer l') = link_position l"
    using hears_position [OF inv may assms(2), of True] caught same by (simp add: link_position_def assms(5))
  ultimately show ?thesis by blast
qed

theorem parent_lossless_progress_witness:
  "lk_log (answer (1, []) True 13 (hears 13 True ex_link)) = [(1, []), (1, [])]"
  using parent_lossless_progress [OF ex_link_reachable ex_link_state(1) _ refl refl, of True]
  by (simp add: ex_link_state pdu_valid_def pdu_known_def pdu_empty_def)

text \<open>A refused call has no effect beyond its counters. When \<open>ull_parent_ack_receive\<close> returns
  false nothing is consumed and the expected sequence bit stays; our own bit can only have advanced
  when the header that was really sent is the current one and the peer acknowledges it.\<close>

theorem parent_refusal_harmless:
  assumes "ull_parent_ack_receive s h p n sent len = (s', False)"
  shows "\<not> consumed s s' \<and> rx_nesn s' = rx_nesn s \<and> active s' = active s \<and>
    (tx_sn s' = tx_sn s \<or> (active s \<and> sent = ull_parent_ack_header s \<and> hdr_nesn h \<noteq> tx_sn s))"
  by (rule receive_cases [of s h p n sent len])
    (use assms in \<open>auto simp: consumed_def note_ack_def\<close>)

theorem parent_refusal_harmless_witness:
  "\<exists>s'. ull_parent_ack_receive ull_parent_ack_reset 1 None 0 0 0 = (s', False) \<and>
     \<not> consumed ull_parent_ack_reset s' \<and> \<not> active s'"
proof -
  obtain s' where "ull_parent_ack_receive ull_parent_ack_reset 1 None 0 0 0 = (s', False)"
    by (simp add: ull_parent_ack_receive_def ull_parent_ack_reset_def pdu_data_def pdu_empty_def
      pdu_wheel_def pdu_media_def pdu_mic_def)
  then show ?thesis using parent_refusal_harmless [of ull_parent_ack_reset 1 None 0 0 0 s']
    by (auto simp: ull_parent_ack_reset_def)
qed

end
