(* ===== verification/TonePacket.thy ===== *)
theory TonePacket
  imports AirFrame AirSession
begin

text \<open>
  Model of \<^verbatim>\<open>firmware/radio/src/tone_packet.c\<close> and \<^verbatim>\<open>tone_source.c\<close>: channel selection
  algorithm 2 with subevents, the CCM envelope with its cached session key, the stored cue and the
  assembly of Air PDUs. The AES-CCM implementation (mbedtls) and the generated table of cue frames
  are parameters: a record of the functions that are called, and a function from frame index and
  channel to bytes. \<open>Inl\<close> is a negative return; the output buffer is then unchanged.
\<close>

section \<open>Channel selection\<close>

definition permute :: "u16 \<Rightarrow> u16" where
  "permute x =
     (let x = drop_bit 1 (x AND 0xaaaa) OR push_bit 1 (x AND 0x5555);
          x = drop_bit 2 (x AND 0xcccc) OR push_bit 2 (x AND 0x3333)
      in drop_bit 4 (x AND 0xf0f0) OR push_bit 4 (x AND 0x0f0f))"

definition csa2_mam :: "u16 \<Rightarrow> u16 \<Rightarrow> u16" where
  "csa2_mam ident prn = 17 * permute prn + ident"

definition channel_used :: "bytes \<Rightarrow> nat \<Rightarrow> bool" where
  "channel_used cmap i \<longleftrightarrow> cmap ! (i div 8) AND push_bit (i mod 8) 1 \<noteq> 0"

definition csa2_channels :: "bytes \<Rightarrow> nat list" where
  "csa2_channels cmap = filter (channel_used cmap) [0..<37]"

fun position :: "nat list \<Rightarrow> nat \<Rightarrow> nat" where
  "position [] x = 0"
| "position (y # ys) x = (if y \<noteq> x then Suc (position ys x) else 0)"

definition csa2_distance :: "nat \<Rightarrow> nat" where
  "csa2_distance used =
     (let distance = 1;
          a = (if used > 5 then used - 5 else 0);
          b = (if used > 10 then (used - 10) div 2 else 0);
          a = (if a > 3 then 3 else a);
          b = (if b > 11 then 11 else b);
          distance = (if a > distance then a else distance)
      in (if b > distance then b else distance))"

definition csa2_hop :: "nat \<Rightarrow> u16 \<Rightarrow> u16 \<times> nat \<Rightarrow> u16 \<times> nat" where
  "csa2_hop used ident s =
     (let prn = csa2_mam ident (fst s);
          distance = csa2_distance used;
          width = used + 1 - 2 * distance
      in (prn, (snd s + distance + width * unat (prn XOR ident) div 65536) mod used))"

definition ull_ble_csa2_subevent :: "u32 \<Rightarrow> u16 \<Rightarrow> bytes option \<Rightarrow> u8 \<Rightarrow> bool \<Rightarrow> u8 option" where
  "ull_ble_csa2_subevent aa counter cmap subevent outs =
     (case cmap of None \<Rightarrow> None
      | Some cmap \<Rightarrow>
          if \<not> outs \<or> cmap ! 4 AND 0xe0 \<noteq> 0 \<or> subevent > 3 then None
          else
            let channels = csa2_channels cmap; used = length channels in
            if used < 2 then None
            else
              let ident = ucast (drop_bit 16 aa XOR aa);
                  prn = (csa2_mam ident ^^ 3) (counter XOR ident);
                  event_prn = prn XOR ident;
                  unmapped = unat (event_prn mod 37);
                  index = (if channel_used cmap unmapped then position channels unmapped
                           else used * unat event_prn div 65536);
                  (prn, index) = (csa2_hop used ident ^^ unat subevent) (prn, index)
              in Some (of_nat (channels ! index)))"

definition ull_ble_csa2_first :: "u32 \<Rightarrow> u16 \<Rightarrow> bytes option \<Rightarrow> bool \<Rightarrow> u8 option" where
  "ull_ble_csa2_first aa counter cmap outs = ull_ble_csa2_subevent aa counter cmap 0 outs"

section \<open>The CCM envelope\<close>

text \<open>
  The functions of the AES-CCM library: \<open>mb_setkey\<close> expands a key into a context or fails;
  encryption returns ciphertext and 4-byte tag, authenticated decryption the plaintext.
\<close>

record 'c mbedtls_ccm =
  mb_setkey :: "bytes \<Rightarrow> 'c option"
  mb_encrypt_and_tag :: "'c \<Rightarrow> bytes \<Rightarrow> u8 \<Rightarrow> bytes \<Rightarrow> (bytes \<times> bytes) option"
  mb_auth_decrypt :: "'c \<Rightarrow> bytes \<Rightarrow> u8 \<Rightarrow> bytes \<Rightarrow> bytes \<Rightarrow> bytes option"

record 'c ccm_session =
  session_ccm :: "'c option"
  session_key_le :: bytes
  session_ccm_ready :: bool

definition ull_ble_ccm_reset :: "'c ccm_session" where
  "ull_ble_ccm_reset = \<lparr>session_ccm = None, session_key_le = replicate 16 0, session_ccm_ready = False\<rparr>"

definition ccm_session_key :: "'c mbedtls_ccm \<Rightarrow> bytes \<Rightarrow> 'c ccm_session \<Rightarrow> bool \<times> 'c ccm_session" where
  "ccm_session_key mb key_le s =
     (if session_ccm_ready s \<and> session_key_le s = key_le then (True, s)
      else
        let s = ull_ble_ccm_reset; key = rev key_le in
        (case mb_setkey mb key of
           None \<Rightarrow> (False, s)
         | Some c \<Rightarrow> (True, s\<lparr>session_ccm := Some c, session_key_le := key_le, session_ccm_ready := True\<rparr>)))"

definition ccm_nonce :: "u64 \<Rightarrow> u8 \<Rightarrow> bytes \<Rightarrow> bytes" where
  "ccm_nonce counter direction iv_le =
     (let nonce = map (\<lambda>i. ucast (drop_bit (8 * i) counter)) [0..<5];
          nonce = nonce[4 := nonce ! 4 OR push_bit 7 direction]
      in nonce @ iv_le)"

datatype ccm_error = CCM_ARGUMENT | CCM_FAILED

text \<open>\<open>ptrs\<close> says that none of the pointers is NULL.\<close>

definition ull_ble_ccm_encrypt :: "'c mbedtls_ccm \<Rightarrow> bool \<Rightarrow> bytes \<Rightarrow> bytes \<Rightarrow> u64 \<Rightarrow> u8 \<Rightarrow> u8 \<Rightarrow> bytes \<Rightarrow> nat
    \<Rightarrow> 'c ccm_session \<Rightarrow> (ccm_error + bytes) \<times> 'c ccm_session" where
  "ull_ble_ccm_encrypt mb ptrs key_le iv_le counter direction aad payload capacity s =
     (if \<not> ptrs \<or> length payload = 0 \<or> length payload > 240 \<or> capacity < length payload + 4 \<or>
         counter \<ge> push_bit 39 1 \<or> direction > 1
      then (Inl CCM_ARGUMENT, s)
      else
        let nonce = ccm_nonce counter direction iv_le;
            (ok, s) = ccm_session_key mb key_le s in
        if \<not> ok then (Inl CCM_FAILED, s)
        else
          (case session_ccm s of
             None \<Rightarrow> (Inl CCM_FAILED, s)
           | Some c \<Rightarrow>
               (case mb_encrypt_and_tag mb c nonce aad payload of
                  None \<Rightarrow> (Inl CCM_FAILED, s)
                | Some (encrypted, tag) \<Rightarrow> (Inr (encrypted @ tag), s))))"

definition ull_ble_ccm_decrypt :: "'c mbedtls_ccm \<Rightarrow> bool \<Rightarrow> bytes \<Rightarrow> bytes \<Rightarrow> u64 \<Rightarrow> u8 \<Rightarrow> u8 \<Rightarrow> bytes \<Rightarrow> nat
    \<Rightarrow> 'c ccm_session \<Rightarrow> (ccm_error + bytes) \<times> 'c ccm_session" where
  "ull_ble_ccm_decrypt mb ptrs key_le iv_le counter direction aad payload capacity s =
     (if \<not> ptrs \<or> length payload < 5 \<or> length payload > 244 \<or> capacity < length payload - 4 \<or>
         counter \<ge> push_bit 39 1 \<or> direction > 1
      then (Inl CCM_ARGUMENT, s)
      else
        let nonce = ccm_nonce counter direction iv_le;
            (ok, s) = ccm_session_key mb key_le s in
        if \<not> ok then (Inl CCM_FAILED, s)
        else
          (case session_ccm s of
             None \<Rightarrow> (Inl CCM_FAILED, s)
           | Some c \<Rightarrow>
               (case mb_auth_decrypt mb c nonce aad (take (length payload - 4) payload)
                       (drop (length payload - 4) payload) of
                  None \<Rightarrow> (Inl CCM_FAILED, s)
                | Some plain \<Rightarrow> (Inr plain, s))))"

section \<open>The stored cue\<close>

definition ULL_TONE_FRAME_COUNT :: nat where "ULL_TONE_FRAME_COUNT = 201"
definition ULL_TONE_CHANNEL_BYTES :: nat where "ULL_TONE_CHANNEL_BYTES = 95"

type_synonym tone_table = "nat \<Rightarrow> nat \<Rightarrow> bytes"

definition tone_record :: "u8 \<Rightarrow> bytes option \<Rightarrow> nat \<Rightarrow> u8 \<Rightarrow> u8 \<Rightarrow> air_tx_record" where
  "tone_record stream payload len tx ack =
     \<lparr>tx_payload = payload, tx_length = len, tx_stream_id = stream, tx_sequence = tx, tx_ack = ack, tx_kind = 0\<rparr>"

definition ull_tone_build_mask :: "tone_table \<Rightarrow> nat \<Rightarrow> bytes option \<Rightarrow> bytes option \<Rightarrow> u8 \<Rightarrow> bytes option
    \<Rightarrow> nat \<Rightarrow> bool \<Rightarrow> air_frame_result + (bytes \<times> nat \<times> u8)" where
  "ull_tone_build_mask tone_frames frame_index tx_seq ack_seq active_mask aggregate capacity outs =
     (case (tx_seq, ack_seq) of
        (Some tx, Some ack) \<Rightarrow>
          if frame_index \<ge> ULL_TONE_FRAME_COUNT \<or> (active_mask \<noteq> 2 \<and> active_mask \<noteq> 4 \<and> active_mask \<noteq> 6)
          then Inl AIR_FRAME_ARGUMENT
          else
            let records =
                  [tone_record 1 (Some (tone_frames frame_index 0)) ULL_TONE_CHANNEL_BYTES (tx ! 0) (ack ! 0),
                   tone_record 2 (Some (tone_frames frame_index 1)) ULL_TONE_CHANNEL_BYTES (tx ! 1) (ack ! 1)];
                first = drop (if active_mask = 4 then 1 else 0) records
            in air_downlink_build aggregate capacity (Some (take (if active_mask = 6 then 2 else 1) first))
                 (Some [of_nat ULL_TONE_CHANNEL_BYTES]) 0 outs
      | _ \<Rightarrow> Inl AIR_FRAME_ARGUMENT)"

definition ull_tone_build :: "tone_table \<Rightarrow> nat \<Rightarrow> bytes option \<Rightarrow> bytes option \<Rightarrow> bytes option
    \<Rightarrow> nat \<Rightarrow> bool \<Rightarrow> air_frame_result + (bytes \<times> nat \<times> u8)" where
  "ull_tone_build tone_frames frame_index tx_seq ack_seq aggregate capacity outs =
     ull_tone_build_mask tone_frames frame_index tx_seq ack_seq 6 aggregate capacity outs"

section \<open>Air PDUs\<close>

definition ULL_AIR_AUDIO_CHANNEL_BYTES :: nat where "ULL_AIR_AUDIO_CHANNEL_BYTES = 95"

record ull_tone_packet_options =
  op_event_index :: u32
  op_packet_counter :: u64
  op_direction :: u8
  op_header :: u8
  op_aad :: u8
  op_tx_sequence :: bytes
  op_ack_sequence :: bytes
  op_stream_mask :: u8

record ull_tone_packet =
  tp_start_hs :: u32
  tp_start_hus :: u16
  tp_channel :: u8
  tp_length :: u8
  tp_pdu :: bytes

datatype tone_error = TONE_ARGUMENT | TONE_CRYPTO

text \<open>The records of a silent (empty) or audio packet, one for each requested stream.\<close>

definition packet_records :: "ull_tone_packet_options \<Rightarrow> u8 \<Rightarrow> bool \<Rightarrow> bytes list option \<Rightarrow> air_tx_record list" where
  "packet_records op requested silent audio =
     map (\<lambda>i. tone_record (of_nat (i + 1))
                (if silent then None else case audio of None \<Rightarrow> None | Some a \<Rightarrow> Some (a ! i))
                (if silent then 0 else ULL_AIR_AUDIO_CHANNEL_BYTES)
                (op_tx_sequence op ! i) (op_ack_sequence op ! i))
       (filter (\<lambda>i. requested AND push_bit (i + 1) 1 \<noteq> 0) [0..<2])"

text \<open>The aggregate of a packet; its buffer has 201 bytes.\<close>

definition packet_aggregate :: "tone_table \<Rightarrow> ull_tone_packet_options \<Rightarrow> u8 \<Rightarrow> bool \<Rightarrow> bytes list option
    \<Rightarrow> (bytes \<times> nat \<times> u8) option" where
  "packet_aggregate tone_frames op requested silent audio =
     (if silent \<or> audio \<noteq> None then
        (case air_downlink_build (Some (replicate 201 0)) 201 (Some (packet_records op requested silent audio))
                (Some [of_nat ULL_AIR_AUDIO_CHANNEL_BYTES]) 0 True of
           Inl _ \<Rightarrow> None | Inr r \<Rightarrow> Some r)
      else
        (case ull_tone_build_mask tone_frames (unat (op_event_index op)) (Some (op_tx_sequence op))
                (Some (op_ack_sequence op)) requested (Some (replicate 201 0)) 201 True of
           Inl _ \<Rightarrow> None
         | Inr (aggregate, len, streams) \<Rightarrow>
             if len \<noteq> 100 \<and> len \<noteq> 199 then None else Some (aggregate, len, streams)))"

text \<open>The guard of the control trailer; the header is -1, here \<open>None\<close>, when there is none.\<close>

definition poll_refused :: "ull_tone_packet_options \<Rightarrow> u8 \<Rightarrow> bool \<Rightarrow> u8 \<Rightarrow> bool \<Rightarrow> bytes option \<Rightarrow> nat \<Rightarrow> nat \<Rightarrow> bool" where
  "poll_refused op requested silent poll_header stereo_ack control control_length len \<longleftrightarrow>
     (if stereo_ack then requested \<noteq> 6 \<or> op_header op \<noteq> 0x32 \<or> op_aad op \<noteq> 0x22 \<or> control_length \<noteq> 0
      else \<not> silent \<or> requested \<noteq> 2 \<or> op_header op \<noteq> 0x11 \<or> op_aad op \<noteq> 1) \<or>
     control_length > 68 \<or> (control_length \<noteq> 0 \<and> control = None) \<or>
     poll_header AND NOT 12 \<noteq> (if control_length \<noteq> 0 then 3 else 1) \<or> len + 2 + control_length > 201"

definition control_bytes :: "bytes option \<Rightarrow> nat \<Rightarrow> bytes" where
  "control_bytes control n = (case control of None \<Rightarrow> [] | Some c \<Rightarrow> take n c)"

definition append_trailer :: "bytes \<Rightarrow> nat \<Rightarrow> u8 \<Rightarrow> bytes option \<Rightarrow> nat \<Rightarrow> bytes \<times> nat" where
  "append_trailer aggregate len poll_header control control_length =
     (let aggregate = aggregate[len := poll_header];
          aggregate = aggregate[len + 1 := of_nat control_length];
          len = len + 2
      in if control_length \<noteq> 0
         then (memcpy_at aggregate len (control_bytes control control_length), len + control_length)
         else (aggregate, len))"

definition build_packet :: "'c mbedtls_ccm \<Rightarrow> tone_table \<Rightarrow> ull_air_session_plan option
    \<Rightarrow> ull_tone_packet_options option \<Rightarrow> bool \<Rightarrow> bool \<Rightarrow> u8 option \<Rightarrow> bool \<Rightarrow> bytes option \<Rightarrow> nat
    \<Rightarrow> bytes list option \<Rightarrow> 'c ccm_session \<Rightarrow> (tone_error + ull_tone_packet) \<times> 'c ccm_session" where
  "build_packet mb tone_frames plan options out silent poll_header stereo_ack control control_length audio s =
     (case (plan, options) of
        (Some plan, Some op) \<Rightarrow>
          if \<not> out \<or> pl_e2 plan ! 0 \<noteq> 0xe2 \<or>
             (audio = None \<and> \<not> silent \<and> unat (op_event_index op) \<ge> ULL_TONE_FRAME_COUNT)
          then (Inl TONE_ARGUMENT, s)
          else
            let requested = (if op_stream_mask op \<noteq> 0 then op_stream_mask op else 6) in
            if requested \<noteq> 2 \<and> requested \<noteq> 4 \<and> requested \<noteq> 6 then (Inl TONE_ARGUMENT, s)
            else
              (case packet_aggregate tone_frames op requested silent audio of
                 None \<Rightarrow> (Inl TONE_ARGUMENT, s)
               | Some (aggregate, len, streams) \<Rightarrow>
                   if drop_bit 3 (op_header op) AND 15 \<noteq> streams then (Inl TONE_ARGUMENT, s)
                   else
                     (case (ull_air_session_time (Some plan) (op_event_index op) 0 True,
                            ull_ble_csa2_subevent (pl_access_address plan)
                              (ucast (pl_event_counter plan + op_event_index op))
                              (Some (drop 19 (pl_e2 plan))) 1 True) of
                        (Some (start_hs, start_hus), Some channel) \<Rightarrow>
                          if (case poll_header of None \<Rightarrow> False
                              | Some h \<Rightarrow> poll_refused op requested silent h stereo_ack control control_length len)
                          then (Inl TONE_ARGUMENT, s)
                          else
                            let (aggregate, len) =
                                  (case poll_header of None \<Rightarrow> (aggregate, len)
                                   | Some h \<Rightarrow> append_trailer aggregate len h control control_length);
                                pdu = (replicate 207 0)[0 := op_header op];
                                pdu = pdu[1 := of_nat (len + 4)]
                            in
                            (case ull_ble_ccm_encrypt mb True (block 52 16 (pl_e2 plan)) (block 44 8 (pl_e2 plan))
                                    (op_packet_counter op) (op_direction op) (op_aad op)
                                    (take len aggregate) 205 s of
                               (Inl _, s) \<Rightarrow> (Inl TONE_CRYPTO, s)
                             | (Inr sealed, s) \<Rightarrow>
                                 (Inr \<lparr>tp_start_hs = start_hs, tp_start_hus = start_hus, tp_channel = channel,
                                    tp_length = of_nat (len + 6), tp_pdu = memcpy_at pdu 2 sealed\<rparr>, s))
                      | _ \<Rightarrow> (Inl TONE_ARGUMENT, s)))
      | _ \<Rightarrow> (Inl TONE_ARGUMENT, s))"

definition ull_tone_packet_build :: "'c mbedtls_ccm \<Rightarrow> tone_table \<Rightarrow> ull_air_session_plan option
    \<Rightarrow> ull_tone_packet_options option \<Rightarrow> bool \<Rightarrow> 'c ccm_session \<Rightarrow> (tone_error + ull_tone_packet) \<times> 'c ccm_session" where
  "ull_tone_packet_build mb tone plan op out s = build_packet mb tone plan op out False None False None 0 None s"

definition ull_audio_packet_build :: "'c mbedtls_ccm \<Rightarrow> tone_table \<Rightarrow> ull_air_session_plan option
    \<Rightarrow> ull_tone_packet_options option \<Rightarrow> bytes list option \<Rightarrow> bool \<Rightarrow> 'c ccm_session
    \<Rightarrow> (tone_error + ull_tone_packet) \<times> 'c ccm_session" where
  "ull_audio_packet_build mb tone plan op frames out s =
     (if frames \<noteq> None then build_packet mb tone plan op out False None False None 0 frames s
      else (Inl TONE_ARGUMENT, s))"

definition ull_empty_packet_build :: "'c mbedtls_ccm \<Rightarrow> tone_table \<Rightarrow> ull_air_session_plan option
    \<Rightarrow> ull_tone_packet_options option \<Rightarrow> bool \<Rightarrow> 'c ccm_session \<Rightarrow> (tone_error + ull_tone_packet) \<times> 'c ccm_session" where
  "ull_empty_packet_build mb tone plan op out s = build_packet mb tone plan op out True None False None 0 None s"

definition ull_poll_packet_build :: "'c mbedtls_ccm \<Rightarrow> tone_table \<Rightarrow> ull_air_session_plan option
    \<Rightarrow> ull_tone_packet_options option \<Rightarrow> u8 \<Rightarrow> bool \<Rightarrow> 'c ccm_session \<Rightarrow> (tone_error + ull_tone_packet) \<times> 'c ccm_session" where
  "ull_poll_packet_build mb tone plan op h out s = build_packet mb tone plan op out True (Some h) False None 0 None s"

definition ull_control_packet_build :: "'c mbedtls_ccm \<Rightarrow> tone_table \<Rightarrow> ull_air_session_plan option
    \<Rightarrow> ull_tone_packet_options option \<Rightarrow> u8 \<Rightarrow> bytes option \<Rightarrow> nat \<Rightarrow> bool \<Rightarrow> 'c ccm_session
    \<Rightarrow> (tone_error + ull_tone_packet) \<times> 'c ccm_session" where
  "ull_control_packet_build mb tone plan op h payload len out s =
     (if len \<noteq> 0 then build_packet mb tone plan op out True (Some h) False payload len None s
      else (Inl TONE_ARGUMENT, s))"

definition ull_audio_parent_ack_packet_build :: "'c mbedtls_ccm \<Rightarrow> tone_table \<Rightarrow> ull_air_session_plan option
    \<Rightarrow> ull_tone_packet_options option \<Rightarrow> bytes list option \<Rightarrow> u8 \<Rightarrow> bool \<Rightarrow> 'c ccm_session
    \<Rightarrow> (tone_error + ull_tone_packet) \<times> 'c ccm_session" where
  "ull_audio_parent_ack_packet_build mb tone plan op frames h out s =
     (if frames \<noteq> None then build_packet mb tone plan op out False (Some h) True None 0 frames s
      else (Inl TONE_ARGUMENT, s))"

definition ull_empty_parent_ack_packet_build :: "'c mbedtls_ccm \<Rightarrow> tone_table \<Rightarrow> ull_air_session_plan option
    \<Rightarrow> ull_tone_packet_options option \<Rightarrow> u8 \<Rightarrow> bool \<Rightarrow> 'c ccm_session \<Rightarrow> (tone_error + ull_tone_packet) \<times> 'c ccm_session" where
  "ull_empty_parent_ack_packet_build mb tone plan op h out s =
     build_packet mb tone plan op out True (Some h) True None 0 None s"

definition ull_tone_parent_ack_packet_build :: "'c mbedtls_ccm \<Rightarrow> tone_table \<Rightarrow> ull_air_session_plan option
    \<Rightarrow> ull_tone_packet_options option \<Rightarrow> u8 \<Rightarrow> bool \<Rightarrow> 'c ccm_session \<Rightarrow> (tone_error + ull_tone_packet) \<times> 'c ccm_session" where
  "ull_tone_parent_ack_packet_build mb tone plan op h out s =
     build_packet mb tone plan op out False (Some h) True None 0 None s"

section \<open>Channel selection\<close>

lemma set_csa2_channels: "c \<in> set (csa2_channels cmap) \<longleftrightarrow> c < 37 \<and> channel_used cmap c"
  by (auto simp: csa2_channels_def)

lemma distinct_csa2_channels: "distinct (csa2_channels cmap)"
  by (simp add: csa2_channels_def)

lemma position_found: "x \<in> set ys \<Longrightarrow> position ys x < length ys \<and> ys ! position ys x = x"
  by (induction ys) auto

lemma csa2_distance_bounds:
  "2 \<le> used \<Longrightarrow> 1 \<le> csa2_distance used \<and> 2 * csa2_distance used \<le> used"
  by (auto simp: csa2_distance_def Let_def)

text \<open>The start index and the index after each hop.\<close>

definition csa2_start :: "u32 \<Rightarrow> u16 \<Rightarrow> bytes \<Rightarrow> u16 \<times> nat" where
  "csa2_start aa counter cmap =
     (let channels = csa2_channels cmap; used = length channels;
          ident = ucast (drop_bit 16 aa XOR aa);
          prn = (csa2_mam ident ^^ 3) (counter XOR ident);
          event_prn = prn XOR ident;
          unmapped = unat (event_prn mod 37)
      in (prn, if channel_used cmap unmapped then position channels unmapped
               else used * unat event_prn div 65536))"

definition csa2_index :: "u32 \<Rightarrow> u16 \<Rightarrow> bytes \<Rightarrow> nat \<Rightarrow> u16 \<times> nat" where
  "csa2_index aa counter cmap n =
     (csa2_hop (length (csa2_channels cmap)) (ucast (drop_bit 16 aa XOR aa)) ^^ n) (csa2_start aa counter cmap)"

lemma csa2_subevent_eq:
  "ull_ble_csa2_subevent aa counter (Some cmap) subevent outs =
     (if \<not> outs \<or> cmap ! 4 AND 0xe0 \<noteq> 0 \<or> subevent > 3 \<or> length (csa2_channels cmap) < 2 then None
      else Some (of_nat (csa2_channels cmap ! snd (csa2_index aa counter cmap (unat subevent)))))"
  by (simp add: ull_ble_csa2_subevent_def csa2_index_def csa2_start_def Let_def split: prod.split)

lemma scale_less: "0 < n \<Longrightarrow> n * unat (w :: u16) div 65536 < n"
proof -
  assume "0 < n"
  then have "n * unat w < n * 65536" using u16_less [of w] by simp
  then show ?thesis by (simp add: less_mult_imp_div_less)
qed

lemma csa2_index_less:
  assumes "2 \<le> length (csa2_channels cmap)"
  shows "snd (csa2_index aa counter cmap n) < length (csa2_channels cmap)"
proof (cases n)
  case 0
  let ?used = "length (csa2_channels cmap)"
  have pos: "channel_used cmap k \<Longrightarrow> k < 37 \<Longrightarrow> position (csa2_channels cmap) k < ?used" for k
    using position_found set_csa2_channels by blast
  have "unat (w mod 37 :: u16) < 37" for w :: u16 by (simp add: unat_mod_distrib)
  moreover have "csa2_channels cmap \<noteq> []" using assms by auto
  ultimately show ?thesis
    using 0 assms pos by (simp add: csa2_index_def csa2_start_def Let_def scale_less)
next
  case (Suc m)
  have "0 < length (csa2_channels cmap)" using assms by linarith
  then show ?thesis using Suc by (simp add: csa2_index_def csa2_hop_def Let_def)
qed

lemma hop_moves: "i < u \<Longrightarrow> 1 \<le> x \<Longrightarrow> x < u \<Longrightarrow> (i + x) mod u \<noteq> (i :: nat)"
  by (cases "i + x < u") (auto simp: le_mod_geq)

lemma csa2_index_hops:
  assumes "2 \<le> length (csa2_channels cmap)"
  shows "snd (csa2_index aa counter cmap (Suc n)) \<noteq> snd (csa2_index aa counter cmap n)"
proof -
  let ?used = "length (csa2_channels cmap)" and ?d = "csa2_distance (length (csa2_channels cmap))"
  let ?i = "snd (csa2_index aa counter cmap n)"
  have d: "1 \<le> ?d" "2 * ?d \<le> ?used" using csa2_distance_bounds [OF assms] by auto
  obtain w :: u16 where step: "snd (csa2_index aa counter cmap (Suc n)) =
      (?i + ?d + (?used + 1 - 2 * ?d) * unat w div 65536) mod ?used"
    by (simp add: csa2_index_def csa2_hop_def Let_def)
  have "(?used + 1 - 2 * ?d) * unat w div 65536 < ?used + 1 - 2 * ?d"
    by (rule scale_less) (use d in linarith)
  then obtain x where x: "snd (csa2_index aa counter cmap (Suc n)) = (?i + x) mod ?used" "1 \<le> x" "x < ?used"
    using step d by (intro that [of "?d + (?used + 1 - 2 * ?d) * unat w div 65536"]) (simp_all add: add.assoc)
  have "?i < ?used" using assms by (rule csa2_index_less)
  with x hop_moves show ?thesis by metis
qed

section \<open>The session key cache\<close>

text \<open>A ready cache holds the context of its key; a call leaves it coherent.\<close>

definition ccm_coherent :: "'c mbedtls_ccm \<Rightarrow> 'c ccm_session \<Rightarrow> bool" where
  "ccm_coherent mb s \<longleftrightarrow> (session_ccm_ready s \<longrightarrow>
     (\<exists>c. session_ccm s = Some c \<and> mb_setkey mb (rev (session_key_le s)) = Some c))"

lemma ccm_coherent_reset: "ccm_coherent mb ull_ble_ccm_reset"
  by (simp add: ccm_coherent_def ull_ble_ccm_reset_def)

lemma ccm_session_key_cases:
  assumes "ccm_coherent mb s" and "ccm_session_key mb key s = (ok, s')"
  shows "ccm_coherent mb s'" and "ok \<longleftrightarrow> mb_setkey mb (rev key) \<noteq> None"
    and "ok \<Longrightarrow> session_ccm s' = mb_setkey mb (rev key)"
    and "\<not> ok \<Longrightarrow> s' = ull_ble_ccm_reset"
  using assms by (auto simp: ccm_session_key_def ccm_coherent_def ull_ble_ccm_reset_def Let_def
      split: if_splits option.splits)

text \<open>The envelope without a cache.\<close>

definition ccm_seal :: "'c mbedtls_ccm \<Rightarrow> bytes \<Rightarrow> bytes \<Rightarrow> u64 \<Rightarrow> u8 \<Rightarrow> u8 \<Rightarrow> bytes \<Rightarrow> bytes option" where
  "ccm_seal mb key iv counter direction aad payload =
     (case mb_setkey mb (rev key) of None \<Rightarrow> None
      | Some c \<Rightarrow> map_option (\<lambda>(e, t). e @ t) (mb_encrypt_and_tag mb c (ccm_nonce counter direction iv) aad payload))"

definition ccm_open :: "'c mbedtls_ccm \<Rightarrow> bytes \<Rightarrow> bytes \<Rightarrow> u64 \<Rightarrow> u8 \<Rightarrow> u8 \<Rightarrow> bytes \<Rightarrow> bytes option" where
  "ccm_open mb key iv counter direction aad payload =
     (case mb_setkey mb (rev key) of None \<Rightarrow> None
      | Some c \<Rightarrow> mb_auth_decrypt mb c (ccm_nonce counter direction iv) aad
          (take (length payload - 4) payload) (drop (length payload - 4) payload))"

definition ccm_result :: "bytes option \<Rightarrow> ccm_error + bytes" where
  "ccm_result r = (case r of None \<Rightarrow> Inl CCM_FAILED | Some b \<Rightarrow> Inr b)"

lemma ccm_encrypt_eq:
  assumes "ccm_coherent mb s"
  shows "fst (ull_ble_ccm_encrypt mb ptrs key iv counter direction aad payload capacity s) =
     (if \<not> ptrs \<or> payload = [] \<or> length payload > 240 \<or> capacity < length payload + 4 \<or>
         counter \<ge> push_bit 39 1 \<or> direction > 1 then Inl CCM_ARGUMENT
      else ccm_result (ccm_seal mb key iv counter direction aad payload))"
    and "ccm_coherent mb (snd (ull_ble_ccm_encrypt mb ptrs key iv counter direction aad payload capacity s))"
proof -
  obtain ok s' where k: "ccm_session_key mb key s = (ok, s')" by (cases "ccm_session_key mb key s")
  note c = ccm_session_key_cases [OF assms k]
  show "fst (ull_ble_ccm_encrypt mb ptrs key iv counter direction aad payload capacity s) =
     (if \<not> ptrs \<or> payload = [] \<or> length payload > 240 \<or> capacity < length payload + 4 \<or>
         counter \<ge> push_bit 39 1 \<or> direction > 1 then Inl CCM_ARGUMENT
      else ccm_result (ccm_seal mb key iv counter direction aad payload))"
    using c by (cases ok) (auto simp: ull_ble_ccm_encrypt_def k Let_def ccm_seal_def ccm_result_def
        split: option.split)
  show "ccm_coherent mb (snd (ull_ble_ccm_encrypt mb ptrs key iv counter direction aad payload capacity s))"
    using c(1) assms by (auto simp: ull_ble_ccm_encrypt_def k Let_def split: option.split)
qed

lemma ccm_decrypt_eq:
  assumes "ccm_coherent mb s"
  shows "fst (ull_ble_ccm_decrypt mb ptrs key iv counter direction aad payload capacity s) =
     (if \<not> ptrs \<or> length payload < 5 \<or> length payload > 244 \<or> capacity < length payload - 4 \<or>
         counter \<ge> push_bit 39 1 \<or> direction > 1 then Inl CCM_ARGUMENT
      else ccm_result (ccm_open mb key iv counter direction aad payload))"
    and "ccm_coherent mb (snd (ull_ble_ccm_decrypt mb ptrs key iv counter direction aad payload capacity s))"
proof -
  obtain ok s' where k: "ccm_session_key mb key s = (ok, s')" by (cases "ccm_session_key mb key s")
  note c = ccm_session_key_cases [OF assms k]
  show "fst (ull_ble_ccm_decrypt mb ptrs key iv counter direction aad payload capacity s) =
     (if \<not> ptrs \<or> length payload < 5 \<or> length payload > 244 \<or> capacity < length payload - 4 \<or>
         counter \<ge> push_bit 39 1 \<or> direction > 1 then Inl CCM_ARGUMENT
      else ccm_result (ccm_open mb key iv counter direction aad payload))"
    using c by (cases ok) (auto simp: ull_ble_ccm_decrypt_def k Let_def ccm_open_def ccm_result_def
        split: option.split)
  show "ccm_coherent mb (snd (ull_ble_ccm_decrypt mb ptrs key iv counter direction aad payload capacity s))"
    using c(1) assms by (auto simp: ull_ble_ccm_decrypt_def k Let_def split: option.split)
qed

section \<open>The envelope as a round trip\<close>

text \<open>What the documentation of the CCM functions promises: a tag of the requested four bytes,
  ciphertext as long as the plaintext, and decryption with the same inputs restores it.\<close>

definition ccm_law :: "'c mbedtls_ccm \<Rightarrow> bool" where
  "ccm_law mb \<longleftrightarrow> (\<forall>c nonce aad payload e t. mb_encrypt_and_tag mb c nonce aad payload = Some (e, t) \<longrightarrow>
     length e = length payload \<and> length t = 4 \<and> mb_auth_decrypt mb c nonce aad e t = Some payload)"

lemma ccm_open_seal:
  assumes "ccm_law mb" and "ccm_seal mb key iv counter direction aad payload = Some sealed"
  shows "length sealed = length payload + 4" and "ccm_open mb key iv counter direction aad sealed = Some payload"
proof -
  from assms(2) obtain c e t where c: "mb_setkey mb (rev key) = Some c" and sealed: "sealed = e @ t"
    and enc: "mb_encrypt_and_tag mb c (ccm_nonce counter direction iv) aad payload = Some (e, t)"
    by (auto simp: ccm_seal_def split: option.splits)
  have "length e = length payload" "length t = 4"
    "mb_auth_decrypt mb c (ccm_nonce counter direction iv) aad e t = Some payload"
    using assms(1) enc by (auto simp: ccm_law_def)
  then show "length sealed = length payload + 4" "ccm_open mb key iv counter direction aad sealed = Some payload"
    by (simp_all add: sealed ccm_open_def c)
qed

lemma ccm_encrypted:
  assumes "ccm_coherent mb s" and "ull_ble_ccm_encrypt mb ptrs key iv counter direction aad payload capacity s = (Inr sealed, s')"
  shows "ccm_seal mb key iv counter direction aad payload = Some sealed" and "payload \<noteq> []"
    and "length payload \<le> 240" and "length payload + 4 \<le> capacity" and "counter < push_bit 39 1" and "direction \<le> 1"
    and "ccm_coherent mb s'"
  using ccm_encrypt_eq [OF assms(1), of ptrs key iv counter direction aad payload capacity] assms(2)
  by (auto simp: ccm_result_def not_less not_le split: if_splits option.splits)

lemma ccm_decrypted:
  assumes "ccm_law mb" and "ccm_coherent mb s"
    and "ull_ble_ccm_encrypt mb ptrs key iv counter direction aad payload capacity s = (Inr sealed, s')"
    and "ccm_coherent mb s2" and "length payload \<le> capacity2"
  shows "fst (ull_ble_ccm_decrypt mb True key iv counter direction aad sealed capacity2 s2) = Inr payload"
    and "length sealed = length payload + 4"
proof -
  note e = ccm_encrypted [OF assms(2,3)]
  note o = ccm_open_seal [OF assms(1) e(1)]
  have "length payload \<ge> 1" using e(2) by (cases payload) auto
  then show "fst (ull_ble_ccm_decrypt mb True key iv counter direction aad sealed capacity2 s2) = Inr payload"
    using o e(3,5,6) assms(5) by (simp add: ccm_decrypt_eq [OF assms(4)] ccm_result_def not_le [symmetric])
  show "length sealed = length payload + 4" by (rule o(1))
qed

section \<open>Packets\<close>

definition requested_mask :: "ull_tone_packet_options \<Rightarrow> u8" where
  "requested_mask op = (if op_stream_mask op \<noteq> 0 then op_stream_mask op else 6)"

lemma build_packet_parts:
  assumes "build_packet mb tone (Some plan) (Some op) True silent None ack control n audio s = (Inr pkt, s')"
  obtains agg len streams sealed where
    "packet_aggregate tone op (requested_mask op) silent audio = Some (agg, len, streams)"
    "drop_bit 3 (op_header op) AND 15 = streams" "requested_mask op \<in> {2, 4, 6}"
    "ull_ble_ccm_encrypt mb True (block 52 16 (pl_e2 plan)) (block 44 8 (pl_e2 plan)) (op_packet_counter op)
       (op_direction op) (op_aad op) (take len agg) 205 s = (Inr sealed, s')"
    "tp_length pkt = of_nat (len + 6)"
    "tp_pdu pkt = memcpy_at ((replicate 207 0)[0 := op_header op, 1 := of_nat (len + 4)]) 2 sealed"
    "ull_air_session_time (Some plan) (op_event_index op) 0 True = Some (tp_start_hs pkt, tp_start_hus pkt)"
    "ull_ble_csa2_subevent (pl_access_address plan) (ucast (pl_event_counter plan + op_event_index op))
       (Some (drop 19 (pl_e2 plan))) 1 True = Some (tp_channel pkt)"
  using assms
  by (auto simp: build_packet_def Let_def requested_mask_def split: if_splits option.splits prod.splits sum.splits)

lemma packet_records_wf:
  assumes "length left = 95" and "length right = 95"
  shows "\<forall>r \<in> set (packet_records op requested silent (Some [left, right])). tx_wf r"
  using assms by (auto simp: packet_records_def tx_wf_def tone_record_def ULL_AIR_AUDIO_CHANNEL_BYTES_def numeral_2_eq_2 less_Suc_eq)

lemma packet_records_silent_wf:
  "\<forall>r \<in> set (packet_records op requested True audio). tx_wf r"
  by (auto simp: packet_records_def tx_wf_def tone_record_def)

lemma build_packet_received:
  assumes law: "ccm_law mb" and s: "ccm_coherent mb s" and s2: "ccm_coherent mb s2"
    and built: "build_packet mb tone (Some plan) (Some op) True silent None ack control n audio s = (Inr pkt, s')"
    and kind: "silent \<or> audio \<noteq> None"
    and wf: "\<forall>r \<in> set (packet_records op (requested_mask op) silent audio). tx_wf r"
  shows "\<exists>agg. fst (ull_ble_ccm_decrypt mb True (block 52 16 (pl_e2 plan)) (block 44 8 (pl_e2 plan))
        (op_packet_counter op) (op_direction op) (op_aad op) (block 2 (unat (tp_length pkt) - 2) (tp_pdu pkt)) 240 s2) = Inr agg \<and>
      downlink_receive [95] (drop_bit 3 (op_header op) AND 15) agg =
        Some (map tx_view (packet_records op (requested_mask op) silent audio)) \<and>
      tp_pdu pkt ! 0 = op_header op \<and> unat (tp_pdu pkt ! 1) + 2 = unat (tp_length pkt) \<and>
      unat (tp_length pkt) \<le> 207 \<and> length (tp_pdu pkt) = 207"
proof -
  let ?rs = "packet_records op (requested_mask op) silent audio"
  obtain agg len streams sealed where
    agg: "packet_aggregate tone op (requested_mask op) silent audio = Some (agg, len, streams)"
    and hdr: "drop_bit 3 (op_header op) AND 15 = streams"
    and enc: "ull_ble_ccm_encrypt mb True (block 52 16 (pl_e2 plan)) (block 44 8 (pl_e2 plan)) (op_packet_counter op)
       (op_direction op) (op_aad op) (take len agg) 205 s = (Inr sealed, s')"
    and plen: "tp_length pkt = of_nat (len + 6)"
    and pdu: "tp_pdu pkt = memcpy_at ((replicate 207 0)[0 := op_header op, 1 := of_nat (len + 4)]) 2 sealed"
    by (rule build_packet_parts [OF built])
  have "air_downlink_build (Some (replicate 201 0)) 201 (Some ?rs) (Some [of_nat ULL_AIR_AUDIO_CHANNEL_BYTES]) 0 True =
      Inr (agg, len, streams)"
    using agg kind by (auto simp: packet_aggregate_def split: sum.splits if_splits)
  from downlink_received [OF this wf]
  have recv: "downlink_receive [95] streams (take len agg) = Some (map tx_view ?rs)"
    and len: "len \<le> 201" "length agg = 201"
    by (simp_all add: ULL_AIR_AUDIO_CHANNEL_BYTES_def)
  have cap: "length (take len agg) \<le> 240" using len by simp
  note dec = ccm_decrypted [OF law s enc s2 cap]
  have sl: "length sealed = len + 4" using dec(2) len by simp
  have u: "unat (tp_length pkt) = len + 6"
    unfolding plen by (rule unat_of_nat_u8) (use len in simp)
  have u4: "unat (of_nat (len + 4) :: u8) = len + 4"
    by (rule unat_of_nat_u8) (use len in simp)
  have u2: "unat (tp_length pkt) - 2 = len + 4" by (simp add: u)
  have "block 2 (unat (tp_length pkt) - 2) (tp_pdu pkt) = sealed"
    unfolding u2 pdu
    using block_memcpy_same [of 2 sealed "(replicate 207 0)[0 := op_header op, 1 := of_nat (len + 4)]"] sl len
    by simp
  moreover have "length (tp_pdu pkt) = 207" using sl len by (simp add: pdu length_memcpy_at)
  moreover have "tp_pdu pkt ! 0 = op_header op" "unat (tp_pdu pkt ! 1) = len + 4"
    using sl len u4 by (simp_all add: pdu nth_memcpy_at del: of_nat_add)
  ultimately show ?thesis using dec(1) recv u len hdr by auto
qed

lemma ccm_encrypt_ok:
  assumes "ccm_coherent mb s" and "ccm_seal mb key iv counter direction aad payload = Some sealed"
    and "length payload + 4 \<le> capacity" and "payload \<noteq> []" and "length payload \<le> 240"
    and "counter < push_bit 39 1" and "direction \<le> 1"
  shows "\<exists>s'. ull_ble_ccm_encrypt mb True key iv counter direction aad payload capacity s = (Inr sealed, s') \<and>
    ccm_coherent mb s'"
proof -
  obtain r s' where e: "ull_ble_ccm_encrypt mb True key iv counter direction aad payload capacity s = (r, s')"
    by (cases "ull_ble_ccm_encrypt mb True key iv counter direction aad payload capacity s")
  have "r = Inr sealed"
    using ccm_encrypt_eq(1) [OF assms(1), of True key iv counter direction aad payload capacity] assms(2-7)
    by (simp add: e ccm_result_def not_less [symmetric])
  moreover have "ccm_coherent mb s'"
    using ccm_encrypt_eq(2) [OF assms(1), of True key iv counter direction aad payload capacity] by (simp add: e)
  ultimately show ?thesis using e by blast
qed

section \<open>Properties\<close>

text \<open>Channel selection is total and safe. For a map with at least two used channels, no reserved
  bit and a subevent up to 3 a channel is returned, and it is one of the used data channels.\<close>

theorem csa2_channel_allowed:
  assumes "cmap ! 4 AND 0xe0 = 0" and "2 \<le> length (csa2_channels cmap)" and "subevent \<le> 3"
  shows "\<exists>ch. ull_ble_csa2_subevent aa counter (Some cmap) subevent True = Some ch \<and>
    unat ch < 37 \<and> channel_used cmap (unat ch)"
proof -
  let ?i = "snd (csa2_index aa counter cmap (unat subevent))"
  have "?i < length (csa2_channels cmap)" using assms(2) by (rule csa2_index_less)
  then have "csa2_channels cmap ! ?i \<in> set (csa2_channels cmap)" by simp
  then have c: "csa2_channels cmap ! ?i < 37" "channel_used cmap (csa2_channels cmap ! ?i)"
    by (simp_all add: set_csa2_channels)
  moreover from this have "unat (of_nat (csa2_channels cmap ! ?i) :: u8) = csa2_channels cmap ! ?i"
    by (simp add: unat_of_nat)
  ultimately show ?thesis using assms by (simp add: csa2_subevent_eq)
qed

theorem csa2_channel_allowed_witness:
  "\<exists>ch. ull_ble_csa2_subevent 0x8e89bed6 1 (Some [0, 6, 0, 0, 0x10]) 1 True = Some ch \<and> unat ch < 37
     \<and> channel_used [0, 6, 0, 0, 0x10] (unat ch)"
  by (rule csa2_channel_allowed) (simp_all add: csa2_channels_def channel_used_def upt_rec)

text \<open>Subevents hop. Two successive subevents of the same event never use the same channel.\<close>

theorem csa2_subevents_hop:
  assumes "ull_ble_csa2_subevent aa counter (Some cmap) subevent True = Some a"
    and "ull_ble_csa2_subevent aa counter (Some cmap) (subevent + 1) True = Some b" and "subevent < 3"
  shows "a \<noteq> b"
proof -
  have used: "2 \<le> length (csa2_channels cmap)"
    using assms(1) by (simp add: csa2_subevent_eq split: if_splits)
  let ?i = "\<lambda>n. snd (csa2_index aa counter cmap n)"
  have less: "?i n < length (csa2_channels cmap)" for n using used by (rule csa2_index_less)
  have suc: "unat (subevent + 1) = Suc (unat subevent)"
    using assms(3) by (simp add: word_less_nat_alt unat_word_ariths)
  have "csa2_channels cmap ! ?i (unat subevent) \<noteq> csa2_channels cmap ! ?i (Suc (unat subevent))"
    using nth_eq_iff_index_eq [OF distinct_csa2_channels less less] csa2_index_hops [OF used] by metis
  moreover have "csa2_channels cmap ! ?i n < 256" for n
    using nth_mem [OF less [of n]] by (simp add: set_csa2_channels)
  ultimately have "(of_nat (csa2_channels cmap ! ?i (unat subevent)) :: u8) \<noteq>
      of_nat (csa2_channels cmap ! ?i (Suc (unat subevent)))"
    using of_nat_u8_eq by blast
  then show ?thesis using assms(1,2) unfolding csa2_subevent_eq suc by (simp split: if_splits)
qed

theorem csa2_subevents_hop_witness:
  "ull_ble_csa2_subevent 0x8e89bed6 1 (Some [0, 6, 0, 0, 0x10]) 0 True \<noteq>
   ull_ble_csa2_subevent 0x8e89bed6 1 (Some [0, 6, 0, 0, 0x10]) 1 True"
proof -
  let ?map = "[0, 6, 0, 0, 0x10]" and ?f = "\<lambda>k. ull_ble_csa2_subevent 0x8e89bed6 1 (Some [0, 6, 0, 0, 0x10]) k True"
  have used: "\<not> length (csa2_channels ?map) < 2"
    by (simp add: csa2_channels_def channel_used_def upt_rec)
  obtain a where a: "?f 0 = Some a" using used by (simp add: csa2_subevent_eq)
  obtain b where b: "?f (0 + 1) = Some b" using used by (simp add: csa2_subevent_eq)
  have "a \<noteq> b" using csa2_subevents_hop [OF a b] by simp
  with a b show ?thesis by simp
qed

text \<open>The CCM envelope is a round trip under the documented behaviour of the cipher, and the key
  cache is transparent: what one session state sealed, any other coherent session state opens.\<close>

theorem ccm_roundtrip:
  assumes "ccm_law mb" and "ccm_coherent mb s" and "ccm_coherent mb s2"
    and "ull_ble_ccm_encrypt mb True key iv counter direction aad payload capacity s = (Inr sealed, s')"
    and "length payload \<le> capacity2"
  shows "fst (ull_ble_ccm_decrypt mb True key iv counter direction aad sealed capacity2 s2) = Inr payload \<and>
    length sealed = length payload + 4 \<and> length sealed \<le> capacity \<and> ccm_coherent mb s'"
  using ccm_decrypted [OF assms(1,2,4,3,5)] ccm_encrypted [OF assms(2,4)] by simp

definition ex_mb :: "bytes mbedtls_ccm" where
  "ex_mb = \<lparr>mb_setkey = Some,
     mb_encrypt_and_tag = (\<lambda>c nonce aad payload. Some (map (\<lambda>b. b XOR hd c) payload, [aad, hd nonce, 0, 0])),
     mb_auth_decrypt = (\<lambda>c nonce aad e t. if t = [aad, hd nonce, 0, 0] then Some (map (\<lambda>b. b XOR hd c) e) else None)\<rparr>"

lemma ex_mb_law: "ccm_law ex_mb"
  by (auto simp: ccm_law_def ex_mb_def xor.assoc comp_def)

theorem ccm_roundtrip_witness:
  "\<exists>sealed s'. ull_ble_ccm_encrypt ex_mb True (replicate 16 7) (replicate 8 1) 5 0 3 [1, 2, 3] 16 ull_ble_ccm_reset
      = (Inr sealed, s') \<and>
     fst (ull_ble_ccm_decrypt ex_mb True (replicate 16 7) (replicate 8 1) 5 0 3 sealed 16 s') = Inr [1, 2, 3]"
proof -
  let ?key = "replicate 16 7" and ?iv = "replicate 8 1"
  obtain sealed where "ccm_seal ex_mb ?key ?iv 5 0 3 [1, 2, 3] = Some sealed"
    by (simp add: ccm_seal_def ex_mb_def)
  from ccm_encrypt_ok [OF ccm_coherent_reset this, of 16]
  obtain s' where e: "ull_ble_ccm_encrypt ex_mb True ?key ?iv 5 0 3 [1, 2, 3] 16 ull_ble_ccm_reset = (Inr sealed, s')"
    and "ccm_coherent ex_mb s'" by auto
  with ccm_roundtrip [OF ex_mb_law ccm_coherent_reset _ e, of s' 16] e show ?thesis by auto
qed


definition ex_tone_plan :: ull_air_session_plan where
  "ex_tone_plan = \<lparr>pl_start_hs = 5, pl_start_hus = 0, pl_acl_instant = 0, pl_event_counter = 9,
     pl_access_address = 0x8e89bed6, pl_offset_us = 2000,
     pl_e2 = 0xe2 # replicate 18 0 @ [255, 255, 255, 255, 31] @ replicate 44 1\<rparr>"

definition ex_options :: ull_tone_packet_options where
  "ex_options = \<lparr>op_event_index = 3, op_packet_counter = 0, op_direction = 0, op_header = 0x32, op_aad = 0x22,
     op_tx_sequence = [1, 2], op_ack_sequence = [0, 15], op_stream_mask = 6\<rparr>"

lemma ex_audio_records:
  "packet_records ex_options 6 False (Some [left, right]) =
     [tone_record 1 (Some left) 95 1 0, tone_record 2 (Some right) 95 2 15]"
  by (simp add: packet_records_def ex_options_def upt_rec ULL_AIR_AUDIO_CHANNEL_BYTES_def)

lemma ex_audio_aggregate:
  assumes "length left = 95" and "length right = 95"
  obtains agg where "packet_aggregate tone ex_options 6 False (Some [left, right]) = Some (agg, 199, 6)"
    and "length agg = 201"
proof -
  let ?rs = "packet_records ex_options 6 False (Some [left, right])"
  have wf: "\<forall>r \<in> set ?rs. tx_wf r" by (rule packet_records_wf [OF assms])
  have legal: "downlink_legal [95] ?rs 0"
    by (simp add: downlink_legal_def ex_audio_records tone_record_def sizes_valid_def air_limits fields_ok_def nonzero_lengths_def)
  have size: "downlink_size ?rs = 199" by (simp add: downlink_size_def ex_audio_records tone_record_def)
  have bits: "stream_bits ?rs = 6" by (simp add: stream_bits_def ex_audio_records tone_record_def)
  have built: "air_downlink_build (Some (replicate 201 0)) 201 (Some ?rs) (Some [95]) 0 True =
      Inr (memcpy_at (replicate 201 0) 0 (aggregate_image 0 [95] ?rs), 199, 6)"
    using air_downlink_build_cases [OF wf, where capacity = 201 and d = "replicate 201 0" and ss = "[95]" and flags = 0]
    by (simp add: legal size bits)
  have "length (memcpy_at (replicate 201 0) 0 (aggregate_image 0 [95] ?rs)) = 201"
    using downlink_received [OF built wf] by simp
  then show ?thesis using built by (intro that) (simp_all add: packet_aggregate_def ULL_AIR_AUDIO_CHANNEL_BYTES_def)
qed

lemma ex_audio_built:
  assumes "length left = 95" and "length right = 95"
  shows "\<exists>pkt s'. ull_audio_packet_build ex_mb tone (Some ex_tone_plan) (Some ex_options) (Some [left, right]) True
    ull_ble_ccm_reset = (Inr pkt, s') \<and> ccm_coherent ex_mb s'"
proof -
  obtain agg where agg: "packet_aggregate tone ex_options 6 False (Some [left, right]) = Some (agg, 199, 6)"
    and len: "length agg = 201" by (rule ex_audio_aggregate [OF assms])
  obtain hs hus where time: "ull_air_session_time (Some ex_tone_plan) 3 0 True = Some (hs, hus)"
    by (simp add: ull_air_session_time_def ex_tone_plan_def session_constants CLOCK_MASK_def Let_def)
  have "length (csa2_channels (drop 19 (pl_e2 ex_tone_plan))) = 37"
    by (simp add: csa2_channels_def channel_used_def upt_rec ex_tone_plan_def)
  then obtain ch where ch: "ull_ble_csa2_subevent 0x8e89bed6 12 (Some (drop 19 (pl_e2 ex_tone_plan))) 1 True = Some ch"
    unfolding csa2_subevent_eq by (simp add: ex_tone_plan_def)
  let ?key = "block 52 16 (pl_e2 ex_tone_plan)" and ?iv = "block 44 8 (pl_e2 ex_tone_plan)"
  obtain sealed where "ccm_seal ex_mb ?key ?iv 0 0 0x22 (take 199 agg) = Some sealed"
    by (simp add: ccm_seal_def ex_mb_def)
  moreover have "agg \<noteq> []" using len by auto
  ultimately
  obtain s' where enc: "ull_ble_ccm_encrypt ex_mb True ?key ?iv 0 0 0x22 (take 199 agg) 205 ull_ble_ccm_reset
      = (Inr sealed, s')" and "ccm_coherent ex_mb s'"
    using ccm_encrypt_ok [OF ccm_coherent_reset, of ex_mb ?key ?iv 0 0 "0x22" "take 199 agg" sealed 205] len by auto
  moreover have "pl_e2 ex_tone_plan ! 0 = 0xe2" "pl_access_address ex_tone_plan = 0x8e89bed6"
    "pl_event_counter ex_tone_plan = 9" by (simp_all add: ex_tone_plan_def)
  ultimately show ?thesis
    using agg time ch
    by (simp add: ull_audio_packet_build_def build_packet_def Let_def)
      (simp add: ex_options_def)
qed


end
