(* ===== verification/StatusProbe.thy ===== *)
theory StatusProbe
  imports ParentAck
begin

text \<open>
  Model of \<^verbatim>\<open>firmware/radio/src/status_probe.c\<close>: counters of authenticated proprietary
  controls. The module must not retain packet contents; setup and key messages (first byte 0E, 0F or
  E0 to E4) may only be counted. Each atomic counter is a field of the state; a call touches each at
  most once, so that calls are steps. A buffer is a list with its length.
\<close>

record status_probe =
  air_seen :: u32
  acl_seen :: u32
  known_seen :: u32
  unknown_seen :: u32
  setup_hidden :: u32
  unframed_seen :: u32
  last_unknown :: u32
  control_only_seen :: u32
  control_only_proprietary :: u32
  control_only_setup_hidden :: u32
  control_only_last_meta :: u32

definition probe_zero :: status_probe where
  "probe_zero = \<lparr>air_seen = 0, acl_seen = 0, known_seen = 0, unknown_seen = 0, setup_hidden = 0,
     unframed_seen = 0, last_unknown = 0, control_only_seen = 0, control_only_proprietary = 0,
     control_only_setup_hidden = 0, control_only_last_meta = 0\<rparr>"

definition known_scalar :: "bytes \<Rightarrow> nat \<Rightarrow> bool" where
  "known_scalar p n \<longleftrightarrow> ull_parent_ack_wheel (Some p) n \<or> ull_parent_ack_media (Some p) n \<or>
     ull_parent_ack_mic (Some p) n \<or>
     (n = 6 \<and> p ! 0 = 4 \<and> (p ! 1 = 1 \<or> p ! 1 = 2) \<and> p ! 2 = 0 \<and> p ! 3 \<le> 100 \<and> p ! 4 \<le> 100 \<and> p ! 5 = 0) \<or>
     (n = 3 \<and> (p ! 0 = 5 \<or> p ! 0 = 6) \<and> (p ! 1 = 1 \<or> p ! 1 = 2) \<and> p ! 2 = 0)"

text \<open>The opcodes of setup and key messages, tested in two places of the file.\<close>

definition setup_opcode :: "u8 \<Rightarrow> bool" where
  "setup_opcode b \<longleftrightarrow> b = 0x0e \<or> b = 0x0f \<or> (b \<ge> 0xe0 \<and> b \<le> 0xe4)"

definition observe :: "u32 \<Rightarrow> bytes option \<Rightarrow> nat \<Rightarrow> status_probe \<Rightarrow> status_probe" where
  "observe origin p n s =
     (case p of None \<Rightarrow> s
      | Some p \<Rightarrow>
          if n = 0 then s
          else if setup_opcode (p ! 0) then s\<lparr>setup_hidden := setup_hidden s + 1\<rparr>
          else
            let s = (if origin = 1 then s\<lparr>air_seen := air_seen s + 1\<rparr> else s\<lparr>acl_seen := acl_seen s + 1\<rparr>) in
            if known_scalar p n then s\<lparr>known_seen := known_seen s + 1\<rparr>
            else s\<lparr>last_unknown := push_bit 24 origin OR push_bit 8 (of_nat n AND 0xffff) OR ucast (p ! 0),
                   unknown_seen := unknown_seen s + 1\<rparr>)"

definition ull_status_probe_air :: "u8 \<Rightarrow> bytes option \<Rightarrow> nat \<Rightarrow> status_probe \<Rightarrow> status_probe" where
  "ull_status_probe_air header payload len s =
     (case payload of None \<Rightarrow> s
      | Some p \<Rightarrow>
          if len < 4 \<or> header AND 3 \<noteq> 2 then s
          else
            let n = unat (get16 p 0) in
            if n \<noteq> len - 4 \<or> p ! 2 \<noteq> 1 \<or> p ! 3 \<noteq> 1 then s\<lparr>unframed_seen := unframed_seen s + 1\<rparr>
            else observe 1 (Some (drop 4 p)) n s)"

definition ull_status_probe_acl :: "bytes option \<Rightarrow> nat \<Rightarrow> status_probe \<Rightarrow> status_probe" where
  "ull_status_probe_acl payload len s =
     (if len \<noteq> 0 \<and> len \<le> 4092 then observe 2 payload len s else s)"

definition ull_status_probe_control_only :: "u8 \<Rightarrow> bytes option \<Rightarrow> nat \<Rightarrow> status_probe \<Rightarrow> status_probe" where
  "ull_status_probe_control_only air_header plain len s =
     (case plain of None \<Rightarrow> s
      | Some q \<Rightarrow>
          if drop_bit 3 air_header AND 15 \<noteq> 0 \<or> air_header AND 1 = 0 \<or> len < 3 \<or>
             unat (q ! 2) + 3 \<noteq> len \<or> q ! 1 AND 3 = 0 \<or> (q ! 2 = 0 \<and> q ! 1 AND 3 \<noteq> 1)
          then s
          else
            let s = s\<lparr>control_only_seen := control_only_seen s + 1\<rparr> in
            if q ! 1 AND 3 \<noteq> 2 \<or> q ! 2 < 5 then s
            else
              let p = drop 3 q; n = unat (get16 p 0) in
              if n \<noteq> unat (q ! 2) - 4 \<or> p ! 2 \<noteq> 1 \<or> p ! 3 \<noteq> 1 then s
              else if setup_opcode (p ! 4)
              then s\<lparr>control_only_setup_hidden := control_only_setup_hidden s + 1\<rparr>
              else s\<lparr>control_only_proprietary := control_only_proprietary s + 1,
                     control_only_last_meta := push_bit 8 (of_nat n) OR ucast (p ! 4)\<rparr>)"

definition ull_status_probe_snapshot :: "u32 list option \<Rightarrow> status_probe \<Rightarrow> u32 list option" where
  "ull_status_probe_snapshot out s =
     map_option (\<lambda>out.
       (memcpy_at out 0
         [air_seen s, acl_seen s, known_seen s, unknown_seen s, setup_hidden s, unframed_seen s, last_unknown s,
          control_only_seen s, control_only_proprietary s, control_only_setup_hidden s, control_only_last_meta s])
       [14 := 2]) out"

section \<open>Properties\<close>

text \<open>The observable of the module and the part of it a setup message may touch.\<close>

definition hides_setup :: "status_probe \<Rightarrow> status_probe \<Rightarrow> bool" where
  "hides_setup s s' \<longleftrightarrow> s' = s\<lparr>setup_hidden := setup_hidden s', unframed_seen := unframed_seen s',
     control_only_seen := control_only_seen s', control_only_setup_hidden := control_only_setup_hidden s'\<rparr>"

text \<open>C33: nothing of a setup message leaks. For two setup messages of the same shape (the same framing
  bytes and length, whatever their contents) the state after the call is the same, by each of the three
  entry points, and only the counters of hidden and unframed messages can differ from before.\<close>

theorem probe_hides_setup:
  assumes "setup_opcode (p ! 4)" and "setup_opcode (q ! 4)" and "take 4 p = take 4 q"
    and "length p = n" and "length q = n" and "5 \<le> n" and "length c = 3"
  shows "ull_status_probe_air h (Some p) n s = ull_status_probe_air h (Some q) n s \<and>
    hides_setup s (ull_status_probe_air h (Some p) n s) \<and>
    ull_status_probe_acl (Some (drop 4 p)) (n - 4) s = ull_status_probe_acl (Some (drop 4 q)) (n - 4) s \<and>
    hides_setup s (ull_status_probe_acl (Some (drop 4 p)) (n - 4) s) \<and>
    ull_status_probe_control_only h (Some (c @ p)) (n + 3) s = ull_status_probe_control_only h (Some (c @ q)) (n + 3) s \<and>
    hides_setup s (ull_status_probe_control_only h (Some (c @ p)) (n + 3) s)"
proof -
  have head: "i < 4 \<Longrightarrow> p ! i = q ! i" for i using assms(3) by (metis nth_take)
  have same: "p ! 2 = q ! 2" "p ! 3 = q ! 3" "get16 p 0 = get16 q 0" "get16 p 0 = get16 p 0"
    using head [of 0] head [of 1] head [of 2] head [of 3] by (simp_all add: get16_def)
  have obs: "observe k (Some (drop 4 r)) m s = (if m = 0 then s else s\<lparr>setup_hidden := setup_hidden s + 1\<rparr>)"
    if "setup_opcode (r ! 4)" "length r = n" for k r m
    using that assms(6) by (simp add: observe_def)
  note obs = obs [OF assms(1,4)] obs [OF assms(2,5)]
  have "ull_status_probe_air h (Some p) n s = ull_status_probe_air h (Some q) n s"
    using same obs by (simp add: ull_status_probe_air_def Let_def)
  moreover have "hides_setup s (ull_status_probe_air h (Some p) n s)"
    using obs by (simp add: ull_status_probe_air_def Let_def hides_setup_def)
  moreover have "ull_status_probe_acl (Some (drop 4 p)) (n - 4) s = ull_status_probe_acl (Some (drop 4 q)) (n - 4) s"
    using obs by (simp add: ull_status_probe_acl_def)
  moreover have "hides_setup s (ull_status_probe_acl (Some (drop 4 p)) (n - 4) s)"
    using obs by (simp add: ull_status_probe_acl_def hides_setup_def)
  moreover have "ull_status_probe_control_only h (Some (c @ p)) (n + 3) s = ull_status_probe_control_only h (Some (c @ q)) (n + 3) s"
    using same assms(1,2,7) by (simp add: ull_status_probe_control_only_def Let_def nth_append)
  moreover have "hides_setup s (ull_status_probe_control_only h (Some (c @ p)) (n + 3) s)"
    using assms(1,7) by (simp add: ull_status_probe_control_only_def Let_def nth_append hides_setup_def)
  ultimately show ?thesis by blast
qed

theorem probe_hides_setup_witness:
  "ull_status_probe_air 2 (Some [1, 0, 1, 1, 0xe2]) 5 probe_zero =
     ull_status_probe_air 2 (Some [1, 0, 1, 1, 0x0f]) 5 probe_zero"
  using probe_hides_setup [of "[1, 0, 1, 1, 0xe2]" "[1, 0, 1, 1, 0x0f]" 5 "[0, 0, 0]" 2 probe_zero]
  by (simp add: setup_opcode_def)
end
