(* ===== verification/AirFeedback.thy ===== *)
theory AirFeedback
  imports TonePacket StatusProbe
begin

text \<open>
  Model of \<^verbatim>\<open>firmware/radio/src/air_feedback.c\<close>: a received Air packet is authenticated,
  parsed and folded into the feedback state of the two audio streams, from which the sequence numbers
  of the next frames are derived. The call threads a world that holds what the function changes
  besides its own state: the key cache of the CCM envelope, the status probe and the log of the calls
  of \<^verbatim>\<open>ull_air_microphone_frame\<close>. The result is the return value of the code.
\<close>

section \<open>Data\<close>

record ull_air_feedback_channel =
  fc_frame :: u32
  fc_expected_tx :: u8
  fc_next_ack :: u8
  fc_valid :: u8
  fc_after_tx :: u8

record ull_air_feedback =
  fb_generation :: u32
  fb_channels :: "ull_air_feedback_channel list"

record ull_air_control_rx =
  cr_present :: u8
  cr_header :: u8
  cr_length :: u8
  cr_payload :: bytes

record ull_radio_rx_snapshot =
  sn_hs :: u32
  sn_hus :: u16
  sn_descriptor :: "u16 list"
  sn_copied :: u8
  sn_payload :: bytes

record 'c feedback_world =
  w_ccm :: "'c ccm_session"
  w_probe :: status_probe
  w_microphone :: "(u32 \<times> u8 \<times> bytes) list"

section \<open>Receiving\<close>

text \<open>The update of one channel by a record; \<open>None\<close> for a stream without a channel.\<close>

definition feedback_record :: "u32 \<Rightarrow> air_rx_record \<Rightarrow> ull_air_feedback_channel list \<times> bool
    \<Rightarrow> (ull_air_feedback_channel list \<times> bool) option" where
  "feedback_record frame r s =
     (if rx_stream_id r < 1 \<or> rx_stream_id r > 2 then None
      else
        let i = unat (rx_stream_id r - 1); ch = fst s ! i in
        if fc_valid ch \<noteq> 0 \<and> frame < fc_frame ch then Some s
        else
          let ack = (if rx_flags r AND 8 \<noteq> 0 then 0 else (rx_sequence r + 1) AND 15) in
          if fc_valid ch = 0 \<or> fc_frame ch \<noteq> frame \<or> fc_expected_tx ch \<noteq> rx_ack r \<or> fc_next_ack ch \<noteq> ack
          then
            let ch = (if fc_valid ch = 0 \<or> fc_frame ch \<noteq> frame \<or> fc_expected_tx ch \<noteq> rx_ack r
                      then ch\<lparr>fc_after_tx := 0\<rparr> else ch);
                ch = ch\<lparr>fc_frame := frame, fc_expected_tx := rx_ack r, fc_next_ack := ack, fc_valid := 1\<rparr>
            in Some ((fst s)[i := ch], True)
          else Some s)"

fun feedback_records :: "u32 \<Rightarrow> air_rx_record list \<Rightarrow> ull_air_feedback_channel list \<times> bool
    \<Rightarrow> (ull_air_feedback_channel list \<times> bool) option" where
  "feedback_records frame [] s = Some s"
| "feedback_records frame (r # rs) s =
     (case feedback_record frame r s of None \<Rightarrow> None | Some s \<Rightarrow> feedback_records frame rs s)"

definition no_control_rx :: ull_air_control_rx where
  "no_control_rx = \<lparr>cr_present = 0, cr_header = 0, cr_length = 0, cr_payload = replicate 60 0\<rparr>"

definition owned_control :: "air_control_record \<Rightarrow> ull_air_control_rx option" where
  "owned_control c =
     (if ctl_present c then
        if ctl_length c > 60 then None
        else Some \<lparr>cr_present = 1, cr_header = ctl_header c, cr_length = of_nat (ctl_length c),
                    cr_payload = memcpy_at (cr_payload no_control_rx) 0 (take (ctl_length c) (ctl_payload c))\<rparr>
      else Some no_control_rx)"

definition microphone_calls :: "u32 \<Rightarrow> air_rx_record list \<Rightarrow> (u32 \<times> u8 \<times> bytes) list" where
  "microphone_calls frame rs =
     map (\<lambda>r. (frame, rx_sequence r, rx_payload r))
       (filter (\<lambda>r. rx_stream_id r = 1 \<and> rx_length r = 40) rs)"

text \<open>
  The time of a snapshot after a clock reading, in half-microseconds, when it is not half the clock
  range away. The functions return the result code, the state, the control output (unchanged when
  \<open>None\<close>) and the world.
\<close>

definition feedback_elapsed :: "ull_radio_rx_snapshot \<Rightarrow> u32 \<Rightarrow> u16 \<Rightarrow> int option" where
  "feedback_elapsed snapshot hs hus =
     (let coarse = (sn_hs snapshot - hs) AND 0x0fffffff in
      if coarse \<ge> 0x08000000 then None
      else Some (int (unat coarse) * 625 + int (unat (sn_hus snapshot)) - int (unat hus)))"

text \<open>The part of the function behind the decryption, on the plaintext.\<close>

definition feedback_parsed :: "ull_air_feedback \<Rightarrow> u32 \<Rightarrow> u8 \<Rightarrow> bytes \<Rightarrow> 'c feedback_world
    \<Rightarrow> int \<times> ull_air_feedback option \<times> ull_air_control_rx option \<times> 'c feedback_world" where
  "feedback_parsed st frame header plain w =
     (case air_uplink_parse_control (Some plain) header (Some [40, 95]) 4 True True of
        Inr (r # rs, control) \<Rightarrow>
          (case feedback_records frame (r # rs) (fb_channels st, False) of
             None \<Rightarrow> (-4, Some st, None, w)
           | Some (channels, changed) \<Rightarrow>
               (case owned_control control of
                  None \<Rightarrow> (-4, Some st, None, w)
                | Some owned \<Rightarrow>
                    (0,
                     Some (if changed then \<lparr>fb_generation = fb_generation st + 1, fb_channels = channels\<rparr> else st),
                     Some owned,
                     w\<lparr>w_microphone := w_microphone w @ microphone_calls frame (r # rs)\<rparr>)))
      | _ \<Rightarrow>
          (-4, Some st, None,
           if header AND 0x79 = 1
           then w\<lparr>w_probe := ull_status_probe_control_only header (Some plain) (length plain) (w_probe w)\<rparr>
           else w))"

definition snapshot_header :: "ull_radio_rx_snapshot \<Rightarrow> u8" where
  "snapshot_header sn = ucast (sn_descriptor sn ! 2)"

definition ull_air_feedback_accept_frame :: "'c mbedtls_ccm \<Rightarrow> ull_air_feedback option
    \<Rightarrow> ull_air_session_plan option \<Rightarrow> ull_radio_rx_snapshot option \<Rightarrow> u32 \<Rightarrow> 'c feedback_world
    \<Rightarrow> int \<times> ull_air_feedback option \<times> ull_air_control_rx option \<times> 'c feedback_world" where
  "ull_air_feedback_accept_frame mb state plan snapshot frame w =
     (case (state, plan, snapshot) of
        (Some st, Some pl, Some sn) \<Rightarrow>
          if pl_e2 pl ! 0 \<noteq> 0xe2 \<or> sn_hs sn > 0x0fffffff \<or> sn_hus sn > 624 \<or> pl_start_hus pl > 624
          then (-1, state, None, w)
          else
            let d = sn_descriptor sn; header = snapshot_header sn; len = unat (drop_bit 8 (d ! 2)) in
            if d ! 1 AND 9 \<noteq> 0 \<or> len < 7 \<or> len \<noteq> unat (sn_copied sn) \<or> len > 64 then (-2, state, None, w)
            else
              (case ull_air_session_time plan frame 0 True of
                 None \<Rightarrow> (-1, state, None, w)
               | Some (hs, hus) \<Rightarrow>
                   (case feedback_elapsed sn hs hus of
                      None \<Rightarrow> (-1, state, None, w)
                    | Some elapsed \<Rightarrow>
                        if elapsed < 0 \<or> elapsed \<ge> int (unat (ULL_AIR_INTERVAL_US * 2)) then (-1, state, None, w)
                        else
                          (case ull_ble_ccm_decrypt mb True (block 52 16 (pl_e2 pl)) (block 44 8 (pl_e2 pl)) 0 0
                                  (header AND 0xe3) (take len (sn_payload sn)) 64 (w_ccm w) of
                             (Inl _, ccm) \<Rightarrow> (-3, state, None, w\<lparr>w_ccm := ccm\<rparr>)
                           | (Inr plain, ccm) \<Rightarrow>
                               feedback_parsed st frame header (take (len - 4) plain) (w\<lparr>w_ccm := ccm\<rparr>))))
      | _ \<Rightarrow> (-1, state, None, w))"

definition ull_air_feedback_accept_control :: "'c mbedtls_ccm \<Rightarrow> ull_air_feedback option
    \<Rightarrow> ull_air_session_plan option \<Rightarrow> ull_radio_rx_snapshot option \<Rightarrow> 'c feedback_world
    \<Rightarrow> int \<times> ull_air_feedback option \<times> ull_air_control_rx option \<times> 'c feedback_world" where
  "ull_air_feedback_accept_control mb state plan snapshot w =
     (case (plan, snapshot) of
        (Some pl, Some sn) \<Rightarrow>
          if sn_hus sn > 624 \<or> pl_start_hus pl > 624 then (-1, state, None, w)
          else
            (case feedback_elapsed sn (pl_start_hs pl) (pl_start_hus pl) of
               None \<Rightarrow> (-1, state, None, w)
             | Some elapsed \<Rightarrow>
                 if elapsed < 0 \<or> elapsed \<ge> int ULL_TONE_FRAME_COUNT * 10000 then (-1, state, None, w)
                 else ull_air_feedback_accept_frame mb state plan snapshot (of_int (elapsed div 10000)) w)
      | _ \<Rightarrow> (-1, state, None, w))"

definition ull_air_feedback_accept :: "'c mbedtls_ccm \<Rightarrow> ull_air_feedback option
    \<Rightarrow> ull_air_session_plan option \<Rightarrow> ull_radio_rx_snapshot option \<Rightarrow> 'c feedback_world
    \<Rightarrow> int \<times> ull_air_feedback option \<times> 'c feedback_world" where
  "ull_air_feedback_accept mb state plan snapshot w =
     (case ull_air_feedback_accept_control mb state plan snapshot w of (r, st, _, w) \<Rightarrow> (r, st, w))"

section \<open>Sending\<close>

definition note_channel :: "u32 \<Rightarrow> u8 \<Rightarrow> bytes \<Rightarrow> nat \<Rightarrow> ull_air_feedback_channel \<Rightarrow> bool" where
  "note_channel frame stream_mask sequences i ch \<longleftrightarrow>
     stream_mask AND push_bit (i + 1) 1 \<noteq> 0 \<and> fc_valid ch \<noteq> 0 \<and> fc_frame ch = frame \<and>
     fc_expected_tx ch = (sequences ! i + 1) AND 15 \<and> fc_after_tx ch = 0"

definition ull_air_feedback_note_tx :: "ull_air_feedback \<Rightarrow> u32 \<Rightarrow> u8 \<Rightarrow> bytes \<Rightarrow> ull_air_feedback" where
  "ull_air_feedback_note_tx st frame stream_mask sequences =
     (let hit = (\<lambda>i. note_channel frame stream_mask sequences i (fb_channels st ! i));
          channels = map (\<lambda>i. if hit i then (fb_channels st ! i)\<lparr>fc_after_tx := 1\<rparr> else fb_channels st ! i) [0..<2]
      in \<lparr>fb_generation = (if hit 0 \<or> hit 1 then fb_generation st + 1 else fb_generation st),
          fb_channels = channels\<rparr>)"

definition expiry_age :: "u32 \<Rightarrow> u32 \<Rightarrow> u32" where
  "expiry_age frame start = (if frame > start then frame - start - 1 else 0)"

definition feedback_sequence :: "ull_air_feedback \<Rightarrow> u32 \<Rightarrow> u32 list \<Rightarrow> nat \<Rightarrow> u8 \<times> u8" where
  "feedback_sequence st frame starts i =
     (let ch = fb_channels st ! i; age = expiry_age frame (starts ! i) in
      if fc_valid ch \<noteq> 0 \<and> fc_frame ch \<ge> starts ! i \<and> frame \<ge> fc_frame ch then
        let advance = age - expiry_age (fc_frame ch) (starts ! i);
            advance = (if fc_after_tx ch \<noteq> 0 \<and> advance \<noteq> 0 then advance - 1 else advance)
        in (ucast ((ucast (fc_expected_tx ch) + advance) AND 15), fc_next_ack ch)
      else (ucast (age AND 15), 0))"

definition ull_air_feedback_sequences :: "ull_air_feedback \<Rightarrow> u32 \<Rightarrow> u32 list \<Rightarrow> bytes \<times> bytes" where
  "ull_air_feedback_sequences st frame starts =
     (let s = map (feedback_sequence st frame starts) [0..<2] in (map fst s, map snd s))"

section \<open>The invariant of the channels\<close>

definition channel_ok :: "ull_air_feedback_channel \<Rightarrow> bool" where
  "channel_ok ch \<longleftrightarrow> fc_expected_tx ch \<le> 15 \<and> fc_next_ack ch \<le> 15 \<and> fc_valid ch \<le> 1 \<and> fc_after_tx ch \<le> 1"

definition feedback_ok :: "ull_air_feedback \<Rightarrow> bool" where
  "feedback_ok st \<longleftrightarrow> length (fb_channels st) = 2 \<and> (\<forall>ch \<in> set (fb_channels st). channel_ok ch)"

text \<open>A channel that has become valid stays valid and its frame never goes back.\<close>

definition channel_le :: "ull_air_feedback_channel \<Rightarrow> ull_air_feedback_channel \<Rightarrow> bool" where
  "channel_le a b \<longleftrightarrow> fc_valid a \<noteq> 0 \<longrightarrow> fc_valid b \<noteq> 0 \<and> fc_frame a \<le> fc_frame b"

definition rx_nibbles :: "air_rx_record \<Rightarrow> bool" where
  "rx_nibbles r \<longleftrightarrow> rx_ack r \<le> 15 \<and> rx_sequence r \<le> 15"

lemma channel_le_refl [simp]: "channel_le a a"
  by (simp add: channel_le_def)

lemma channel_le_trans: "channel_le a b \<Longrightarrow> channel_le b c \<Longrightarrow> channel_le a c"
  by (auto simp: channel_le_def)

lemma list_all2_le_trans:
  "list_all2 channel_le xs ys \<Longrightarrow> list_all2 channel_le ys zs \<Longrightarrow> list_all2 channel_le xs zs"
  by (rule list_all2_trans [of channel_le channel_le channel_le]) (auto intro: channel_le_trans)

lemma nibble_and [simp]: "(x :: u8) AND 15 \<le> 15"
  by (rule word_and_le1)

lemma feedback_record_keeps:
  assumes "feedback_record frame r (chs, changed) = Some (chs', changed')" and "length chs = 2"
    and "\<forall>ch \<in> set chs. channel_ok ch" and "rx_nibbles r"
  shows "length chs' = 2" and "\<forall>ch \<in> set chs'. channel_ok ch" and "list_all2 channel_le chs chs'"
    and "changed \<Longrightarrow> changed'" and "\<not> changed' \<Longrightarrow> chs' = chs"
proof -
  let ?i = "unat (rx_stream_id r - 1)"
  have r: "\<not> (rx_stream_id r < 1 \<or> rx_stream_id r > 2)"
    using assms(1) by (auto simp: feedback_record_def split: if_splits)
  then have "1 \<le> unat (rx_stream_id r)" "unat (rx_stream_id r) \<le> 2"
    by (simp_all add: word_less_nat_alt word_le_nat_alt not_less)
  then have i: "?i < length chs"
    using assms(2) by (simp add: unat_sub_if' word_le_nat_alt)
  then have ok: "channel_ok (chs ! ?i)" using assms(3) by simp
  consider "chs' = chs" "changed' = changed"
    | ch' where "chs' = chs[?i := ch']" "changed'" "channel_ok ch'" "channel_le (chs ! ?i) ch'"
    using assms(1,4) ok r
    by (auto simp: feedback_record_def Let_def channel_ok_def channel_le_def rx_nibbles_def not_less split: if_splits)
  then have "length chs' = 2 \<and> (\<forall>ch\<in>set chs'. channel_ok ch) \<and> list_all2 channel_le chs chs' \<and>
        (changed \<longrightarrow> changed') \<and> (\<not> changed' \<longrightarrow> chs' = chs)"
  proof cases
    case 1
    then show ?thesis using assms(2,3) by (simp add: list_all2_refl)
  next
    case (2 ch')
    have "set chs' \<subseteq> insert ch' (set chs)" unfolding 2(1) by (rule set_update_subset_insert)
    then have "\<forall>ch\<in>set chs'. channel_ok ch" using assms(3) 2(3) by blast
    moreover have "list_all2 channel_le chs chs'"
      unfolding 2(1) list_all2_conv_all_nth using 2(4) i by (auto simp: nth_list_update)
    ultimately show ?thesis using assms(2) 2(1,2) by simp
  qed
  then show "length chs' = 2" and "\<forall>ch \<in> set chs'. channel_ok ch" and "list_all2 channel_le chs chs'"
    and "changed \<Longrightarrow> changed'" and "\<not> changed' \<Longrightarrow> chs' = chs"
    by blast+
qed

lemma feedback_records_keeps:
  assumes "feedback_records frame rs (chs, changed) = Some (chs', changed')" and "length chs = 2"
    and "\<forall>ch \<in> set chs. channel_ok ch" and "\<forall>r \<in> set rs. rx_nibbles r"
  shows "length chs' = 2 \<and> (\<forall>ch \<in> set chs'. channel_ok ch) \<and> list_all2 channel_le chs chs' \<and>
    (changed \<longrightarrow> changed') \<and> (\<not> changed' \<longrightarrow> chs' = chs)"
  using assms
proof (induction rs arbitrary: chs changed)
  case Nil
  then show ?case by (simp add: list_all2_refl)
next
  case (Cons r rs)
  obtain chs1 changed1 where one: "feedback_record frame r (chs, changed) = Some (chs1, changed1)"
    and rest: "feedback_records frame rs (chs1, changed1) = Some (chs', changed')"
    using Cons.prems(1) by (auto split: option.splits)
  have "rx_nibbles r" using Cons.prems(4) by simp
  note k = feedback_record_keeps [OF one Cons.prems(2,3) this]
  have "\<forall>r \<in> set rs. rx_nibbles r" using Cons.prems(4) by simp
  from Cons.IH [OF rest k(1,2) this] show ?case
    using k list_all2_le_trans by blast
qed

section \<open>An accepted packet\<close>

text \<open>What a return value of 0 stands for.\<close>

definition packet_accepted :: "ull_air_feedback \<Rightarrow> u32 \<Rightarrow> u8 \<Rightarrow> bytes \<Rightarrow> air_rx_record list \<Rightarrow> air_control_record
    \<Rightarrow> ull_air_feedback \<Rightarrow> bool" where
  "packet_accepted st frame header plain records control st' \<longleftrightarrow>
     air_uplink_parse_control (Some plain) header (Some [40, 95]) 4 True True = Inr (records, control) \<and>
     (\<exists>channels changed. feedback_records frame records (fb_channels st, False) = Some (channels, changed) \<and>
        st' = (if changed then \<lparr>fb_generation = fb_generation st + 1, fb_channels = channels\<rparr> else st))"

lemma feedback_parsed_cases:
  assumes "feedback_parsed st frame header plain w = (code, st', control, w')"
  shows "(code = -4 \<and> st' = Some st \<and> control = None \<and> w_microphone w' = w_microphone w \<and> w_ccm w' = w_ccm w) \<or>
    (\<exists>records ctl st2 owned. code = 0 \<and> st' = Some st2 \<and> packet_accepted st frame header plain records ctl st2 \<and>
       owned_control ctl = Some owned \<and> control = Some owned \<and>
       w' = w\<lparr>w_microphone := w_microphone w @ microphone_calls frame records\<rparr>)"
proof (cases "air_uplink_parse_control (Some plain) header (Some [40, 95]) 4 True True")
  case (Inl e)
  then show ?thesis using assms by (auto simp: feedback_parsed_def)
next
  case (Inr x)
  then obtain records ctl where x: "x = (records, ctl)" by (cases x)
  show ?thesis
  proof (cases records)
    case Nil
    then show ?thesis using assms Inr x by (auto simp: feedback_parsed_def)
  next
    case (Cons r rs)
    note p = Inr [unfolded x Cons]
    show ?thesis
    proof (cases "feedback_records frame (r # rs) (fb_channels st, False)")
      case None
      then show ?thesis using assms p by (auto simp: feedback_parsed_def)
    next
      case (Some y)
      then obtain channels changed where y: "feedback_records frame (r # rs) (fb_channels st, False) = Some (channels, changed)"
        by (cases y) auto
      show ?thesis
      proof (cases "owned_control ctl")
        case None
        then show ?thesis using assms p y by (auto simp: feedback_parsed_def simp del: feedback_records.simps)
      next
        case (Some owned)
        then show ?thesis using assms p y
          by (auto simp: feedback_parsed_def packet_accepted_def simp del: feedback_records.simps
              intro!: exI [of _ "r # rs"] exI [of _ ctl] exI [of _ owned])
      qed
    qed
  qed
qed

lemma accept_frame_cases:
  assumes "ull_air_feedback_accept_frame mb (Some st) plan snapshot frame w = (code, st', control, w')"
  shows "(code < 0 \<and> st' = Some st \<and> control = None \<and> w_microphone w' = w_microphone w) \<or>
    (\<exists>pl sn hs hus elapsed plain records ctl st2 owned.
       code = 0 \<and> st' = Some st2 \<and> plan = Some pl \<and> snapshot = Some sn \<and>
       ull_air_session_time plan frame 0 True = Some (hs, hus) \<and> feedback_elapsed sn hs hus = Some elapsed \<and>
       0 \<le> elapsed \<and> elapsed < 10000 \<and>
       packet_accepted st frame (snapshot_header sn) plain records ctl st2 \<and>
       owned_control ctl = Some owned \<and> control = Some owned \<and>
       w_microphone w' = w_microphone w @ microphone_calls frame records)"
proof -
  have span: "unat (ULL_AIR_INTERVAL_US * 2) = 10000" by (simp add: session_constants)
  obtain pl where pl: "plan = Some pl \<or> (plan = None)" by (cases plan) auto
  show ?thesis
  proof (cases "\<exists>pl sn. plan = Some pl \<and> snapshot = Some sn")
    case False
    then show ?thesis using assms
      by (auto simp: ull_air_feedback_accept_frame_def split: option.splits)
  next
    case True
    then obtain pl sn where ps: "plan = Some pl" "snapshot = Some sn" by blast
    note def = assms [unfolded ull_air_feedback_accept_frame_def ps Let_def span, simplified]
    let ?early = "code < 0 \<and> st' = Some st \<and> control = None \<and> w_microphone w' = w_microphone w"
    show ?thesis
    proof (cases ?early)
      case False
      from def False obtain hs hus elapsed plain ccm where
        t: "ull_air_session_time plan frame 0 True = Some (hs, hus)" "feedback_elapsed sn hs hus = Some elapsed"
          "0 \<le> elapsed" "elapsed < 10000"
        and parsed: "feedback_parsed st frame (snapshot_header sn) plain (w\<lparr>w_ccm := ccm\<rparr>) = (code, st', control, w')"
        unfolding ps by (auto simp: not_le split: if_splits option.splits sum.splits prod.splits)
      from feedback_parsed_cases [OF parsed] show ?thesis
      proof (elim disjE exE conjE)
        assume "code = -4" "st' = Some st" "control = None" "w_microphone w' = w_microphone (w\<lparr>w_ccm := ccm\<rparr>)"
        then show ?thesis using False by simp
      next
        fix records ctl st2 owned
        assume "code = 0" "st' = Some st2" "packet_accepted st frame (snapshot_header sn) plain records ctl st2"
          "owned_control ctl = Some owned" "control = Some owned"
          "w' = w\<lparr>w_ccm := ccm, w_microphone := w_microphone (w\<lparr>w_ccm := ccm\<rparr>) @ microphone_calls frame records\<rparr>"
        then show ?thesis
          by (intro disjI2 exI [of _ pl] exI [of _ sn] exI [of _ hs] exI [of _ hus] exI [of _ elapsed]
              exI [of _ plain] exI [of _ records] exI [of _ ctl] exI [of _ st2] exI [of _ owned])
            (use t ps in simp)
      qed
    qed blast
  qed
qed

lemma filter_streams:
  "distinct (filter P [0, 1, 2, 3 :: u8])"
  by (intro distinct_filter) simp

lemma accepted_records:
  assumes "packet_accepted st frame header plain records control st'"
  shows "\<forall>r \<in> set records. rx_nibbles r" and "distinct (map rx_stream_id records)"
proof -
  from assms have "uplink_parse (Some plain) (drop_bit 3 header AND 15) (Some [40, 95]) 4 True (header AND 1 \<noteq> 0) True
      = Inr (records, control)"
    by (simp add: packet_accepted_def air_uplink_parse_control_def)
  then have "uplink_frame (drop_bit 3 header AND 15) [40, 95] (header AND 1 \<noteq> 0) True records control plain"
    unfolding uplink_parse_iff by blast
  then have "\<forall>r \<in> set records. rx_ok (unat ([40, 95] ! unat (plain ! 0 AND 3) :: u8)) r"
    and "map rx_stream_id records = filter (\<lambda>sid. (drop_bit 3 header AND 15) AND push_bit (unat sid) 1 \<noteq> 0) [0, 1, 2, 3]"
    unfolding uplink_frame_def by blast+
  then show "\<forall>r \<in> set records. rx_nibbles r" "distinct (map rx_stream_id records)"
    using filter_streams by (auto simp: rx_ok_def rx_nibbles_def)
qed

text \<open>The value of a channel after a record of its stream.\<close>

definition channel_index :: "air_rx_record \<Rightarrow> nat" where
  "channel_index r = unat (rx_stream_id r - 1)"

definition channel_after :: "u32 \<Rightarrow> air_rx_record \<Rightarrow> ull_air_feedback_channel \<Rightarrow> ull_air_feedback_channel" where
  "channel_after frame r ch =
     (if fc_valid ch \<noteq> 0 \<and> frame < fc_frame ch then ch
      else \<lparr>fc_frame = frame, fc_expected_tx = rx_ack r,
             fc_next_ack = (if rx_flags r AND 8 \<noteq> 0 then 0 else (rx_sequence r + 1) AND 15), fc_valid = 1,
             fc_after_tx = (if fc_valid ch \<noteq> 0 \<and> fc_frame ch = frame \<and> fc_expected_tx ch = rx_ack r
                            then fc_after_tx ch else 0)\<rparr>)"

lemma channel_index_cases:
  "\<not> (rx_stream_id r < 1 \<or> rx_stream_id r > 2) \<Longrightarrow> channel_index r < 2 \<and> unat (rx_stream_id r) = channel_index r + 1"
proof -
  assume "\<not> (rx_stream_id r < 1 \<or> rx_stream_id r > 2)"
  then have "1 \<le> unat (rx_stream_id r)" "unat (rx_stream_id r) \<le> 2"
    by (simp_all add: word_less_nat_alt word_le_nat_alt not_less)
  then show ?thesis by (simp add: channel_index_def unat_sub_if')
qed

lemma u8_le_1: "x \<le> 1 \<Longrightarrow> x \<noteq> 0 \<Longrightarrow> x = (1 :: u8)"
  by (simp add: word_le_nat_alt word_unat_eq_iff)

lemma feedback_record_after:
  assumes "feedback_record frame r (chs, changed) = Some (chs', changed')" and "length chs = 2"
    and "\<forall>ch \<in> set chs. channel_ok ch"
  shows "chs' = chs[channel_index r := channel_after frame r (chs ! channel_index r)]"
    and "channel_index r < 2" and "unat (rx_stream_id r) = channel_index r + 1"
proof -
  have r: "\<not> (rx_stream_id r < 1 \<or> rx_stream_id r > 2)"
    using assms(1) by (auto simp: feedback_record_def split: if_splits)
  from channel_index_cases [OF this] show i: "channel_index r < 2" "unat (rx_stream_id r) = channel_index r + 1" by auto
  let ?ch = "chs ! channel_index r"
  have "channel_ok ?ch" using i assms(2,3) by simp
  then have v: "fc_valid ?ch \<noteq> 0 \<Longrightarrow> fc_valid ?ch = 1"
    using u8_le_1 by (simp add: channel_ok_def)
  have same: "chs = chs[channel_index r := channel_after frame r ?ch]" if "channel_after frame r ?ch = ?ch"
    using that by simp
  consider (old) "fc_valid ?ch \<noteq> 0 \<and> frame < fc_frame ?ch"
    | (keep) "fc_valid ?ch \<noteq> 0" "\<not> frame < fc_frame ?ch" "fc_frame ?ch = frame" "fc_expected_tx ?ch = rx_ack r"
        "fc_next_ack ?ch = (if rx_flags r AND 8 \<noteq> 0 then 0 else (rx_sequence r + 1) AND 15)"
    | (new) "\<not> (fc_valid ?ch \<noteq> 0 \<and> frame < fc_frame ?ch)"
        "fc_valid ?ch = 0 \<or> fc_frame ?ch \<noteq> frame \<or> fc_expected_tx ?ch \<noteq> rx_ack r \<or>
         fc_next_ack ?ch \<noteq> (if rx_flags r AND 8 \<noteq> 0 then 0 else (rx_sequence r + 1) AND 15)"
    by blast
  then show "chs' = chs[channel_index r := channel_after frame r ?ch]"
  proof cases
    case old
    then have "channel_after frame r ?ch = ?ch" by (simp add: channel_after_def)
    then show ?thesis using assms(1) r old
      by (simp add: feedback_record_def flip: channel_index_def)
  next
    case keep
    then have "channel_after frame r ?ch = ?ch" using v
      by (cases ?ch) (simp add: channel_after_def)
    then show ?thesis using assms(1) r keep
      by (simp add: feedback_record_def flip: channel_index_def)
  next
    case new
    then show ?thesis using assms(1) r
      by (cases ?ch) (auto simp: feedback_record_def channel_after_def Let_def simp flip: channel_index_def split: if_splits)
  qed
qed

lemma feedback_records_after:
  assumes "feedback_records frame rs (chs, changed) = Some (chs', changed')" and "length chs = 2"
    and "\<forall>ch \<in> set chs. channel_ok ch" and "\<forall>r \<in> set rs. rx_nibbles r" and "distinct (map rx_stream_id rs)"
  shows "(\<forall>r \<in> set rs. channel_index r < 2 \<and> unat (rx_stream_id r) = channel_index r + 1 \<and>
      chs' ! channel_index r = channel_after frame r (chs ! channel_index r)) \<and>
    (\<forall>i < 2. i \<notin> channel_index ` set rs \<longrightarrow> chs' ! i = chs ! i)"
  using assms
proof (induction rs arbitrary: chs changed)
  case Nil
  then show ?case by simp
next
  case (Cons r rs)
  obtain chs1 changed1 where one: "feedback_record frame r (chs, changed) = Some (chs1, changed1)"
    and rest: "feedback_records frame rs (chs1, changed1) = Some (chs', changed')"
    using Cons.prems(1) by (auto split: option.splits)
  note a = feedback_record_after [OF one Cons.prems(2,3)]
  have nib: "rx_nibbles r" "\<forall>r \<in> set rs. rx_nibbles r" "distinct (map rx_stream_id rs)" using Cons.prems(4,5) by simp_all
  note k = feedback_record_keeps [OF one Cons.prems(2,3) nib(1)]
  note ih = Cons.IH [OF rest k(1,2) nib(2,3)]
  have fresh: "channel_index r \<noteq> channel_index q" if "q \<in> set rs" for q
  proof
    assume "channel_index r = channel_index q"
    then have "unat (rx_stream_id r) = unat (rx_stream_id q)" using a(3) ih that by simp
    then have "rx_stream_id r = rx_stream_id q" by (simp add: word_unat_eq_iff)
    then show False using Cons.prems(5) that by auto
  qed
  then have "chs' ! channel_index r = chs1 ! channel_index r" using ih a(2) by auto
  moreover have "chs1 ! channel_index r = channel_after frame r (chs ! channel_index r)"
    using a(1,2) Cons.prems(2) by simp
  moreover have "chs1 ! channel_index q = chs ! channel_index q" if "q \<in> set rs" for q
    using fresh [OF that] by (simp add: a(1))
  ultimately show ?case using a ih by auto
qed

section \<open>Reachable feedback states\<close>

definition feedback_zero :: ull_air_feedback where
  "feedback_zero = \<lparr>fb_generation = 0, fb_channels = replicate 2
     \<lparr>fc_frame = 0, fc_expected_tx = 0, fc_next_ack = 0, fc_valid = 0, fc_after_tx = 0\<rparr>\<rparr>"

lemma feedback_zero_ok: "feedback_ok feedback_zero"
  by (simp add: feedback_zero_def feedback_ok_def channel_ok_def)

lemma accept_frame_keeps:
  assumes "ull_air_feedback_accept_frame mb (Some st) plan snapshot frame w = (code, Some st', control, w')"
    and "feedback_ok st"
  shows "feedback_ok st'" and "list_all2 channel_le (fb_channels st) (fb_channels st')"
proof -
  have "feedback_ok st' \<and> list_all2 channel_le (fb_channels st) (fb_channels st')"
    using accept_frame_cases [OF assms(1)]
  proof (elim disjE exE conjE)
    assume "Some st' = Some st"
    then show ?thesis using assms(2) by (simp add: list_all2_refl)
  next
    fix sn plain records ctl st2
    assume st2: "Some st' = Some st2" and acc: "packet_accepted st frame (snapshot_header sn) plain records ctl st2"
    from acc obtain channels changed where r: "feedback_records frame records (fb_channels st, False) = Some (channels, changed)"
      and st': "st2 = (if changed then \<lparr>fb_generation = fb_generation st + 1, fb_channels = channels\<rparr> else st)"
      by (auto simp: packet_accepted_def)
    from feedback_records_keeps [OF r _ _ accepted_records(1) [OF acc]] assms(2)
    show ?thesis using st' st2 by (auto simp: feedback_ok_def list_all2_refl)
  qed
  then show "feedback_ok st'" "list_all2 channel_le (fb_channels st) (fb_channels st')" by blast+
qed

lemma accept_control_steps:
  "\<exists>frame. ull_air_feedback_accept_control mb st plan snapshot w = ull_air_feedback_accept_frame mb st plan snapshot frame w
     \<or> ull_air_feedback_accept_control mb st plan snapshot w = (-1, st, None, w)"
  by (auto simp: ull_air_feedback_accept_control_def split: option.splits)

lemma note_tx_keeps:
  assumes "feedback_ok st"
  shows "feedback_ok (ull_air_feedback_note_tx st frame m sequences)"
    and "list_all2 channel_le (fb_channels st) (fb_channels (ull_air_feedback_note_tx st frame m sequences))"
proof -
  obtain a b where st: "fb_channels st = [a, b]"
    using assms by (auto simp: feedback_ok_def length_Suc_conv numeral_2_eq_2)
  show "feedback_ok (ull_air_feedback_note_tx st frame m sequences)"
    "list_all2 channel_le (fb_channels st) (fb_channels (ull_air_feedback_note_tx st frame m sequences))"
    using assms by (auto simp: ull_air_feedback_note_tx_def Let_def feedback_ok_def channel_ok_def channel_le_def st upt_rec)
qed

inductive feedback_step :: "'c mbedtls_ccm \<Rightarrow> ull_air_feedback \<Rightarrow> ull_air_feedback \<Rightarrow> bool" for mb where
  frame: "ull_air_feedback_accept_frame mb (Some st) plan snapshot frame w = (code, Some st', control, w') \<Longrightarrow>
    feedback_step mb st st'"
| control: "ull_air_feedback_accept_control mb (Some st) plan snapshot w = (code, Some st', control, w') \<Longrightarrow>
    feedback_step mb st st'"
| noted: "feedback_step mb st (ull_air_feedback_note_tx st frame m sequences)"

lemma feedback_step_keeps:
  "feedback_step mb st st' \<Longrightarrow> feedback_ok st \<Longrightarrow>
     feedback_ok st' \<and> list_all2 channel_le (fb_channels st) (fb_channels st')"
proof (induction rule: feedback_step.induct)
  case (frame st plan snapshot frame w code st' control w')
  then show ?case using accept_frame_keeps by blast
next
  case (control st plan snapshot w code st' control w')
  from accept_control_steps [of mb "Some st" plan snapshot w] obtain frame where
    "ull_air_feedback_accept_control mb (Some st) plan snapshot w = ull_air_feedback_accept_frame mb (Some st) plan snapshot frame w
     \<or> ull_air_feedback_accept_control mb (Some st) plan snapshot w = (-1, Some st, None, w)" by blast
  then show ?case
  proof
    assume "ull_air_feedback_accept_control mb (Some st) plan snapshot w = ull_air_feedback_accept_frame mb (Some st) plan snapshot frame w"
    then have "ull_air_feedback_accept_frame mb (Some st) plan snapshot frame w = (code, Some st', control, w')"
      using control by simp
    then show ?case using accept_frame_keeps control by blast
  next
    assume "ull_air_feedback_accept_control mb (Some st) plan snapshot w = (-1, Some st, None, w)"
    then show ?case using control by (simp add: list_all2_refl)
  qed
next
  case (noted st frame m sequences)
  then show ?case using note_tx_keeps by blast
qed

lemma feedback_steps_keep:
  "(feedback_step mb)\<^sup>*\<^sup>* st st' \<Longrightarrow> feedback_ok st \<Longrightarrow>
     feedback_ok st' \<and> list_all2 channel_le (fb_channels st) (fb_channels st')"
proof (induction rule: rtranclp_induct)
  case base
  then show ?case by (simp add: list_all2_refl)
next
  case (step st1 st2)
  then show ?case using feedback_step_keeps list_all2_le_trans by blast
qed

lemma sequence_nibbles:
  assumes "feedback_ok st" and "i < 2"
  shows "fst (feedback_sequence st frame starts i) \<le> 15" and "snd (feedback_sequence st frame starts i) \<le> 15"
proof -
  have n: "(ucast (w AND 15 :: u32) :: u8) \<le> 15" for w :: u32
  proof -
    have "w AND 15 \<le> 15" by (rule word_and_le1)
    then have "unat (w AND 15) \<le> 15" by (simp add: word_le_nat_alt)
    then show ?thesis by (simp add: word_le_nat_alt unat_ucast)
  qed
  have "channel_ok (fb_channels st ! i)" using assms by (simp add: feedback_ok_def)
  then show "fst (feedback_sequence st frame starts i) \<le> 15" "snd (feedback_sequence st frame starts i) \<le> 15"
    using n by (simp_all add: feedback_sequence_def Let_def channel_ok_def)
qed

section \<open>Properties\<close>


definition ex_snapshot :: ull_radio_rx_snapshot where
  "ex_snapshot = \<lparr>sn_hs = 53, sn_hus = 10, sn_descriptor = [0, 0, 0x0710, 0, 0, 0, 0, 0, 0, 0], sn_copied = 7,
     sn_payload = [1, 0x34, 5, 0, 0, 0, 0] @ replicate 57 0\<rparr>"

definition ex_world :: "bytes feedback_world" where
  "ex_world = \<lparr>w_ccm = ull_ble_ccm_reset, w_probe = probe_zero, w_microphone = []\<rparr>"

lemma ex_feedback_accepted:
  "\<exists>st' control w'. ull_air_feedback_accept_frame ex_mb (Some feedback_zero) (Some ex_tone_plan) (Some ex_snapshot) 3 ex_world
     = (0, Some st', control, w')"
proof -
  have time: "ull_air_session_time (Some ex_tone_plan) 3 0 True = Some (53, 0)"
    by (simp add: ull_air_session_time_def ex_tone_plan_def session_constants CLOCK_MASK_def Let_def)
  have el: "feedback_elapsed ex_snapshot 53 0 = Some 10"
    by (simp add: feedback_elapsed_def ex_snapshot_def)
  have dec: "ull_ble_ccm_decrypt ex_mb True (block 52 16 (pl_e2 ex_tone_plan)) (block 44 8 (pl_e2 ex_tone_plan)) 0 0 0
      [1, 0x34, 5, 0, 0, 0, 0] 64 ull_ble_ccm_reset = (Inr [0, 0x35, 4], snd (ccm_session_key ex_mb (replicate 16 1) ull_ble_ccm_reset))"
    by (simp add: ull_ble_ccm_decrypt_def ccm_session_key_def ull_ble_ccm_reset_def ex_mb_def ccm_nonce_def Let_def
        ex_tone_plan_def block_def upt_rec)
  have parse: "air_uplink_parse_control (Some [0, 0x35, 4]) 0x10 (Some [40, 95]) 4 True True =
      Inr ([\<lparr>rx_payload = [], rx_length = 0, rx_stream_id = 1, rx_sequence = 3, rx_ack = 5, rx_kind = 0, rx_flags = 4\<rparr>], no_control)"
    by (simp add: air_uplink_parse_control_def uplink_parse_def sizes_valid_def air_limits uplink_records.simps
        uplink_record_def uplink_tail_def block_def less_Suc_eq Let_def)
  have step: "\<exists>chs b. feedback_record 3 \<lparr>rx_payload = [], rx_length = 0, rx_stream_id = 1, rx_sequence = 3, rx_ack = 5,
      rx_kind = 0, rx_flags = 4\<rparr> (fb_channels feedback_zero, False) = Some (chs, b)"
    by (auto simp: feedback_record_def feedback_zero_def Let_def)
  have "pl_e2 ex_tone_plan ! 0 = 0xe2" "pl_start_hus ex_tone_plan = 0" by (simp_all add: ex_tone_plan_def)
  moreover have "snapshot_header ex_snapshot = 0x10" "sn_hs ex_snapshot = 53" "sn_hus ex_snapshot = 10"
      "sn_copied ex_snapshot = 7" "sn_descriptor ex_snapshot ! 1 = 0" "sn_descriptor ex_snapshot ! 2 = 0x0710"
      "take 7 (sn_payload ex_snapshot) = [1, 0x34, 5, 0, 0, 0, 0]" "w_ccm ex_world = ull_ble_ccm_reset"
    by (simp_all add: snapshot_header_def ex_snapshot_def ex_world_def)
  moreover have "owned_control no_control = Some no_control_rx" by (simp add: owned_control_def no_control_def)
  ultimately show ?thesis
    using time el dec parse step
    by (auto simp: ull_air_feedback_accept_frame_def session_constants Let_def feedback_parsed_def)
qed


text \<open>C27: whatever packets arrive and whatever is sent, the state never goes back and always yields
  legal sequence numbers. From the zero state every reachable state has its two channels in range,
  both sequence numbers of both streams fit the 4-bit fields of the next frame, and on the way a valid
  channel stays valid with a frame number that never decreases.\<close>

theorem feedback_sequences_legal:
  assumes "(feedback_step mb)\<^sup>*\<^sup>* feedback_zero st" and "(feedback_step mb)\<^sup>*\<^sup>* st st'"
    and "ull_air_feedback_sequences st' frame starts = (tx, ack)"
  shows "length tx = 2 \<and> length ack = 2 \<and> (\<forall>i < 2. tx ! i \<le> 15 \<and> ack ! i \<le> 15) \<and>
    (\<forall>i < 2. channel_le (fb_channels st ! i) (fb_channels st' ! i))"
proof -
  have "feedback_ok st" using feedback_steps_keep [OF assms(1) feedback_zero_ok] by blast
  from feedback_steps_keep [OF assms(2) this]
  have ok: "feedback_ok st'" and le: "list_all2 channel_le (fb_channels st) (fb_channels st')" by blast+
  have "\<forall>i < 2. channel_le (fb_channels st ! i) (fb_channels st' ! i)"
    using le ok by (auto simp: list_all2_conv_all_nth feedback_ok_def)
  moreover have "length tx = 2" "length ack = 2" "\<forall>i < 2. tx ! i \<le> 15 \<and> ack ! i \<le> 15"
    using assms(3) sequence_nibbles [OF ok] by (auto simp: ull_air_feedback_sequences_def Let_def)
  ultimately show ?thesis by blast
qed

theorem feedback_sequences_legal_witness:
  "\<exists>st. feedback_step ex_mb feedback_zero st \<and>
     (\<forall>i < 2. fst (ull_air_feedback_sequences st 9 [0, 0]) ! i \<le> 15)"
proof -
  obtain st' control w' where "ull_air_feedback_accept_frame ex_mb (Some feedback_zero) (Some ex_tone_plan)
      (Some ex_snapshot) 3 ex_world = (0, Some st', control, w')" using ex_feedback_accepted by blast
  then have s: "feedback_step ex_mb feedback_zero st'" by (rule feedback_step.frame)
  obtain tx ack where q: "ull_air_feedback_sequences st' 9 [0, 0] = (tx, ack)"
    by (cases "ull_air_feedback_sequences st' 9 [0, 0]")
  show ?thesis
    using feedback_sequences_legal [OF r_into_rtranclp [of "feedback_step ex_mb", OF s] rtranclp.rtrancl_refl q] s q by auto
qed

text \<open>The sequence number advances exactly once per frame. Once the feedback of a channel is from a
  frame after the start of its stream, the number of a later frame is the expected one plus the frames
  since then, less the one step that an acknowledged transmission of that frame already stands for,
  modulo 16; there is no double step at the frame boundary, and the acknowledgement is the known one.\<close>

theorem feedback_sequence_advance:
  assumes "fc_valid (fb_channels st ! i) \<noteq> 0" and "starts ! i < fc_frame (fb_channels st ! i)"
    and "fc_frame (fb_channels st ! i) \<le> frame"
  shows "unat (fst (feedback_sequence st frame starts i)) =
      (unat (fc_expected_tx (fb_channels st ! i)) + (unat frame - unat (fc_frame (fb_channels st ! i)))
        - (if fc_after_tx (fb_channels st ! i) \<noteq> 0 \<and> fc_frame (fb_channels st ! i) < frame then 1 else 0)) mod 16 \<and>
    snd (feedback_sequence st frame starts i) = fc_next_ack (fb_channels st ! i)"
proof -
  let ?ch = "fb_channels st ! i" and ?s = "starts ! i"
  let ?n = "unat frame - unat (fc_frame ?ch)"
  have o: "unat ?s < unat (fc_frame ?ch)" "unat (fc_frame ?ch) \<le> unat frame"
    using assms(2,3) by (simp_all add: word_less_nat_alt word_le_nat_alt)
  have lt: "?s < frame" using o by (simp add: word_less_nat_alt)
  have adv: "expiry_age frame ?s - expiry_age (fc_frame ?ch) ?s = frame - fc_frame ?ch"
    using assms(2) lt by (simp add: expiry_age_def)
  have un: "unat (frame - fc_frame ?ch) = ?n" using assms(3) by (simp add: unat_sub)
  let ?d = "if fc_after_tx ?ch \<noteq> 0 \<and> frame - fc_frame ?ch \<noteq> 0 then frame - fc_frame ?ch - 1 else frame - fc_frame ?ch"
  have z: "frame - fc_frame ?ch \<noteq> 0 \<longleftrightarrow> fc_frame ?ch < frame"
    using assms(3) by auto
  have ud: "unat ?d = ?n - (if fc_after_tx ?ch \<noteq> 0 \<and> fc_frame ?ch < frame then 1 else 0)"
    using un z o by (auto simp: unat_sub_if' word_le_nat_alt word_less_nat_alt)
  have m15: "(15 :: u32) = mask 4" by (simp add: mask_eq_exp_minus_1)
  have fold: "unat (ucast ((ucast e + d) AND 15 :: u32) :: u8) = (unat e + unat d) mod 16" for e :: u8 and d :: u32
  proof -
    have "unat ((ucast e + d) AND 15) = unat (ucast e + d) mod 16" by (simp only: m15 unat_and_mask) simp
    also have "\<dots> = (unat e + unat d) mod 4294967296 mod 16"
      by (simp add: unat_word_ariths unat_ucast)
    also have "\<dots> = (unat e + unat d) mod 16" by (rule mod_mod_cancel) simp
    finally show ?thesis by (simp add: unat_ucast)
  qed
  have "feedback_sequence st frame starts i =
      (ucast ((ucast (fc_expected_tx ?ch) + ?d) AND 15), fc_next_ack ?ch)"
    using assms adv unfolding feedback_sequence_def Let_def by (auto simp: less_imp_le)
  moreover have "unat (fc_expected_tx ?ch) + unat ?d = unat (fc_expected_tx ?ch) + ?n
        - (if fc_after_tx ?ch \<noteq> 0 \<and> fc_frame ?ch < frame then 1 else 0)"
    unfolding ud using o by (auto simp: word_less_nat_alt)
  ultimately show ?thesis using fold [of "fc_expected_tx ?ch" ?d] by simp
qed

theorem feedback_sequence_advance_witness:
  "unat (fst (feedback_sequence (feedback_zero\<lparr>fb_channels := replicate 2 \<lparr>fc_frame = 7, fc_expected_tx = 14,
     fc_next_ack = 3, fc_valid = 1, fc_after_tx = 1\<rparr>\<rparr>) 12 [2, 2] 0)) = 2"
  using feedback_sequence_advance [of "feedback_zero\<lparr>fb_channels := replicate 2 \<lparr>fc_frame = 7, fc_expected_tx = 14,
     fc_next_ack = 3, fc_valid = 1, fc_after_tx = 1\<rparr>\<rparr>" 0 "[2, 2]" 12]
  by simp

end
