(* ===== verification/RingQueue.thy ===== *)
theory RingQueue
  imports Prelude "HOL-Library.Sublist"
begin

text \<open>
  Ring buffers of the firmware. \<open>window K q r n\<close> is what a ring of capacity \<open>K\<close> with storage \<open>q\<close>,
  read position \<open>r\<close> and \<open>n\<close> queued items holds, oldest first; \<open>ring K q w r\<close> is the same for the
  free-running 32-bit counters of \<^verbatim>\<open>audio_source.c\<close> and \<^verbatim>\<open>pcm_stream.c\<close>. The locale
  \<open>bounded_fifo\<close> is the contract the queues share; its client lemmas follow an arbitrary sequence of
  operations.
\<close>

section \<open>Windows of a ring\<close>

definition window :: "nat \<Rightarrow> 'a list \<Rightarrow> nat \<Rightarrow> nat \<Rightarrow> 'a list" where
  "window K q r n = map (\<lambda>i. q ! ((r + i) mod K)) [0..<n]"

lemma length_window [simp]: "length (window K q r n) = n"
  by (simp add: window_def)

lemma nth_window: "i < n \<Longrightarrow> window K q r n ! i = q ! ((r + i) mod K)"
  by (simp add: window_def)

lemma window_0 [simp]: "window K q r 0 = []"
  by (simp add: window_def)

lemma window_mod: "window K q (r mod K) n = window K q r n"
  by (simp add: window_def mod_add_left_eq)

lemma mod_shift_neq:
  assumes "i < n" and "n < (K::nat)"
  shows "(r + i) mod K \<noteq> (r + n) mod K"
proof
  assume eq: "(r + i) mod K = (r + n) mod K"
  then have "K dvd (r + n) - (r + i)"
    using mod_eq_dvd_iff_nat [of "r + i" "r + n" K] assms by auto
  then show False using assms by (auto dest!: dvd_imp_le)
qed

lemma window_snoc:
  assumes "length q = K" and "n < K"
  shows "window K (q[(r + n) mod K := x]) r (Suc n) = window K q r n @ [x]"
proof -
  have "q[(r + n) mod K := x] ! ((r + i) mod K) = q ! ((r + i) mod K)" if "i < n" for i
    using mod_shift_neq [OF that assms(2), of r] by (simp add: nth_list_update_neq)
  moreover have "(r + n) mod K < length q" using assms by simp
  ultimately show ?thesis by (simp add: window_def)
qed

lemma window_drop: "k \<le> n \<Longrightarrow> window K q (r + k) (n - k) = drop k (window K q r n)"
  by (rule nth_equalityI) (auto simp: nth_window ac_simps)

lemma window_hd: "0 < n \<Longrightarrow> hd (window K q r n) = q ! (r mod K)"
  by (simp add: window_def hd_map upt_conv_Cons)

lemma window_Cons: "window K q r (Suc n) = q ! (r mod K) # window K q (Suc r) n"
  by (rule nth_equalityI) (auto simp: nth_window nth_Cons split: nat.split)

section \<open>Free-running counters\<close>

definition ring :: "nat \<Rightarrow> 'a list \<Rightarrow> u32 \<Rightarrow> u32 \<Rightarrow> 'a list" where
  "ring K q w r = window K q (unat r) (unat (w - r))"

lemma length_ring [simp]: "length (ring K q w r) = unat (w - r)"
  by (simp add: ring_def)

lemma unat_add_mod:
  assumes "K dvd 4294967296"
  shows "unat (r + of_nat n :: u32) mod K = (unat r + n) mod K"
proof -
  have "unat (r + of_nat n) = (unat r + n) mod 4294967296"
    by (simp add: unat_word_ariths unat_of_nat mod_add_right_eq)
  then show ?thesis by (simp add: mod_mod_cancel [OF assms])
qed

lemma counter_index: "K dvd 4294967296 \<Longrightarrow> unat w mod K = (unat r + unat (w - r :: u32)) mod K"
  using unat_add_mod [of K r "unat (w - r)"] by simp

lemma unat_succ_diff: "unat (w - r :: u32) < 4294967295 \<Longrightarrow> unat (w + 1 - r) = Suc (unat (w - r))"
proof -
  assume "unat (w - r) < 4294967295"
  then have "unat (w - r + 1) = unat (w - r) + 1" by (simp add: unat_word_ariths)
  then show ?thesis by (simp add: algebra_simps)
qed

lemma ring_push:
  assumes "K dvd 4294967296" and "K < 4294967296" and "length q = K" and "unat (w - r) < K"
  shows "ring K (q[unat w mod K := x]) (w + 1) r = ring K q w r @ [x]"
proof -
  have "unat (w + 1 - r) = Suc (unat (w - r))" using assms(2,4) by (intro unat_succ_diff) linarith
  then show ?thesis
    unfolding ring_def using window_snoc [OF assms(3,4), of "unat r" x] counter_index [OF assms(1), of w r]
    by simp
qed

lemma unat_sub_advance: "k \<le> unat (w - r :: u32) \<Longrightarrow> unat (w - (r + of_nat k)) = unat (w - r) - k"
proof -
  assume k: "k \<le> unat (w - r)"
  then have "k < 4294967296" using u32_less [of "w - r"] by linarith
  then have "unat (of_nat k :: u32) = k" by (simp add: unat_of_nat)
  then have "unat ((w - r) - of_nat k) = unat (w - r) - k"
    using k by (simp add: unat_sub word_le_nat_alt)
  then show ?thesis by (simp add: diff_diff_eq)
qed

lemma ring_drop:
  assumes "K dvd 4294967296" and "k \<le> unat (w - r)"
  shows "ring K q w (r + of_nat k) = drop k (ring K q w r)"
proof -
  have "ring K q w (r + of_nat k) = window K q (unat (r + of_nat k)) (unat (w - r) - k)"
    using unat_sub_advance [OF assms(2)] by (simp add: ring_def)
  also have "\<dots> = window K q (unat r + k) (unat (w - r) - k)"
    using unat_add_mod [OF assms(1)] window_mod by metis
  also have "\<dots> = drop k (ring K q w r)"
    using window_drop [OF assms(2)] by (simp add: ring_def)
  finally show ?thesis .
qed

lemma ring_pop: "K dvd 4294967296 \<Longrightarrow> 0 < unat (w - r) \<Longrightarrow>
    ring K q w (r + 1) = tl (ring K q w r)"
  using ring_drop [of K 1 w r q] by (simp add: drop_Suc)

lemma ring_hd: "0 < unat (w - r) \<Longrightarrow> hd (ring K q w r) = q ! (unat r mod K)"
  by (simp add: ring_def window_hd)

lemma ring_nil_iff: "ring K q w r = [] \<longleftrightarrow> w = r"
  by (simp add: ring_def window_def unat_eq_0)

lemma ring_self [simp]: "ring K q w w = []"
  by (simp add: ring_def)

section \<open>The contract of a bounded queue\<close>

text \<open>
  \<open>put\<close> takes an item and says whether it was accepted; \<open>get\<close> serves a request and \<open>given\<close> is what
  that request hands over. A request may also discard items, but only older ones.
\<close>

datatype ('a, 'o) queue_op = Put 'a | Get 'o

locale bounded_fifo =
  fixes ok :: "'s \<Rightarrow> bool" and contents :: "'s \<Rightarrow> 'a list" and cap :: nat
    and put :: "'s \<Rightarrow> 'a \<Rightarrow> 's \<times> bool" and get :: "'s \<Rightarrow> 'o \<Rightarrow> 's" and given :: "'s \<Rightarrow> 'o \<Rightarrow> 'a list"
  assumes bounded: "ok s \<Longrightarrow> length (contents s) \<le> cap"
    and put_ok: "ok s \<Longrightarrow> ok (fst (put s x))"
    and put_contents: "ok s \<Longrightarrow> contents (fst (put s x)) = contents s @ (if snd (put s x) then [x] else [])"
    and get_ok: "ok s \<Longrightarrow> ok (get s r)"
    and get_contents: "ok s \<Longrightarrow> \<exists>d. contents s = d @ given s r @ contents (get s r)"
begin

fun apply_op :: "'s \<Rightarrow> ('a, 'o) queue_op \<Rightarrow> 's" where
  "apply_op s (Put x) = fst (put s x)"
| "apply_op s (Get r) = get s r"

fun op_taken :: "'s \<Rightarrow> ('a, 'o) queue_op \<Rightarrow> 'a list" where
  "op_taken s (Put x) = (if snd (put s x) then [x] else [])"
| "op_taken s (Get r) = []"

fun op_given :: "'s \<Rightarrow> ('a, 'o) queue_op \<Rightarrow> 'a list" where
  "op_given s (Put x) = []"
| "op_given s (Get r) = given s r"

fun after :: "'s \<Rightarrow> ('a, 'o) queue_op list \<Rightarrow> 's" where
  "after s [] = s"
| "after s (x # xs) = after (apply_op s x) xs"

fun taken :: "'s \<Rightarrow> ('a, 'o) queue_op list \<Rightarrow> 'a list" where
  "taken s [] = []"
| "taken s (x # xs) = op_taken s x @ taken (apply_op s x) xs"

fun handed :: "'s \<Rightarrow> ('a, 'o) queue_op list \<Rightarrow> 'a list" where
  "handed s [] = []"
| "handed s (x # xs) = op_given s x @ handed (apply_op s x) xs"

lemma apply_ok: "ok s \<Longrightarrow> ok (apply_op s x)"
  by (cases x) (auto intro: put_ok get_ok)

lemma after_ok: "ok s \<Longrightarrow> ok (after s xs)"
  by (induction xs arbitrary: s) (auto intro: apply_ok)

lemma after_bounded: "ok s \<Longrightarrow> length (contents (after s xs)) \<le> cap"
  by (rule bounded [OF after_ok])

text \<open>What is handed over, followed by what is still queued, comes in order from what was accepted.\<close>

lemma step_order: "ok s \<Longrightarrow> subseq (op_given s x @ contents (apply_op s x)) (contents s @ op_taken s x)"
proof (cases x)
  case (Get r)
  assume "ok s"
  from get_contents [OF this, of r] obtain d where "contents s = d @ given s r @ contents (get s r)"
    by blast
  then show ?thesis using Get by (simp add: subseq_drop_many)
qed (simp add: put_contents)

lemma fifo_order: "ok s \<Longrightarrow> subseq (handed s xs @ contents (after s xs)) (contents s @ taken s xs)"
proof (induction xs arbitrary: s)
  case (Cons x xs)
  let ?s = "apply_op s x"
  have "subseq (handed ?s xs @ contents (after ?s xs)) (contents ?s @ taken ?s xs)"
    by (rule Cons.IH [OF apply_ok [OF Cons.prems]])
  then have "subseq (op_given s x @ handed ?s xs @ contents (after ?s xs))
      (op_given s x @ contents ?s @ taken ?s xs)"
    by (simp only: subseq_append')
  also have "subseq \<dots> (contents s @ op_taken s x @ taken ?s xs)"
    using list_emb_append_mono [OF step_order [OF Cons.prems] subseq_order.refl, of x "taken ?s xs"]
    by simp
  finally show ?case by simp
qed simp

lemma handed_subseq: "ok s \<Longrightarrow> subseq (handed s xs) (contents s @ taken s xs)"
  by (meson fifo_order subseq_order.order_trans subseq_rev_drop_many subseq_order.refl)

end

text \<open>A queue whose requests discard nothing hands over exactly what it accepted.\<close>

locale lossless_fifo = bounded_fifo +
  assumes get_exact: "ok s \<Longrightarrow> contents s = given s r @ contents (get s r)"
begin

lemma fifo_exact: "ok s \<Longrightarrow> contents s @ taken s xs = handed s xs @ contents (after s xs)"
proof (induction xs arbitrary: s)
  case (Cons x xs)
  have "contents s @ op_taken s x = op_given s x @ contents (apply_op s x)"
    using get_exact [OF Cons.prems] by (cases x) (simp_all add: put_contents Cons.prems)
  then have "contents s @ taken s (x # xs) = op_given s x @ contents (apply_op s x) @ taken (apply_op s x) xs"
    by (simp only: taken.simps append.assoc [symmetric])
  then show ?case using Cons by (simp add: apply_ok)
qed simp

end

end
