(* ===== verification/AudioSource.thy ===== *)
theory AudioSource
  imports RingQueue
begin

text \<open>
  Model of \<^verbatim>\<open>firmware/radio/src/audio_source.c\<close>, \<^verbatim>\<open>audio_source.h\<close> and
  \<^verbatim>\<open>reconnect_barrier.h\<close>: the queue of encoded stereo frames between the encoder task and the
  controller, the two latches that make the choice of a frame for a radio event repeatable, and the
  pause handshake under which the queue is cleared. The atomic counters are the fields of a state
  record, 32 bits wide. The first part treats each operation as one step; the last one splits push
  and select into their loads, copies and stores and interleaves the two tasks.
\<close>

section \<open>The reconnect barrier\<close>

record ull_reconnect_barrier =
  b_requested :: bool
  b_acknowledged :: bool

definition ull_reconnect_request :: "ull_reconnect_barrier \<Rightarrow> ull_reconnect_barrier" where
  "ull_reconnect_request b = b\<lparr>b_requested := True\<rparr>"
definition ull_reconnect_requested :: "ull_reconnect_barrier \<Rightarrow> bool" where
  "ull_reconnect_requested b = b_requested b"
definition ull_reconnect_acknowledge :: "ull_reconnect_barrier \<Rightarrow> ull_reconnect_barrier" where
  "ull_reconnect_acknowledge b = b\<lparr>b_acknowledged := True\<rparr>"
definition ull_reconnect_paused :: "ull_reconnect_barrier \<Rightarrow> bool" where
  "ull_reconnect_paused b \<longleftrightarrow> b_requested b \<and> b_acknowledged b"
definition ull_reconnect_resume :: "ull_reconnect_barrier \<Rightarrow> ull_reconnect_barrier" where
  "ull_reconnect_resume b = b\<lparr>b_requested := False\<rparr>"
definition ull_reconnect_depart :: "ull_reconnect_barrier \<Rightarrow> ull_reconnect_barrier" where
  "ull_reconnect_depart b = b\<lparr>b_acknowledged := False\<rparr>"

section \<open>State\<close>

type_synonym stereo = "bytes list"

definition ULL_AUDIO_QUEUE_FRAMES :: u32 where "ULL_AUDIO_QUEUE_FRAMES = 4"

definition silence :: stereo where "silence = replicate 2 (replicate 95 0)"

record audio_latch =
  l_event :: u32
  l_valid :: bool
  l_present :: bool
  l_data :: stereo

record ull_audio_source =
  a_written :: u32
  a_read :: u32
  a_requested :: bool
  a_queue :: "stereo list"
  a_latch :: "audio_latch list"
  a_last_event :: u32
  a_selected :: u32
  a_underflows :: u32
  a_discarded :: u32
  a_selected_any :: bool

definition zero_latch :: audio_latch where
  "zero_latch = \<lparr>l_event = 0, l_valid = False, l_present = False, l_data = silence\<rparr>"

definition ull_audio_source_init :: ull_audio_source where
  "ull_audio_source_init = \<lparr>a_written = 0, a_read = 0, a_requested = False,
     a_queue = replicate 4 silence, a_latch = replicate 2 zero_latch, a_last_event = 0,
     a_selected = 0, a_underflows = 0, a_discarded = 0, a_selected_any = False\<rparr>"

section \<open>Operations\<close>

definition ull_audio_source_push :: "ull_audio_source \<Rightarrow> stereo option \<Rightarrow> ull_audio_source \<times> bool" where
  "ull_audio_source_push s frames = (case frames of None \<Rightarrow> (s, False) | Some f \<Rightarrow>
     if a_written s - a_read s \<ge> ULL_AUDIO_QUEUE_FRAMES then (s, False)
     else (s\<lparr>a_queue := (a_queue s)[unat (a_written s AND (ULL_AUDIO_QUEUE_FRAMES - 1)) := f],
             a_written := a_written s + 1\<rparr>, True))"

definition latch_hit :: "ull_audio_source \<Rightarrow> u32 \<Rightarrow> nat \<Rightarrow> bool" where
  "latch_hit s event i \<longleftrightarrow> l_valid (a_latch s ! i) \<and> l_event (a_latch s ! i) = event"

definition replay :: "ull_audio_source \<Rightarrow> nat \<Rightarrow> stereo \<Rightarrow> int \<times> stereo" where
  "replay s i out = (if l_present (a_latch s ! i) then (1, l_data (a_latch s ! i)) else (0, out))"

text \<open>The selection of a new event: the frames the skipped events would have used are discarded.\<close>

definition skipped_events :: "ull_audio_source \<Rightarrow> u32 \<Rightarrow> u32" where
  "skipped_events s event = (if a_selected_any s then event - a_last_event s - 1 else 0)"

definition select_fresh :: "ull_audio_source \<Rightarrow> u32 \<Rightarrow> stereo \<Rightarrow> ull_audio_source \<times> int \<times> stereo" where
  "select_fresh s event out =
     (let rd = a_read s; available = a_written s - rd in
      if available > ULL_AUDIO_QUEUE_FRAMES then (s, -1, out)
      else
        let skipped = skipped_events s event;
            discard = (if skipped < available then skipped else available);
            rd = rd + discard; available = available - discard;
            s = s\<lparr>a_discarded := a_discarded s + discard\<rparr>;
            slot = unat (a_selected s AND 1);
            f = a_queue s ! unat (rd AND (ULL_AUDIO_QUEUE_FRAMES - 1));
            present = available \<noteq> 0;
            s = s\<lparr>a_latch := (a_latch s)[slot := \<lparr>l_event = event, l_valid = True, l_present = present,
                    l_data = (if present then f else silence)\<rparr>],
                  a_underflows := a_underflows s + (if present then 0 else 1),
                  a_read := (if present then rd + 1 else rd),
                  a_last_event := event, a_selected_any := True, a_selected := a_selected s + 1\<rparr>
        in (s, if present then 1 else 0, if present then f else out))"

definition ull_audio_source_select :: "ull_audio_source \<Rightarrow> u32 \<Rightarrow> stereo option \<Rightarrow>
    ull_audio_source \<times> int \<times> stereo option" where
  "ull_audio_source_select s event frames = (case frames of None \<Rightarrow> (s, -1, None) | Some out \<Rightarrow>
     let s = s\<lparr>a_requested := True\<rparr> in
     if latch_hit s event 0 then (let (r, f) = replay s 0 out in (s, r, Some f))
     else if latch_hit s event 1 then (let (r, f) = replay s 1 out in (s, r, Some f))
     else if a_selected_any s \<and> event \<le> a_last_event s then (s, -1, Some out)
     else (let (s, r, f) = select_fresh s event out in (s, r, Some f)))"

record audio_stats =
  st_selected :: u32
  st_underflows :: u32
  st_discarded :: u32
  st_queued :: u32
  st_queue_valid :: bool

text \<open>
  The sampler reads the consumer index, the producer index and the consumer index again, up to three
  times; the samples are arguments, since another task may run between any two loads.
\<close>

fun sample_queue :: "(u32 \<times> u32 \<times> u32) list \<Rightarrow> u32 \<times> bool" where
  "sample_queue [] = (0, False)"
| "sample_queue ((rd, wr, again) # rest) =
     (if rd = again \<and> wr - rd \<le> ULL_AUDIO_QUEUE_FRAMES then (wr - rd, True) else sample_queue rest)"

definition ull_audio_source_stats :: "ull_audio_source \<Rightarrow> (u32 \<times> u32 \<times> u32) list \<Rightarrow> audio_stats" where
  "ull_audio_source_stats s samples = (let (queued, valid) = sample_queue (take 3 samples) in
     \<lparr>st_selected = a_selected s, st_underflows = a_underflows s, st_discarded = a_discarded s,
      st_queued = queued, st_queue_valid = valid\<rparr>)"

definition ull_audio_source_rearm :: "ull_audio_source \<Rightarrow> ull_reconnect_barrier option \<Rightarrow> ull_audio_source \<times> bool" where
  "ull_audio_source_rearm s barrier = (case barrier of None \<Rightarrow> (s, False) | Some b \<Rightarrow>
     if \<not> ull_reconnect_paused b then (s, False)
     else if a_written s - a_read s > ULL_AUDIO_QUEUE_FRAMES then (s, False)
     else (s\<lparr>a_discarded := a_discarded s + (a_written s - a_read s), a_read := a_written s,
             a_requested := False, a_latch := replicate 2 zero_latch, a_last_event := 0,
             a_selected_any := False\<rparr>, True))"

section \<open>The queue as a list\<close>

definition queued :: "ull_audio_source \<Rightarrow> stereo list" where
  "queued s = ring 4 (a_queue s) (a_written s) (a_read s)"

definition source_ok :: "ull_audio_source \<Rightarrow> bool" where
  "source_ok s \<longleftrightarrow> unat (a_written s - a_read s) \<le> 4 \<and> length (a_queue s) = 4 \<and> length (a_latch s) = 2 \<and>
     a_read s + a_underflows s = a_selected s + a_discarded s"

lemma source_ok_init: "source_ok ull_audio_source_init"
  by (simp add: source_ok_def ull_audio_source_init_def)

lemma slot_index: "unat (w AND (ULL_AUDIO_QUEUE_FRAMES - 1)) = unat w mod 4"
  using unat_and_mask [of w 2] by (simp add: ULL_AUDIO_QUEUE_FRAMES_def mask_eq_exp_minus_1)

lemma queue_full: "a_written s - a_read s \<ge> ULL_AUDIO_QUEUE_FRAMES \<longleftrightarrow> 4 \<le> length (queued s)"
  by (simp add: ULL_AUDIO_QUEUE_FRAMES_def word_le_nat_alt queued_def)

lemma queue_sane: "source_ok s \<Longrightarrow> \<not> a_written s - a_read s > ULL_AUDIO_QUEUE_FRAMES"
  by (simp add: ULL_AUDIO_QUEUE_FRAMES_def word_less_nat_alt source_ok_def)

lemma push_queued:
  "source_ok s \<Longrightarrow> queued (fst (ull_audio_source_push s (Some f))) =
     queued s @ (if snd (ull_audio_source_push s (Some f)) then [f] else [])"
  using ring_push [of 4 "a_queue s" "a_written s" "a_read s" f] queue_full [of s]
  by (auto simp: ull_audio_source_push_def slot_index source_ok_def queued_def)

lemma push_iff: "snd (ull_audio_source_push s (Some f)) \<longleftrightarrow> length (queued s) < 4"
  using queue_full [of s] by (auto simp: ull_audio_source_push_def)

lemma push_ok: "source_ok s \<Longrightarrow> source_ok (fst (ull_audio_source_push s f))"
proof (cases f)
  case (Some g)
  assume ok: "source_ok s"
  then have "length (queued (fst (ull_audio_source_push s f))) \<le> 4"
    using push_queued [OF ok, of g] push_iff [of s g] Some ok
    by (auto simp: queued_def source_ok_def)
  then show ?thesis using ok Some
    by (auto simp: source_ok_def ull_audio_source_push_def queued_def split: if_splits)
qed (simp add: ull_audio_source_push_def)

text \<open>A fresh selection, stated on the list.\<close>

lemma select_fresh_spec:
  assumes ok: "source_ok s" and sel: "select_fresh s event out = (s', r, f)"
  defines "n \<equiv> min (unat (skipped_events s event)) (length (queued s))"
  shows "queued s' = drop (Suc n) (queued s)"
    and "r = (if n < length (queued s) then 1 else 0)"
    and "f = (if n < length (queued s) then queued s ! n else out)"
    and "a_latch s' = (a_latch s)[unat (a_selected s AND 1) := \<lparr>l_event = event, l_valid = True,
           l_present = (n < length (queued s)), l_data = (if n < length (queued s) then queued s ! n else silence)\<rparr>]"
    and "a_selected s' = a_selected s + 1" and "a_last_event s' = event" and "a_selected_any s'"
    and "a_discarded s' = a_discarded s + of_nat n"
    and "a_underflows s' = a_underflows s + (if n < length (queued s) then 0 else 1)"
    and "a_read s' = a_read s + of_nat n + (if n < length (queued s) then 1 else 0)"
    and "a_queue s' = a_queue s" and "a_written s' = a_written s"
proof -
  let ?av = "a_written s - a_read s" and ?sk = "skipped_events s event"
  let ?d = "if ?sk < ?av then ?sk else ?av"
  have len: "length (queued s) = unat ?av" by (simp add: queued_def)
  have n: "unat ?d = n" by (simp add: n_def len word_less_nat_alt min_def)
  then have d: "?d = of_nat n" by (simp flip: n)
  have dle: "n \<le> unat ?av" by (simp add: n_def len)
  have rest: "unat (?av - of_nat n) = unat ?av - n"
    using unat_sub_advance [OF dle] by (simp add: diff_diff_eq)
  have "?av - of_nat n = 0 \<longleftrightarrow> \<not> n < length (queued s)"
    using rest dle len by (metis diff_is_0_eq not_le unat_eq_0)
  then have present: "a_written s - a_read s = of_nat n \<longleftrightarrow> \<not> n < length (queued s)" by simp
  have drp: "ring 4 (a_queue s) (a_written s) (a_read s + of_nat n) = drop n (queued s)"
    using ring_drop [OF _ dle, of 4 "a_queue s"] by (simp add: queued_def)
  have pos: "n < length (queued s) \<Longrightarrow> 0 < unat (a_written s - (a_read s + of_nat n))"
    using unat_sub_advance [OF dle] len by simp
  have head: "n < length (queued s) \<Longrightarrow>
      a_queue s ! unat ((a_read s + of_nat n) AND (ULL_AUDIO_QUEUE_FRAMES - 1)) = queued s ! n"
    using ring_hd [OF pos, of 4 "a_queue s"] by (simp add: slot_index drp hd_drop_conv_nth)
  have tail: "n < length (queued s) \<Longrightarrow>
      ring 4 (a_queue s) (a_written s) (a_read s + of_nat n + 1) = drop (Suc n) (queued s)"
    using ring_pop [OF _ pos, of 4 "a_queue s"] by (simp add: drp drop_Suc tl_drop)
  have none: "\<not> n < length (queued s) \<Longrightarrow> drop n (queued s) = drop (Suc n) (queued s)" by simp
  note facts = sel [symmetric, unfolded select_fresh_def Let_def if_not_P [OF queue_sane [OF ok]] d]
  show "queued s' = drop (Suc n) (queued s)"
  proof (cases "n < length (queued s)")
    case True
    then have "queued s' = ring 4 (a_queue s) (a_written s) (a_read s + of_nat n + 1)"
      using facts by (simp add: queued_def [of s'] present) (simp add: queued_def)
    then show ?thesis using tail [OF True] by simp
  next
    case False
    then have "queued s' = ring 4 (a_queue s) (a_written s) (a_read s + of_nat n)"
      using facts by (simp add: queued_def [of s'] present) (simp add: queued_def)
    then show ?thesis using drp none [OF False] by simp
  qed
  show "r = (if n < length (queued s) then 1 else 0)" using facts by (simp add: present)
  show "f = (if n < length (queued s) then queued s ! n else out)" using facts head by (simp add: present)
  show "a_latch s' = (a_latch s)[unat (a_selected s AND 1) := \<lparr>l_event = event, l_valid = True,
           l_present = (n < length (queued s)), l_data = (if n < length (queued s) then queued s ! n else silence)\<rparr>]"
    using facts head by (simp add: present)
  show "a_selected s' = a_selected s + 1" "a_last_event s' = event" "a_selected_any s'"
    "a_discarded s' = a_discarded s + of_nat n" "a_queue s' = a_queue s" "a_written s' = a_written s"
    using facts by simp_all
  show "a_underflows s' = a_underflows s + (if n < length (queued s) then 0 else 1)"
    "a_read s' = a_read s + of_nat n + (if n < length (queued s) then 1 else 0)"
    using facts by (simp_all add: present)
qed

section \<open>Selecting an event\<close>

text \<open>The latch of the newest event sits in the slot written last; the other one is older.\<close>

definition newest_slot :: "ull_audio_source \<Rightarrow> nat" where
  "newest_slot s = unat ((a_selected s - 1) AND 1)"

definition latch_inv :: "ull_audio_source \<Rightarrow> bool" where
  "latch_inv s \<longleftrightarrow> (if a_selected_any s
     then latch_hit s (a_last_event s) (newest_slot s) \<and>
          (l_valid (a_latch s ! (1 - newest_slot s)) \<longrightarrow> l_event (a_latch s ! (1 - newest_slot s)) < a_last_event s)
     else \<not> l_valid (a_latch s ! 0) \<and> \<not> l_valid (a_latch s ! 1))"

definition source_inv :: "ull_audio_source \<Rightarrow> bool" where
  "source_inv s \<longleftrightarrow> source_ok s \<and> latch_inv s"

lemma parity: "unat ((w :: u32) AND 1) = unat w mod 2"
  using unat_and_mask [of w 1] by simp

lemma parity_cases: "unat ((w :: u32) AND 1) = 0 \<or> unat ((w :: u32) AND 1) = 1"
  by (auto simp: parity)

lemma parity_flip: "unat ((w - 1 :: u32) AND 1) = 1 - unat (w AND 1)"
proof -
  have "unat (w - 1) mod 2 = (unat w + 4294967295) mod 2"
    by (simp add: unat_sub_u32 mod_mod_cancel)
  also have "\<dots> = 1 - unat w mod 2" by presburger
  finally show ?thesis by (simp add: parity)
qed

lemma newest_slot_cases: "newest_slot s = 0 \<or> newest_slot s = 1"
  unfolding newest_slot_def by (rule parity_cases)

lemma select_slot: "unat (a_selected s AND 1) = 1 - newest_slot s"
  using parity_cases [of "a_selected s"] by (auto simp: newest_slot_def parity_flip simp del: One_nat_def)

lemma inv_init: "source_inv ull_audio_source_init"
  by (simp add: source_inv_def source_ok_init)
     (simp add: latch_inv_def ull_audio_source_init_def zero_latch_def)

lemma push_latches [simp]:
  "a_latch (fst (ull_audio_source_push s f)) = a_latch s"
  "a_selected (fst (ull_audio_source_push s f)) = a_selected s"
  "a_selected_any (fst (ull_audio_source_push s f)) = a_selected_any s"
  "a_last_event (fst (ull_audio_source_push s f)) = a_last_event s"
  by (auto simp: ull_audio_source_push_def split: option.split)

lemma push_latch_inv [simp]: "latch_inv (fst (ull_audio_source_push s f)) = latch_inv s"
  by (simp add: latch_inv_def latch_hit_def newest_slot_def)

lemma push_inv: "source_inv s \<Longrightarrow> source_inv (fst (ull_audio_source_push s f))"
  by (simp add: source_inv_def push_ok)

lemma requested_simps [simp]:
  "queued (s\<lparr>a_requested := v\<rparr>) = queued s" "source_ok (s\<lparr>a_requested := v\<rparr>) = source_ok s"
  "latch_hit (s\<lparr>a_requested := v\<rparr>) = latch_hit s" "newest_slot (s\<lparr>a_requested := v\<rparr>) = newest_slot s"
  "latch_inv (s\<lparr>a_requested := v\<rparr>) = latch_inv s" "skipped_events (s\<lparr>a_requested := v\<rparr>) = skipped_events s"
  by (auto simp: queued_def source_ok_def latch_hit_def newest_slot_def latch_inv_def skipped_events_def fun_eq_iff)

lemma select_fresh_ok:
  assumes "source_ok s" and "select_fresh s event out = (s', r, f)"
  shows "source_ok s'"
proof -
  note sp = select_fresh_spec [OF assms]
  let ?n = "min (unat (skipped_events s event)) (length (queued s))"
  have "unat (a_written s' - a_read s') \<le> 4"
    using sp(1) assms(1) by (auto simp: source_ok_def queued_def dest!: arg_cong [of _ _ length])
  then show ?thesis
    using assms(1) sp by (simp add: source_ok_def algebra_simps)
qed

lemma select_fresh_latch_inv:
  assumes "source_ok s" and "latch_inv s" and "select_fresh s event out = (s', r, f)"
    and "a_selected_any s \<longrightarrow> a_last_event s < event"
  shows "latch_inv s'"
proof -
  note sp = select_fresh_spec [OF assms(1,3)]
  have len: "length (a_latch s) = 2" using assms(1) by (simp add: source_ok_def)
  have new: "newest_slot s' = 1 - newest_slot s"
    unfolding newest_slot_def [of s'] by (simp add: sp select_slot del: One_nat_def)
  show ?thesis
    unfolding latch_inv_def latch_hit_def new sp select_slot
    using newest_slot_cases [of s] assms(2,4) len sp(7)
    by (auto simp: latch_inv_def latch_hit_def split: if_splits)
qed

text \<open>The three ways a call can go.\<close>

lemma select_cases:
  assumes "source_inv s"
  obtains (hit) i where "i < 2" "latch_hit s event i"
      "ull_audio_source_select s event (Some out) =
        (s\<lparr>a_requested := True\<rparr>, fst (replay s i out), Some (snd (replay s i out)))"
    | (past) "a_selected_any s" "event \<le> a_last_event s" "\<not> latch_hit s event 0" "\<not> latch_hit s event 1"
      "ull_audio_source_select s event (Some out) = (s\<lparr>a_requested := True\<rparr>, -1, Some out)"
    | (fresh) s' r f where "\<not> latch_hit s event 0" "\<not> latch_hit s event 1"
      "a_selected_any s \<longrightarrow> a_last_event s < event"
      "select_fresh (s\<lparr>a_requested := True\<rparr>) event out = (s', r, f)"
      "ull_audio_source_select s event (Some out) = (s', r, Some f)"
proof -
  obtain s' r f where sf: "select_fresh (s\<lparr>a_requested := True\<rparr>) event out = (s', r, f)"
    by (cases "select_fresh (s\<lparr>a_requested := True\<rparr>) event out") auto
  have rep: "replay (s\<lparr>a_requested := True\<rparr>) i out = replay s i out" for i by (simp add: replay_def)
  consider "latch_hit s event 0" | "\<not> latch_hit s event 0" "latch_hit s event 1"
    | "\<not> latch_hit s event 0" "\<not> latch_hit s event 1" "a_selected_any s" "event \<le> a_last_event s"
    | "\<not> latch_hit s event 0" "\<not> latch_hit s event 1" "a_selected_any s \<longrightarrow> a_last_event s < event"
    by fastforce
  then show thesis
  proof cases
    case 1
    show thesis by (rule hit [of 0]) (use 1 in \<open>simp_all add: ull_audio_source_select_def rep case_prod_beta\<close>)
  next
    case 2
    show thesis by (rule hit [of 1]) (use 2 in \<open>simp_all add: ull_audio_source_select_def rep case_prod_beta\<close>)
  next
    case 3
    show thesis by (rule past) (use 3 in \<open>simp_all add: ull_audio_source_select_def\<close>)
  next
    case 4
    then have "\<not> (a_selected_any s \<and> event \<le> a_last_event s)" by auto
    then show thesis
      by (intro fresh [OF 4 sf]) (use 4 sf in \<open>auto simp: ull_audio_source_select_def Let_def\<close>)
  qed
qed

lemma select_inv:
  assumes "source_inv s"
  shows "source_inv (fst (ull_audio_source_select s event (Some out)))"
proof (rule select_cases [OF assms, of event out])
  fix s' r f
  assume fresh: "a_selected_any s \<longrightarrow> a_last_event s < event"
    "select_fresh (s\<lparr>a_requested := True\<rparr>) event out = (s', r, f)"
    "ull_audio_source_select s event (Some out) = (s', r, Some f)"
  then show ?thesis
    using assms select_fresh_ok [of "s\<lparr>a_requested := True\<rparr>" event out s' r f]
      select_fresh_latch_inv [of "s\<lparr>a_requested := True\<rparr>" event out s' r f]
    by (simp add: source_inv_def)
qed (use assms in \<open>simp_all add: source_inv_def\<close>)

lemma select_none: "fst (ull_audio_source_select s event None) = s"
  by (simp add: ull_audio_source_select_def)

lemma rearm_inv: "source_inv s \<Longrightarrow> source_inv (fst (ull_audio_source_rearm s b))"
proof -
  assume "source_inv s"
  then have "a_written s + a_underflows s = a_selected s + (a_discarded s + (a_written s - a_read s))"
    by (simp add: source_inv_def source_ok_def algebra_simps)
  then show ?thesis using \<open>source_inv s\<close>
    by (simp add: ull_audio_source_rearm_def source_inv_def source_ok_def latch_inv_def zero_latch_def
        split: option.split del: One_nat_def)
qed

section \<open>What the queue guarantees\<close>

inductive audio_reach :: "ull_audio_source \<Rightarrow> bool" where
  init: "audio_reach ull_audio_source_init"
| push: "audio_reach s \<Longrightarrow> audio_reach (fst (ull_audio_source_push s f))"
| select: "audio_reach s \<Longrightarrow> audio_reach (fst (ull_audio_source_select s event out))"
| rearm: "audio_reach s \<Longrightarrow> audio_reach (fst (ull_audio_source_rearm s b))"

lemma reach_inv: "audio_reach s \<Longrightarrow> source_inv s"
proof (induction rule: audio_reach.induct)
  case (select s event out)
  then show ?case by (cases out) (simp_all add: select_none select_inv)
qed (simp_all add: inv_init push_inv rearm_inv)

text \<open>In every state reached from initialisation by pushes, selections and rearms, at most four
  frames are queued and every frame ever accepted is accounted for: modulo 2 ^ 32 the frames written
  are those still queued, those discarded and those handed out (selections that were not
  underflows).\<close>

theorem audio_accounting:
  assumes "audio_reach s"
  shows "length (queued s) \<le> 4 \<and>
    a_written s = of_nat (length (queued s)) + a_discarded s + (a_selected s - a_underflows s)"
proof -
  have "source_ok s" using reach_inv [OF assms] by (simp add: source_inv_def)
  moreover from this have "a_read s = a_selected s + a_discarded s - a_underflows s"
    by (simp add: source_ok_def eq_diff_eq)
  ultimately show ?thesis by (simp add: source_ok_def queued_def)
qed

definition ex_frame :: stereo where "ex_frame = [replicate 95 1, replicate 95 2]"

definition ex_source :: ull_audio_source where
  "ex_source = fst (ull_audio_source_push ull_audio_source_init (Some ex_frame))"

lemma ex_source_inv: "source_inv ex_source"
  by (simp add: ex_source_def push_inv inv_init)

lemma audio_accounting_witness:
  "audio_reach (fst (ull_audio_source_select ex_source 7 (Some silence))) \<and>
   length (queued (fst (ull_audio_source_select ex_source 7 (Some silence)))) \<le> 4"
proof -
  have r: "audio_reach (fst (ull_audio_source_select ex_source 7 (Some silence)))"
    unfolding ex_source_def by (intro audio_reach.intros)
  show ?thesis using r audio_accounting [OF r] by simp
qed


subsection \<open>Order\<close>

text \<open>What a selection newly hands over: nothing when a latch answers.\<close>

definition newly_given :: "ull_audio_source \<Rightarrow> u32 \<Rightarrow> stereo list" where
  "newly_given s event =
     (if latch_hit s event 0 \<or> latch_hit s event 1 then []
      else case ull_audio_source_select s event (Some silence) of
        (s', r, Some f) \<Rightarrow> (if r = 1 then [f] else []) | _ \<Rightarrow> [])"

lemma select_contents:
  assumes "source_inv s"
  shows "\<exists>d. queued s = d @ newly_given s event @ queued (fst (ull_audio_source_select s event (Some silence)))"
proof (rule select_cases [OF assms, of event silence])
  fix s' r f
  assume fresh: "\<not> latch_hit s event 0" "\<not> latch_hit s event 1"
    "select_fresh (s\<lparr>a_requested := True\<rparr>) event silence = (s', r, f)"
    "ull_audio_source_select s event (Some silence) = (s', r, Some f)"
  have ok: "source_ok (s\<lparr>a_requested := True\<rparr>)" using assms by (simp add: source_inv_def)
  let ?n = "min (unat (skipped_events s event)) (length (queued s))"
  note sp = select_fresh_spec [OF ok fresh(3), unfolded requested_simps]
  have "newly_given s event = (if ?n < length (queued s) then [queued s ! ?n] else [])"
    using fresh sp(2,3) by (simp add: newly_given_def)
  then have "queued s = take ?n (queued s) @ newly_given s event @ drop (Suc ?n) (queued s)"
    by (simp add: id_take_nth_drop [symmetric])
  then show ?thesis using sp(1) fresh(4) by auto
next
  fix i
  assume "i < 2" and hit: "latch_hit s event i"
    and "ull_audio_source_select s event (Some silence) =
      (s\<lparr>a_requested := True\<rparr>, fst (replay s i silence), Some (snd (replay s i silence)))"
  moreover from hit \<open>i < 2\<close> have "newly_given s event = []"
    by (cases i) (auto simp: newly_given_def less_Suc_eq numeral_2_eq_2)
  ultimately show ?thesis by simp
qed (auto simp: newly_given_def)

interpretation audio: bounded_fifo source_inv queued 4
  "\<lambda>s f. ull_audio_source_push s (Some f)" "\<lambda>s e. fst (ull_audio_source_select s e (Some silence))" newly_given
proof unfold_locales
  fix s :: ull_audio_source and x :: stereo
  assume "source_inv s"
  then show "queued (fst (ull_audio_source_push s (Some x))) =
      queued s @ (if snd (ull_audio_source_push s (Some x)) then [x] else [])"
    by (simp add: push_queued source_inv_def)
qed (simp_all add: push_inv select_inv select_contents, simp add: source_inv_def source_ok_def queued_def)

text \<open>C28: Over any interleaving of pushes and selections, the frames newly handed to the radio,
  followed by those still queued, form a subsequence of the frames accepted: no frame is duplicated,
  reordered or invented, at most four wait, and a push is refused exactly when four wait.\<close>

theorem audio_frames_in_order:
  assumes "source_inv s"
  shows "subseq (audio.handed s ops @ queued (audio.after s ops)) (queued s @ audio.taken s ops) \<and>
    length (queued (audio.after s ops)) \<le> 4 \<and>
    (snd (ull_audio_source_push (audio.after s ops) (Some f)) \<longleftrightarrow> length (queued (audio.after s ops)) < 4)"
  using audio.fifo_order [OF assms] audio.after_bounded [OF assms] by (simp add: push_iff)

lemma audio_frames_in_order_witness:
  "subseq (audio.handed ull_audio_source_init [Put ex_frame, Get 5] @
     queued (audio.after ull_audio_source_init [Put ex_frame, Get 5]))
   (queued ull_audio_source_init @ audio.taken ull_audio_source_init [Put ex_frame, Get 5])"
  using audio_frames_in_order [OF inv_init] by blast

subsection \<open>Repeatable choice\<close>

text \<open>An answer for an event is settled when a latch holds it.\<close>

definition settled :: "ull_audio_source \<Rightarrow> u32 \<Rightarrow> int \<Rightarrow> stereo option \<Rightarrow> nat \<Rightarrow> bool" where
  "settled s event r f i \<longleftrightarrow> latch_hit s event i \<and> r = (if l_present (a_latch s ! i) then 1 else 0) \<and>
     (r = 1 \<longrightarrow> f = Some (l_data (a_latch s ! i)))"

lemma settled_push [simp]: "settled (fst (ull_audio_source_push s g)) event r f i = settled s event r f i"
  by (simp add: settled_def latch_hit_def)

lemma settled_requested [simp]: "settled (s\<lparr>a_requested := v\<rparr>) event r f i = settled s event r f i"
  by (simp add: settled_def)

text \<open>A latched event is answered by one of the latches that hold it; both hold it only never.\<close>

lemma hit_unique: "latch_inv s \<Longrightarrow> latch_hit s event 0 \<Longrightarrow> latch_hit s event 1 \<Longrightarrow> False"
  using newest_slot_cases [of s] by (auto simp: latch_inv_def latch_hit_def split: if_splits)

lemma settled_answer:
  assumes "latch_inv s" and "settled s event r f i" and "i < 2"
  shows "\<exists>f'. ull_audio_source_select s event (Some out) = (s\<lparr>a_requested := True\<rparr>, r, Some f') \<and>
    (r = 1 \<longrightarrow> f = Some f')"
proof -
  from assms(3) consider "i = 0" | "i = 1" by linarith
  then show ?thesis
  proof cases
    case 1
    then show ?thesis using assms(2) by (auto simp: ull_audio_source_select_def settled_def replay_def latch_hit_def)
  next
    case 2
    then have "\<not> latch_hit s event 0" using assms hit_unique by (auto simp: settled_def)
    then show ?thesis using 2 assms(2)
      by (auto simp: ull_audio_source_select_def settled_def replay_def latch_hit_def)
  qed
qed

lemma not_latched: "latch_inv s \<Longrightarrow> a_selected_any s \<longrightarrow> a_last_event s < event \<Longrightarrow>
    \<not> latch_hit s event 0 \<and> \<not> latch_hit s event 1"
  using newest_slot_cases [of s] by (auto simp: latch_inv_def latch_hit_def split: if_splits)

lemma select_settles:
  assumes inv: "source_inv s" and new: "a_selected_any s \<longrightarrow> a_last_event s < event"
    and sel: "ull_audio_source_select s event (Some out) = (s', r, f)"
  shows "settled s' event r f (newest_slot s')" and "a_last_event s' = event" and "a_selected_any s'"
    and "settled s e r' f' (newest_slot s) \<Longrightarrow> settled s' e r' f' (newest_slot s)"
proof -
  have none: "\<not> latch_hit s event 0" "\<not> latch_hit s event 1"
    using not_latched [OF _ new] inv by (simp_all add: source_inv_def)
  obtain g where sf: "select_fresh (s\<lparr>a_requested := True\<rparr>) event out = (s', r, g)" and g: "f = Some g"
    using sel none new by (auto simp: ull_audio_source_select_def Let_def split: prod.splits if_splits)
  have ok: "source_ok (s\<lparr>a_requested := True\<rparr>)" using inv by (simp add: source_inv_def)
  note sp = select_fresh_spec [OF ok sf, unfolded requested_simps]
  have slot: "newest_slot s' = 1 - newest_slot s"
    unfolding newest_slot_def [of s'] by (simp add: sp select_slot del: One_nat_def)
  have len: "length (a_latch s) = 2" using inv by (simp add: source_inv_def source_ok_def)
  have latch: "a_latch s' = (a_latch s)[1 - newest_slot s := a_latch s' ! (1 - newest_slot s)]"
    using sp(4) select_slot [of s] len newest_slot_cases [of s] by auto
  show "settled s' event r f (newest_slot s')"
    unfolding settled_def latch_hit_def slot using sp len select_slot [of s] newest_slot_cases [of s] g
    by auto
  show "a_last_event s' = event" "a_selected_any s'" by (rule sp)+
  show "settled s e r' f' (newest_slot s) \<Longrightarrow> settled s' e r' f' (newest_slot s)"
    unfolding settled_def latch_hit_def using latch newest_slot_cases [of s]
    by (metis One_nat_def diff_is_0_eq' diff_zero nth_list_update_neq le_refl zero_neq_one)
qed

definition push_all :: "stereo list \<Rightarrow> ull_audio_source \<Rightarrow> ull_audio_source" where
  "push_all ps s = fold (\<lambda>p s. fst (ull_audio_source_push s (Some p))) ps s"

lemma push_all_inv: "source_inv s \<Longrightarrow> source_inv (push_all ps s)"
  unfolding push_all_def by (induction ps arbitrary: s) (simp_all add: push_inv)

lemma push_all_settled: "settled (push_all ps s) e r f i = settled s e r f i"
  "newest_slot (push_all ps s) = newest_slot s" "a_last_event (push_all ps s) = a_last_event s"
  "a_selected_any (push_all ps s) = a_selected_any s"
  unfolding push_all_def by (induction ps arbitrary: s) (simp_all add: newest_slot_def)

lemma settled_kept:
  assumes inv: "source_inv s" and set: "settled s (a_last_event s) r f (newest_slot s)"
  shows "settled (fst (ull_audio_source_select s e2 (Some out))) (a_last_event s) r f (newest_slot s)"
proof (rule select_cases [OF inv, of e2 out])
  fix s' r' g
  assume fresh: "a_selected_any s \<longrightarrow> a_last_event s < e2"
    "ull_audio_source_select s e2 (Some out) = (s', r', Some g)"
  then show ?thesis using select_settles(4) [OF inv fresh set] by simp
qed (use set in simp_all)

text \<open>The choice for the newest event is repeatable: whatever is pushed afterwards and whatever
  other event is selected in between (it may be later, earlier or the same), asking for that event
  again returns the same result and the same frame and takes nothing from the queue. Re-encrypting a
  packet can therefore never send different audio under the same event.\<close>

theorem selection_repeatable:
  assumes "source_inv s" and "a_selected_any s \<longrightarrow> a_last_event s < e1"
    and "ull_audio_source_select s e1 (Some o1) = (s1, r1, f1)"
    and "s3 = push_all qs (fst (ull_audio_source_select (push_all ps s1) e2 (Some o2)))"
  shows "\<exists>f. ull_audio_source_select s3 e1 (Some o3) = (s3\<lparr>a_requested := True\<rparr>, r1, Some f) \<and>
    (r1 = 1 \<longrightarrow> f1 = Some f)"
proof -
  let ?i = "newest_slot s1" and ?p = "push_all ps s1"
  note first = select_settles [OF assms(1-3)]
  have p: "source_inv ?p" using select_inv [OF assms(1), of e1 o1] assms(3) by (simp add: push_all_inv)
  then have i3: "source_inv s3" by (simp add: assms(4) push_all_inv select_inv)
  have "settled ?p (a_last_event ?p) r1 f1 (newest_slot ?p)"
    using first by (simp add: push_all_settled)
  from settled_kept [OF p this, of e2 o2] have "settled s3 e1 r1 f1 ?i"
    using first(2) by (simp add: assms(4) push_all_settled)
  then show ?thesis
    using settled_answer [of s3 e1 r1 f1 ?i o3] i3 newest_slot_cases [of s1] by (auto simp: source_inv_def)
qed

lemma selection_repeatable_witness:
  "\<exists>s1 r1 f1 s3 f. ull_audio_source_select ex_source 7 (Some silence) = (s1, r1, f1) \<and> r1 = 1 \<and>
     s3 = fst (ull_audio_source_select s1 8 (Some silence)) \<and>
     ull_audio_source_select s3 7 (Some silence) = (s3\<lparr>a_requested := True\<rparr>, r1, Some f)"
proof -
  obtain s1 r1 f1 where f: "ull_audio_source_select ex_source 7 (Some silence) = (s1, r1, f1)"
    by (cases "ull_audio_source_select ex_source 7 (Some silence)")
  have a: "\<not> a_selected_any ex_source" by (simp add: ex_source_def ull_audio_source_init_def)
  have "fst (snd (ull_audio_source_select ex_source 7 (Some silence))) = 1"
    by (simp add: ex_source_def ull_audio_source_init_def ull_audio_source_push_def latch_hit_def
        ull_audio_source_select_def zero_latch_def select_fresh_def ULL_AUDIO_QUEUE_FRAMES_def
        skipped_events_def Let_def)
  then have "r1 = 1" using f by simp
  moreover have "\<exists>g. ull_audio_source_select (fst (ull_audio_source_select s1 8 (Some silence))) 7 (Some silence) =
      (fst (ull_audio_source_select s1 8 (Some silence))\<lparr>a_requested := True\<rparr>, r1, Some g)"
    using selection_repeatable [OF ex_source_inv _ f, of _ "[]" "[]" 8 silence silence] a
    by (auto simp: push_all_def)
  ultimately show ?thesis using f by blast
qed

subsection \<open>The frame of a new event and the rearm\<close>

text \<open>A new event takes the frame its distance from the previous event designates: the frames of
  the skipped events are discarded (never more than are queued), the next one is returned and
  latched, and when none is left the result is 0, the caller's buffer is untouched and the underflow is
  counted.\<close>

theorem select_new_event:
  assumes "source_inv s" and "a_selected_any s \<longrightarrow> a_last_event s < event"
    and "n = min (unat (skipped_events s event)) (length (queued s))"
  shows "case ull_audio_source_select s event (Some out) of (s', r, f) \<Rightarrow>
     queued s' = drop (Suc n) (queued s) \<and> a_discarded s' = a_discarded s + of_nat n \<and>
     (if n < length (queued s) then r = 1 \<and> f = Some (queued s ! n) \<and> a_underflows s' = a_underflows s
      else r = 0 \<and> f = Some out \<and> a_underflows s' = a_underflows s + 1)"
proof -
  have none: "\<not> latch_hit s event 0" "\<not> latch_hit s event 1"
    using not_latched [OF _ assms(2)] assms(1) by (simp_all add: source_inv_def)
  obtain s' r g where sf: "select_fresh (s\<lparr>a_requested := True\<rparr>) event out = (s', r, g)"
    by (cases "select_fresh (s\<lparr>a_requested := True\<rparr>) event out") auto
  have sel: "ull_audio_source_select s event (Some out) = (s', r, Some g)"
    using none assms(2) sf by (auto simp: ull_audio_source_select_def Let_def)
  have ok: "source_ok (s\<lparr>a_requested := True\<rparr>)" using assms(1) by (simp add: source_inv_def)
  note sp = select_fresh_spec [OF ok sf, unfolded requested_simps]
  show ?thesis unfolding sel using sp by (simp add: assms(3))
qed

lemma select_new_event_witness:
  "\<not> a_selected_any ex_source \<and> queued (fst (ull_audio_source_select ex_source 7 (Some silence))) =
     drop 1 (queued ex_source)"
proof -
  have a: "\<not> a_selected_any ex_source" by (simp add: ex_source_def ull_audio_source_init_def)
  then have "skipped_events ex_source 7 = 0" by (simp add: skipped_events_def)
  then show ?thesis
    using select_new_event [OF ex_source_inv, of 7 0 silence] a by (auto split: prod.splits)
qed

lemma rearm_effect:
  assumes "source_inv s"
  shows "snd (ull_audio_source_rearm s b) \<longleftrightarrow> (\<exists>c. b = Some c \<and> ull_reconnect_paused c)"
    and "snd (ull_audio_source_rearm s b) \<Longrightarrow> queued (fst (ull_audio_source_rearm s b)) = [] \<and>
      \<not> a_requested (fst (ull_audio_source_rearm s b)) \<and>
      (\<forall>e. newly_given (fst (ull_audio_source_rearm s b)) e = [])"
proof -
  show iff: "snd (ull_audio_source_rearm s b) \<longleftrightarrow> (\<exists>c. b = Some c \<and> ull_reconnect_paused c)"
    using queue_sane [of s] assms
    by (auto simp: ull_audio_source_rearm_def source_inv_def split: option.splits)
  let ?s = "fst (ull_audio_source_rearm s b)"
  assume t: "snd (ull_audio_source_rearm s b)"
  then have q: "queued ?s = []" and rq: "\<not> a_requested ?s"
    by (auto simp: ull_audio_source_rearm_def queued_def split: option.splits if_splits)
  have "newly_given ?s e = []" for e
    using select_contents [OF rearm_inv [OF assms], of b e] q by simp
  then show "queued ?s = [] \<and> \<not> a_requested ?s \<and> (\<forall>e. newly_given ?s e = [])" using q rq by simp
qed

section \<open>The two tasks interleaved\<close>

text \<open>
  Push and select split at their shared accesses: the producer loads both counters and decides,
  copies the frame into its slot, and stores \<^verbatim>\<open>written\<close>; the consumer loads both counters and
  decides what to discard, copies the frame out, and stores \<^verbatim>\<open>read\<close>. Any step of either task
  may come between. \<open>published\<close> and \<open>consumed\<close> are history only. Stores are seen in program order, which
  is what the release and acquire orders of the code ask of the machine.
\<close>

datatype producer = PIdle | PCopy u32 stereo | PPublish u32 stereo
datatype consumer = CIdle | CCopy u32 | CPublish u32 stereo | CSkip u32

record spsc =
  m_written :: u32
  m_read :: u32
  m_queue :: "stereo list"
  producer :: producer
  consumer :: consumer
  published :: "stereo list"
  consumed :: "stereo list"

definition spsc_init :: spsc where
  "spsc_init = \<lparr>m_written = 0, m_read = 0, m_queue = replicate 4 silence, producer = PIdle,
     consumer = CIdle, published = [], consumed = []\<rparr>"

inductive spsc_step :: "spsc \<Rightarrow> spsc \<Rightarrow> bool" where
  push_load: "producer s = PIdle \<Longrightarrow> \<not> m_written s - m_read s \<ge> ULL_AUDIO_QUEUE_FRAMES \<Longrightarrow>
     spsc_step s (s\<lparr>producer := PCopy (m_written s) f\<rparr>)"
| push_copy: "producer s = PCopy w f \<Longrightarrow>
     spsc_step s (s\<lparr>m_queue := (m_queue s)[unat (w AND (ULL_AUDIO_QUEUE_FRAMES - 1)) := f],
                    producer := PPublish w f\<rparr>)"
| push_store: "producer s = PPublish w f \<Longrightarrow>
     spsc_step s (s\<lparr>m_written := w + 1, producer := PIdle, published := published s @ [f]\<rparr>)"
| select_load: "consumer s = CIdle \<Longrightarrow> available = m_written s - m_read s \<Longrightarrow>
     \<not> available > ULL_AUDIO_QUEUE_FRAMES \<Longrightarrow> discard < available \<Longrightarrow>
     spsc_step s (s\<lparr>consumer := CCopy (m_read s + discard)\<rparr>)"
| select_none: "consumer s = CIdle \<Longrightarrow> available = m_written s - m_read s \<Longrightarrow>
     \<not> available > ULL_AUDIO_QUEUE_FRAMES \<Longrightarrow>
     spsc_step s (s\<lparr>consumer := CSkip (m_read s + available)\<rparr>)"
| select_copy: "consumer s = CCopy r \<Longrightarrow>
     spsc_step s (s\<lparr>consumer := CPublish r (m_queue s ! unat (r AND (ULL_AUDIO_QUEUE_FRAMES - 1)))\<rparr>)"
| select_store: "consumer s = CPublish r f \<Longrightarrow>
     spsc_step s (s\<lparr>m_read := r + 1, consumer := CIdle, consumed := consumed s @ [f]\<rparr>)"
| select_skip: "consumer s = CSkip r \<Longrightarrow> spsc_step s (s\<lparr>m_read := r, consumer := CIdle\<rparr>)"

definition spsc_reachable :: "spsc \<Rightarrow> bool" where "spsc_reachable = spsc_step\<^sup>*\<^sup>* spsc_init"

text \<open>The invariant, over the absolute position \<open>n\<close> of the consumer.\<close>

definition producer_ok :: "spsc \<Rightarrow> nat \<Rightarrow> bool" where
  "producer_ok s n = (case producer s of PIdle \<Rightarrow> True
     | PCopy w f \<Rightarrow> w = m_written s \<and> length (published s) < n + 4
     | PPublish w f \<Rightarrow> w = m_written s \<and> length (published s) < n + 4 \<and>
         m_queue s ! (length (published s) mod 4) = f)"

definition consumer_ok :: "spsc \<Rightarrow> nat \<Rightarrow> bool" where
  "consumer_ok s n = (case consumer s of CIdle \<Rightarrow> True
     | CCopy r \<Rightarrow> (\<exists>i. r = of_nat i \<and> n \<le> i \<and> i < length (published s))
     | CPublish r f \<Rightarrow> (\<exists>i. r = of_nat i \<and> n \<le> i \<and> i < length (published s) \<and> f = published s ! i)
     | CSkip r \<Rightarrow> (\<exists>i. r = of_nat i \<and> n \<le> i \<and> i \<le> length (published s)))"

definition memory_ok :: "spsc \<Rightarrow> nat \<Rightarrow> bool" where
  "memory_ok s n \<longleftrightarrow> m_written s = of_nat (length (published s)) \<and> m_read s = of_nat n \<and>
     n \<le> length (published s) \<and> length (published s) \<le> n + 4 \<and> length (m_queue s) = 4 \<and>
     (\<forall>i. n \<le> i \<and> i < length (published s) \<longrightarrow> m_queue s ! (i mod 4) = published s ! i) \<and>
     subseq (consumed s) (take n (published s))"

definition spsc_inv :: "spsc \<Rightarrow> nat \<Rightarrow> bool" where
  "spsc_inv s n \<longleftrightarrow> memory_ok s n \<and> producer_ok s n \<and> consumer_ok s n"

lemma unat_of_nat_diff: "n \<le> k \<Longrightarrow> k \<le> n + 4 \<Longrightarrow> unat (of_nat k - of_nat n :: u32) = k - n"
proof -
  assume "n \<le> k" "k \<le> n + 4"
  then have "(of_nat k - of_nat n :: u32) = of_nat (k - n)" and "k - n < 2 ^ 32" by simp_all
  then show ?thesis by (simp add: unat_of_nat)
qed

lemma of_nat_slot: "unat ((of_nat i :: u32) AND (ULL_AUDIO_QUEUE_FRAMES - 1)) = i mod 4"
  by (simp add: slot_index unat_of_nat mod_mod_cancel)

lemma slots_differ: "n \<le> i \<Longrightarrow> i < k \<Longrightarrow> k < n + 4 \<Longrightarrow> i mod 4 \<noteq> k mod (4::nat)"
  using mod_shift_neq [of "i - n" "k - n" 4 n] by simp

lemma take_subseq: "subseq xs (take n ys) \<Longrightarrow> n \<le> m \<Longrightarrow> subseq xs (take m ys)"
  by (metis min.absorb1 prefix_imp_subseq subseq_order.order_trans take_is_prefix take_take)

lemma take_subseq_snoc: "subseq xs (take n ys) \<Longrightarrow> n \<le> i \<Longrightarrow> i < length ys \<Longrightarrow> subseq (xs @ [ys ! i]) (take (Suc i) ys)"
  by (simp add: take_Suc_conv_app_nth take_subseq)

lemma other_fields [simp]:
  "consumer_ok (s\<lparr>producer := p\<rparr>) n = consumer_ok s n" "consumer_ok (s\<lparr>m_queue := q\<rparr>) n = consumer_ok s n"
  "producer_ok (s\<lparr>consumer := c\<rparr>) n = producer_ok s n" "memory_ok (s\<lparr>consumer := c\<rparr>) n = memory_ok s n"
  "memory_ok (s\<lparr>producer := p\<rparr>) n = memory_ok s n"
  by (simp_all add: consumer_ok_def producer_ok_def memory_ok_def split: consumer.split producer.split)

lemma copy_memory_ok:
  assumes "memory_ok s n" and "length (published s) < n + 4"
  shows "memory_ok (s\<lparr>m_queue := (m_queue s)[length (published s) mod 4 := f]\<rparr>) n"
proof -
  have "(m_queue s)[length (published s) mod 4 := f] ! (i mod 4) = m_queue s ! (i mod 4)"
    if "n \<le> i" "i < length (published s)" for i
    using slots_differ [OF that assms(2)] by (metis nth_list_update_neq)
  then show ?thesis using assms(1) by (simp add: memory_ok_def)
qed

lemma spsc_inv_step:
  assumes "spsc_step s s'" and "spsc_inv s n"
  shows "\<exists>m\<ge>n. spsc_inv s' m"
  using assms
proof (induction rule: spsc_step.induct)
  case (push_load s f)
  then have "length (published s) < n + 4"
    using unat_of_nat_diff [of n "length (published s)"]
    by (simp add: spsc_inv_def memory_ok_def ULL_AUDIO_QUEUE_FRAMES_def word_le_nat_alt)
  then show ?case using push_load by (intro exI [of _ n]) (simp add: spsc_inv_def producer_ok_def)
next
  case (push_copy s w f)
  then have w: "w = of_nat (length (published s))" "length (published s) < n + 4"
    by (simp_all add: spsc_inv_def memory_ok_def producer_ok_def)
  from push_copy have m: "memory_ok s n" and "length (m_queue s) = 4"
    by (simp_all add: spsc_inv_def memory_ok_def)
  with push_copy w copy_memory_ok [OF m w(2), of f] show ?case
    unfolding w(1) of_nat_slot by (intro exI [of _ n]) (auto simp: spsc_inv_def producer_ok_def)
next
  case (push_store s w f)
  let ?k = "length (published s)"
  let ?t = "s\<lparr>m_written := w + 1, producer := PIdle, published := published s @ [f]\<rparr>"
  from push_store have w: "w = of_nat ?k" "?k < n + 4" "m_queue s ! (?k mod 4) = f"
    by (simp_all add: spsc_inv_def memory_ok_def producer_ok_def)
  from push_store have old: "memory_ok s n" "consumer_ok s n" by (simp_all add: spsc_inv_def)
  have "m_queue s ! (i mod 4) = (published s @ [f]) ! i" if "n \<le> i" "i < Suc ?k" for i
    using old(1) w(3) that by (cases "i = ?k") (simp_all add: memory_ok_def nth_append)
  then have "memory_ok ?t n"
    using old(1) w by (simp add: memory_ok_def)
  moreover have "consumer_ok ?t n"
    using old(2) by (fastforce simp: consumer_ok_def nth_append split: consumer.splits)
  ultimately show ?case by (intro exI [of _ n]) (simp add: spsc_inv_def producer_ok_def)
next
  case (select_load s available discard)
  then have av: "unat available = length (published s) - n"
    using unat_of_nat_diff [of n "length (published s)"] by (simp add: spsc_inv_def memory_ok_def)
  have "consumer_ok (s\<lparr>consumer := CCopy (m_read s + discard)\<rparr>) n"
    using select_load av unfolding consumer_ok_def
    by (auto simp: spsc_inv_def memory_ok_def word_less_nat_alt intro!: exI [of _ "n + unat discard"])
  then show ?case using select_load
    by (intro exI [of _ n]) (simp add: spsc_inv_def)
next
  case (select_none s available)
  then have "consumer_ok (s\<lparr>consumer := CSkip (m_read s + available)\<rparr>) n"
    unfolding consumer_ok_def
    by (auto simp: spsc_inv_def memory_ok_def intro!: exI [of _ "length (published s)"])
  then show ?case using select_none
    by (intro exI [of _ n]) (simp add: spsc_inv_def)
next
  case (select_copy s r)
  then have "consumer_ok (s\<lparr>consumer := CPublish r (m_queue s ! unat (r AND (ULL_AUDIO_QUEUE_FRAMES - 1)))\<rparr>) n"
    by (auto simp: spsc_inv_def memory_ok_def consumer_ok_def of_nat_slot)
  then show ?case using select_copy
    by (intro exI [of _ n]) (simp add: spsc_inv_def)
next
  case (select_store s r f)
  then obtain i where i: "r = of_nat i" "n \<le> i" "i < length (published s)" "f = published s ! i"
    by (auto simp: spsc_inv_def consumer_ok_def)
  let ?t = "s\<lparr>m_read := r + 1, consumer := CIdle, consumed := consumed s @ [f]\<rparr>"
  from select_store have old: "memory_ok s n" "producer_ok s n" by (simp_all add: spsc_inv_def)
  have "memory_ok ?t (Suc i)"
    using old(1) i take_subseq_snoc [of "consumed s" n "published s" i]
    by (simp add: memory_ok_def)
  moreover have "producer_ok ?t (Suc i)"
    using old(2) i(2) by (auto simp: producer_ok_def split: producer.splits)
  ultimately show ?case
    using i(2) by (intro exI [of _ "Suc i"]) (simp add: spsc_inv_def consumer_ok_def)
next
  case (select_skip s r)
  then obtain i where i: "r = of_nat i" "n \<le> i" "i \<le> length (published s)"
    by (auto simp: spsc_inv_def consumer_ok_def)
  with select_skip show ?case
    by (intro exI [of _ i])
       (auto simp: spsc_inv_def memory_ok_def producer_ok_def consumer_ok_def intro: take_subseq split: producer.splits)
qed

lemma spsc_inv_reachable: "spsc_reachable s \<Longrightarrow> \<exists>n. spsc_inv s n"
  unfolding spsc_reachable_def
proof (induction rule: rtranclp_induct)
  case base
  have "spsc_inv spsc_init 0"
    by (simp add: spsc_inv_def spsc_init_def memory_ok_def producer_ok_def consumer_ok_def)
  then show ?case ..
qed (use spsc_inv_step in blast)

text \<open>C29: However the steps of the encoder task and of the controller interleave, the producer never
  copies into the slot the consumer is copying from, a frame the consumer copied is exactly one that was
  published, and the frames consumed are a subsequence of the frames published.\<close>

theorem spsc_race_free:
  assumes "spsc_reachable s"
  shows "(producer s = PCopy w f \<and> consumer s = CCopy r \<longrightarrow>
      unat (w AND (ULL_AUDIO_QUEUE_FRAMES - 1)) \<noteq> unat (r AND (ULL_AUDIO_QUEUE_FRAMES - 1))) \<and>
    (consumer s = CPublish r g \<longrightarrow> g \<in> set (published s)) \<and>
    subseq (consumed s) (published s)"
proof -
  obtain n where inv: "spsc_inv s n" using spsc_inv_reachable [OF assms] ..
  have "unat (w AND (ULL_AUDIO_QUEUE_FRAMES - 1)) \<noteq> unat (r AND (ULL_AUDIO_QUEUE_FRAMES - 1))"
    if p: "producer s = PCopy w f" and c: "consumer s = CCopy r"
  proof -
    from inv p have w: "w = of_nat (length (published s))" "length (published s) < n + 4"
      by (auto simp: spsc_inv_def memory_ok_def producer_ok_def)
    from inv c obtain i where "r = of_nat i" "n \<le> i" "i < length (published s)"
      by (auto simp: spsc_inv_def consumer_ok_def)
    then show ?thesis using slots_differ [of n i "length (published s)"] w by (simp add: of_nat_slot)
  qed
  moreover have "g \<in> set (published s)" if "consumer s = CPublish r g"
    using inv that by (auto simp: spsc_inv_def consumer_ok_def)
  moreover have "subseq (consumed s) (published s)"
    using inv take_subseq [of "consumed s" n "published s" "length (published s)"]
    by (auto simp: spsc_inv_def memory_ok_def)
  ultimately show ?thesis by blast
qed

lemma spsc_race_free_witness:
  "\<exists>s. spsc_reachable s \<and> producer s = PCopy 0 ex_frame \<and> subseq (consumed s) (published s)"
proof -
  have "spsc_step spsc_init (spsc_init\<lparr>producer := PCopy (m_written spsc_init) ex_frame\<rparr>)"
    by (rule push_load) (simp_all add: spsc_init_def ULL_AUDIO_QUEUE_FRAMES_def)
  then have r: "spsc_reachable (spsc_init\<lparr>producer := PCopy 0 ex_frame\<rparr>)"
    by (simp add: spsc_reachable_def spsc_init_def r_into_rtranclp)
  show ?thesis using r spsc_race_free [OF r] by (intro exI [of _ "spsc_init\<lparr>producer := PCopy 0 ex_frame\<rparr>"]) simp
qed

end
