(* ===== verification/UsbPcm.thy ===== *)
theory UsbPcm
  imports RingQueue "HOL-Library.Signed_Division"
begin

text \<open>
  Model of \<^verbatim>\<open>components/ull_usb/usb_pcm.c\<close> and \<^verbatim>\<open>usb_feedback.c\<close> with their headers:
  the PCM ring of 1920 frames that drops its oldest frames, the volume, and the rate feedback sent to
  the host. A ring is shown to be a list of frames; a frame is one sample per channel. \<^verbatim>\<open>size_t\<close> and
  signed integers are unbounded here, with the bounds that exclude overflow proved.
\<close>

type_synonym i16 = "16 word"

section \<open>The ring\<close>

definition PCM_N :: nat where "PCM_N = 1920"

record ull_pcm_ring =
  p_samples :: "i16 list"
  p_read :: nat
  p_count :: nat
  p_channels :: nat

definition ull_pcm_reset :: "ull_pcm_ring \<Rightarrow> nat \<Rightarrow> ull_pcm_ring" where
  "ull_pcm_reset r channels = r\<lparr>p_read := 0, p_count := 0, p_channels := channels\<rparr>"

definition bad_channels :: "ull_pcm_ring \<Rightarrow> bool" where
  "bad_channels r \<longleftrightarrow> p_channels r = 0 \<or> p_channels r > 2"

text \<open>The two halves of a copy into and out of the ring.\<close>

definition copy_in :: "ull_pcm_ring \<Rightarrow> i16 list \<Rightarrow> nat \<Rightarrow> i16 list" where
  "copy_in r s frames =
     (let ch = p_channels r; write = (p_read r + p_count r) mod PCM_N;
          first = (if PCM_N - write > frames then frames else PCM_N - write);
          samples = memcpy_at (p_samples r) (write * ch) (take (first * ch) s)
      in memcpy_at samples 0 (take ((frames - first) * ch) (drop (first * ch) s)))"

definition copy_out :: "ull_pcm_ring \<Rightarrow> nat \<Rightarrow> i16 list" where
  "copy_out r frames =
     (let ch = p_channels r; first = (if PCM_N - p_read r > frames then frames else PCM_N - p_read r)
      in block (p_read r * ch) (first * ch) (p_samples r) @ take ((frames - first) * ch) (p_samples r))"

definition ull_pcm_push :: "ull_pcm_ring \<Rightarrow> i16 list option \<Rightarrow> nat \<Rightarrow> ull_pcm_ring \<times> nat" where
  "ull_pcm_push r s frames = (case s of None \<Rightarrow> (r, 0) | Some s \<Rightarrow>
     if frames = 0 \<or> bad_channels r then (r, 0)
     else
       let (s, frames, dropped) =
             (if frames > PCM_N
              then (drop ((frames - PCM_N) * p_channels r) s, PCM_N, frames - PCM_N)
              else (s, frames, 0));
           (r, dropped) =
             (if p_count r + frames > PCM_N
              then (let d = p_count r + frames - PCM_N in
                    (r\<lparr>p_read := (p_read r + d) mod PCM_N, p_count := p_count r - d\<rparr>, dropped + d))
              else (r, dropped))
       in (r\<lparr>p_samples := copy_in r s frames, p_count := p_count r + frames\<rparr>, dropped))"

text \<open>The destination is returned as the samples written at its front.\<close>

definition ull_pcm_pop :: "ull_pcm_ring \<Rightarrow> nat \<Rightarrow> ull_pcm_ring \<times> i16 list \<times> nat" where
  "ull_pcm_pop r frames =
     (if bad_channels r then (r, [], 0)
      else
        let frames = (if frames > p_count r then p_count r else frames)
        in (r\<lparr>p_read := (p_read r + frames) mod PCM_N, p_count := p_count r - frames\<rparr>,
            copy_out r frames, frames))"

section \<open>The ring as a list of frames\<close>

definition frame_at :: "nat \<Rightarrow> 'a list \<Rightarrow> nat \<Rightarrow> 'a list" where
  "frame_at ch xs j = block (j * ch) ch xs"

definition frames_of :: "nat \<Rightarrow> nat \<Rightarrow> 'a list \<Rightarrow> 'a list list" where
  "frames_of ch n xs = map (frame_at ch xs) [0..<n]"

definition pcm_contents :: "ull_pcm_ring \<Rightarrow> i16 list list" where
  "pcm_contents r = window PCM_N (frames_of (p_channels r) PCM_N (p_samples r)) (p_read r) (p_count r)"

definition pcm_ok :: "ull_pcm_ring \<Rightarrow> bool" where
  "pcm_ok r \<longleftrightarrow> p_read r < PCM_N \<and> p_count r \<le> PCM_N \<and> length (p_samples r) = PCM_N * 2 \<and>
     p_channels r \<in> {1, 2}"

lemma length_frames_of [simp]: "length (frames_of ch n xs) = n"
  by (simp add: frames_of_def)

lemma nth_frames_of [simp]: "j < n \<Longrightarrow> frames_of ch n xs ! j = frame_at ch xs j"
  by (simp add: frames_of_def)

lemma PCM_N_pos [simp]: "0 < PCM_N" "x mod PCM_N < PCM_N"
  by (simp_all add: PCM_N_def)

lemma length_contents [simp]: "length (pcm_contents r) = p_count r"
  by (simp add: pcm_contents_def)

lemma nth_contents: "i < p_count r \<Longrightarrow>
    pcm_contents r ! i = frame_at (p_channels r) (p_samples r) ((p_read r + i) mod PCM_N)"
  by (simp add: pcm_contents_def nth_window)

lemma block_memcpy_inside:
  "off + length src \<le> length dst \<Longrightarrow> off \<le> p \<Longrightarrow> p + n \<le> off + length src \<Longrightarrow>
   block p n (memcpy_at dst off src) = block (p - off) n src"
  by (rule nth_equalityI) (auto simp: mem_simps nth_block nth_memcpy_at block_def)

lemma block_take: "p + n \<le> m \<Longrightarrow> block p n (take m xs) = block p n xs"
  by (simp add: block_def take_drop min_def)

lemma block_drop: "block p n (drop m xs) = block (m + p) n xs"
  by (simp add: block_def ac_simps)

lemma frame_memcpy_inside:
  assumes "w * ch + m * ch \<le> length dst" and "m * ch \<le> length s" and "w \<le> j" and "j < w + m"
  shows "frame_at ch (memcpy_at dst (w * ch) (take (m * ch) s)) j = frame_at ch s (j - w)"
proof -
  obtain k where k: "j = w + k" "k < m" using assms(3,4) by (metis le_Suc_ex nat_add_left_cancel_less)
  have "k * ch + ch \<le> m * ch" using mult_le_mono1 [of "Suc k" m ch] k(2) by simp
  then show ?thesis
    using assms(1,2) k by (simp add: frame_at_def block_memcpy_inside block_take algebra_simps)
qed

lemma frame_memcpy_outside:
  assumes "w * ch + m * ch \<le> length dst" and "m * ch \<le> length s" and "j * ch + ch \<le> length dst"
    and "j < w \<or> w + m \<le> j"
  shows "frame_at ch (memcpy_at dst (w * ch) (take (m * ch) s)) j = frame_at ch dst j"
proof -
  have "j * ch + ch \<le> w * ch \<or> w * ch + m * ch \<le> j * ch"
    using assms(4) mult_le_mono1 [of "Suc j" w ch] mult_le_mono1 [of "w + m" j ch]
    by (auto simp: algebra_simps)
  then show ?thesis using assms(1-3) by (simp add: frame_at_def block_memcpy_other)
qed

text \<open>Where the frames go: the two copies write the ring positions after the queued ones, in order.\<close>

lemma copy_in_frames:
  assumes ok: "pcm_ok r" and fit: "p_count r + n \<le> PCM_N" and len: "n * p_channels r \<le> length s"
  shows "length (copy_in r s n) = length (p_samples r)"
    and "k < n \<Longrightarrow> frame_at (p_channels r) (copy_in r s n) ((p_read r + (p_count r + k)) mod PCM_N) =
      frame_at (p_channels r) s k"
    and "i < p_count r \<Longrightarrow> frame_at (p_channels r) (copy_in r s n) ((p_read r + i) mod PCM_N) =
      frame_at (p_channels r) (p_samples r) ((p_read r + i) mod PCM_N)"
proof -
  let ?ch = "p_channels r"
  define w where "w = (p_read r + p_count r) mod PCM_N"
  define f where "f = (if PCM_N - w > n then n else PCM_N - w)"
  define d where "d = memcpy_at (p_samples r) (w * ?ch) (take (f * ?ch) s)"
  have w: "w < PCM_N" by (simp add: w_def)
  have f: "f \<le> n" "w + f \<le> PCM_N" "n - f > 0 \<Longrightarrow> w + f = PCM_N"
    using w by (auto simp: f_def split: if_splits)
  have ch: "?ch \<le> 2" using ok by (auto simp: pcm_ok_def)
  have fit_len: "a + b \<le> PCM_N \<Longrightarrow> a * ?ch + b * ?ch \<le> length (p_samples r)" for a b
    using mult_le_mono [of "a + b" PCM_N ?ch 2] ch ok by (simp add: pcm_ok_def algebra_simps)
  have one: "w * ?ch + f * ?ch \<le> length (p_samples r)" using fit_len f(2) .
  have s1: "f * ?ch \<le> length s"
    using mult_le_mono1 [OF f(1), of ?ch] len by linarith
  have ld: "length d = length (p_samples r)" using one s1 by (simp add: d_def mem_simps)
  have nf: "n - f \<le> PCM_N" "(n - f) * ?ch + f * ?ch = n * ?ch"
    using fit f(1) by (simp_all add: add_mult_distrib [symmetric])
  have s2: "(n - f) * ?ch \<le> length (drop (f * ?ch) s)" using len nf(2) by simp
  have two: "0 * ?ch + (n - f) * ?ch \<le> length d" using fit_len [of 0 "n - f"] nf(1) ld by simp
  have ci: "copy_in r s n = memcpy_at d (0 * ?ch) (take ((n - f) * ?ch) (drop (f * ?ch) s))"
    by (simp add: copy_in_def Let_def w_def f_def d_def)
  show "length (copy_in r s n) = length (p_samples r)"
    unfolding ci using two s2 ld by (simp add: mem_simps)
  have len_j: "j < PCM_N \<Longrightarrow> j * ?ch + ?ch \<le> length d" for j using fit_len [of j 1] ld by simp
  have wrap: "n - f \<le> w" if "n - f > 0"
    using f(3) [OF that] fit w by (simp add: f_def split: if_splits)
  have pos: "(p_read r + (p_count r + k)) mod PCM_N = (if k < f then w + k else k - f)" if "k < n" for k
  proof -
    have "(p_read r + (p_count r + k)) mod PCM_N = (w + k) mod PCM_N"
      by (simp add: w_def mod_add_left_eq add.assoc)
    also have "\<dots> = (if k < f then w + k else k - f)"
    proof (cases "k < f")
      case False
      then have e: "w + f = PCM_N" and "k - f < PCM_N" using that f(3) fit by simp_all
      have "w + k = (k - f) + PCM_N" using e False by linarith
      then show ?thesis using \<open>k - f < PCM_N\<close> False by (simp only: mod_add_self2 mod_less if_False)
    qed (use f(2) in simp)
    finally show ?thesis .
  qed
  show "frame_at ?ch (copy_in r s n) ((p_read r + (p_count r + k)) mod PCM_N) = frame_at ?ch s k" if "k < n"
  proof (cases "k < f")
    case True
    have "n - f \<le> w + k" using wrap by (cases "n - f > 0") auto
    then have "frame_at ?ch (copy_in r s n) (w + k) = frame_at ?ch d (w + k)"
      unfolding ci using True f(2) by (intro frame_memcpy_outside [OF two s2 len_j]) auto
    also have "\<dots> = frame_at ?ch s k"
      unfolding d_def using frame_memcpy_inside [OF one s1, of "w + k"] True by simp
    finally show ?thesis using pos [OF that] True by simp
  next
    case False
    then have "frame_at ?ch (copy_in r s n) (k - f) = frame_at ?ch (drop (f * ?ch) s) (k - f)"
      unfolding ci using frame_memcpy_inside [OF two s2, of "k - f"] that by simp
    also have "\<dots> = frame_at ?ch s k"
      using False by (simp add: frame_at_def block_drop add_mult_distrib [symmetric])
    finally show ?thesis using pos [OF that] False by simp
  qed
  show "frame_at ?ch (copy_in r s n) ((p_read r + i) mod PCM_N) =
      frame_at ?ch (p_samples r) ((p_read r + i) mod PCM_N)" if "i < p_count r"
  proof -
    let ?j = "(p_read r + i) mod PCM_N"
    have neq: "?j \<noteq> (if k < f then w + k else k - f)" if "k < n" for k
      using mod_shift_neq [of i "p_count r + k" PCM_N "p_read r"] \<open>i < p_count r\<close> fit that pos [OF that]
      by auto
    have "\<not> ?j < n - f"
    proof
      assume "?j < n - f"
      then have "?j + f < n" by linarith
      from neq [OF this] show False by simp
    qed
    then have "frame_at ?ch (copy_in r s n) ?j = frame_at ?ch d ?j"
      unfolding ci by (intro frame_memcpy_outside [OF two s2 len_j]) auto
    also have "\<not> (w \<le> ?j \<and> ?j < w + f)"
    proof
      assume a: "w \<le> ?j \<and> ?j < w + f"
      then have "?j - w < f" by linarith
      then show False using neq [of "?j - w"] a f(1) by simp
    qed
    then have "frame_at ?ch d ?j = frame_at ?ch (p_samples r) ?j"
      unfolding d_def using len_j [of ?j] ld by (intro frame_memcpy_outside [OF one s1]) auto
    finally show ?thesis .
  qed
qed

lemma push_contents:
  assumes ok: "pcm_ok r" and fit: "p_count r + n \<le> PCM_N" and len: "n * p_channels r \<le> length s"
  shows "pcm_contents (r\<lparr>p_samples := copy_in r s n, p_count := p_count r + n\<rparr>) =
    pcm_contents r @ frames_of (p_channels r) n s"
proof (rule nth_equalityI, goal_cases)
  case (2 i)
  show ?case
  proof (cases "i < p_count r")
    case False
    then obtain k where "i = p_count r + k" "k < n" using 2 by (auto simp: le_iff_add not_less)
    then show ?thesis using copy_in_frames(2) [OF assms, of k] by (simp add: nth_contents nth_append)
  qed (use copy_in_frames(3) [OF assms] in \<open>simp add: nth_contents nth_append\<close>)
qed simp

lemma drop_contents:
  "d \<le> p_count r \<Longrightarrow> pcm_contents (r\<lparr>p_read := (p_read r + d) mod PCM_N, p_count := p_count r - d\<rparr>) =
     drop d (pcm_contents r)"
  by (simp add: pcm_contents_def window_mod window_drop)

lemma frames_of_drop:
  "frames_of ch n (drop (k * ch) xs) = drop k (frames_of ch (k + n) xs)"
  by (rule nth_equalityI) (simp_all add: frame_at_def block_drop algebra_simps)

text \<open>One call to push, on the list of frames.\<close>

lemma push_spec:
  assumes ok: "pcm_ok r" and len: "n * p_channels r \<le> length s" and n: "n \<noteq> 0"
  shows "pcm_ok (fst (ull_pcm_push r (Some s) n))"
    and "snd (ull_pcm_push r (Some s) n) = p_count r + n - PCM_N"
    and "pcm_contents (fst (ull_pcm_push r (Some s) n)) =
      drop (p_count r + n - PCM_N) (pcm_contents r @ frames_of (p_channels r) n s)"
proof -
  let ?ch = "p_channels r"
  define skip where "skip = n - PCM_N"
  define m where "m = n - skip"
  define d where "d = p_count r + m - PCM_N"
  define t where "t = r\<lparr>p_read := (p_read r + d) mod PCM_N, p_count := p_count r - d\<rparr>"
  have le: "p_count r \<le> PCM_N" using ok by (simp add: pcm_ok_def)
  have sizes: "m \<le> PCM_N" "d \<le> p_count r" "skip + m = n" "skip + d = p_count r + n - PCM_N"
    "0 < skip \<Longrightarrow> d = p_count r"
    using le by (auto simp: m_def d_def skip_def)
  have t: "pcm_ok t" using ok sizes le by (simp add: t_def pcm_ok_def)
  have fit: "p_count t + m \<le> PCM_N" using sizes le by (simp add: t_def d_def)
  have "n * ?ch = skip * ?ch + m * ?ch" by (simp add: sizes(3) [symmetric] add_mult_distrib)
  then have ls: "m * p_channels t \<le> length (drop (skip * ?ch) s)"
    using len by (simp add: t_def)
  let ?r' = "t\<lparr>p_samples := copy_in t (drop (skip * ?ch) s) m, p_count := p_count t + m\<rparr>"
  have same: "d = 0 \<Longrightarrow> t = r" using ok by (simp add: t_def pcm_ok_def)
  have ch: "\<not> bad_channels r" using ok by (auto simp: bad_channels_def pcm_ok_def)
  have cut: "(if n > PCM_N then (drop ((n - PCM_N) * ?ch) s, PCM_N, n - PCM_N) else (s, n, 0)) =
      (drop (skip * ?ch) s, m, skip)"
    by (auto simp: skip_def m_def)
  have over: "p_count r + m > PCM_N \<longleftrightarrow> d \<noteq> 0" by (auto simp: d_def)
  have push: "ull_pcm_push r (Some s) n = (?r', skip + d)"
    using n ch same
    by (cases "d = 0") (simp_all add: ull_pcm_push_def cut Let_def over d_def [symmetric] t_def [symmetric])
  show "pcm_ok (fst (ull_pcm_push r (Some s) n))"
    using t fit copy_in_frames(1) [OF t fit ls] by (simp add: push pcm_ok_def)
  show "snd (ull_pcm_push r (Some s) n) = p_count r + n - PCM_N" using sizes by (simp add: push)
  have "pcm_contents ?r' = drop d (pcm_contents r) @ drop skip (frames_of ?ch n s)"
    using push_contents [OF t fit ls] drop_contents [OF sizes(2)] sizes(3)
    by (simp add: t_def frames_of_drop)
  also have "\<dots> = drop (skip + d) (pcm_contents r @ frames_of ?ch n s)"
    using sizes(2,5) by (cases "skip = 0") auto
  finally show "pcm_contents (fst (ull_pcm_push r (Some s) n)) =
      drop (p_count r + n - PCM_N) (pcm_contents r @ frames_of ?ch n s)"
    using sizes(4) by (simp add: push)
qed

lemma push_nothing: "s = None \<or> n = 0 \<Longrightarrow> ull_pcm_push r s n = (r, 0)"
  by (auto simp: ull_pcm_push_def split: option.split)

lemma copy_out_frames:
  assumes ok: "pcm_ok r" and n: "n \<le> p_count r"
  shows "copy_out r n = concat (take n (pcm_contents r))"
proof -
  let ?ch = "p_channels r"
  define f where "f = (if PCM_N - p_read r > n then n else PCM_N - p_read r)"
  have sub: "block (a * ?ch) (b * ?ch) xs = concat (map (\<lambda>i. frame_at ?ch xs (a + i)) [0..<b])"
    if "(a + b) * ?ch \<le> length xs" for a b and xs :: "i16 list"
    using that
  proof (induction b)
    case (Suc b)
    have "block (a * ?ch) (Suc b * ?ch) xs = block (a * ?ch) (b * ?ch) xs @ frame_at ?ch xs (a + b)"
      by (simp add: block_def frame_at_def take_add add.commute [of ?ch] add_mult_distrib)
        (simp add: add.commute)
    then show ?case using Suc by simp
  qed (simp add: block_def)
  have f: "f \<le> n" "n - f \<le> PCM_N" "p_read r + f \<le> PCM_N" "n - f > 0 \<Longrightarrow> p_read r + f = PCM_N"
    using ok n by (auto simp: pcm_ok_def f_def split: if_splits)
  have room: "m \<le> PCM_N \<Longrightarrow> m * ?ch \<le> length (p_samples r)" for m
    using mult_le_mono [of m PCM_N ?ch 2] ok by (auto simp: pcm_ok_def)
  let ?fr = "\<lambda>i. frame_at ?ch (p_samples r) ((p_read r + i) mod PCM_N)"
  have one: "map ?fr [0..<f] = map (\<lambda>i. frame_at ?ch (p_samples r) (p_read r + i)) [0..<f]"
    using f(3) by (intro map_cong) auto
  have idx: "(p_read r + (j + f)) mod PCM_N = j" if "j < n - f" for j
  proof -
    have "p_read r + (j + f) = j + PCM_N" "j < PCM_N" using f that by linarith+
    then show ?thesis by (simp only: mod_add_self2 mod_less)
  qed
  have two: "map (?fr \<circ> (\<lambda>i. i + f)) [0..<n - f] = map (\<lambda>i. frame_at ?ch (p_samples r) (0 + i)) [0..<n - f]"
    using idx by (intro map_cong) auto
  have "take n (pcm_contents r) = map ?fr [0..<n]"
    using n by (auto intro!: nth_equalityI simp: nth_contents)
  also have "[0..<n] = [0..<f] @ map (\<lambda>i. i + f) [0..<n - f]"
    using f(1) upt_add_eq_append [of 0 f "n - f"] by (simp add: map_add_upt)
  also have "concat (map ?fr \<dots>) = copy_out r n"
    using sub [of "p_read r" f] sub [of 0 "n - f" "p_samples r"] room f
    unfolding map_append map_map one two
    by (simp add: copy_out_def Let_def f_def [symmetric] block_def [of 0])
  finally show ?thesis ..
qed

lemma length_concat_same: "\<forall>x \<in> set xs. length x = c \<Longrightarrow> length (concat xs) = length xs * c"
  by (induction xs) auto

text \<open>C36: On the list of queued frames, a push appends the new frames and drops the oldest so that at
  most 1920 remain, returning exactly how many frames (queued or new) were dropped; the wrap-around copies
  of the code implement precisely that.\<close>

theorem pcm_push_refines:
  assumes "pcm_ok r" and "n * p_channels r \<le> length s"
  shows "case ull_pcm_push r (Some s) n of (r', dropped) \<Rightarrow> pcm_ok r' \<and>
    dropped = length (pcm_contents r) + n - PCM_N \<and>
    pcm_contents r' = drop dropped (pcm_contents r @ frames_of (p_channels r) n s)"
proof (cases "n = 0")
  case True
  then show ?thesis
    using assms(1) push_nothing [of "Some s" n r] by (simp add: pcm_ok_def frames_of_def)
next
  case False
  then show ?thesis using push_spec [OF assms False] by (simp add: case_prod_beta)
qed

definition ex_ring :: ull_pcm_ring where
  "ex_ring = \<lparr>p_samples = replicate 3840 0, p_read = 1919, p_count = 1919, p_channels = 2\<rparr>"

lemma ex_ring_ok: "pcm_ok ex_ring"
  by (simp add: ex_ring_def pcm_ok_def PCM_N_def)

lemma pcm_push_refines_witness:
  "snd (ull_pcm_push ex_ring (Some [1, 2, 3, 4]) 2) = 1"
  using pcm_push_refines [OF ex_ring_ok, of 2 "[1, 2, 3, 4]"]
  by (simp add: case_prod_beta) (simp add: ex_ring_def PCM_N_def)

lemma pop_spec:
  assumes "pcm_ok r"
  shows "case ull_pcm_pop r n of (r', out, got) \<Rightarrow> pcm_ok r' \<and> got = min n (length (pcm_contents r)) \<and>
    out = concat (take n (pcm_contents r)) \<and> length out = got * p_channels r \<and>
    pcm_contents r' = drop n (pcm_contents r)"
proof -
  let ?n = "if n > p_count r then p_count r else n"
  have ch: "\<not> bad_channels r" using assms by (auto simp: bad_channels_def pcm_ok_def)
  have n: "?n \<le> p_count r" "?n = min n (p_count r)" by auto
  have "drop ?n (pcm_contents r) = drop n (pcm_contents r)" "take ?n (pcm_contents r) = take n (pcm_contents r)"
    by simp_all
  moreover have frame: "length (frame_at (p_channels r) (p_samples r) j) = p_channels r" if "j < PCM_N" for j
    using mult_le_mono [of "Suc j" PCM_N "p_channels r" 2] that assms
    by (auto simp: frame_at_def block_def pcm_ok_def)
  then have "\<forall>f \<in> set (pcm_contents r). length f = p_channels r"
    by (auto simp: pcm_contents_def window_def)
  then have "length (concat (take m (pcm_contents r))) = min m (p_count r) * p_channels r" for m
    using length_concat_same [of "take m (pcm_contents r)" "p_channels r"]
    by (auto dest: in_set_takeD simp: min.commute)
  ultimately show ?thesis
    using copy_out_frames [OF assms n(1)] drop_contents [OF n(1)] assms n(2) ch
    by (simp add: ull_pcm_pop_def Let_def)
       (auto simp: pcm_ok_def intro: le_trans [OF diff_le_self])
qed

text \<open>A pop hands over the oldest frames, as many as asked for and present, in order and sample by
  sample, and leaves the others.\<close>

theorem pcm_pop_refines:
  assumes "pcm_ok r"
  shows "case ull_pcm_pop r n of (r', out, got) \<Rightarrow> pcm_ok r' \<and> got = min n (length (pcm_contents r)) \<and>
    out = concat (take n (pcm_contents r)) \<and> length out = got * p_channels r \<and>
    pcm_contents r' = drop n (pcm_contents r)"
  by (rule pop_spec [OF assms])

lemma pop_kept [simp]: "p_channels (fst (ull_pcm_pop r n)) = p_channels r"
  by (simp add: ull_pcm_pop_def Let_def)

lemma push_kept [simp]: "p_channels (fst (ull_pcm_push r s n)) = p_channels r"
  by (simp add: ull_pcm_push_def Let_def split: option.split)

lemma pop_ok: "pcm_ok r \<Longrightarrow> pcm_ok (fst (ull_pcm_pop r n))"
  using pop_spec [of r n] by (simp add: case_prod_beta)

lemma pcm_push_ok: "pcm_ok r \<Longrightarrow> n * p_channels r \<le> length s \<Longrightarrow> pcm_ok (fst (ull_pcm_push r (Some s) n))"
  using push_spec(1) [of r n s] push_nothing [of "Some s" n r] by (cases "n = 0") auto

lemma reset_ok: "length (p_samples r) = PCM_N * 2 \<Longrightarrow> c \<in> {1, 2} \<Longrightarrow> pcm_ok (ull_pcm_reset r c)"
  "p_channels (ull_pcm_reset r c) = c"
  by (auto simp: ull_pcm_reset_def pcm_ok_def PCM_N_def)

lemma pcm_pop_refines_witness: "snd (snd (ull_pcm_pop ex_ring 2000)) = 1919"
  using pcm_pop_refines [OF ex_ring_ok, of 2000] by (simp add: case_prod_beta) (simp add: ex_ring_def)

section \<open>Volume\<close>

text \<open>The product is a 32-bit signed integer in the code; the division truncates towards zero.\<close>

definition ull_pcm_gain :: "i16 list \<Rightarrow> int \<Rightarrow> i16 list" where
  "ull_pcm_gain s gain =
     (if gain = 32768 then s
      else if gain = 0 then replicate (length s) 0
      else map (\<lambda>x. of_int ((sint x * gain) sdiv 32768)) s)"

lemma sint_i16: "- 32768 \<le> sint (x :: i16)" "sint (x :: i16) \<le> 32767"
  using sint_ge [of x] sint_less [of x] by simp_all

lemma sdiv_nonneg: "0 \<le> a \<Longrightarrow> (a :: int) sdiv 32768 = a div 32768"
  by (cases "a = 0") (simp_all add: signed_divide_int_def sgn_if)

lemma sdiv_neg: "a \<le> 0 \<Longrightarrow> (a :: int) sdiv 32768 = - ((- a) div 32768)"
  by (cases "a = 0") (simp_all add: signed_divide_int_def sgn_if)

lemma scaled_bound:
  fixes x g :: int
  assumes "0 \<le> g" and "g \<le> 32768"
  shows "\<bar>(x * g) sdiv 32768\<bar> \<le> \<bar>x\<bar>" and "0 \<le> x \<Longrightarrow> 0 \<le> (x * g) sdiv 32768"
    and "x \<le> 0 \<Longrightarrow> (x * g) sdiv 32768 \<le> 0"
proof -
  have pos: "0 \<le> (y * g) div 32768 \<and> (y * g) div 32768 \<le> y" if "0 \<le> y" for y :: int
  proof
    have "0 \<le> y * g" and le: "y * g \<le> y * 32768"
      using that assms by (auto intro: mult_left_mono)
    then show "0 \<le> (y * g) div 32768" by (simp add: pos_imp_zdiv_nonneg_iff)
    show "(y * g) div 32768 \<le> y" using zdiv_mono1 [OF le, of 32768] by simp
  qed
  have neg: "x \<le> 0 \<Longrightarrow> (x * g) sdiv 32768 = - ((- x * g) div 32768)"
    using assms sdiv_neg [of "x * g"] by (simp add: mult_nonpos_nonneg)
  have nonneg: "0 \<le> x \<Longrightarrow> (x * g) sdiv 32768 = x * g div 32768"
    using assms sdiv_nonneg [of "x * g"] by simp
  show "0 \<le> x \<Longrightarrow> 0 \<le> (x * g) sdiv 32768" using pos nonneg by simp
  show "x \<le> 0 \<Longrightarrow> (x * g) sdiv 32768 \<le> 0" using pos [of "- x"] neg by simp
  show "\<bar>(x * g) sdiv 32768\<bar> \<le> \<bar>x\<bar>"
  proof (cases "0 \<le> x")
    case True
    then show ?thesis using pos [of x] nonneg by simp
  next
    case False
    then show ?thesis using pos [of "- x"] neg by simp
  qed
qed

lemma sint_of_int_i16: "- 32768 \<le> k \<Longrightarrow> k \<le> 32767 \<Longrightarrow> sint (of_int k :: i16) = k"
  by (subst int_word_sint) simp

text \<open>For any gain from 0 to unity the product fits a signed 32-bit integer, the scaled sample is no
  louder than the sample and keeps its sign (no wrap when it is stored back into 16 bits), zero gain
  is silence and unity gain is the identity.\<close>

theorem pcm_gain_bounds:
  assumes "0 \<le> gain" and "gain \<le> 32768"
  shows "length (ull_pcm_gain s gain) = length s \<and>
    (\<forall>i < length s. \<bar>sint (s ! i) * gain\<bar> \<le> 2 ^ 30 \<and>
       \<bar>sint (ull_pcm_gain s gain ! i)\<bar> \<le> \<bar>sint (s ! i)\<bar> \<and>
       (0 \<le> sint (s ! i) \<longrightarrow> 0 \<le> sint (ull_pcm_gain s gain ! i)) \<and>
       (sint (s ! i) \<le> 0 \<longrightarrow> sint (ull_pcm_gain s gain ! i) \<le> 0))"
proof -
  have one: "\<bar>sint x * gain\<bar> \<le> 2 ^ 30 \<and>
      sint (of_int ((sint x * gain) sdiv 32768) :: i16) = (sint x * gain) sdiv 32768" for x :: i16
  proof
    have "\<bar>sint x\<bar> * gain \<le> 32768 * 32768" using sint_i16 [of x] assms by (intro mult_mono) auto
    then show "\<bar>sint x * gain\<bar> \<le> 2 ^ 30" using assms by (simp add: abs_mult)
    show "sint (of_int ((sint x * gain) sdiv 32768) :: i16) = (sint x * gain) sdiv 32768"
      using scaled_bound [OF assms, of "sint x"] sint_i16 [of x] by (intro sint_of_int_i16) linarith+
  qed
  have "gain = 0 \<or> gain = 32768 \<or> (gain \<noteq> 0 \<and> gain \<noteq> 32768)" by blast
  then show ?thesis
    using one scaled_bound [OF assms]
    by (elim disjE) (simp_all add: ull_pcm_gain_def)
qed

lemma pcm_gain_bounds_witness:
  "length (ull_pcm_gain [32767, - 5] 16384) = 2 \<and> ull_pcm_gain [32767, - 5] 16384 = [16383, - 2]"
  using pcm_gain_bounds [of 16384 "[32767, - 5]"]
  by (simp add: ull_pcm_gain_def)

section \<open>Rate feedback\<close>

definition ULL_FB_NOMINAL_Q16 :: int where "ULL_FB_NOMINAL_Q16 = 3145728"
definition ULL_FB_TARGET_FRAMES :: int where "ULL_FB_TARGET_FRAMES = 960"

record ull_usb_feedback =
  f_average_q8 :: int
  f_consumed :: u32
  f_value_q16 :: int
  f_idle_packets :: nat
  f_active :: bool

definition ull_usb_feedback_reset :: "u32 \<Rightarrow> ull_usb_feedback" where
  "ull_usb_feedback_reset consumed = \<lparr>f_average_q8 = ULL_FB_TARGET_FRAMES * 256, f_consumed = consumed,
     f_value_q16 = ULL_FB_NOMINAL_Q16, f_idle_packets = 0, f_active = False\<rparr>"

definition clamp_correction :: "int \<Rightarrow> int" where
  "clamp_correction c = (let c = (if c > 3146 then 3146 else c) in if c < - 3146 then - 3146 else c)"

definition ull_usb_feedback_step :: "ull_usb_feedback \<Rightarrow> nat \<Rightarrow> u32 \<Rightarrow> ull_usb_feedback \<times> int" where
  "ull_usb_feedback_step s queued consumed =
     (let s = (if consumed \<noteq> f_consumed s then s\<lparr>f_consumed := consumed, f_idle_packets := 0, f_active := True\<rparr>
               else if f_idle_packets s < 100 then s\<lparr>f_idle_packets := f_idle_packets s + 1\<rparr> else s)
      in if \<not> f_active s \<or> f_idle_packets s \<ge> 100
         then (s\<lparr>f_active := False, f_average_q8 := ULL_FB_TARGET_FRAMES * 256, f_value_q16 := ULL_FB_NOMINAL_Q16\<rparr>,
               ULL_FB_NOMINAL_Q16)
         else
           let queued = (if queued > 1920 then 1920 else queued);
               average = f_average_q8 s + (int (queued * 256) - f_average_q8 s) sdiv 64;
               correction = clamp_correction (((average - ULL_FB_TARGET_FRAMES * 256) * 64) sdiv 1000);
               value = ULL_FB_NOMINAL_Q16 - correction
           in (s\<lparr>f_average_q8 := average, f_value_q16 := value\<rparr>, value))"

definition feedback_ok :: "ull_usb_feedback \<Rightarrow> bool" where
  "feedback_ok s \<longleftrightarrow> 0 \<le> f_average_q8 s \<and> f_average_q8 s \<le> 491520 \<and>
     3142582 \<le> f_value_q16 s \<and> f_value_q16 s \<le> 3148874 \<and>
     (\<not> f_active s \<longrightarrow> f_value_q16 s = ULL_FB_NOMINAL_Q16) \<and> f_idle_packets s \<le> 100"

lemma clamp_bounds: "- 3146 \<le> clamp_correction c" "clamp_correction c \<le> 3146"
  by (simp_all add: clamp_correction_def Let_def)

lemma sdiv64_toward:
  fixes a q :: int
  shows "a \<le> q \<Longrightarrow> a \<le> a + (q - a) sdiv 64 \<and> a + (q - a) sdiv 64 \<le> q"
    and "q \<le> a \<Longrightarrow> q \<le> a + (q - a) sdiv 64 \<and> a + (q - a) sdiv 64 \<le> a"
proof -
  have pos: "0 \<le> d \<Longrightarrow> d sdiv 64 = d div 64" "d \<le> 0 \<Longrightarrow> d sdiv 64 = - ((- d) div 64)" for d :: int
    by (cases "d = 0"; simp add: signed_divide_int_def sgn_if)+
  show "a \<le> q \<Longrightarrow> a \<le> a + (q - a) sdiv 64 \<and> a + (q - a) sdiv 64 \<le> q"
    using pos(1) [of "q - a"] by auto
  show "q \<le> a \<Longrightarrow> q \<le> a + (q - a) sdiv 64 \<and> a + (q - a) sdiv 64 \<le> a"
    using pos(2) [of "q - a"] by auto
qed

text \<open>The new average lies between the old one and the measured fill.\<close>

definition fill_q8 :: "nat \<Rightarrow> int" where "fill_q8 queued = int ((if queued > 1920 then 1920 else queued) * 256)"

lemma fill_bounds: "0 \<le> fill_q8 queued" "fill_q8 queued \<le> 491520"
  by (simp_all add: fill_q8_def)

lemma average_between:
  "min a (fill_q8 n) \<le> a + (fill_q8 n - a) sdiv 64 \<and> a + (fill_q8 n - a) sdiv 64 \<le> max a (fill_q8 n)"
  using sdiv64_toward(1) [of a "fill_q8 n"] sdiv64_toward(2) [of "fill_q8 n" a]
  by (simp add: min_def max_def not_le)

lemma feedback_step_cases:
  obtains (idle) s1 where "ull_usb_feedback_step s queued consumed =
      (s1\<lparr>f_active := False, f_average_q8 := 245760, f_value_q16 := ULL_FB_NOMINAL_Q16\<rparr>, ULL_FB_NOMINAL_Q16)"
      "f_idle_packets s1 \<le> 100 \<or> f_idle_packets s1 = f_idle_packets s"
    | (live) s1 where "f_active s1" "f_idle_packets s1 < 100" "f_average_q8 s1 = f_average_q8 s"
      "ull_usb_feedback_step s queued consumed =
       (let average = f_average_q8 s + (fill_q8 queued - f_average_q8 s) sdiv 64;
            value = ULL_FB_NOMINAL_Q16 - clamp_correction (((average - 245760) * 64) sdiv 1000)
        in (s1\<lparr>f_average_q8 := average, f_value_q16 := value\<rparr>, value))"
proof -
  define s1 where "s1 = (if consumed \<noteq> f_consumed s then s\<lparr>f_consumed := consumed, f_idle_packets := 0, f_active := True\<rparr>
               else if f_idle_packets s < 100 then s\<lparr>f_idle_packets := f_idle_packets s + 1\<rparr> else s)"
  have avg: "f_average_q8 s1 = f_average_q8 s" by (simp add: s1_def)
  have idle_le: "f_idle_packets s1 \<le> 100 \<or> f_idle_packets s1 = f_idle_packets s" by (simp add: s1_def)
  have step: "ull_usb_feedback_step s queued consumed =
      (if \<not> f_active s1 \<or> f_idle_packets s1 \<ge> 100
       then (s1\<lparr>f_active := False, f_average_q8 := 245760, f_value_q16 := ULL_FB_NOMINAL_Q16\<rparr>, ULL_FB_NOMINAL_Q16)
       else let average = f_average_q8 s + (fill_q8 queued - f_average_q8 s) sdiv 64;
            value = ULL_FB_NOMINAL_Q16 - clamp_correction (((average - 245760) * 64) sdiv 1000)
        in (s1\<lparr>f_average_q8 := average, f_value_q16 := value\<rparr>, value))"
    unfolding ull_usb_feedback_step_def s1_def [symmetric] Let_def avg fill_q8_def [symmetric]
    by (simp add: ULL_FB_TARGET_FRAMES_def fill_q8_def)
  show thesis
  proof (cases "\<not> f_active s1 \<or> f_idle_packets s1 \<ge> 100")
    case True
    then show thesis using step idle_le by (intro idle) auto
  next
    case False
    then show thesis using step avg by (intro live) auto
  qed
qed

lemma feedback_step_ok:
  assumes "feedback_ok s"
  shows "feedback_ok (fst (ull_usb_feedback_step s queued consumed))"
proof (rule feedback_step_cases [of s queued consumed])
  fix s1
  assume live: "f_active s1" "f_idle_packets s1 < 100" and
    st: "ull_usb_feedback_step s queued consumed =
       (let average = f_average_q8 s + (fill_q8 queued - f_average_q8 s) sdiv 64;
            value = ULL_FB_NOMINAL_Q16 - clamp_correction (((average - 245760) * 64) sdiv 1000)
        in (s1\<lparr>f_average_q8 := average, f_value_q16 := value\<rparr>, value))"
  define a where "a = f_average_q8 s + (fill_q8 queued - f_average_q8 s) sdiv 64"
  define v where "v = clamp_correction (((a - 245760) * 64) sdiv 1000)"
  have "0 \<le> a" "a \<le> 491520"
    using average_between [of "f_average_q8 s" queued] fill_bounds [of queued] assms
    by (auto simp: a_def feedback_ok_def)
  moreover have "- 3146 \<le> v" "v \<le> 3146" by (simp_all add: v_def clamp_bounds)
  ultimately show ?thesis
    using live unfolding st a_def [symmetric] Let_def v_def [symmetric]
    by (simp add: feedback_ok_def ULL_FB_NOMINAL_Q16_def)
qed (use assms in \<open>auto simp: feedback_ok_def ULL_FB_NOMINAL_Q16_def\<close>)

definition feedback_run :: "u32 \<Rightarrow> (nat \<times> u32) list \<Rightarrow> ull_usb_feedback" where
  "feedback_run c ps = fold (\<lambda>(q, k) s. fst (ull_usb_feedback_step s q k)) ps (ull_usb_feedback_reset c)"

text \<open>C39: From a reset and for any sequence of packets the value reported to the host stays within 3146
  (a thousandth) of the nominal 48 frames per millisecond in 16.16 format, the running average stays
  within the ring's 1920 frames (so no intermediate of the step leaves 32 signed bits), and the value is
  the nominal one whenever playback is not being consumed.\<close>

theorem feedback_bounded:
  shows "\<bar>f_value_q16 (feedback_run c ps) - ULL_FB_NOMINAL_Q16\<bar> \<le> 3146 \<and>
    0 \<le> f_average_q8 (feedback_run c ps) \<and> f_average_q8 (feedback_run c ps) \<le> 1920 * 256 \<and>
    (f_active (feedback_run c ps) \<or> f_value_q16 (feedback_run c ps) = ULL_FB_NOMINAL_Q16)"
proof -
  have "feedback_ok (fold (\<lambda>(q, k) s. fst (ull_usb_feedback_step s q k)) ps s)" if "feedback_ok s" for s
    using that by (induction ps arbitrary: s) (auto simp: feedback_step_ok)
  moreover have "feedback_ok (ull_usb_feedback_reset c)"
    by (simp add: feedback_ok_def ull_usb_feedback_reset_def ULL_FB_TARGET_FRAMES_def ULL_FB_NOMINAL_Q16_def)
  ultimately have "feedback_ok (feedback_run c ps)" by (simp add: feedback_run_def)
  then show ?thesis by (auto simp: feedback_ok_def ULL_FB_NOMINAL_Q16_def)
qed

end
