(* ===== verification/UsbControls.thy ===== *)
theory UsbControls
  imports RingQueue
begin

text \<open>
  Model of \<^verbatim>\<open>components/ull_usb/usb_controls.c\<close>: the queue of media keys that become HID
  reports (a press, and its release 12 ms later), the read-only diagnostics on the control endpoint,
  and the maintenance request that enters the ROM bootloader. The FreeRTOS queue of 32 usages is a list,
  written only where the code sends to it or receives from it. What the USB stack reports at a call
  (mounted, ready, the clock, whether it took a report) is an argument; a reply handed to the stack is
  the value \<open>Reply\<close>, \<open>StatusReply\<close> or \<open>Done\<close>.
\<close>

section \<open>Media keys\<close>

record usb_controls =
  k_pending :: "u16 list option"
  k_release_pending :: bool
  k_queued :: u32
  k_sent :: u32
  k_release_due :: int
  k_boot_pending :: bool
  k_callback :: "(nat \<Rightarrow> u32 list) option"
  k_reports :: "u16 list"

text \<open>\<open>k_reports\<close> is the sequence of reports the stack accepted.\<close>

definition controls_zero :: usb_controls where
  "controls_zero = \<lparr>k_pending = None, k_release_pending = False, k_queued = 0, k_sent = 0,
     k_release_due = 0, k_boot_pending = False, k_callback = None, k_reports = []\<rparr>"

text \<open>Whether the queue can be allocated is the environment's choice.\<close>

definition ull_usb_controls_init :: "usb_controls \<Rightarrow> bool \<Rightarrow> usb_controls \<times> bool" where
  "ull_usb_controls_init s allocated = (s\<lparr>k_pending := if allocated then Some [] else None\<rparr>, allocated)"

definition ull_usb_controls_enqueue :: "usb_controls \<Rightarrow> u16 \<Rightarrow> usb_controls \<times> bool" where
  "ull_usb_controls_enqueue s usage = (case k_pending s of
     None \<Rightarrow> (s, False)
   | Some q \<Rightarrow> if length q < 32 then (s\<lparr>k_pending := Some (q @ [usage]), k_queued := k_queued s + 1\<rparr>, True)
              else (s, False))"

record hid_env =
  h_mounted :: bool
  h_ready :: bool
  h_now :: int
  h_taken :: bool

definition ull_usb_controls_service :: "usb_controls \<Rightarrow> hid_env \<Rightarrow> usb_controls" where
  "ull_usb_controls_service s e =
     (if \<not> h_mounted e \<or> \<not> h_ready e then s
      else if k_release_pending s then
        (if h_now e < k_release_due s then s
         else if h_taken e then s\<lparr>k_reports := k_reports s @ [0], k_release_pending := False\<rparr>
         else s)
      else (case k_pending s of
         Some (usage # q) \<Rightarrow>
           (if h_taken e
            then s\<lparr>k_reports := k_reports s @ [usage], k_pending := Some q, k_sent := k_sent s + 1,
                   k_release_pending := True, k_release_due := h_now e + 12000\<rparr>
            else s)
       | _ \<Rightarrow> s))"

section \<open>Diagnostics and the maintenance request\<close>

definition ull_usb_controls_set_diagnostics :: "usb_controls \<Rightarrow> (nat \<Rightarrow> u32 list) option \<Rightarrow> usb_controls" where
  "ull_usb_controls_set_diagnostics s callback = s\<lparr>k_callback := callback\<rparr>"

text \<open>A page is 64 bytes: four of tag and fifteen words from the provider.\<close>

definition page_bytes :: "nat \<Rightarrow> u32 list \<Rightarrow> bytes" where
  "page_bytes page ws = [0x52, 0x46, of_nat (48 + page div 10), of_nat (48 + page mod 10)] @ concat (map put32 ws)"

definition read_diagnostics :: "usb_controls \<Rightarrow> u32 list \<Rightarrow> u16 \<Rightarrow> bytes option" where
  "read_diagnostics s audio page =
     (if page \<noteq> 15 \<and> (page > 14 \<or> k_callback s = None) then None
      else Some (page_bytes (unat page)
        (if page = 15 then audio else the (k_callback s) (unat page))))"

definition HID_REPORT_TYPE_FEATURE :: u8 where "HID_REPORT_TYPE_FEATURE = 3"

definition tud_hid_get_report_cb :: "usb_controls \<Rightarrow> u32 list \<Rightarrow> u8 \<Rightarrow> u8 \<Rightarrow> u8 \<Rightarrow> bytes option \<Rightarrow> u16 \<Rightarrow>
    bytes option \<times> nat" where
  "tud_hid_get_report_cb s audio inst report_id report_type buffer reqlen =
     (case buffer of None \<Rightarrow> (None, 0) | Some b \<Rightarrow>
        if inst \<noteq> 0 \<or> report_type \<noteq> HID_REPORT_TYPE_FEATURE \<or> reqlen < 64 \<or> report_id < 0x10 \<or> report_id > 0x1f
        then (Some b, 0)
        else case read_diagnostics s audio (ucast (report_id - 0x10)) of
            None \<Rightarrow> (Some b, 0)
          | Some snapshot \<Rightarrow> (Some (memcpy_at b 0 snapshot), 64))"

definition tud_hid_set_report_cb :: "usb_controls \<Rightarrow> bytes \<Rightarrow> usb_controls" where
  "tud_hid_set_report_cb s buffer = s"

record control_request =
  bmRequestType :: u8
  bRequest :: u8
  wValue :: u16
  wIndex :: u16
  wLength :: u16

datatype stage = STAGE_SETUP | STAGE_DATA | STAGE_ACK
datatype xfer = Refused | Done | Reply bytes | StatusReply

definition health :: "usb_controls \<Rightarrow> bool \<Rightarrow> bool \<Rightarrow> bool \<Rightarrow> bytes" where
  "health s mic_muted mounted ready = [0x48, 0x49, 0x44, 0x36] @ put32 (k_queued s) @ put32 (k_sent s) @
     map (\<lambda>b. if b then 1 else 0) [mic_muted, mounted, ready, k_boot_pending s]"

record vendor_env =
  v_audio :: "u32 list"
  v_muted :: bool
  v_mounted :: bool
  v_ready :: bool
  v_allowed :: bool
  v_task_created :: bool

definition is_diagnostics_request :: "control_request \<Rightarrow> bool" where
  "is_diagnostics_request r \<longleftrightarrow> bmRequestType r = 0xc0 \<and> bRequest r = 0x5c \<and> wValue r \<le> 15 \<and>
     wIndex r = 0 \<and> wLength r = 64"

definition is_health_request :: "control_request \<Rightarrow> bool" where
  "is_health_request r \<longleftrightarrow> bmRequestType r = 0xc0 \<and> bRequest r = 0x5b \<and> wValue r = 0 \<and>
     wIndex r = 0 \<and> wLength r = 16"

definition is_boot_request :: "control_request \<Rightarrow> bool" where
  "is_boot_request r \<longleftrightarrow> \<not> (bmRequestType r \<noteq> 0x40 \<or> bRequest r \<noteq> 0x5a \<or> wValue r \<noteq> 0xb007 \<or>
     wIndex r \<noteq> 0xc0de \<or> wLength r \<noteq> 0)"

definition tud_vendor_control_xfer_cb :: "usb_controls \<Rightarrow> vendor_env \<Rightarrow> stage \<Rightarrow> control_request option \<Rightarrow>
    usb_controls \<times> xfer" where
  "tud_vendor_control_xfer_cb s e stg request = (case request of None \<Rightarrow> (s, Refused) | Some r \<Rightarrow>
     if is_diagnostics_request r then
       (if stg = STAGE_SETUP then
          (case read_diagnostics s (v_audio e) (wValue r) of None \<Rightarrow> (s, Refused) | Some d \<Rightarrow> (s, Reply d))
        else (s, Done))
     else if is_health_request r then
       (if stg = STAGE_SETUP then (s, Reply (health s (v_muted e) (v_mounted e) (v_ready e)))
        else (s, Done))
     else if \<not> is_boot_request r then (s, Refused)
     else if stg = STAGE_SETUP then
       (if k_boot_pending s \<or> \<not> v_allowed e then (s, Refused) else (s, StatusReply))
     else if stg = STAGE_ACK \<and> \<not> k_boot_pending s then
       (s\<lparr>k_boot_pending := v_task_created e\<rparr>, Done)
     else (s, Done))"

section \<open>Keys are delivered once, in order, each released\<close>

definition keys_waiting :: "usb_controls \<Rightarrow> u16 list" where
  "keys_waiting s = (case k_pending s of None \<Rightarrow> [] | Some q \<Rightarrow> q)"

definition controls_ok :: "usb_controls \<Rightarrow> bool" where
  "controls_ok s \<longleftrightarrow> length (keys_waiting s) \<le> 32 \<and>
     (if k_release_pending s then odd (length (k_reports s)) else even (length (k_reports s))) \<and>
     (\<forall>i < length (k_reports s). odd i \<longrightarrow> k_reports s ! i = 0)"

definition key_given :: "usb_controls \<Rightarrow> hid_env \<Rightarrow> u16 list" where
  "key_given s e = (if h_mounted e \<and> h_ready e \<and> h_taken e \<and> \<not> k_release_pending s
     then take 1 (keys_waiting s) else [])"

lemma enqueue_waiting:
  "keys_waiting (fst (ull_usb_controls_enqueue s u)) =
     keys_waiting s @ (if snd (ull_usb_controls_enqueue s u) then [u] else [])"
  by (simp add: keys_waiting_def ull_usb_controls_enqueue_def split: option.split)

lemma enqueue_ok: "controls_ok s \<Longrightarrow> controls_ok (fst (ull_usb_controls_enqueue s u))"
  by (auto simp: controls_ok_def keys_waiting_def ull_usb_controls_enqueue_def split: option.split)

lemma service_waiting: "keys_waiting s = key_given s e @ keys_waiting (ull_usb_controls_service s e)"
  by (auto simp: keys_waiting_def ull_usb_controls_service_def key_given_def split: option.split list.split)

lemma service_ok:
  assumes "controls_ok s"
  shows "controls_ok (ull_usb_controls_service s e)"
proof -
  have w: "length (keys_waiting (ull_usb_controls_service s e)) \<le> 32"
    using assms service_waiting [of s e] by (metis controls_ok_def le_add2 le_trans length_append)
  have r: "k_reports (ull_usb_controls_service s e) = k_reports s \<and>
        k_release_pending (ull_usb_controls_service s e) = k_release_pending s \<or>
      (\<exists>u. k_reports (ull_usb_controls_service s e) = k_reports s @ [u] \<and> (k_release_pending s \<longrightarrow> u = 0) \<and>
        k_release_pending (ull_usb_controls_service s e) = (\<not> k_release_pending s))"
    by (auto simp: ull_usb_controls_service_def split: option.split list.split)
  then show ?thesis using w assms
    by (elim disjE) (auto simp: controls_ok_def nth_append less_Suc_eq)
qed

interpretation keys: lossless_fifo controls_ok keys_waiting 32
  ull_usb_controls_enqueue ull_usb_controls_service key_given
proof unfold_locales
  fix s :: usb_controls and r :: hid_env
  show "\<exists>d. keys_waiting s = d @ key_given s r @ keys_waiting (ull_usb_controls_service s r)"
    using service_waiting [of s r] by (intro exI [of _ "[]"]) simp
qed (simp_all add: enqueue_ok service_ok enqueue_waiting service_waiting [symmetric], simp add: controls_ok_def)


definition ex_controls :: usb_controls where
  "ex_controls = fst (ull_usb_controls_init controls_zero True)"


text \<open>A release follows its press by at least 12 milliseconds.\<close>

lemma release_delay:
  "h_now e1 \<le> h_now e2 \<Longrightarrow> key_given s e1 \<noteq> [] \<Longrightarrow>
   k_reports (ull_usb_controls_service (ull_usb_controls_service s e1) e2) \<noteq>
     k_reports (ull_usb_controls_service s e1) \<Longrightarrow> h_now e1 + 12000 \<le> h_now e2"
  by (auto simp: ull_usb_controls_service_def key_given_def keys_waiting_def split: option.splits list.splits if_splits)

section \<open>The control endpoint\<close>

lemma length_page_bytes: "length ws = 15 \<Longrightarrow> length (page_bytes page ws) = 64"
proof -
  have "length (concat (map put32 ws)) = 4 * length ws" by (induction ws) simp_all
  then show "length ws = 15 \<Longrightarrow> length (page_bytes page ws) = 64" by (simp add: page_bytes_def)
qed

lemma boot_flag_same:
  "\<not> k_boot_pending s \<Longrightarrow> s\<lparr>k_boot_pending := b\<rparr> \<noteq> s \<longleftrightarrow> b"
  "\<not> k_boot_pending s \<Longrightarrow> s\<lparr>k_boot_pending := b\<rparr> = s \<longleftrightarrow> \<not> b"
  by (cases s; simp)+

text \<open>The only control request that changes anything is the acknowledged maintenance request with its exact
  type, request, value, index and length, and then only the boot flag, raised when the task was created;
  every reply is 64 bytes of a diagnostics page, 16 bytes of health or an empty status; and the setup
  stage of the maintenance request is refused while a reboot is pending or not allowed.\<close>

theorem vendor_requests_contained:
  assumes "length (v_audio e) = 15" and "\<forall>cb p. k_callback s = Some cb \<longrightarrow> length (cb p) = 15"
  shows "case tud_vendor_control_xfer_cb s e stg request of (s', x) \<Rightarrow>
    (s' \<noteq> s \<longrightarrow> (\<exists>r. request = Some r \<and> is_boot_request r \<and> stg = STAGE_ACK) \<and> \<not> k_boot_pending s \<and>
       v_task_created e \<and> s' = s\<lparr>k_boot_pending := True\<rparr>) \<and>
    (\<forall>d. x = Reply d \<longrightarrow> length d = 64 \<or> length d = 16) \<and>
    (x = StatusReply \<longrightarrow> v_allowed e \<and> \<not> k_boot_pending s)"
proof (cases request)
  case (Some r)
  have d: "read_diagnostics s (v_audio e) p = Some b \<Longrightarrow> length b = 64" for p b
    using assms by (auto simp: read_diagnostics_def length_page_bytes split: if_splits)
  have h: "length (health s a b c) = 16" for a b c by (simp add: health_def)
  consider "is_diagnostics_request r" | "\<not> is_diagnostics_request r" "is_health_request r"
    | "\<not> is_diagnostics_request r" "\<not> is_health_request r" by blast
  then show ?thesis
    by cases (use Some d h in \<open>auto simp: tud_vendor_control_xfer_cb_def boot_flag_same split: option.split\<close>)
qed (simp add: tud_vendor_control_xfer_cb_def)

definition ex_vendor :: vendor_env where
  "ex_vendor = \<lparr>v_audio = replicate 15 0, v_muted = True, v_mounted = True, v_ready = True,
     v_allowed = True, v_task_created = True\<rparr>"

definition ex_boot :: control_request where
  "ex_boot = \<lparr>bmRequestType = 0x40, bRequest = 0x5a, wValue = 0xb007, wIndex = 0xc0de, wLength = 0\<rparr>"

lemma vendor_requests_contained_witness:
  "tud_vendor_control_xfer_cb controls_zero ex_vendor STAGE_SETUP (Some ex_boot) = (controls_zero, StatusReply) \<and>
   v_allowed ex_vendor"
  using vendor_requests_contained [where e = ex_vendor and s = controls_zero and stg = STAGE_SETUP and request = "Some ex_boot"]
  by (simp add: ex_vendor_def controls_zero_def ex_boot_def tud_vendor_control_xfer_cb_def
      is_diagnostics_request_def is_health_request_def is_boot_request_def)

end
