(* ===== verification/UsbAudio.thy ===== *)
theory UsbAudio
  imports UsbPcm UsbControls
begin

text \<open>
  Model of \<^verbatim>\<open>components/ull_usb/usb_audio.c\<close>: the stream state behind the USB audio callbacks, the
  class requests for volume and mute, and the console that shares the cable. A critical section is
  one step of the state. What TinyUSB and FreeRTOS hand to the code at a call (bytes read, bytes taken,
  whether the console is connected, the clock) is an argument; a reply is an \<open>xfer\<close>. The float expression that turns
  a volume in 1/256 dB into a Q15 gain is the parameter \<open>gain_of\<close>.
\<close>

section \<open>State\<close>

record usb_stats =
  s_mounted :: bool
  s_playback_active :: bool
  s_capture_active :: bool
  s_playback_packets :: u32
  s_playback_frames :: u32
  s_playback_dropped_frames :: u32
  s_playback_buffered_frames :: u32
  s_capture_packets :: u32
  s_capture_frames :: u32
  s_capture_underflow_frames :: u32
  s_capture_buffered_frames :: u32
  s_capture_dropped_frames :: u32
  s_radio_playback_frames :: u32
  s_radio_capture_frames :: u32
  s_cdc_dropped_bytes :: u32
  s_malformed_playback_packets :: u32
  s_cdc_tx_buffered_bytes :: u32
  s_cdc_fifo_free :: u32

record usb_audio =
  u_playback :: ull_pcm_ring
  u_capture :: ull_pcm_ring
  u_stats :: usb_stats
  u_playback_volume :: i16
  u_capture_volume :: i16
  u_playback_mute :: bool
  u_capture_mute :: bool
  u_headset_mic_mute :: bool
  u_playback_gain :: int
  u_capture_gain :: int
  u_playback_nonzero :: u32
  u_feedback :: ull_usb_feedback
  u_seed_pending :: bool
  u_console_connected :: bool
  u_baud_1200 :: bool
  u_boot_pending :: bool
  u_shutting_down :: bool

definition pcm_zero :: ull_pcm_ring where
  "pcm_zero = \<lparr>p_samples = replicate 3840 0, p_read = 0, p_count = 0, p_channels = 0\<rparr>"

definition stats_zero :: usb_stats where
  "stats_zero = \<lparr>s_mounted = False, s_playback_active = False, s_capture_active = False,
     s_playback_packets = 0, s_playback_frames = 0, s_playback_dropped_frames = 0,
     s_playback_buffered_frames = 0, s_capture_packets = 0, s_capture_frames = 0,
     s_capture_underflow_frames = 0, s_capture_buffered_frames = 0, s_capture_dropped_frames = 0,
     s_radio_playback_frames = 0, s_radio_capture_frames = 0, s_cdc_dropped_bytes = 0,
     s_malformed_playback_packets = 0, s_cdc_tx_buffered_bytes = 0, s_cdc_fifo_free = 0\<rparr>"

text \<open>The static state of the program, then the resets that initialisation starts with.\<close>

definition usb_audio_zero :: usb_audio where
  "usb_audio_zero = \<lparr>u_playback = pcm_zero, u_capture = pcm_zero, u_stats = stats_zero,
     u_playback_volume = 0, u_capture_volume = 0, u_playback_mute = False, u_capture_mute = False,
     u_headset_mic_mute = False, u_playback_gain = 32768, u_capture_gain = 32768, u_playback_nonzero = 0,
     u_feedback = \<lparr>f_average_q8 = 0, f_consumed = 0, f_value_q16 = 0, f_idle_packets = 0, f_active = False\<rparr>,
     u_seed_pending = False, u_console_connected = False, u_baud_1200 = False, u_boot_pending = False,
     u_shutting_down = False\<rparr>"

definition init_rings :: "usb_audio \<Rightarrow> usb_audio" where
  "init_rings s = s\<lparr>u_playback := ull_pcm_reset (u_playback s) 2, u_capture := ull_pcm_reset (u_capture s) 1\<rparr>"

section \<open>The task-side interface\<close>

definition ull_usb_audio_consumer_key :: "usb_controls \<Rightarrow> u16 \<Rightarrow> usb_controls \<times> bool" where
  "ull_usb_audio_consumer_key c usage =
     (if usage = 0x00cd \<or> usage = 0x00e9 \<or> usage = 0x00ea then ull_usb_controls_enqueue c usage
      else (c, False))"

definition ull_usb_audio_set_headset_mic_mute :: "usb_audio \<Rightarrow> bool \<Rightarrow> usb_audio" where
  "ull_usb_audio_set_headset_mic_mute s muted = s\<lparr>u_headset_mic_mute := muted\<rparr>"

definition ull_usb_audio_headset_mic_muted :: "usb_audio \<Rightarrow> bool" where
  "ull_usb_audio_headset_mic_muted s = u_headset_mic_mute s"

text \<open>The output buffer is returned as the samples written at its front; \<open>has_out\<close> is that it is not null.\<close>

definition ull_usb_audio_read_playback :: "usb_audio \<Rightarrow> bool \<Rightarrow> nat \<Rightarrow> usb_audio \<times> i16 list \<times> nat" where
  "ull_usb_audio_read_playback s has_out frames = (if \<not> has_out then (s, [], 0) else
     (let (ring, out, got) = ull_pcm_pop (u_playback s) frames;
          stats = (u_stats s)\<lparr>s_radio_playback_frames := s_radio_playback_frames (u_stats s) + of_nat got\<rparr>;
          gain = (if u_playback_mute s then 0 else u_playback_gain s)
      in (s\<lparr>u_playback := ring, u_stats := stats\<rparr>, ull_pcm_gain out gain, got)))"

definition ull_usb_audio_write_capture :: "usb_audio \<Rightarrow> i16 list option \<Rightarrow> nat \<Rightarrow> usb_audio \<times> nat" where
  "ull_usb_audio_write_capture s samples frames = (case samples of None \<Rightarrow> (s, 0) | Some x \<Rightarrow>
     if \<not> s_capture_active (u_stats s) \<or> \<not> s_mounted (u_stats s) then (s, 0)
     else let (ring, dropped) = ull_pcm_push (u_capture s) (Some x) frames;
              st = u_stats s;
              st = st\<lparr>s_capture_dropped_frames := s_capture_dropped_frames st + of_nat dropped,
                      s_radio_capture_frames := s_radio_capture_frames st + of_nat frames\<rparr>
          in (s\<lparr>u_capture := ring, u_stats := st\<rparr>, frames))"

definition ull_usb_audio_stats :: "usb_audio \<Rightarrow> usb_stats" where
  "ull_usb_audio_stats s = (u_stats s)
     \<lparr>s_playback_buffered_frames := of_nat (p_count (u_playback s)),
      s_capture_buffered_frames := of_nat (p_count (u_capture s))\<rparr>"

definition flag :: "bool \<Rightarrow> u32" where "flag b = (if b then 1 else 0)"

definition ull_usb_audio_diagnostics :: "usb_audio \<Rightarrow> int \<Rightarrow> u32 list" where
  "ull_usb_audio_diagnostics s now = (let st = u_stats s in
     [flag (s_mounted st), flag (s_playback_active st), flag (s_capture_active st),
      s_playback_packets st, s_playback_frames st,
      of_nat (p_count (u_playback s)), s_radio_playback_frames st,
      s_playback_dropped_frames st, s_malformed_playback_packets st,
      of_int (f_value_q16 (u_feedback s)), flag (f_active (u_feedback s)),
      s_capture_underflow_frames st, s_capture_dropped_frames st,
      of_int (now div 1000), 1])"

section \<open>Bus and interface events\<close>

definition reset_streams :: "usb_audio \<Rightarrow> bool \<Rightarrow> usb_audio" where
  "reset_streams s mounted = (let st = (u_stats s)\<lparr>s_mounted := mounted, s_playback_active := False,
        s_capture_active := False\<rparr> in
     s\<lparr>u_stats := st, u_feedback := ull_usb_feedback_reset (s_radio_playback_frames st),
       u_seed_pending := False, u_playback := ull_pcm_reset (u_playback s) 2,
       u_capture := ull_pcm_reset (u_capture s) 1\<rparr>)"

definition tud_mount_cb :: "usb_audio \<Rightarrow> usb_audio" where "tud_mount_cb s = reset_streams s True"

definition tud_umount_cb :: "usb_audio \<Rightarrow> usb_audio" where
  "tud_umount_cb s = reset_streams (s\<lparr>u_console_connected := False\<rparr>) False"

definition tud_suspend_cb :: "usb_audio \<Rightarrow> usb_audio" where
  "tud_suspend_cb s = (let st = (u_stats s)\<lparr>s_mounted := False\<rparr> in
     s\<lparr>u_console_connected := False, u_stats := st,
       u_feedback := ull_usb_feedback_reset (s_radio_playback_frames st), u_seed_pending := False,
       u_playback := ull_pcm_reset (u_playback s) 2, u_capture := ull_pcm_reset (u_capture s) 1\<rparr>)"

definition tud_resume_cb :: "usb_audio \<Rightarrow> bool \<Rightarrow> usb_audio" where
  "tud_resume_cb s connected = (let st = (u_stats s)\<lparr>s_mounted := True\<rparr> in
     s\<lparr>u_console_connected := connected, u_stats := st, u_seed_pending := s_playback_active st\<rparr>)"

definition ITF_AUDIO_CONTROL :: u8 where "ITF_AUDIO_CONTROL = 0"
definition ITF_PLAYBACK :: u8 where "ITF_PLAYBACK = 1"
definition ITF_CAPTURE :: u8 where "ITF_CAPTURE = 2"

definition tud_audio_set_itf_cb :: "usb_audio \<Rightarrow> control_request \<Rightarrow> usb_audio \<times> bool" where
  "tud_audio_set_itf_cb s request =
     (let itf = (ucast (wIndex request) :: u8); alt = (ucast (wValue request) :: u8) in
      if alt > 1 then (s, False)
      else
        let s = (if itf = ITF_PLAYBACK then
                   (let st = (u_stats s)\<lparr>s_playback_active := (alt = 1)\<rparr> in
                    s\<lparr>u_playback := ull_pcm_reset (u_playback s) 2, u_stats := st,
                      u_feedback := ull_usb_feedback_reset (s_radio_playback_frames st),
                      u_seed_pending := (alt = 1)\<rparr>)
                 else s);
            s = (if itf = ITF_CAPTURE then
                   s\<lparr>u_capture := ull_pcm_reset (u_capture s) 1,
                     u_stats := (u_stats s)\<lparr>s_capture_active := (alt = 1)\<rparr>\<rparr>
                 else s)
        in (s, True))"

text \<open>
  A playback packet: \<open>announced\<close> bytes were announced, \<open>got\<close> bytes were read as the samples given. The
  value for the host is returned when one is to be sent (it is sent when it is not zero).
\<close>

definition tud_audio_rx_done_post_read_cb :: "usb_audio \<Rightarrow> nat \<Rightarrow> nat \<Rightarrow> i16 list \<Rightarrow> usb_audio \<times> int option" where
  "tud_audio_rx_done_post_read_cb s announced got samples =
     (let st = u_stats s; st = st\<lparr>s_playback_packets := s_playback_packets st + 1\<rparr> in
      if announced \<noteq> got \<or> got mod 4 \<noteq> 0
      then (s\<lparr>u_stats := st\<lparr>s_malformed_playback_packets := s_malformed_playback_packets st + 1\<rparr>\<rparr>, None)
      else
        let nonzero = u_playback_nonzero s + of_nat (length (filter (\<lambda>x. x \<noteq> 0) (take (got div 2) samples)));
            (ring, dropped) = ull_pcm_push (u_playback s) (Some samples) (got div 4);
            st = st\<lparr>s_playback_frames := s_playback_frames st + of_nat (got div 4),
                    s_playback_dropped_frames := s_playback_dropped_frames st + of_nat dropped\<rparr>;
            s = s\<lparr>u_playback_nonzero := nonzero, u_playback := ring, u_stats := st\<rparr>
        in if s_mounted st \<and> s_playback_active st
           then let (fb, value) = ull_usb_feedback_step (u_feedback s) (p_count ring) (s_radio_playback_frames st)
                in (s\<lparr>u_feedback := fb\<rparr>, if value \<noteq> 0 then Some value else None)
           else (s, None))"

definition feedback_service :: "usb_audio \<Rightarrow> usb_audio \<times> int option" where
  "feedback_service s =
     (let seed = u_seed_pending s \<and> s_mounted (u_stats s) \<and> s_playback_active (u_stats s)
      in (s\<lparr>u_seed_pending := False\<rparr>, if seed then Some (f_value_q16 (u_feedback s)) else None))"

text \<open>The 48 samples handed to the host every millisecond.\<close>

definition tud_audio_tx_done_pre_load_cb :: "usb_audio \<Rightarrow> usb_audio \<times> i16 list" where
  "tud_audio_tx_done_pre_load_cb s =
     (let (ring, out, got) = ull_pcm_pop (u_capture s) 48;
          samples = memcpy_at (replicate 48 0) 0 out;
          st = u_stats s;
          st = st\<lparr>s_capture_underflow_frames := s_capture_underflow_frames st + of_nat (48 - got)\<rparr>;
          gain = (if u_capture_mute s \<or> u_headset_mic_mute s then 0 else u_capture_gain s)
      in (s\<lparr>u_capture := ring, u_stats := st\<rparr>, ull_pcm_gain samples gain))"

definition tud_audio_tx_done_post_load_cb :: "usb_audio \<Rightarrow> nat \<Rightarrow> usb_audio" where
  "tud_audio_tx_done_post_load_cb s sent = (let st = u_stats s in
     s\<lparr>u_stats := st\<lparr>s_capture_packets := s_capture_packets st + 1,
                      s_capture_frames := s_capture_frames st + of_nat (sent div 2)\<rparr>\<rparr>)"

section \<open>Class requests\<close>

record entity_request =
  bRequestE :: u8
  bChannelNumber :: u8
  bControlSelector :: u8
  bInterface :: u8
  bEntityID :: u8
  wLengthE :: u16

definition UAC_CLOCK :: u8 where "UAC_CLOCK = 4"
definition UAC_CAPTURE_CLOCK :: u8 where "UAC_CAPTURE_CLOCK = 0x14"
definition UAC_PLAYBACK_FEATURE :: u8 where "UAC_PLAYBACK_FEATURE = 2"
definition UAC_CAPTURE_FEATURE :: u8 where "UAC_CAPTURE_FEATURE = 0x12"

text \<open>Selectors and requests of the USB Audio Class 2.\<close>

definition CS_REQ_CUR :: u8 where "CS_REQ_CUR = 1"
definition CS_REQ_RANGE :: u8 where "CS_REQ_RANGE = 2"
definition CS_CTRL_SAM_FREQ :: u8 where "CS_CTRL_SAM_FREQ = 1"
definition CS_CTRL_CLK_VALID :: u8 where "CS_CTRL_CLK_VALID = 2"
definition FU_CTRL_MUTE :: u8 where "FU_CTRL_MUTE = 1"
definition FU_CTRL_VOLUME :: u8 where "FU_CTRL_VOLUME = 2"

definition tud_audio_get_req_entity_cb :: "usb_audio \<Rightarrow> entity_request \<Rightarrow> xfer" where
  "tud_audio_get_req_entity_cb s r =
     (if bInterface r \<noteq> ITF_AUDIO_CONTROL \<or> bChannelNumber r \<noteq> 0 then Refused
      else if bEntityID r = UAC_CLOCK \<or> bEntityID r = UAC_CAPTURE_CLOCK then
        (if bControlSelector r = CS_CTRL_SAM_FREQ \<and> bRequestE r = CS_REQ_CUR then Reply (put32 48000)
         else if bControlSelector r = CS_CTRL_SAM_FREQ \<and> bRequestE r = CS_REQ_RANGE
         then Reply (put16 1 @ put32 48000 @ put32 48000 @ put32 0)
         else if bControlSelector r = CS_CTRL_CLK_VALID \<and> bRequestE r = CS_REQ_CUR then Reply [1]
         else Refused)
      else
        let input = (bEntityID r = UAC_CAPTURE_FEATURE) in
        if \<not> input \<and> bEntityID r \<noteq> UAC_PLAYBACK_FEATURE then Refused
        else if bControlSelector r = FU_CTRL_MUTE \<and> bRequestE r = CS_REQ_CUR then
          Reply [if (if input then u_capture_mute s \<or> u_headset_mic_mute s else u_playback_mute s) then 1 else 0]
        else if bControlSelector r = FU_CTRL_VOLUME \<and> bRequestE r = CS_REQ_CUR then
          Reply (put16 (if input then u_capture_volume s else u_playback_volume s))
        else if bControlSelector r = FU_CTRL_VOLUME \<and> bRequestE r = CS_REQ_RANGE then
          Reply (put16 1 @ put16 (of_int (- 60 * 256)) @ put16 0 @ put16 256)
        else Refused)"

definition tud_audio_set_req_entity_cb :: "(int \<Rightarrow> int) \<Rightarrow> usb_audio \<Rightarrow> entity_request \<Rightarrow> bytes \<Rightarrow> usb_audio \<times> bool" where
  "tud_audio_set_req_entity_cb gain_of s r buf =
     (if bInterface r \<noteq> ITF_AUDIO_CONTROL \<or> bChannelNumber r \<noteq> 0 \<or> bRequestE r \<noteq> CS_REQ_CUR then (s, False)
      else
        let input = (bEntityID r = UAC_CAPTURE_FEATURE) in
        if \<not> input \<and> bEntityID r \<noteq> UAC_PLAYBACK_FEATURE then (s, False)
        else if bControlSelector r = FU_CTRL_MUTE \<and> wLengthE r = 1 \<and> buf ! 0 \<le> 1 then
          (if input then s\<lparr>u_capture_mute := (buf ! 0 \<noteq> 0)\<rparr> else s\<lparr>u_playback_mute := (buf ! 0 \<noteq> 0)\<rparr>, True)
        else if bControlSelector r = FU_CTRL_VOLUME \<and> wLengthE r = 2 then
          (let volume = get16 buf 0; v = sint volume in
           if v > 0 \<or> v < - 60 * 256 \<or> v smod 256 \<noteq> 0 then (s, False)
           else (if input then s\<lparr>u_capture_volume := volume, u_capture_gain := gain_of v\<rparr>
                 else s\<lparr>u_playback_volume := volume, u_playback_gain := gain_of v\<rparr>, True))
        else (s, False))"

section \<open>The console\<close>

definition drop_bytes :: "usb_audio \<Rightarrow> nat \<Rightarrow> usb_audio" where
  "drop_bytes s n = (let st = u_stats s in
     s\<lparr>u_stats := st\<lparr>s_cdc_dropped_bytes := s_cdc_dropped_bytes st + of_nat n\<rparr>\<rparr>)"

text \<open>One pair for each chunk: how much was read from the host and how much the input buffer took.\<close>

fun tud_cdc_rx_cb :: "usb_audio \<Rightarrow> (nat \<times> nat) list \<Rightarrow> usb_audio" where
  "tud_cdc_rx_cb s [] = s"
| "tud_cdc_rx_cb s ((got, put) # chunks) =
     tud_cdc_rx_cb (if put < got then drop_bytes s (got - put) else s) chunks"

definition tud_cdc_line_coding_cb :: "usb_audio \<Rightarrow> nat \<Rightarrow> usb_audio" where
  "tud_cdc_line_coding_cb s bit_rate = s\<lparr>u_baud_1200 := (bit_rate = 1200)\<rparr>"

text \<open>Entering the bootloader by the 1200 baud convention; the last argument is whether the task was created.\<close>

definition tud_cdc_line_state_cb :: "usb_audio \<Rightarrow> bool \<Rightarrow> bool \<Rightarrow> bool \<Rightarrow> bool \<Rightarrow> usb_audio" where
  "tud_cdc_line_state_cb s dtr tud_ready allowed task_created =
     (let s = s\<lparr>u_console_connected := (dtr \<and> tud_ready)\<rparr> in
      if u_baud_1200 s \<and> \<not> dtr \<and> \<not> u_boot_pending s \<and> allowed
      then s\<lparr>u_boot_pending := task_created\<rparr> else s)"

text \<open>
  The producer side. Each pass of the loop finds the flags it tests, how many bytes the stream buffer took
  (never more than offered) and whether the deadline has passed after it; the list holds one entry
  for each pass made.
\<close>

record write_pass =
  w_shutting_down :: bool
  w_connected :: bool
  w_count :: nat
  w_expired :: bool

fun cdc_write_loop :: "nat \<Rightarrow> nat \<Rightarrow> write_pass list \<Rightarrow> nat" where
  "cdc_write_loop n sent [] = sent"
| "cdc_write_loop n sent (w # ws) =
     (if sent < n \<and> \<not> w_shutting_down w \<and> w_connected w then
        let sent = sent + min (w_count w) (n - sent) in
        if sent = n \<or> w_expired w then sent else cdc_write_loop n sent ws
      else sent)"

definition cdc_write :: "usb_audio \<Rightarrow> nat \<Rightarrow> bool \<Rightarrow> write_pass list \<Rightarrow> usb_audio \<times> nat" where
  "cdc_write s n locked ws =
     (if n = 0 then (s, 0)
      else if u_shutting_down s then (s, n)
      else let sent = (if locked then cdc_write_loop n 0 ws else 0)
           in (if sent < n then drop_bytes s (n - sent) else s, n))"

text \<open>A read takes what the input buffer holds; None is the error \<^verbatim>\<open>EAGAIN\<close>.\<close>

definition cdc_read :: "nat \<Rightarrow> bytes \<Rightarrow> bytes option" where
  "cdc_read n available = (if n = 0 then Some []
     else let got = take n available in if got = [] then None else Some got)"

text \<open>
  The owner side: at most 2048 bytes each pass. \<open>env k\<close> is what the \<open>k\<close>-th turn finds: the room in the USB FIFO,
  the bytes waiting in the stream buffer and the bytes the stack takes.
\<close>

record service_turn =
  t_room :: nat
  t_waiting :: nat
  t_taken :: nat

definition turn_got :: "bool \<Rightarrow> service_turn \<Rightarrow> nat \<Rightarrow> nat" where
  "turn_got connected e budget =
     (let available = (if connected then t_room e else 256);
          wanted = 256;
          wanted = (if wanted > available then available else wanted);
          wanted = (if wanted > budget then budget else wanted)
      in min (t_waiting e) wanted)"

lemma turn_got_le: "turn_got connected e budget \<le> budget"
  by (simp add: turn_got_def Let_def min_def)

function console_loop :: "bool \<Rightarrow> (nat \<Rightarrow> service_turn) \<Rightarrow> nat \<Rightarrow> nat \<Rightarrow> nat \<times> nat \<times> nat" where
  "console_loop connected env k budget =
     (if budget = 0 then (0, 0, 0)
      else if (if connected then t_room (env k) else 256) = 0 then (0, 0, 0)
      else
        let got = turn_got connected (env k) budget in
        if got = 0 then (0, 0, 0)
        else
          let sent = (if connected then min (t_taken (env k)) got else 0);
              (moved, total_sent, dropped) = console_loop connected env (Suc k) (budget - got)
          in (got + moved, sent + total_sent, (got - sent) + dropped))"
  by pat_completeness auto

termination
  by (relation "measure (\<lambda>(c, e, k, b). b)") auto

declare console_loop.simps [simp del]

definition console_service :: "usb_audio \<Rightarrow> bool \<Rightarrow> (nat \<Rightarrow> service_turn) \<Rightarrow> u32 \<Rightarrow> u32 \<Rightarrow> usb_audio" where
  "console_service s connected env queued free =
     (let s = s\<lparr>u_console_connected := connected\<rparr>;
          (moved, sent, dropped) = console_loop connected env 0 2048;
          s = drop_bytes s dropped;
          st = (u_stats s)\<lparr>s_cdc_tx_buffered_bytes := queued, s_cdc_fifo_free := free\<rparr>
      in s\<lparr>u_stats := st\<rparr>)"

lemma console_loop_account:
  "case console_loop connected env k budget of (moved, sent, dropped) \<Rightarrow>
     moved \<le> budget \<and> moved = sent + dropped \<and> (\<not> connected \<longrightarrow> sent = 0)"
proof (induction connected env k budget rule: console_loop.induct)
  case (1 connected env k budget)
  let ?got = "turn_got connected (env k) budget"
  show ?case
  proof (cases "budget = 0 \<or> (if connected then t_room (env k) else 256) = 0 \<or> ?got = 0")
    case True
    then show ?thesis by (subst console_loop.simps) (auto simp: Let_def)
  next
    case False
    obtain m t d where run: "console_loop connected env (Suc k) (budget - ?got) = (m, t, d)"
      by (cases "console_loop connected env (Suc k) (budget - ?got)") auto
    from False have "case console_loop connected env (Suc k) (budget - ?got) of (moved, sent, dropped) \<Rightarrow>
        moved \<le> budget - ?got \<and> moved = sent + dropped \<and> (\<not> connected \<longrightarrow> sent = 0)"
      by (intro 1) simp_all
    then have ih: "m \<le> budget - ?got" "m = t + d" "\<not> connected \<longrightarrow> t = 0"
      unfolding run prod.case by blast+
    define got where "got = ?got"
    define sent where "sent = (if connected then min (t_taken (env k)) got else 0)"
    have "console_loop connected env k budget = (got + m, sent + t, (got - sent) + d)"
      using False run by (subst console_loop.simps) (simp add: Let_def got_def [symmetric] sent_def)
    moreover have "sent \<le> got" "got \<le> budget" "\<not> connected \<longrightarrow> sent = 0"
      using turn_got_le [of connected "env k" budget] by (auto simp: sent_def got_def)
    ultimately show ?thesis using ih by (auto simp: got_def [symmetric])
  qed
qed

text \<open>C38: A service pass of the console ends whatever the host and the producers do: it moves at most 2048 bytes,
  and every byte it takes from the queue is either given to the stack or counted as dropped (all of them
  when the console is not connected).\<close>

theorem console_pass_bounded:
  shows "case console_loop connected env 0 2048 of (moved, sent, dropped) \<Rightarrow>
    moved \<le> 2048 \<and> moved = sent + dropped \<and>
    s_cdc_dropped_bytes (u_stats (console_service s connected env q free)) =
      s_cdc_dropped_bytes (u_stats s) + of_nat dropped \<and>
    (connected \<or> dropped = moved)"
proof -
  obtain m t d where run: "console_loop connected env 0 2048 = (m, t, d)"
    by (cases "console_loop connected env 0 2048") auto
  have acc: "m \<le> 2048 \<and> m = t + d \<and> (\<not> connected \<longrightarrow> t = 0)"
    using console_loop_account [where connected = connected and env = env and k = 0 and budget = 2048]
    unfolding run prod.case .
  have "s_cdc_dropped_bytes (u_stats (console_service s connected env q free)) =
      s_cdc_dropped_bytes (u_stats s) + of_nat d"
    by (simp add: run console_service_def drop_bytes_def Let_def)
  then show ?thesis unfolding run prod.case using acc by auto
qed

lemma write_loop_le: "sent \<le> n \<Longrightarrow> cdc_write_loop n sent ws \<le> n \<and> sent \<le> cdc_write_loop n sent ws"
proof (induction n sent ws rule: cdc_write_loop.induct)
  case (2 n sent w ws)
  show ?case
  proof (cases "sent < n \<and> \<not> w_shutting_down w \<and> w_connected w \<and>
      \<not> (sent + min (w_count w) (n - sent) = n \<or> w_expired w)")
    case True
    then show ?thesis using 2 by (simp add: Let_def) linarith
  qed (use 2 in \<open>auto simp: Let_def\<close>)
qed simp

text \<open>Writers never block on a missing reader and never see a short write.\<close>

lemma cdc_write_total:
  "snd (cdc_write s n locked ws) = n \<and>
   s_cdc_dropped_bytes (u_stats (fst (cdc_write s n locked ws))) = s_cdc_dropped_bytes (u_stats s) +
     (if u_shutting_down s then 0 else of_nat (n - (if locked then cdc_write_loop n 0 ws else 0)))"
  using write_loop_le [of 0 n ws]
  by (auto simp: cdc_write_def drop_bytes_def Let_def)

section \<open>The stream state in every reachable state\<close>

definition stream_ok :: "usb_audio \<Rightarrow> bool" where
  "stream_ok s \<longleftrightarrow> pcm_ok (u_playback s) \<and> p_channels (u_playback s) = 2 \<and>
     pcm_ok (u_capture s) \<and> p_channels (u_capture s) = 1 \<and>
     (s_playback_active (u_stats s) \<or> u_seed_pending s \<longrightarrow> feedback_ok (u_feedback s)) \<and>
     0 \<le> u_playback_gain s \<and> u_playback_gain s \<le> 32768 \<and>
     0 \<le> u_capture_gain s \<and> u_capture_gain s \<le> 32768"

text \<open>What a gain computation has to satisfy: a volume at or below 0 dB does not amplify.\<close>

definition gain_law :: "(int \<Rightarrow> int) \<Rightarrow> bool" where
  "gain_law g \<longleftrightarrow> (\<forall>v. - 15360 \<le> v \<and> v \<le> 0 \<longrightarrow> 0 \<le> g v \<and> g v \<le> 32768)"

inductive usb_reach :: "(int \<Rightarrow> int) \<Rightarrow> usb_audio \<Rightarrow> bool" for g where
  start: "usb_reach g (init_rings usb_audio_zero)"
| mic_mute: "usb_reach g s \<Longrightarrow> usb_reach g (ull_usb_audio_set_headset_mic_mute s b)"
| playback_read: "usb_reach g s \<Longrightarrow> usb_reach g (fst (ull_usb_audio_read_playback s b n))"
| capture_null: "usb_reach g s \<Longrightarrow> usb_reach g (fst (ull_usb_audio_write_capture s None n))"
| capture_write: "usb_reach g s \<Longrightarrow> n \<le> length x \<Longrightarrow> usb_reach g (fst (ull_usb_audio_write_capture s (Some x) n))"
| mount: "usb_reach g s \<Longrightarrow> usb_reach g (tud_mount_cb s)"
| umount: "usb_reach g s \<Longrightarrow> usb_reach g (tud_umount_cb s)"
| suspend: "usb_reach g s \<Longrightarrow> usb_reach g (tud_suspend_cb s)"
| resume: "usb_reach g s \<Longrightarrow> usb_reach g (tud_resume_cb s b)"
| set_itf: "usb_reach g s \<Longrightarrow> usb_reach g (fst (tud_audio_set_itf_cb s r))"
| rx: "usb_reach g s \<Longrightarrow> got \<le> 2 * length x \<Longrightarrow> usb_reach g (fst (tud_audio_rx_done_post_read_cb s n got x))"
| seed: "usb_reach g s \<Longrightarrow> usb_reach g (fst (feedback_service s))"
| tx: "usb_reach g s \<Longrightarrow> usb_reach g (fst (tud_audio_tx_done_pre_load_cb s))"
| tx_done: "usb_reach g s \<Longrightarrow> usb_reach g (tud_audio_tx_done_post_load_cb s n)"
| set_req: "usb_reach g s \<Longrightarrow> usb_reach g (fst (tud_audio_set_req_entity_cb g s e buf))"
| console: "usb_reach g s \<Longrightarrow> usb_reach g (console_service s c env q free)"
| cdc_rx: "usb_reach g s \<Longrightarrow> usb_reach g (tud_cdc_rx_cb s chunks)"
| cdc_write: "usb_reach g s \<Longrightarrow> usb_reach g (fst (cdc_write s n l ws))"
| cdc_line: "usb_reach g s \<Longrightarrow> usb_reach g (tud_cdc_line_state_cb s d r a t)"
| cdc_baud: "usb_reach g s \<Longrightarrow> usb_reach g (tud_cdc_line_coding_cb s rate)"

lemma drop_stream_ok [simp]: "stream_ok (drop_bytes s n) = stream_ok s"
  by (simp add: stream_ok_def drop_bytes_def Let_def)

lemma feedback_reset_ok: "feedback_ok (ull_usb_feedback_reset c)"
  by (simp add: feedback_ok_def ull_usb_feedback_reset_def ULL_FB_TARGET_FRAMES_def ULL_FB_NOMINAL_Q16_def)

lemma pcm_ok_length: "pcm_ok r \<Longrightarrow> length (p_samples r) = PCM_N * 2"
  by (simp add: pcm_ok_def)

lemmas reset_facts = reset_ok pcm_ok_length feedback_reset_ok

lemma rx_ok:
  assumes "stream_ok s" and "got \<le> 2 * length x"
  shows "stream_ok (fst (tud_audio_rx_done_post_read_cb s n got x))"
    and "snd (tud_audio_rx_done_post_read_cb s n got x) = Some v \<Longrightarrow> \<bar>v - ULL_FB_NOMINAL_Q16\<bar> \<le> 3146"
proof -
  obtain ring d where push: "ull_pcm_push (u_playback s) (Some x) (got div 4) = (ring, d)"
    by (cases "ull_pcm_push (u_playback s) (Some x) (got div 4)")
  have "got div 4 * 2 \<le> length x" using assms(2) by linarith
  then have r: "pcm_ok ring" "p_channels ring = 2"
    using pcm_push_ok [of "u_playback s" "got div 4" x] push_kept [of "u_playback s" "Some x" "got div 4"] assms(1) push
    by (simp_all add: stream_ok_def)
  have f: "feedback_ok (fst (ull_usb_feedback_step (u_feedback s) q c))" "\<bar>snd (ull_usb_feedback_step (u_feedback s) q c) - ULL_FB_NOMINAL_Q16\<bar> \<le> 3146"
    if "feedback_ok (u_feedback s)" for q c
  proof -
    show ok: "feedback_ok (fst (ull_usb_feedback_step (u_feedback s) q c))" by (rule feedback_step_ok [OF that])
    have "snd (ull_usb_feedback_step (u_feedback s) q c) = f_value_q16 (fst (ull_usb_feedback_step (u_feedback s) q c))"
      by (simp add: ull_usb_feedback_step_def Let_def)
    then show "\<bar>snd (ull_usb_feedback_step (u_feedback s) q c) - ULL_FB_NOMINAL_Q16\<bar> \<le> 3146"
      using ok by (auto simp: feedback_ok_def ULL_FB_NOMINAL_Q16_def abs_le_iff)
  qed
  show "stream_ok (fst (tud_audio_rx_done_post_read_cb s n got x))"
    using assms(1) r f
    by (auto simp: tud_audio_rx_done_post_read_cb_def Let_def push stream_ok_def case_prod_beta)
  show "snd (tud_audio_rx_done_post_read_cb s n got x) = Some v \<Longrightarrow> \<bar>v - ULL_FB_NOMINAL_Q16\<bar> \<le> 3146"
    using assms(1) f
    by (auto simp: tud_audio_rx_done_post_read_cb_def Let_def push stream_ok_def case_prod_beta split: if_splits)
qed

lemma set_req_ok:
  assumes "gain_law g" and "stream_ok s"
  shows "stream_ok (fst (tud_audio_set_req_entity_cb g s e buf))"
  using assms by (auto simp: tud_audio_set_req_entity_cb_def Let_def stream_ok_def gain_law_def)

lemma usb_reach_ok: "usb_reach g s \<Longrightarrow> gain_law g \<Longrightarrow> stream_ok s"
proof (induction rule: usb_reach.induct)
  case start
  then show ?case
    by (simp add: init_rings_def usb_audio_zero_def stream_ok_def reset_ok pcm_zero_def PCM_N_def stats_zero_def)
next
  case (playback_read s b n)
  then show ?case
    using pop_ok [of "u_playback s" n] pop_kept [of "u_playback s" n]
    by (auto simp: ull_usb_audio_read_playback_def Let_def stream_ok_def case_prod_beta simp del: pop_kept)
next
  case (capture_write s n x)
  then show ?case
    using pcm_push_ok [of "u_capture s" n x] push_kept [of "u_capture s" "Some x" n]
    by (auto simp: ull_usb_audio_write_capture_def Let_def stream_ok_def case_prod_beta)
next
  case (tx s)
  then show ?case
    using pop_ok [of "u_capture s" 48] pop_kept [of "u_capture s" 48]
    by (auto simp: tud_audio_tx_done_pre_load_cb_def Let_def stream_ok_def case_prod_beta)
next
  case (cdc_rx s chunks)
  have "stream_ok s \<Longrightarrow> stream_ok (tud_cdc_rx_cb s chunks)" for s
    by (induction s chunks rule: tud_cdc_rx_cb.induct) auto
  then show ?case using cdc_rx by blast
next
  case (rx s got x n)
  then show ?case using rx_ok(1) by blast
next
  case (set_req s e buf)
  then show ?case using set_req_ok by blast
qed (auto simp: ull_usb_audio_set_headset_mic_mute_def ull_usb_audio_write_capture_def tud_mount_cb_def tud_umount_cb_def
    reset_streams_def tud_suspend_cb_def tud_resume_cb_def tud_audio_set_itf_cb_def feedback_service_def
    tud_audio_tx_done_post_load_cb_def console_service_def cdc_write_def tud_cdc_line_state_cb_def
    tud_cdc_line_coding_cb_def drop_bytes_def Let_def stream_ok_def reset_facts case_prod_beta)

definition ex_gain :: "int \<Rightarrow> int" where "ex_gain v = (if v = 0 then 32768 else 16384)"

lemma ex_gain_law: "gain_law ex_gain"
  by (simp add: gain_law_def ex_gain_def)

definition ex_alt1 :: "u16 \<Rightarrow> control_request" where
  "ex_alt1 itf = \<lparr>bmRequestType = 1, bRequest = 11, wValue = 1, wIndex = itf, wLength = 0\<rparr>"

definition ex_streaming :: usb_audio where
  "ex_streaming = fst (tud_audio_set_itf_cb (tud_mount_cb (init_rings usb_audio_zero)) (ex_alt1 1))"

lemma ex_streaming_reach: "usb_reach ex_gain ex_streaming"
  unfolding ex_streaming_def by (intro usb_reach.intros)

text \<open>C31: In every state the USB callbacks, the tasks and the console can reach, the PCM rings are well formed
  (two channels for playback, one for capture) and any rate value sent to the host, from a packet or
  as the seed of a new stream, is within a thousandth of 48 frames per millisecond.\<close>

theorem host_rate_bounded:
  assumes "usb_reach g s" and "gain_law g" and "got \<le> 2 * length x"
  shows "stream_ok s \<and>
    (\<forall>v. snd (tud_audio_rx_done_post_read_cb s n got x) = Some v \<or> snd (feedback_service s) = Some v \<longrightarrow>
       \<bar>v - ULL_FB_NOMINAL_Q16\<bar> \<le> 3146)"
proof -
  have ok: "stream_ok s" using usb_reach_ok assms(1,2) .
  have "\<bar>v - ULL_FB_NOMINAL_Q16\<bar> \<le> 3146" if "snd (feedback_service s) = Some v" for v
    using that ok
    by (auto simp: feedback_service_def Let_def stream_ok_def feedback_ok_def ULL_FB_NOMINAL_Q16_def abs_le_iff
        split: if_splits)
  then show ?thesis using rx_ok(2) [OF ok assms(3)] ok by blast
qed

lemma host_rate_bounded_witness:
  "snd (feedback_service ex_streaming) = Some ULL_FB_NOMINAL_Q16 \<and> stream_ok ex_streaming"
  using host_rate_bounded [OF ex_streaming_reach ex_gain_law, of 0 "[]" 0]
  by (simp add: ex_streaming_def ex_alt1_def feedback_service_def tud_audio_set_itf_cb_def Let_def tud_mount_cb_def
      reset_streams_def ITF_PLAYBACK_def ITF_CAPTURE_def ull_usb_feedback_reset_def)

lemma gain_zero: "length x = 48 \<Longrightarrow> ull_pcm_gain x 0 = replicate 48 0"
  by (simp add: ull_pcm_gain_def)

lemma length_gain [simp]: "length (ull_pcm_gain x g) = length x"
  by (simp add: ull_pcm_gain_def)

text \<open>C30: Every millisecond exactly 48 capture samples go to the host, and while the host has muted the
  microphone or the headset has, every one of them is zero, whatever the ring holds.\<close>

theorem muted_capture_silent:
  assumes "usb_reach g s" and "gain_law g"
  shows "length (snd (tud_audio_tx_done_pre_load_cb s)) = 48 \<and>
    (u_capture_mute s \<or> u_headset_mic_mute s \<longrightarrow> snd (tud_audio_tx_done_pre_load_cb s) = replicate 48 0)"
proof -
  have ok: "pcm_ok (u_capture s)" "p_channels (u_capture s) = 1"
    using usb_reach_ok [OF assms] by (simp_all add: stream_ok_def)
  obtain ring out got where pop: "ull_pcm_pop (u_capture s) 48 = (ring, out, got)"
    by (cases "ull_pcm_pop (u_capture s) 48")
  have "length out \<le> 48" using pop_spec [OF ok(1), of 48] unfolding pop prod.case ok(2) by linarith
  then have "length (memcpy_at (replicate 48 (0 :: i16)) 0 out) = 48" by (simp add: mem_simps)
  then show ?thesis
    by (auto simp: tud_audio_tx_done_pre_load_cb_def pop Let_def gain_zero)
qed

lemma muted_capture_silent_witness:
  "snd (tud_audio_tx_done_pre_load_cb (ull_usb_audio_set_headset_mic_mute ex_streaming True)) = replicate 48 0"
  using muted_capture_silent [OF mic_mute [OF ex_streaming_reach] ex_gain_law, of True]
  by (simp add: ull_usb_audio_set_headset_mic_mute_def)

definition volume_request :: "u8 \<Rightarrow> entity_request" where
  "volume_request entity = \<lparr>bRequestE = CS_REQ_CUR, bChannelNumber = 0, bControlSelector = FU_CTRL_VOLUME,
     bInterface = ITF_AUDIO_CONTROL, bEntityID = entity, wLengthE = 2\<rparr>"

definition whole_decibel :: "int \<Rightarrow> bool" where
  "whole_decibel v \<longleftrightarrow> (\<exists>d. v = 256 * d \<and> - 60 \<le> d \<and> d \<le> 0)"

lemma smod_256: "(v :: int) smod 256 = 0 \<longleftrightarrow> 256 dvd v"
proof -
  have "v smod 256 = sgn v * (\<bar>v\<bar> mod 256)" by (simp add: signed_modulo_int_def)
  then show ?thesis by (cases "v = 0") (auto simp: sgn_if mod_eq_0_iff_dvd split: if_splits)
qed

lemma volume_range: "\<not> (v > 0 \<or> v < - 60 * 256 \<or> v smod 256 \<noteq> 0) \<longleftrightarrow> whole_decibel v"
  by (auto simp: whole_decibel_def smod_256 dvd_def)

text \<open>A volume request is accepted exactly for whole decibels from -60 to 0 dB; an accepted one is what a
  later request reads back, and it leaves the other direction alone.\<close>

theorem volume_set_get:
  assumes "entity = UAC_CAPTURE_FEATURE \<or> entity = UAC_PLAYBACK_FEATURE" and "length buf = 2"
    and "other = (if entity = UAC_CAPTURE_FEATURE then UAC_PLAYBACK_FEATURE else UAC_CAPTURE_FEATURE)"
  shows "case tud_audio_set_req_entity_cb g s (volume_request entity) buf of (s', accepted) \<Rightarrow>
    (accepted \<longleftrightarrow> whole_decibel (sint (get16 buf 0))) \<and>
    (accepted \<longrightarrow> tud_audio_get_req_entity_cb s' (volume_request entity) = Reply buf) \<and>
    (\<not> accepted \<longrightarrow> s' = s) \<and>
    tud_audio_get_req_entity_cb s' (volume_request other) = tud_audio_get_req_entity_cb s (volume_request other)"
proof -
  obtain a b where buf: "buf = [a, b]" using assms(2) by (auto simp: length_Suc_conv numeral_2_eq_2)
  have restore: "put16 (get16 buf 0) = buf" unfolding buf by (rule put16_get16)
  have sel: "\<not> UAC_CAPTURE_FEATURE = UAC_PLAYBACK_FEATURE" "UAC_PLAYBACK_FEATURE \<noteq> UAC_CAPTURE_FEATURE"
    "UAC_CAPTURE_FEATURE \<noteq> UAC_CLOCK" "UAC_CAPTURE_FEATURE \<noteq> UAC_CAPTURE_CLOCK"
    "UAC_PLAYBACK_FEATURE \<noteq> UAC_CLOCK" "UAC_PLAYBACK_FEATURE \<noteq> UAC_CAPTURE_CLOCK"
    "FU_CTRL_VOLUME \<noteq> FU_CTRL_MUTE"
    by (simp_all add: UAC_CAPTURE_FEATURE_def UAC_PLAYBACK_FEATURE_def UAC_CLOCK_def UAC_CAPTURE_CLOCK_def
        FU_CTRL_VOLUME_def FU_CTRL_MUTE_def)
  show ?thesis
    using assms(1,3) restore sel volume_range [of "sint (get16 buf 0)"]
    by (auto simp: tud_audio_set_req_entity_cb_def tud_audio_get_req_entity_cb_def volume_request_def Let_def)
qed

lemma volume_set_get_witness:
  "snd (tud_audio_set_req_entity_cb ex_gain usb_audio_zero (volume_request UAC_CAPTURE_FEATURE) [0, 0xfe])"
proof -
  have "sint (get16 [0, 0xfe :: u8] 0) = 256 * (- 2)" by (simp add: get16_def)
  then have "whole_decibel (sint (get16 [0, 0xfe :: u8] 0))" unfolding whole_decibel_def by (intro exI [of _ "- 2"]) simp
  then show ?thesis
    using volume_set_get [OF _ _ refl, where entity = UAC_CAPTURE_FEATURE and buf = "[0, 0xfe]" and
        g = ex_gain and s = usb_audio_zero]
    by (simp add: case_prod_beta)
qed

end
