(* ===== verification/ControlLog.thy ===== *)
theory ControlLog
  imports StatusProbe RingQueue
begin

text \<open>
  Model of \<^verbatim>\<open>firmware/radio/src/control_log.c\<close>: a bounded capture of authenticated control
  messages that must never hold key or setup material. Publishing has two parts: outside the lock it
  reads the generation and builds the record, under the lock it checks that the capture is still the
  same one; other calls may come between. The messages also pass through the status probe. The time is an argument. Printing
  is the list of records a drain returns.
\<close>

section \<open>State\<close>

definition CAPACITY :: nat where "CAPACITY = 32"
definition PAYLOAD_BYTES :: nat where "PAYLOAD_BYTES = 6"
definition ORIGIN_AIR :: nat where "ORIGIN_AIR = 1"
definition ORIGIN_ACL :: nat where "ORIGIN_ACL = 2"

record log_record =
  r_us :: int
  r_length :: u16
  r_origin :: u8
  r_header :: u8
  r_opcode :: u8
  r_opcode_valid :: bool
  r_copied :: nat
  r_payload :: bytes

record control_log =
  g_records :: "log_record list"
  g_enabled :: bool
  g_generation :: u32
  g_head :: nat
  g_tail :: nat
  g_count :: nat
  g_dropped :: u32
  g_suppressed :: u32
  g_total :: u32

definition record_zero :: log_record where
  "record_zero = \<lparr>r_us = 0, r_length = 0, r_origin = 0, r_header = 0, r_opcode = 0,
     r_opcode_valid = False, r_copied = 0, r_payload = replicate PAYLOAD_BYTES 0\<rparr>"

definition log_zero :: control_log where
  "log_zero = \<lparr>g_records = replicate CAPACITY record_zero, g_enabled = False, g_generation = 0,
     g_head = 0, g_tail = 0, g_count = 0, g_dropped = 0, g_suppressed = 0, g_total = 0\<rparr>"

section \<open>Publishing\<close>

definition secret_opcode :: "u8 \<Rightarrow> bool" where
  "secret_opcode op \<longleftrightarrow> op = 0x0e \<or> op = 0x0f \<or> (op \<ge> 0xe0 \<and> op \<le> 0xe4)"

definition safe_payload :: "bytes \<Rightarrow> nat \<Rightarrow> nat" where
  "safe_payload p n =
     (if ull_parent_ack_wheel (Some p) n then 6
      else if ull_parent_ack_media (Some p) n then 2
      else if ull_parent_ack_mic (Some p) n then 3
      else if n = 6 \<and> p ! 0 = 4 \<and> (p ! 1 = 1 \<or> p ! 1 = 2) \<and> p ! 2 = 0 \<and> p ! 3 \<le> 100 \<and> p ! 4 \<le> 100 \<and> p ! 5 = 0
      then 6
      else if n = 3 \<and> (p ! 0 = 5 \<or> p ! 0 = 6) \<and> (p ! 1 = 1 \<or> p ! 1 = 2) \<and> p ! 2 = 0 then 3
      else 0)"

text \<open>Where the proprietary control starts, if the message carries one whole.\<close>

definition find_control :: "nat \<Rightarrow> u8 \<Rightarrow> bytes \<Rightarrow> nat \<Rightarrow> (bytes \<times> nat) option" where
  "find_control origin header p n =
     (if origin = ORIGIN_ACL then Some (p, n)
      else if header AND 3 = 3 \<and> n \<noteq> 0 then None
      else if header AND 3 = 2 \<and> n \<ge> 4 then
        (let l = unat (get16 p 0) in if l = n - 4 \<and> p ! 2 = 1 \<and> p ! 3 = 1 then Some (drop 4 p, l) else None)
      else None)"

definition build_record :: "int \<Rightarrow> nat \<Rightarrow> u8 \<Rightarrow> bytes \<Rightarrow> nat \<Rightarrow> log_record \<times> bool" where
  "build_record us origin header p n =
     (let r = record_zero\<lparr>r_us := us, r_length := of_nat n, r_origin := of_nat origin, r_header := header\<rparr>;
          (r, hide) =
            (if origin \<noteq> ORIGIN_ACL \<and> header AND 3 = 3 \<and> n \<noteq> 0
             then (r\<lparr>r_opcode := p ! 0, r_opcode_valid := True\<rparr>, p ! 0 = 3 \<or> p ! 0 = 4 \<or> secret_opcode (p ! 0))
             else (r, False))
      in case find_control origin header p n of
           None \<Rightarrow> (r, hide)
         | Some (control, l) \<Rightarrow>
             if l = 0 then (r, hide)
             else
               let r = r\<lparr>r_opcode := control ! 0, r_opcode_valid := True\<rparr>; hide = secret_opcode (control ! 0)
               in (if hide then r
                   else r\<lparr>r_copied := safe_payload control l,
                          r_payload := memcpy_at (r_payload r) 0 (take (safe_payload control l) control)\<rparr>, hide))"

definition publish_commit :: "control_log \<Rightarrow> u32 \<Rightarrow> log_record \<times> bool \<Rightarrow> control_log" where
  "publish_commit s capture rh =
     (if g_enabled s \<and> capture = g_generation s then
        (if snd rh then s\<lparr>g_suppressed := g_suppressed s + 1\<rparr>
         else if g_count s = CAPACITY then s\<lparr>g_dropped := g_dropped s + 1\<rparr>
         else s\<lparr>g_records := (g_records s)[g_head s := fst rh], g_head := (g_head s + 1) mod CAPACITY,
                g_count := g_count s + 1, g_total := g_total s + 1\<rparr>)
      else s)"

definition publish :: "control_log \<Rightarrow> int \<Rightarrow> nat \<Rightarrow> u8 \<Rightarrow> bytes \<Rightarrow> nat \<Rightarrow> control_log" where
  "publish s us origin header p n =
     (let capture = g_generation s in
      if \<not> g_enabled s then s else publish_commit s capture (build_record us origin header p n))"

definition ull_control_log_air :: "control_log \<times> status_probe \<Rightarrow> int \<Rightarrow> u8 \<Rightarrow> bytes option \<Rightarrow> nat \<Rightarrow>
    control_log \<times> status_probe" where
  "ull_control_log_air s us header payload n = (case payload of
     Some p \<Rightarrow> if n \<noteq> 0 \<and> n \<le> 60
       then (publish (fst s) us ORIGIN_AIR header p n, ull_status_probe_air header (Some p) n (snd s)) else s
   | None \<Rightarrow> s)"

definition ull_control_log_acl :: "control_log \<times> status_probe \<Rightarrow> int \<Rightarrow> bytes option \<Rightarrow> nat \<Rightarrow>
    control_log \<times> status_probe" where
  "ull_control_log_acl s us payload n =
     (if n \<le> 4092 \<and> (n = 0 \<or> payload \<noteq> None)
      then (publish (fst s) us ORIGIN_ACL 0 (case payload of Some p \<Rightarrow> p | None \<Rightarrow> []) n,
            ull_status_probe_acl payload n (snd s))
      else s)"

section \<open>Control and drain\<close>

definition ull_control_log_enable :: "control_log \<Rightarrow> bool \<Rightarrow> control_log" where
  "ull_control_log_enable s v =
     (let s = s\<lparr>g_enabled := False, g_generation := g_generation s + 1\<rparr>;
          s = (if v then s\<lparr>g_head := 0, g_tail := 0, g_count := 0, g_dropped := 0, g_suppressed := 0, g_total := 0\<rparr>
               else s)
      in s\<lparr>g_enabled := v\<rparr>)"

definition ull_control_log_status :: "control_log \<Rightarrow> bool \<times> nat \<times> u32 \<times> u32 \<times> u32 \<times> nat" where
  "ull_control_log_status s = (g_enabled s, g_count s, g_total s, g_dropped s, g_suppressed s, CAPACITY)"

definition drain_one :: "control_log \<Rightarrow> control_log \<times> log_record option" where
  "drain_one s = (if g_count s \<noteq> 0
     then (s\<lparr>g_tail := (g_tail s + 1) mod CAPACITY, g_count := g_count s - 1\<rparr>, Some (g_records s ! g_tail s))
     else (s, None))"

function drain_loop :: "control_log \<Rightarrow> control_log \<times> log_record list" where
  "drain_loop s = (case drain_one s of
     (s', None) \<Rightarrow> (s', [])
   | (s', Some r) \<Rightarrow> (let (t, rs) = drain_loop s' in (t, r # rs)))"
  by pat_completeness auto

termination
  by (relation "measure g_count") (auto simp: drain_one_def split: if_splits)

declare drain_loop.simps [simp del]

definition ull_control_log_drain :: "control_log \<Rightarrow> control_log \<times> log_record list" where
  "ull_control_log_drain s = drain_loop (ull_control_log_enable s False)"

section \<open>The capture as a queue\<close>

definition captured :: "control_log \<Rightarrow> log_record list" where
  "captured s = window CAPACITY (g_records s) (g_tail s) (g_count s)"

text \<open>What a record may show of a message: nothing, or one of the bounded scalar controls.\<close>

definition scalar_only :: "log_record \<Rightarrow> bool" where
  "scalar_only r \<longleftrightarrow> length (r_payload r) = PAYLOAD_BYTES \<and>
     (if r_copied r = 0 then r_payload r = replicate PAYLOAD_BYTES 0
      else r_copied r \<le> PAYLOAD_BYTES \<and> safe_payload (r_payload r) (r_copied r) = r_copied r \<and>
           drop (r_copied r) (r_payload r) = replicate (PAYLOAD_BYTES - r_copied r) 0) \<and>
     (r_opcode_valid r \<longrightarrow> \<not> secret_opcode (r_opcode r))"

definition ring_ok :: "control_log \<Rightarrow> bool" where
  "ring_ok s \<longleftrightarrow> g_count s \<le> CAPACITY \<and> g_tail s < CAPACITY \<and>
     g_head s = (g_tail s + g_count s) mod CAPACITY \<and> length (g_records s) = CAPACITY"

definition log_ok :: "control_log \<Rightarrow> bool" where
  "log_ok s \<longleftrightarrow> ring_ok s \<and> (\<forall>r \<in> set (captured s). scalar_only r)"

lemma capacity_pos [simp]: "0 < CAPACITY" "x mod CAPACITY < CAPACITY"
  by (simp_all add: CAPACITY_def)

lemma log_ok_zero: "log_ok log_zero"
  by (simp add: log_ok_def ring_ok_def log_zero_def captured_def)

lemma safe_payload_cases:
  "safe_payload p n = 0 \<or> (safe_payload p n = n \<and> n \<le> PAYLOAD_BYTES)"
  by (auto simp: safe_payload_def PAYLOAD_BYTES_def ull_parent_ack_wheel_def ull_parent_ack_media_def ull_parent_ack_mic_def)

lemma safe_payload_cong:
  assumes "\<And>i. i < n \<Longrightarrow> p ! i = q ! i"
  shows "safe_payload p n = safe_payload q n"
proof -
  note defs = safe_payload_def ull_parent_ack_wheel_def ull_parent_ack_media_def ull_parent_ack_mic_def
  consider "n = 6" | "n = 3" | "n = 2" | "n \<noteq> 6" "n \<noteq> 3" "n \<noteq> 2" by blast
  then show ?thesis
  proof cases
    case 1
    then show ?thesis
      using assms [of 0] assms [of 1] assms [of 2] assms [of 3] assms [of 4] assms [of 5] by (simp add: defs)
  next
    case 2
    then show ?thesis using assms [of 0] assms [of 1] assms [of 2] by (simp add: defs)
  next
    case 3
    then show ?thesis using assms [of 0] by (simp add: defs)
  qed (simp add: defs)
qed

lemma safe_payload_append: "length p = n \<Longrightarrow> safe_payload (p @ q) n = safe_payload p n"
  by (rule safe_payload_cong) (simp add: nth_append)

lemma push_captured:
  "ring_ok s \<Longrightarrow> g_count s \<noteq> CAPACITY \<Longrightarrow>
   captured (s\<lparr>g_records := (g_records s)[g_head s := r], g_head := h, g_count := g_count s + 1, g_total := k\<rparr>) =
     captured s @ [r]"
  using window_snoc [of "g_records s" CAPACITY "g_count s" "g_tail s" r]
  by (simp add: captured_def ring_ok_def)

lemma commit_captured:
  "ring_ok s \<Longrightarrow> captured (publish_commit s c rh) =
     captured s @ (if g_enabled s \<and> c = g_generation s \<and> \<not> snd rh \<and> g_count s \<noteq> CAPACITY then [fst rh] else [])"
  using push_captured [where s = s and r = "fst rh"] by (simp add: publish_commit_def) (simp add: captured_def)

lemma commit_ring_ok: "ring_ok s \<Longrightarrow> ring_ok (publish_commit s c rh)"
  by (auto simp: ring_ok_def publish_commit_def mod_Suc_eq)

lemma commit_ok:
  assumes "log_ok s" and "\<not> snd rh \<longrightarrow> scalar_only (fst rh)"
  shows "log_ok (publish_commit s c rh)"
  using assms commit_captured [of s c rh] commit_ring_ok [of s c rh] by (auto simp: log_ok_def)

lemma drain_one_captured:
  "ring_ok s \<Longrightarrow> captured s = (case snd (drain_one s) of None \<Rightarrow> [] | Some r \<Rightarrow> [r]) @ captured (fst (drain_one s))"
proof -
  assume ok: "ring_ok s"
  have "g_count s = Suc k \<Longrightarrow> captured s = g_records s ! g_tail s # window CAPACITY (g_records s) ((g_tail s + 1) mod CAPACITY) k" for k
    using ok by (simp add: captured_def window_Cons window_mod ring_ok_def)
  then show ?thesis by (cases "g_count s") (auto simp: drain_one_def captured_def)
qed

lemma drain_one_ring_ok: "ring_ok s \<Longrightarrow> ring_ok (fst (drain_one s))"
proof -
  assume ok: "ring_ok s"
  have "(Suc (g_tail s) mod CAPACITY + k) mod CAPACITY = (g_tail s + Suc k) mod CAPACITY" for k
    by (simp add: mod_add_left_eq)
  then show ?thesis using ok by (cases "g_count s") (auto simp: ring_ok_def drain_one_def)
qed

lemma drain_loop_all:
  "ring_ok s \<Longrightarrow> snd (drain_loop s) = captured s \<and> ring_ok (fst (drain_loop s)) \<and>
     captured (fst (drain_loop s)) = [] \<and> g_count (fst (drain_loop s)) = 0 \<and>
     g_enabled (fst (drain_loop s)) = g_enabled s"
proof (induction s rule: drain_loop.induct)
  case (1 s)
  show ?case
  proof (cases "g_count s")
    case 0
    then show ?thesis using 1 by (subst (1 2 3 4 5) drain_loop.simps) (simp add: drain_one_def captured_def)
  next
    case (Suc k)
    then obtain s' r where d: "drain_one s = (s', Some r)" by (simp add: drain_one_def)
    have r: "ring_ok s'" "captured s = r # captured s'" "g_enabled s' = g_enabled s"
      using drain_one_ring_ok [OF 1(2)] drain_one_captured [OF 1(2)] d Suc by (auto simp: drain_one_def)
    have "drain_loop s = (fst (drain_loop s'), r # snd (drain_loop s'))"
      by (subst drain_loop.simps) (simp add: d case_prod_beta)
    then show ?thesis using 1(1) [OF d [symmetric] refl r(1)] r by simp
  qed
qed

lemma enable_captured: "captured (ull_control_log_enable s v) = (if v then [] else captured s)"
  by (simp add: ull_control_log_enable_def captured_def Let_def)

lemma enable_ring_ok: "ring_ok s \<Longrightarrow> ring_ok (ull_control_log_enable s v)"
  by (simp add: ull_control_log_enable_def ring_ok_def Let_def)

text \<open>The record of a message that is not hidden.\<close>

lemma build_scalar:
  assumes "n \<le> length p" and "\<not> snd (build_record us origin header p n)"
  shows "scalar_only (fst (build_record us origin header p n))"
proof (cases "find_control origin header p n")
  case None
  then show ?thesis using assms(2)
    by (auto simp: build_record_def Let_def scalar_only_def record_zero_def split: if_splits)
next
  case (Some cl)
  then obtain control l where c: "find_control origin header p n = Some (control, l)" by (cases cl) auto
  then have len: "l \<le> length control"
    using assms(1) by (auto simp: find_control_def Let_def split: if_splits)
  let ?k = "safe_payload control l"
  show ?thesis
  proof (cases "l = 0")
    case True
    then show ?thesis using assms(2) c
      by (auto simp: build_record_def Let_def scalar_only_def record_zero_def split: if_splits)
  next
    case False
    have k: "?k = 0 \<or> (?k = l \<and> l \<le> PAYLOAD_BYTES)" by (rule safe_payload_cases)
    have "safe_payload (take ?k control @ ys) ?k = ?k" if "?k \<noteq> 0" for ys
    proof -
      have "?k = l" using k that by simp
      moreover have "safe_payload (take l control @ ys) l = safe_payload control l"
        using len by (intro safe_payload_cong) (simp add: nth_append)
      ultimately show ?thesis by simp
    qed
    then show ?thesis using False assms(2) c k len
      by (auto simp: build_record_def Let_def scalar_only_def record_zero_def mem_simps PAYLOAD_BYTES_def split: if_splits)
  qed
qed

section \<open>What the capture guarantees\<close>

text \<open>
  The reachable captures. \<open>late\<close> is a publisher that read any generation before other calls ran.
\<close>

inductive log_reach :: "control_log \<times> status_probe \<Rightarrow> bool" where
  start: "log_reach (log_zero, probe_zero)"
| air: "log_reach s \<Longrightarrow> n \<le> length p \<Longrightarrow> log_reach (ull_control_log_air s us h (Some p) n)"
| acl: "log_reach s \<Longrightarrow> n \<le> length p \<Longrightarrow> log_reach (ull_control_log_acl s us (Some p) n)"
| acl_null: "log_reach s \<Longrightarrow> log_reach (ull_control_log_acl s us None n)"
| late: "log_reach s \<Longrightarrow> n \<le> length p \<Longrightarrow>
     log_reach (publish_commit (fst s) c (build_record us origin h p n), snd s)"
| enable: "log_reach s \<Longrightarrow> log_reach (ull_control_log_enable (fst s) v, snd s)"
| drain_step: "log_reach s \<Longrightarrow> log_reach (fst (drain_one (fst s)), snd s)"

lemma publish_ok: "log_ok s \<Longrightarrow> n \<le> length p \<Longrightarrow> log_ok (publish s us origin h p n)"
  by (simp add: publish_def Let_def commit_ok build_scalar)

lemma log_reach_ok: "log_reach s \<Longrightarrow> log_ok (fst s)"
proof (induction rule: log_reach.induct)
  case (acl_null s us n)
  then show ?case by (auto simp: ull_control_log_acl_def intro: publish_ok)
next
  case (late s n p c us origin h)
  then show ?case by (simp add: commit_ok build_scalar)
next
  case (enable s v)
  then show ?case by (simp add: log_ok_def enable_captured enable_ring_ok)
next
  case (drain_step s)
  then have ok: "ring_ok (fst s)" and all: "\<forall>r \<in> set (captured (fst s)). scalar_only r"
    by (simp_all add: log_ok_def)
  have "set (captured (fst (drain_one (fst s)))) \<subseteq> set (captured (fst s))"
    using drain_one_captured [OF ok] by (metis Un_upper2 set_append)
  then show ?case using all drain_one_ring_ok [OF ok] by (auto simp: log_ok_def)
qed (auto simp: log_ok_zero ull_control_log_air_def ull_control_log_acl_def intro: publish_ok)

definition ex_volume :: bytes where "ex_volume = [4, 1, 0, 50, 50, 0]"
definition ex_secret :: bytes where "ex_secret = [0xe2, 1, 2, 3]"

definition ex_log :: "control_log \<times> status_probe" where
  "ex_log = ull_control_log_acl (ull_control_log_acl (ull_control_log_enable log_zero True, probe_zero)
     5 (Some ex_volume) 6) 9 (Some ex_secret) 4"

lemma ex_log_reach: "log_reach ex_log"
  unfolding ex_log_def
  using log_reach.enable [OF log_reach.start, of True]
  by (intro log_reach.acl) (simp_all add: ex_volume_def ex_secret_def)


lemma ex_log_captured: "captured (fst ex_log) = [record_zero\<lparr>r_us := 5, r_length := 6, r_origin := 2,
   r_opcode := 4, r_opcode_valid := True, r_copied := 6, r_payload := ex_volume\<rparr>]"
  by (simp add: ex_log_def ull_control_log_acl_def publish_def publish_commit_def build_record_def find_control_def
      captured_def window_def Let_def ull_control_log_enable_def log_zero_def CAPACITY_def ex_volume_def ex_secret_def
      safe_payload_def ull_parent_ack_wheel_def ull_parent_ack_media_def ull_parent_ack_mic_def secret_opcode_def
      ORIGIN_ACL_def record_zero_def PAYLOAD_BYTES_def mem_simps)


interpretation log: lossless_fifo ring_ok captured CAPACITY
  "\<lambda>s r. (publish_commit s (g_generation s) (r, False), g_enabled s \<and> g_count s \<noteq> CAPACITY)"
  "\<lambda>s (_ :: unit). fst (drain_one s)"
  "\<lambda>s _. case snd (drain_one s) of None \<Rightarrow> [] | Some r \<Rightarrow> [r]"
proof unfold_locales
  fix s :: control_log
  assume ok: "ring_ok s"
  show "length (captured s) \<le> CAPACITY" using ok by (simp add: captured_def ring_ok_def)
  show "\<exists>d. captured s = d @ (case snd (drain_one s) of None \<Rightarrow> [] | Some r \<Rightarrow> [r]) @ captured (fst (drain_one s))"
    using drain_one_captured [OF ok] by (intro exI [of _ "[]"]) simp
qed (simp_all add: commit_ring_ok commit_captured drain_one_ring_ok drain_one_captured [symmetric])

text \<open>Draining stops the capture, returns exactly the captured records in order, oldest first, and leaves
  the ring empty; a publisher that started before the drain, or before any restart, adds nothing
  afterwards.\<close>

theorem drain_returns_capture:
  assumes "ring_ok s"
  shows "case ull_control_log_drain s of (t, rs) \<Rightarrow>
    rs = captured s \<and> captured t = [] \<and> \<not> g_enabled t \<and> publish_commit t c rh = t \<and>
    publish_commit (ull_control_log_enable s v) (g_generation s) rh = ull_control_log_enable s v"
proof -
  have e: "ring_ok (ull_control_log_enable s False)" using enable_ring_ok [OF assms] .
  have "g_enabled (ull_control_log_enable s False) = False" by (simp add: ull_control_log_enable_def Let_def)
  moreover have "publish_commit (ull_control_log_enable s v) (g_generation s) rh = ull_control_log_enable s v"
    by (auto simp: ull_control_log_enable_def publish_commit_def Let_def)
  ultimately show ?thesis
    using drain_loop_all [OF e] enable_captured [of s False]
    by (auto simp: ull_control_log_drain_def case_prod_beta publish_commit_def)
qed

lemma drain_returns_capture_witness: "snd (ull_control_log_drain (fst ex_log)) = captured (fst ex_log)"
proof -
  have "ring_ok (fst ex_log)" using log_reach_ok [OF ex_log_reach] by (simp add: log_ok_def)
  from drain_returns_capture [OF this] show ?thesis by (simp add: case_prod_beta)
qed

text \<open>The capture is a lossless queue: what is drained and what is held is what was accepted.\<close>

lemma log_exact:
  "ring_ok s \<Longrightarrow> captured s @ log.taken s ops = log.handed s ops @ captured (log.after s ops)"
  by (rule log.fifo_exact)

end
