(* ===== verification/LlcpPool.thy ===== *)
theory LlcpPool
  imports Prelude
begin

text \<open>
  Model of \<^verbatim>\<open>firmware/radio/src/llcp_pool.c\<close>: reservations of consecutive transmit slots from
  the controller's pool of 20, whose allocator is in ROM. Addresses are numbers; the pool's
  descriptors are 8 bytes each, from 32 bytes after the environment's base. The answers of the
  allocator to successive calls, the link field stored at an address and the translation of an
  offset into an address are arguments; the calls that free a slot are returned as the list of their
  offsets.
\<close>

section \<open>Descriptors\<close>

definition SLOTS :: nat where "SLOTS = 20"

definition slot_offset :: "nat \<Rightarrow> u16" where "slot_offset i = of_nat (0x1c00 + 27 * i)"

definition descriptor_index :: "nat option \<Rightarrow> nat \<Rightarrow> nat option" where
  "descriptor_index env node = (case env of None \<Rightarrow> None | Some e \<Rightarrow>
     let base = e + 32 in
     if node < base \<or> node \<ge> base + 160 \<or> (node - base) mod 8 \<noteq> 0 then None
     else Some ((node - base) div 8))"

text \<open>The walk of the free list; \<open>link a\<close> is the pointer stored at \<open>a\<close>. None is the result -1.\<close>

definition unseen :: "u32 \<Rightarrow> nat" where "unseen seen = length (filter (\<lambda>i. \<not> bit seen i) [0..<SLOTS])"

lemma index_less: "descriptor_index env node = Some i \<Longrightarrow> i < SLOTS"
  by (auto simp: descriptor_index_def SLOTS_def Let_def split: option.splits if_splits)

definition mark :: "u32 \<Rightarrow> nat \<Rightarrow> u32" where "mark seen index = seen OR push_bit index 1"

lemma bit_mark: "i < SLOTS \<Longrightarrow> j < SLOTS \<Longrightarrow> bit (mark seen i) j \<longleftrightarrow> bit seen j \<or> j = i"
  unfolding mark_def bit_or_iff bit_push_bit_iff by (auto simp: SLOTS_def bit_1_iff)

lemma unseen_card: "unseen seen = card {i. i < SLOTS \<and> \<not> bit seen i}"
  unfolding unseen_def length_filter_conv_card by (rule arg_cong [of _ _ card]) auto

lemma unseen_less:
  assumes "i < SLOTS" and "\<not> bit seen i"
  shows "unseen (mark seen i) < unseen seen"
proof -
  let ?A = "{j. j < SLOTS \<and> \<not> bit (mark seen i) j}" and ?B = "{j. j < SLOTS \<and> \<not> bit seen j}"
  have "?A \<subseteq> ?B" by (simp add: Collect_mono bit_mark [OF assms(1)] cong: conj_cong)
  moreover have "i \<in> ?B" "i \<notin> ?A" using assms by (simp_all add: bit_mark)
  moreover have "finite ?B" by simp
  ultimately have "card ?A < card ?B" by (metis psubsetI psubset_card_mono)
  then show ?thesis by (simp only: unseen_card)
qed

function free_walk :: "nat option \<Rightarrow> (nat \<Rightarrow> nat) \<Rightarrow> nat \<Rightarrow> u32 \<Rightarrow> nat \<Rightarrow> nat option" where
  "free_walk env link node seen count =
     (if node = 0 then Some count
      else case descriptor_index env node of
        None \<Rightarrow> None
      | Some index \<Rightarrow> if bit seen index then None
          else free_walk env link (link node) (mark seen index) (count + 1))"
  by pat_completeness auto

termination
  by (relation "measure (\<lambda>(env, link, node, seen, count). unseen seen)")
     (auto intro: unseen_less index_less)

declare free_walk.simps [simp del]

definition ull_pool_free_count :: "nat option \<Rightarrow> (nat \<Rightarrow> nat) \<Rightarrow> nat option" where
  "ull_pool_free_count env link = (case env of None \<Rightarrow> None | Some e \<Rightarrow> free_walk env link (link e) 0 0)"

section \<open>Reservations\<close>

record pool_reservation =
  pr_descriptors :: "nat option list"
  pr_offsets :: "u16 list"
  pr_memory :: nat
  pr_count :: nat

definition reservation_zero :: pool_reservation where
  "reservation_zero = \<lparr>pr_descriptors = replicate 7 None, pr_offsets = replicate 7 0, pr_memory = 0, pr_count = 0\<rparr>"

text \<open>An allocator answer is a descriptor with the offset stored in it, or nothing.\<close>

fun alloc_loop :: "nat option \<Rightarrow> (nat \<times> u16) option list \<Rightarrow> nat option list \<Rightarrow> nat option list \<times> bool" where
  "alloc_loop env [] owned = (owned, True)"
| "alloc_loop env (None # ans) owned = (owned, True)"
| "alloc_loop env (Some (d, offset) # ans) owned =
     (case descriptor_index env d of
        None \<Rightarrow> (owned, False)
      | Some index \<Rightarrow>
          if owned ! index \<noteq> None then (owned, False)
          else
            let owned = owned[index := Some d] in
            if offset \<noteq> slot_offset index then (owned, False) else alloc_loop env ans owned)"

definition run_at :: "nat option list \<Rightarrow> nat \<Rightarrow> nat \<Rightarrow> bool" where
  "run_at owned count i \<longleftrightarrow> (\<forall>j \<in> set [0..<count]. owned ! (i + j) \<noteq> None)"

definition find_run :: "nat option list \<Rightarrow> nat \<Rightarrow> nat option" where
  "find_run owned count = List.find (run_at owned count) [0..<SLOTS + 1 - count]"

text \<open>The slots' memory must be contiguous; \<open>emi\<close> is the address of an offset.\<close>

definition contiguous :: "(u16 \<Rightarrow> nat) \<Rightarrow> nat \<Rightarrow> nat \<Rightarrow> bool" where
  "contiguous emi start count \<longleftrightarrow>
     (\<forall>i \<in> set [0..<count]. emi (slot_offset (start + i)) = emi (slot_offset start) + 27 * i)"

definition ull_pool_reserve :: "nat option \<Rightarrow> (u16 \<Rightarrow> nat) \<Rightarrow> (nat \<times> u16) option list \<Rightarrow> pool_reservation option \<Rightarrow>
    nat \<Rightarrow> pool_reservation option \<times> bool \<times> u16 list" where
  "ull_pool_reserve env emi answers r count =
     (if r = None \<or> count < 1 \<or> count > 7 then (r, False, [])
      else
        let (owned, valid) = alloc_loop env (take SLOTS answers) (replicate SLOTS None);
            start = (if valid then find_run owned count else None);
            start = (case start of Some st \<Rightarrow> if contiguous emi st count then Some st else None | None \<Rightarrow> None);
            inside = (\<lambda>i. case start of Some st \<Rightarrow> i \<ge> st \<and> i < st + count | None \<Rightarrow> False);
            freed = map slot_offset (filter (\<lambda>i. owned ! i \<noteq> None \<and> \<not> inside i) [0..<SLOTS])
        in case start of
             None \<Rightarrow> (Some reservation_zero, False, freed)
           | Some st \<Rightarrow> (Some \<lparr>pr_descriptors = map (\<lambda>j. if j < count then owned ! (st + j) else None) [0..<7],
                pr_offsets = map (\<lambda>j. if j < count then slot_offset (st + j) else 0) [0..<7],
                pr_memory = emi (slot_offset st), pr_count = count\<rparr>, True, freed))"

text \<open>Releasing from slot \<open>first\<close> on; a slot already released is skipped.\<close>

definition release_one :: "nat \<Rightarrow> pool_reservation \<times> u16 list \<Rightarrow> pool_reservation \<times> u16 list" where
  "release_one i rf = (case rf of (r, freed) \<Rightarrow>
     if pr_descriptors r ! i \<noteq> None
     then (r\<lparr>pr_descriptors := (pr_descriptors r)[i := None]\<rparr>, freed @ [pr_offsets r ! i]) else (r, freed))"

definition ull_pool_release :: "pool_reservation \<Rightarrow> nat \<Rightarrow> pool_reservation \<times> u16 list" where
  "ull_pool_release r first =
     (let (r, freed) = fold release_one [first..<pr_count r] (r, [])
      in (if first = 0 then reservation_zero else r, freed))"

text \<open>
  The self test at start-up. \<open>counts\<close> are the three results of counting the free list, \<open>readback\<close> what the
  189 bytes of slot memory read after the pattern was written.
\<close>

definition pool_pattern :: "nat \<Rightarrow> u8" where
  "pool_pattern i = (if i < 182 then of_nat i XOR 0x5a else 0xa5)"

definition ull_pool_dry_run :: "nat option \<Rightarrow> (u16 \<Rightarrow> nat) \<Rightarrow> (nat \<times> u16) option list \<Rightarrow> nat option \<times> nat option \<times> nat option \<Rightarrow>
    bytes \<Rightarrow> bytes \<times> u16 list" where
  "ull_pool_dry_run env emi answers counts readback =
     (let (before, during, after) = counts;
          num = (\<lambda>c. case c of None \<Rightarrow> 255 | Some k \<Rightarrow> of_nat k);
          res = [0x55, 0x4c, 0x4c, 0x42, 1, num before, 0, 0, 0, 0, 0, 0];
          small = (case before of None \<Rightarrow> True | Some k \<Rightarrow> k < 7) in
      if small then (res[6 := 1], [])
      else case ull_pool_reserve env emi answers (Some reservation_zero) 7 of
        (Some r, True, freed) \<Rightarrow>
          (let pattern = (\<forall>i \<in> set [0..<189]. readback ! i = pool_pattern i);
               (r', released) = ull_pool_release r 0;
               res = res[7 := num during, 8 := num after, 9 := 189, 10 := if pattern then 1 else 0]
           in (if \<not> pattern \<or> after \<noteq> before then res[6 := 2] else res, freed @ released))
      | (_, _, freed) \<Rightarrow> (res[6 := 1], freed))"

section \<open>Properties\<close>

lemma walk_bounded: "count + unseen seen \<le> SLOTS \<Longrightarrow>
    free_walk env link node seen count = Some k \<Longrightarrow> k \<le> SLOTS"
proof (induction env link node seen count rule: free_walk.induct)
  case (1 env link node seen count)
  show ?case
  proof (cases "node = 0")
    case True
    then show ?thesis using 1(2,3) by (subst (asm) free_walk.simps) simp
  next
    case False
    then obtain i where i: "descriptor_index env node = Some i" "\<not> bit seen i"
        "free_walk env link (link node) (mark seen i) (count + 1) = Some k"
      using 1(3) by (subst (asm) free_walk.simps) (auto split: option.splits if_splits)
    then have "count + 1 + unseen (mark seen i) \<le> SLOTS"
      using 1(2) unseen_less [OF index_less [OF i(1)] i(2)] by linarith
    then show ?thesis using 1(1) [OF False i(1,2)] i(3) by blast
  qed
qed

text \<open>Counting the free slots ends whatever the links in memory are, even when they form a cycle or lead
  outside the pool, and a count it returns is at most 20.\<close>

theorem free_count_total:
  shows "ull_pool_free_count env link = None \<or> (\<exists>k \<le> SLOTS. ull_pool_free_count env link = Some k)"
proof -
  have "unseen 0 \<le> SLOTS" by (simp add: unseen_def)
  then show ?thesis
    using walk_bounded [of 0 0 env link]
    by (cases "ull_pool_free_count env link") (auto simp: ull_pool_free_count_def split: option.splits)
qed

lemma alloc_loop_owned:
  assumes "length owned = SLOTS" and "alloc_loop env ans owned = (owned', valid)"
  shows "length owned' = SLOTS \<and> (\<forall>i < SLOTS. owned' ! i \<noteq> owned ! i \<longrightarrow>
    owned ! i = None \<and> (\<exists>d off. Some (d, off) \<in> set ans \<and> owned' ! i = Some d \<and> descriptor_index env d = Some i))"
  using assms
proof (induction env ans owned rule: alloc_loop.induct)
  case (3 env d off ans owned)
  show ?case
  proof (cases "\<exists>i. descriptor_index env d = Some i \<and> owned ! i = None \<and> off = slot_offset i")
    case True
    then obtain i where i: "descriptor_index env d = Some i" "owned ! i = None" "off = slot_offset i" by blast
    then have run: "alloc_loop env ans (owned[i := Some d]) = (owned', valid)" using 3(3) by simp
    have "length owned' = SLOTS \<and> (\<forall>j < SLOTS. owned' ! j \<noteq> owned[i := Some d] ! j \<longrightarrow> owned[i := Some d] ! j = None \<and>
        (\<exists>e o'. Some (e, o') \<in> set ans \<and> owned' ! j = Some e \<and> descriptor_index env e = Some j))"
      using 3(1) [OF i(1) _ refl _ _ run] i 3(2) by simp
    then show ?thesis using i index_less [OF i(1)] 3(2)
      by (auto simp: nth_list_update) (metis option.distinct(1))+
  next
    case False
    then consider "owned' = owned" | i where "descriptor_index env d = Some i" "owned ! i = None" "owned' = owned[i := Some d]"
      using 3(3) by (auto split: option.splits if_splits)
    then show ?thesis
    proof cases
      case 2
      then show ?thesis using index_less [OF 2(1)] 3(2) by (auto simp: nth_list_update)
    qed (use 3(2) in simp)
  qed
qed auto

text \<open>The slots the allocator handed out during a reservation.\<close>

definition taken_slots :: "nat option \<Rightarrow> (nat \<times> u16) option list \<Rightarrow> nat set" where
  "taken_slots env answers =
     {i. i < SLOTS \<and> fst (alloc_loop env (take SLOTS answers) (replicate SLOTS None)) ! i \<noteq> None}"

lemma slot_offset_inj: "i < SLOTS \<Longrightarrow> j < SLOTS \<Longrightarrow> slot_offset i = slot_offset j \<longleftrightarrow> i = j"
proof -
  have "unat (slot_offset i) = 0x1c00 + 27 * i" if "i < SLOTS" for i
    using that by (simp add: slot_offset_def unat_of_nat SLOTS_def del: of_nat_add of_nat_mult)
  then show "i < SLOTS \<Longrightarrow> j < SLOTS \<Longrightarrow> slot_offset i = slot_offset j \<longleftrightarrow> i = j"
    by (metis add_left_cancel mult_cancel1 zero_neq_numeral)
qed

lemma slot_offset_distinct: "distinct xs \<Longrightarrow> set xs \<subseteq> {..<SLOTS} \<Longrightarrow> distinct (map slot_offset xs)"
  by (auto simp: distinct_map inj_on_def slot_offset_inj subset_iff)

lemma find_run_spec:
  assumes "find_run owned count = Some st" and "1 \<le> count" and "count \<le> SLOTS"
  shows "st + count \<le> SLOTS \<and> (\<forall>j < count. owned ! (st + j) \<noteq> None)"
  using assms by (auto simp: find_run_def find_Some_iff run_at_def)

lemma taken_descriptor:
  "i \<in> taken_slots env answers \<Longrightarrow>
   \<exists>d. fst (alloc_loop env (take SLOTS answers) (replicate SLOTS None)) ! i = Some d \<and> descriptor_index env d = Some i"
  using alloc_loop_owned [of "replicate SLOTS None" env "take SLOTS answers"]
  by (cases "alloc_loop env (take SLOTS answers) (replicate SLOTS None)") (force simp: taken_slots_def)

lemma reserve_spec:
  assumes "1 \<le> count" and "count \<le> 7"
    and run: "ull_pool_reserve env emi answers (Some r) count = (r', ok, freed)"
  shows "(\<not> ok \<longrightarrow> r' = Some reservation_zero \<and>
            freed = map slot_offset (filter (\<lambda>i. i \<in> taken_slots env answers) [0..<SLOTS])) \<and>
    (ok \<longrightarrow> (\<exists>st p. r' = Some p \<and> st + count \<le> SLOTS \<and> {st..<st + count} \<subseteq> taken_slots env answers \<and>
       pr_count p = count \<and> length (pr_descriptors p) = 7 \<and>
       (\<forall>j < count. pr_offsets p ! j = slot_offset (st + j) \<and> emi (pr_offsets p ! j) = pr_memory p + 27 * j \<and>
          (\<exists>d. pr_descriptors p ! j = Some d \<and> descriptor_index env d = Some (st + j))) \<and>
       freed = map slot_offset (filter (\<lambda>i. i \<in> taken_slots env answers \<and> i \<notin> {st..<st + count}) [0..<SLOTS])))"
proof -
  obtain owned valid where al: "alloc_loop env (take SLOTS answers) (replicate SLOTS None) = (owned, valid)"
    by (cases "alloc_loop env (take SLOTS answers) (replicate SLOTS None)") auto
  have own: "i \<in> taken_slots env answers \<longleftrightarrow> owned ! i \<noteq> None" if "i < SLOTS" for i
    using that by (simp add: taken_slots_def al)
  define start where "start = (case (if valid then find_run owned count else None) of
      Some st \<Rightarrow> if contiguous emi st count then Some st else None | None \<Rightarrow> None)"
  have count: "\<not> (count < 1 \<or> count > 7)" using assms by simp
  note def = run [unfolded ull_pool_reserve_def al Let_def prod.case start_def [symmetric]]
  show ?thesis
  proof (cases start)
    case None
    then have "\<not> ok" "r' = Some reservation_zero" "freed = map slot_offset (filter (\<lambda>i. owned ! i \<noteq> None) [0..<SLOTS])"
      using def count by auto
    moreover have "filter (\<lambda>i. owned ! i \<noteq> None) [0..<SLOTS] = filter (\<lambda>i. i \<in> taken_slots env answers) [0..<SLOTS]"
      using own by (intro filter_cong) auto
    ultimately show ?thesis by simp
  next
    case (Some st)
    then have st: "find_run owned count = Some st" "contiguous emi st count"
      by (auto simp: start_def split: if_splits option.splits)
    have "count \<le> SLOTS" using assms(2) by (simp add: SLOTS_def)
    note fr = find_run_spec [OF st(1) assms(1) this]
    let ?p = "\<lparr>pr_descriptors = map (\<lambda>j. if j < count then owned ! (st + j) else None) [0..<7],
                pr_offsets = map (\<lambda>j. if j < count then slot_offset (st + j) else 0) [0..<7],
                pr_memory = emi (slot_offset st), pr_count = count\<rparr>"
    have res: "ok" "r' = Some ?p"
        "freed = map slot_offset (filter (\<lambda>i. owned ! i \<noteq> None \<and> \<not> (i \<ge> st \<and> i < st + count)) [0..<SLOTS])"
      using def count Some by auto
    have in_run: "st + j \<in> taken_slots env answers" if "j < count" for j using fr own that by auto
    have sub: "{st..<st + count} \<subseteq> taken_slots env answers"
    proof
      fix i assume "i \<in> {st..<st + count}"
      then show "i \<in> taken_slots env answers" using in_run [of "i - st"] by auto
    qed
    define p where "p = ?p"
    have each: "pr_offsets p ! j = slot_offset (st + j) \<and> emi (pr_offsets p ! j) = pr_memory p + 27 * j \<and>
        (\<exists>d. pr_descriptors p ! j = Some d \<and> descriptor_index env d = Some (st + j))" if "j < count" for j
      unfolding p_def using that assms(2) st(2) taken_descriptor [OF in_run [OF that]] by (auto simp: contiguous_def al)
    have "filter (\<lambda>i. owned ! i \<noteq> None \<and> \<not> (i \<ge> st \<and> i < st + count)) [0..<SLOTS] =
        filter (\<lambda>i. i \<in> taken_slots env answers \<and> i \<notin> {st..<st + count}) [0..<SLOTS]"
      using own by (intro filter_cong) auto
    then have "freed = map slot_offset (filter (\<lambda>i. i \<in> taken_slots env answers \<and> i \<notin> {st..<st + count}) [0..<SLOTS])"
      using res(3) by simp
    moreover have "pr_count p = count" "length (pr_descriptors p) = 7" by (simp_all add: p_def)
    moreover have "\<forall>j < count. pr_offsets p ! j = slot_offset (st + j) \<and> emi (pr_offsets p ! j) = pr_memory p + 27 * j \<and>
        (\<exists>d. pr_descriptors p ! j = Some d \<and> descriptor_index env d = Some (st + j))"
      using each by blast
    moreover note res(1,2) [folded p_def] sub fr
    ultimately show ?thesis by blast
  qed
qed

lemma release_fold:
  assumes "length (pr_descriptors r) = 7" and "\<forall>j < n. pr_descriptors r ! j \<noteq> None" and "n \<le> 7"
  shows "\<exists>r'. fold release_one [0..<n] (r, fs) = (r', fs @ map ((!) (pr_offsets r)) [0..<n]) \<and>
    (\<forall>j < n. pr_descriptors r' ! j = None) \<and> length (pr_descriptors r') = 7 \<and>
    pr_offsets r' = pr_offsets r \<and> (\<forall>j \<ge> n. pr_descriptors r' ! j = pr_descriptors r ! j)"
  using assms
proof (induction n)
  case (Suc n)
  then obtain r' where r': "fold release_one [0..<n] (r, fs) = (r', fs @ map ((!) (pr_offsets r)) [0..<n])"
    "\<forall>j < n. pr_descriptors r' ! j = None" "length (pr_descriptors r') = 7"
    "pr_offsets r' = pr_offsets r" "\<forall>j \<ge> n. pr_descriptors r' ! j = pr_descriptors r ! j"
    by auto
  then have "pr_descriptors r' ! n \<noteq> None" using Suc.prems by simp
  then have "fold release_one [0..<Suc n] (r, fs) =
      (r'\<lparr>pr_descriptors := (pr_descriptors r')[n := None]\<rparr>, fs @ map ((!) (pr_offsets r)) [0..<Suc n])"
    using r' by (simp add: release_one_def)
  then show ?case using r' Suc.prems by (auto simp: nth_list_update less_Suc_eq)
qed auto

lemma release_all:
  assumes "length (pr_descriptors r) = 7" and "\<forall>j < pr_count r. pr_descriptors r ! j \<noteq> None" and "pr_count r \<le> 7"
  shows "ull_pool_release r 0 = (reservation_zero, map ((!) (pr_offsets r)) [0..<pr_count r])"
  using release_fold [OF assms, of "[]"] by (auto simp: ull_pool_release_def)

lemma reserve_freed:
  assumes "1 \<le> count" and "count \<le> 7"
  shows "case ull_pool_reserve env emi answers (Some r) count of (r', ok, freed) \<Rightarrow>
    (\<not> ok \<longrightarrow> r' = Some reservation_zero \<and> distinct freed \<and> set freed = slot_offset ` taken_slots env answers) \<and>
    (ok \<longrightarrow> (\<exists>p. r' = Some p \<and> pr_count p = count \<and>
       (\<forall>j < count. emi (pr_offsets p ! j) = pr_memory p + 27 * j) \<and>
       ull_pool_release p 0 = (reservation_zero, map ((!) (pr_offsets p)) [0..<count]) \<and>
       distinct (freed @ map ((!) (pr_offsets p)) [0..<count]) \<and>
       set (freed @ map ((!) (pr_offsets p)) [0..<count]) = slot_offset ` taken_slots env answers))"
proof -
  obtain r' ok freed where run: "ull_pool_reserve env emi answers (Some r) count = (r', ok, freed)"
    by (cases "ull_pool_reserve env emi answers (Some r) count") auto
  note spec = reserve_spec [OF assms run]
  have small: "taken_slots env answers \<subseteq> {..<SLOTS}" by (auto simp: taken_slots_def)
  have dist: "distinct (map slot_offset (filter P [0..<SLOTS]))" for P
    by (rule slot_offset_distinct) auto
  show ?thesis
  proof (cases ok)
    case False
    then show ?thesis using spec dist small by (auto simp: run)
  next
    case True
    then obtain st p where p: "r' = Some p" "st + count \<le> SLOTS" "{st..<st + count} \<subseteq> taken_slots env answers"
      "pr_count p = count" "length (pr_descriptors p) = 7"
      "\<forall>j < count. pr_offsets p ! j = slot_offset (st + j) \<and> emi (pr_offsets p ! j) = pr_memory p + 27 * j \<and>
          (\<exists>d. pr_descriptors p ! j = Some d \<and> descriptor_index env d = Some (st + j))"
      "freed = map slot_offset (filter (\<lambda>i. i \<in> taken_slots env answers \<and> i \<notin> {st..<st + count}) [0..<SLOTS])"
      using spec by blast
    have "\<forall>j < pr_count p. pr_descriptors p ! j \<noteq> None" using p(4,6) by auto
    then have rel: "ull_pool_release p 0 = (reservation_zero, map ((!) (pr_offsets p)) [0..<count])"
      using release_all [OF p(5)] p(4) assms(2) by simp
    have "map ((!) (pr_offsets p)) [0..<count] = map (\<lambda>j. slot_offset (st + j)) [0..<count]"
      using p(6) by (intro map_cong) auto
    also have "\<dots> = map slot_offset [st..<st + count]"
      by (rule nth_equalityI) simp_all
    finally have offs: "map ((!) (pr_offsets p)) [0..<count] = map slot_offset [st..<st + count]" .
    have eq: "freed @ map ((!) (pr_offsets p)) [0..<count] =
        map slot_offset (filter (\<lambda>i. i \<in> taken_slots env answers \<and> i \<notin> {st..<st + count}) [0..<SLOTS] @ [st..<st + count])"
      using p(7) by (simp add: offs)
    have "distinct (freed @ map ((!) (pr_offsets p)) [0..<count])"
      unfolding eq using p(2) by (intro slot_offset_distinct) auto
    moreover have "set (freed @ map ((!) (pr_offsets p)) [0..<count]) = slot_offset ` taken_slots env answers"
    proof -
      have "set (filter (\<lambda>i. i \<in> taken_slots env answers \<and> i \<notin> {st..<st + count}) [0..<SLOTS]) \<union> {st..<st + count} =
          taken_slots env answers"
        using p(3) small by auto
      then show ?thesis by (simp only: eq set_append set_map set_upt image_Un [symmetric])
    qed
    moreover have "\<forall>j < count. emi (pr_offsets p ! j) = pr_memory p + 27 * j" using p(6) by blast
    ultimately show ?thesis
      using True p(1,4) rel by (simp only: run) simp
  qed
qed

text \<open>No slot is lost or freed twice, whatever the ROM allocator answers: a reservation that fails has given
  back every slot it took, exactly once; one that succeeds holds consecutive slots whose memory is
  contiguous and has given back all others exactly once; and releasing it then completes the count, so
  that the slots freed are exactly the slots taken, each once.\<close>

theorem reserve_conserves:
  assumes "1 \<le> count" and "count \<le> 7"
  shows "case ull_pool_reserve env emi answers (Some r) count of (r', ok, freed) \<Rightarrow>
    (\<not> ok \<longrightarrow> r' = Some reservation_zero \<and> distinct freed \<and> set freed = slot_offset ` taken_slots env answers) \<and>
    (ok \<longrightarrow> (\<exists>p released. r' = Some p \<and> pr_count p = count \<and>
       (\<forall>j < count. emi (pr_offsets p ! j) = pr_memory p + 27 * j) \<and>
       ull_pool_release p 0 = (reservation_zero, released) \<and>
       distinct (freed @ released) \<and> set (freed @ released) = slot_offset ` taken_slots env answers))"
  using reserve_freed [OF assms, where env = env and emi = emi and answers = answers and r = r] by (auto split: prod.splits)

lemma empty_pool: "find_run (replicate SLOTS None) (Suc k) = None"
proof -
  have "\<not> run_at (replicate SLOTS None) (Suc k) i" if "i \<in> set [0..<SLOTS + 1 - Suc k]" for i
    using that by (auto simp: run_at_def intro!: bexI [of _ 0])
  then show ?thesis unfolding find_run_def find_None_iff by blast
qed

lemma reserve_conserves_witness:
  "ull_pool_reserve (Some 1000) unat [None] (Some reservation_zero) 2 = (Some reservation_zero, False, []) \<and>
   slot_offset ` taken_slots (Some 1000) [None] = {}"
proof -
  have run: "ull_pool_reserve (Some 1000) unat [None] (Some reservation_zero) 2 = (Some reservation_zero, False, [])"
    using empty_pool [of 1] by (simp add: ull_pool_reserve_def SLOTS_def numeral_2_eq_2)
  then show ?thesis
    using reserve_conserves [where count = 2 and env = "Some 1000" and emi = unat and answers = "[None]" and r = reservation_zero]
    by (simp add: run)
qed

end
