(* ===== verification/CodecWire.thy ===== *)
theory CodecWire
  imports AirFrame
begin

text \<open>
  Model of \<^verbatim>\<open>codec_wire.h\<close>, the frame both processors exchange over SPI: 1280 bytes, a magic
  number, version 2, flags, status, session, sequence and radio frame in little-endian words, and a
  CRC-32 in the last four bytes. The CRC routine is in ROM and is the parameter \<open>crc\<close>; the firmware
  checks at start-up that it gives \<open>0xcbf43926\<close> on the digits 1 to 9.
\<close>

definition CW_BYTES :: nat where "CW_BYTES = 1280"
definition CW_CRC :: nat where "CW_CRC = 1276"
definition CW_PLAY_IN :: nat where "CW_PLAY_IN = 32"
definition CW_MIC_IN :: nat where "CW_MIC_IN = 992"
definition CW_PLAY_OUT :: nat where "CW_PLAY_OUT = 32"
definition CW_MIC_OUT :: nat where "CW_MIC_OUT = 224"
definition CW_PLAY :: u8 where "CW_PLAY = 1"
definition CW_MIC :: u8 where "CW_MIC = 2"
definition CW_PLC :: u8 where "CW_PLC = 4"
definition CW_RESET :: u8 where "CW_RESET = 8"
definition CW_OK :: u8 where "CW_OK = 0"
definition CW_BAD_WIRE :: u8 where "CW_BAD_WIRE = 1"
definition CW_ENCODE_ERROR :: u8 where "CW_ENCODE_ERROR = 2"
definition CW_DECODE_ERROR :: u8 where "CW_DECODE_ERROR = 4"
definition CW_NOT_READY :: u8 where "CW_NOT_READY = 8"
definition CW_REQUEST :: u32 where "CW_REQUEST = 0x31513244"
definition CW_RESPONSE :: u32 where "CW_RESPONSE = 0x31523244"

lemmas cw_sizes = CW_BYTES_def CW_CRC_def CW_PLAY_IN_def CW_MIC_IN_def CW_PLAY_OUT_def CW_MIC_OUT_def
lemmas cw_flags = CW_PLAY_def CW_MIC_def CW_PLC_def CW_RESET_def
lemmas cw_status = CW_OK_def CW_BAD_WIRE_def CW_ENCODE_ERROR_def CW_DECODE_ERROR_def CW_NOT_READY_def

definition cw_get32 :: "bytes \<Rightarrow> nat \<Rightarrow> u32" where "cw_get32 f i = get32 f i"

definition cw_put32 :: "bytes \<Rightarrow> nat \<Rightarrow> u32 \<Rightarrow> bytes" where "cw_put32 f i x = memcpy_at f i (put32 x)"

definition cw_begin :: "u32 \<Rightarrow> u8 \<Rightarrow> u8 \<Rightarrow> u32 \<Rightarrow> u32 \<Rightarrow> u32 \<Rightarrow> bytes" where
  "cw_begin magic flags status session sq radio_frame =
     (let f = replicate CW_BYTES 0;
          f = cw_put32 f 0 magic;
          f = f[4 := 2, 5 := flags, 6 := status];
          f = cw_put32 f 8 session;
          f = cw_put32 f 12 sq
      in cw_put32 f 16 radio_frame)"

definition cw_seal :: "(bytes \<Rightarrow> u32) \<Rightarrow> bytes \<Rightarrow> bytes" where
  "cw_seal crc f = cw_put32 f CW_CRC (crc (take CW_CRC f))"

definition cw_valid :: "(bytes \<Rightarrow> u32) \<Rightarrow> bytes \<Rightarrow> u32 \<Rightarrow> bool" where
  "cw_valid crc f magic \<longleftrightarrow> cw_get32 f 0 = magic \<and> f ! 4 = 2 \<and> f ! 7 = 0 \<and> f ! 5 AND 0xf0 = 0 \<and>
     cw_get32 f CW_CRC = crc (take CW_CRC f)"

section \<open>Reading the header back\<close>

lemma length_put32_at [simp]: "i + 4 \<le> length f \<Longrightarrow> length (cw_put32 f i x) = length f"
  by (simp add: cw_put32_def mem_simps)

lemma nth_put32_other: "i + 4 \<le> length f \<Longrightarrow> j < length f \<Longrightarrow> j < i \<or> i + 4 \<le> j \<Longrightarrow> cw_put32 f i x ! j = f ! j"
  by (auto simp: cw_put32_def mem_simps)

lemma get32_put32_at: "i + 4 \<le> length f \<Longrightarrow> cw_get32 (cw_put32 f i x) i = x"
  by (simp add: cw_get32_def cw_put32_def le_simps)

lemma get32_put32_other: "i + 4 \<le> length f \<Longrightarrow> j + 4 \<le> length f \<Longrightarrow> j + 4 \<le> i \<or> i + 4 \<le> j \<Longrightarrow>
    cw_get32 (cw_put32 f i x) j = cw_get32 f j"
  by (simp add: cw_get32_def cw_put32_def le_simps)

lemma get32_update: "j < i \<or> i + 3 < j \<Longrightarrow> cw_get32 (f[j := b]) i = cw_get32 f i"
  by (elim disjE) (simp_all add: cw_get32_def get32_def)

lemma length_begin [simp]: "length (cw_begin magic flags status session sq rf) = CW_BYTES"
  by (simp add: cw_begin_def Let_def CW_BYTES_def)

lemma begin_header:
  "cw_get32 (cw_begin magic flags status session sq rf) 0 = magic"
  "cw_begin magic flags status session sq rf ! 4 = 2" "cw_begin magic flags status session sq rf ! 5 = flags"
  "cw_begin magic flags status session sq rf ! 6 = status" "cw_begin magic flags status session sq rf ! 7 = 0"
  "cw_get32 (cw_begin magic flags status session sq rf) 8 = session"
  "cw_get32 (cw_begin magic flags status session sq rf) 12 = sq"
  "cw_get32 (cw_begin magic flags status session sq rf) 16 = rf"
  by (simp_all add: cw_begin_def Let_def CW_BYTES_def get32_put32_at get32_put32_other get32_update nth_put32_other)

lemma seal_keeps:
  assumes "length f = CW_BYTES"
  shows "take CW_CRC (cw_seal crc f) = take CW_CRC f" and "i < CW_CRC \<Longrightarrow> cw_seal crc f ! i = f ! i"
    and "i + 4 \<le> CW_CRC \<Longrightarrow> cw_get32 (cw_seal crc f) i = cw_get32 f i"
    and "cw_get32 (cw_seal crc f) CW_CRC = crc (take CW_CRC f)" and "length (cw_seal crc f) = CW_BYTES"
  using assms
  by (simp_all add: cw_seal_def cw_sizes get32_put32_at get32_put32_other nth_put32_other)
     (simp add: cw_put32_def memcpy_at_def)

lemma seal_valid:
  assumes "length f = CW_BYTES" and "cw_get32 f 0 = magic" and "f ! 4 = 2" and "f ! 7 = 0" and "f ! 5 AND 0xf0 = 0"
  shows "cw_valid crc (cw_seal crc f) magic"
  using assms seal_keeps [OF assms(1)] by (simp add: cw_valid_def CW_CRC_def)

text \<open>What is used of the ROM routine beyond being a function: data that differ in one byte have different sums.\<close>

definition crc_law :: "(bytes \<Rightarrow> u32) \<Rightarrow> bool" where
  "crc_law crc \<longleftrightarrow> (\<forall>xs a b ys. a \<noteq> b \<longrightarrow> crc (xs @ a # ys) \<noteq> crc (xs @ b # ys))"

lemma crc_law_crc32: "crc_law (crc32_continue 0)"
  by (simp add: crc_law_def crc32_continue_detects_byte)

text \<open>C26: A sealed frame with a well-formed header is accepted by the other side and gives back the session,
  sequence, flags, status and radio frame written; and a sealed frame in which any single byte was changed
  is rejected, for any CRC that tells apart data differing in one byte.\<close>

theorem wire_roundtrip:
  assumes "crc_law crc" and "flags AND 0xf0 = 0" and "f = cw_seal crc (cw_begin magic flags status session sq rf)"
    and "k < CW_BYTES" and "b \<noteq> f ! k"
  shows "cw_valid crc f magic \<and> f ! 5 = flags \<and> f ! 6 = status \<and> cw_get32 f 8 = session \<and>
    cw_get32 f 12 = sq \<and> cw_get32 f 16 = rf \<and> \<not> cw_valid crc (f[k := b]) magic"
proof -
  let ?g = "cw_begin magic flags status session sq rf"
  note keep = seal_keeps [OF length_begin, where crc = crc]
  have ok: "cw_valid crc f magic"
    unfolding assms(3) by (rule seal_valid) (simp_all add: begin_header assms(2))
  have len: "length f = CW_BYTES" by (simp add: assms(3) keep(5))
  have "\<not> cw_valid crc (f[k := b]) magic"
  proof
    assume "cw_valid crc (f[k := b]) magic"
    then have sum: "cw_get32 (f[k := b]) CW_CRC = crc (take CW_CRC (f[k := b]))" by (simp add: cw_valid_def)
    show False
    proof (cases "k < CW_CRC")
      case True
      have "take CW_CRC f = take k f @ f ! k # drop (Suc k) (take CW_CRC f)"
        using True len id_take_nth_drop [of k "take CW_CRC f"] by (simp add: min_def cw_sizes)
      moreover have "take CW_CRC (f[k := b]) = take k f @ b # drop (Suc k) (take CW_CRC f)"
        using True len upd_conv_take_nth_drop [of k "take CW_CRC f" b]
        by (simp add: take_update_swap min_def cw_sizes)
      moreover have "cw_get32 (f[k := b]) CW_CRC = cw_get32 f CW_CRC" using True by (simp add: get32_update)
      moreover have "cw_get32 f CW_CRC = crc (take CW_CRC f)" using ok by (simp add: cw_valid_def)
      ultimately show False using sum assms(1,5) unfolding crc_law_def by metis
    next
      case False
      then have "take CW_CRC (f[k := b]) = take CW_CRC f" by simp
      then have "cw_get32 (f[k := b]) CW_CRC = cw_get32 f CW_CRC"
        using sum ok by (simp add: cw_valid_def)
      moreover obtain j where "k = CW_CRC + j" "j < 4"
        using False assms(4) by (intro that [of "k - CW_CRC"]) (simp_all add: cw_sizes)
      ultimately have "f[k := b] ! k = f ! k"
        unfolding cw_get32_def using get32_inj by metis
      then show False using assms(4,5) len by simp
    qed
  qed
  then show ?thesis using ok keep by (simp add: assms(3) begin_header cw_sizes)
qed

lemma wire_roundtrip_witness:
  "cw_valid (crc32_continue 0) (cw_seal (crc32_continue 0) (cw_begin CW_REQUEST 3 0 7 9 11)) CW_REQUEST \<and>
   \<not> cw_valid (crc32_continue 0) ((cw_seal (crc32_continue 0) (cw_begin CW_REQUEST 3 0 7 9 11))[5 := 2]) CW_REQUEST"
proof -
  let ?f = "cw_seal (crc32_continue 0) (cw_begin CW_REQUEST 3 0 7 9 11)"
  have "(2 :: u8) \<noteq> ?f ! 5"
    using seal_keeps(2) [OF length_begin, of 5] by (simp add: CW_CRC_def begin_header)
  then show ?thesis
    using wire_roundtrip [OF crc_law_crc32 _ refl, where flags = 3 and k = 5 and b = 2 and magic = CW_REQUEST and
        status = 0 and session = 7 and sq = 9 and rf = 11] by (simp add: CW_BYTES_def)
qed

end
