(* ===== verification/PcmCodec.thy ===== *)
theory PcmCodec
  imports UsbPcm
begin

text \<open>
  Model of \<^verbatim>\<open>resample_2x.c\<close>, \<^verbatim>\<open>pcm_codec.c\<close> and \<^verbatim>\<open>mic_codec.c\<close> of the codec processor: the
  doubling of the sample rate before the encoder, the life cycle around the LC3plus encoder and
  decoder (a library that is not part of the repository), and the 3:2 conversion of the decoded
  microphone. The LC3plus calls are arguments of the definitions that make them. Samples in the
  resampler are integers: the code holds them as floats that represent them exactly; the float sum of the
  half-band filter with its rounding bias, converted to an integer, is the parameter \<open>acc\<close> of the fifteen
  pair sums.
\<close>

section \<open>Doubling the rate\<close>

record resample_2x =
  rs_history :: "int list list"
  rs_newest :: nat
  rs_clips :: nat

definition resample_zero :: resample_2x where
  "resample_zero = \<lparr>rs_history = replicate 2 (replicate 64 0), rs_newest = 0, rs_clips = 0\<rparr>"

definition round_clip :: "int \<Rightarrow> nat \<Rightarrow> i16 \<times> nat" where
  "round_clip rounded clips =
     (if rounded > 32767 then (32767, clips + 1)
      else if rounded < - 32768 then (of_int (- 32768), clips + 1)
      else (of_int rounded, clips))"

definition pair_sums :: "int list \<Rightarrow> nat \<Rightarrow> int list" where
  "pair_sums h newest = map (\<lambda>k. h ! (newest + 32 - k) + h ! (newest + 32 - 31 + k)) [1..<16]"

text \<open>One channel of one input frame: the mirrored history, the even and the odd output sample.\<close>

definition resample_channel :: "(int list \<Rightarrow> int) \<Rightarrow> nat \<Rightarrow> int list \<Rightarrow> int \<Rightarrow> nat \<Rightarrow> int list \<times> i16 \<times> i16 \<times> nat" where
  "resample_channel acc newest h sample clips =
     (let h = h[newest := sample];
          h = h[newest + 32 := sample];
          (even_out, clips) = round_clip (acc (pair_sums h newest)) clips
      in (h, even_out, of_int (h ! (newest + 32 - 15)), clips))"

definition resample_frame :: "(int list \<Rightarrow> int) \<Rightarrow> resample_2x \<Rightarrow> int \<times> int \<Rightarrow> resample_2x \<times> i16 list \<times> i16 list" where
  "resample_frame acc s x =
     (let newest = (rs_newest s + 1) mod 32;
          (h0, e0, o0, clips) = resample_channel acc newest (rs_history s ! 0) (fst x) (rs_clips s);
          (h1, e1, o1, clips) = resample_channel acc newest (rs_history s ! 1) (snd x) clips
      in (\<lparr>rs_history = [h0, h1], rs_newest = newest, rs_clips = clips\<rparr>, [e0, o0], [e1, o1]))"

fun resample_2x_process :: "(int list \<Rightarrow> int) \<Rightarrow> resample_2x \<Rightarrow> (int \<times> int) list \<Rightarrow> resample_2x \<times> i16 list \<times> i16 list" where
  "resample_2x_process acc s [] = (s, [], [])"
| "resample_2x_process acc s (x # xs) =
     (let (s, l, r) = resample_frame acc s x; (s, ls, rs) = resample_2x_process acc s xs
      in (s, l @ ls, r @ rs))"

text \<open>The interleaved input; a null input is silence.\<close>

definition frames_in :: "i16 list option \<Rightarrow> nat \<Rightarrow> (int \<times> int) list" where
  "frames_in x n = (case x of None \<Rightarrow> replicate n (0, 0)
     | Some s \<Rightarrow> map (\<lambda>k. (sint (s ! (2 * k)), sint (s ! (2 * k + 1)))) [0..<n])"

section \<open>The filter seen as a sliding window\<close>

text \<open>The window of a channel: its 32 newest samples, newest first.\<close>

definition recent :: "int list \<Rightarrow> nat \<Rightarrow> int list" where
  "recent h newest = map (\<lambda>k. h ! (newest + 32 - k)) [0..<32]"

definition mirrored :: "int list \<Rightarrow> bool" where
  "mirrored h \<longleftrightarrow> length h = 64 \<and> (\<forall>k < 32. h ! k = h ! (k + 32))"

definition slide :: "int list \<Rightarrow> int \<Rightarrow> int list" where "slide w x = x # take 31 w"

lemma mirrored_mod: "mirrored h \<Longrightarrow> j < 64 \<Longrightarrow> h ! j = h ! (j mod 32)"
proof (cases "j < 32")
  case False
  assume "mirrored h" "j < 64"
  moreover obtain i where "j = i + 32" "i < 32" using False \<open>j < 64\<close> by (metis add.commute le_Suc_ex not_less
        nat_add_left_cancel_less numeral_Bit0)
  ultimately show ?thesis by (simp add: mirrored_def)
qed simp

lemma recent_slide:
  fixes h :: "int list" and n :: nat and x :: int
  assumes m: "mirrored h" and n: "n < 32"
  defines "n' \<equiv> (n + 1) mod 32"
  defines "h' \<equiv> h[n' := x, n' + 32 := x]"
  shows "mirrored h'" and "recent h' n' = slide (recent h n) x"
proof -
  have n': "n' < 32" by (simp add: n'_def)
  have len: "length h = 64" using m by (simp add: mirrored_def)
  show m': "mirrored h'"
    using m n' by (auto simp: mirrored_def h'_def nth_list_update)
  show "recent h' n' = slide (recent h n) x"
  proof (rule nth_equalityI)
    fix k
    assume "k < length (recent h' n')"
    then have k: "k < 32" by (simp add: recent_def)
    show "recent h' n' ! k = slide (recent h n) x ! k"
    proof (cases k)
      case 0
      then show ?thesis using n' len by (simp add: recent_def slide_def h'_def)
    next
      case (Suc j)
      let ?i = "n' + 32 - k"
      have i: "?i < 64" "?i \<noteq> n'" "?i \<noteq> n' + 32" using k n' Suc by auto
      have "(n' + 32 - k) mod 32 = (n + 32 - j) mod 32"
      proof (cases "n = 31")
        case True
        then have "n + 32 - j = (31 - j) + 32" and "n' + 32 - k = 31 - j" using k Suc by (simp_all add: n'_def)
        then show ?thesis by (simp only: mod_add_self2)
      next
        case False
        then have "n' = n + 1" using n by (simp add: n'_def)
        then show ?thesis using Suc by (simp add: add.commute)
      qed
      then have "h ! ?i = h ! (n + 32 - j)"
        using mirrored_mod [OF m, of ?i] mirrored_mod [OF m, of "n + 32 - j"] i(1) n k Suc by simp
      then show ?thesis using i k Suc len by (simp add: recent_def slide_def h'_def)
    qed
  qed (simp add: recent_def slide_def)
qed

lemma pair_sums_recent:
  "pair_sums h n = map (\<lambda>k. recent h n ! k + recent h n ! (31 - k)) [1..<16]"
  unfolding pair_sums_def by (rule map_cong) (auto simp: recent_def)

text \<open>The reference: a filter over the stream of all samples so far, newest first, silent before the start.\<close>

definition past :: "int list \<Rightarrow> nat \<Rightarrow> int" where "past w k = (if k < length w then w ! k else 0)"

definition reference_channel :: "(int list \<Rightarrow> int) \<Rightarrow> int list \<Rightarrow> i16 list" where
  "reference_channel acc w =
     [fst (round_clip (acc (map (\<lambda>k. past w k + past w (31 - k)) [1..<16])) 0), of_int (past w 15)]"

fun reference :: "(int list \<Rightarrow> int) \<Rightarrow> int list \<Rightarrow> int list \<Rightarrow> i16 list" where
  "reference acc w [] = []"
| "reference acc w (x # xs) = reference_channel acc (x # w) @ reference acc (x # w) xs"

definition history_of :: "int list \<Rightarrow> nat \<Rightarrow> int list \<Rightarrow> bool" where
  "history_of h n w \<longleftrightarrow> mirrored h \<and> n < 32 \<and> (\<forall>k < 32. recent h n ! k = past w k)"

lemma history_slide:
  assumes "history_of h n w"
  defines "n' \<equiv> (n + 1) mod 32"
  shows "history_of (h[n' := x, n' + 32 := x]) n' (x # w)"
proof -
  have "recent (h[n' := x, n' + 32 := x]) n' ! k = past (x # w) k" if "k < 32" for k
    using recent_slide(2) [of h n x] assms that
    by (cases k) (auto simp: history_of_def slide_def past_def recent_def)
  then show ?thesis
    using recent_slide(1) [of h n x] assms by (simp add: history_of_def)
qed

lemma channel_reference:
  assumes "history_of h n w"
  defines "n' \<equiv> (n + 1) mod 32"
  shows "\<exists>clips'. resample_channel acc n' h x clips =
    (h[n' := x, n' + 32 := x], reference_channel acc (x # w) ! 0, reference_channel acc (x # w) ! 1, clips')"
proof -
  let ?h = "h[n' := x, n' + 32 := x]"
  have hs: "history_of ?h n' (x # w)" unfolding n'_def by (rule history_slide [OF assms(1)])
  then have r: "k < 32 \<Longrightarrow> recent ?h n' ! k = past (x # w) k" for k by (simp add: history_of_def)
  have "pair_sums ?h n' = map (\<lambda>k. past (x # w) k + past (x # w) (31 - k)) [1..<16]"
    unfolding pair_sums_recent by (rule map_cong) (auto simp: r)
  moreover have "?h ! (n' + 32 - 15) = past (x # w) 15" using r [of 15] by (simp add: recent_def)
  moreover have "fst (round_clip v c) = fst (round_clip v 0)" for v c by (simp add: round_clip_def)
  ultimately show ?thesis
    by (auto simp: resample_channel_def reference_channel_def Let_def case_prod_beta simp del: list_update_overwrite)
qed

definition resampler_of :: "resample_2x \<Rightarrow> int list \<Rightarrow> int list \<Rightarrow> bool" where
  "resampler_of s wl wr \<longleftrightarrow> length (rs_history s) = 2 \<and>
     history_of (rs_history s ! 0) (rs_newest s) wl \<and> history_of (rs_history s ! 1) (rs_newest s) wr"

lemma resampler_zero: "resampler_of resample_zero [] []"
  by (auto simp: resampler_of_def resample_zero_def history_of_def mirrored_def recent_def past_def)

lemma frame_reference:
  assumes "resampler_of s wl wr"
  shows "\<exists>s'. resample_frame acc s x = (s', reference_channel acc (fst x # wl), reference_channel acc (snd x # wr)) \<and>
    resampler_of s' (fst x # wl) (snd x # wr)"
proof -
  let ?n = "(rs_newest s + 1) mod 32" and ?h0 = "rs_history s ! 0" and ?h1 = "rs_history s ! 1"
  have h: "history_of ?h0 (rs_newest s) wl" "history_of ?h1 (rs_newest s) wr"
    using assms by (simp_all add: resampler_of_def)
  obtain c0 where c0: "resample_channel acc ?n ?h0 (fst x) (rs_clips s) = (?h0[?n := fst x, ?n + 32 := fst x],
      reference_channel acc (fst x # wl) ! 0, reference_channel acc (fst x # wl) ! 1, c0)"
    using channel_reference [OF h(1)] by blast
  obtain c1 where c1: "resample_channel acc ?n ?h1 (snd x) c0 = (?h1[?n := snd x, ?n + 32 := snd x],
      reference_channel acc (snd x # wr) ! 0, reference_channel acc (snd x # wr) ! 1, c1)"
    using channel_reference [OF h(2)] by blast
  have two: "[reference_channel acc w ! 0, reference_channel acc w ! 1] = reference_channel acc w" for w
    by (simp add: reference_channel_def)
  show ?thesis
    using c0 c1 two history_slide [OF h(1), of "fst x"] history_slide [OF h(2), of "snd x"]
    by (simp add: resample_frame_def Let_def resampler_of_def del: One_nat_def)
qed

lemma process_reference:
  "resampler_of s wl wr \<Longrightarrow>
   \<exists>s'. resample_2x_process acc s xs = (s', reference acc wl (map fst xs), reference acc wr (map snd xs)) \<and>
     resampler_of s' (rev (map fst xs) @ wl) (rev (map snd xs) @ wr)"
proof (induction xs arbitrary: s wl wr)
  case (Cons x xs)
  obtain s' where s': "resample_frame acc s x = (s', reference_channel acc (fst x # wl), reference_channel acc (snd x # wr))"
    "resampler_of s' (fst x # wl) (snd x # wr)"
    using frame_reference [OF Cons.prems] by blast
  show ?case using Cons.IH [OF s'(2)] s'(1) by auto
qed simp

lemma reference_append: "reference acc w (xs @ ys) = reference acc w xs @ reference acc (rev xs @ w) ys"
  by (induction xs arbitrary: w) simp_all

text \<open>C37: The resampler with its circular mirrored buffers computes the reference filter over the whole stream, for
  any split of the stream into two calls: the even outputs are the rounded and clipped half-band sum
  around the delay, the odd ones are the input delayed by 15 samples, with silence before the start.\<close>

theorem resampler_equals_filter:
  shows "case resample_2x_process acc resample_zero xs of (s, l, r) \<Rightarrow>
    case resample_2x_process acc s ys of (t, l', r') \<Rightarrow>
      l @ l' = reference acc [] (map fst (xs @ ys)) \<and> r @ r' = reference acc [] (map snd (xs @ ys))"
proof -
  obtain s where s: "resample_2x_process acc resample_zero xs = (s, reference acc [] (map fst xs), reference acc [] (map snd xs))"
    "resampler_of s (rev (map fst xs)) (rev (map snd xs))"
    using process_reference [OF resampler_zero, of acc xs] by auto
  obtain t where "resample_2x_process acc s ys = (t, reference acc (rev (map fst xs)) (map fst ys),
      reference acc (rev (map snd xs)) (map snd ys))"
    using process_reference [OF s(2), of acc ys] by auto
  then show ?thesis using s(1) by (simp add: reference_append)
qed

section \<open>The encoder's life cycle\<close>

text \<open>What the LC3plus encoder answers to the calls of the set-up, in their order.\<close>

record enc_setup =
  e_init :: int
  e_frame :: int
  e_ep :: int
  e_bitrate :: int
  e_input_samples :: nat
  e_num_bytes :: nat

record 'e pcm_codec =
  pc_encoder :: 'e
  pc_resampler :: resample_2x
  pc_encoded :: u64
  pc_ready :: bool
  pc_initialized :: bool

definition align16 :: "nat \<Rightarrow> nat" where "align16 n = (n + 15) - (n + 15) mod 16"

definition pcm_codec_layout :: "nat \<Rightarrow> nat \<Rightarrow> nat" where
  "pcm_codec_layout context_bytes encoder_bytes = align16 context_bytes + align16 encoder_bytes + align16 0"

text \<open>An arena is its address and size; \<open>fresh\<close> is the encoder object after the set-up. The result has the codec, if one was handed out.\<close>

definition pcm_codec_init :: "enc_setup \<Rightarrow> 'e \<Rightarrow> nat \<Rightarrow> (nat \<times> nat) option \<Rightarrow> 'e pcm_codec option \<times> int" where
  "pcm_codec_init e fresh need arena = (case arena of None \<Rightarrow> (None, -1) | Some (address, bytes) \<Rightarrow>
     if address mod 16 \<noteq> 0 \<or> bytes < need then (None, -1)
     else if e_init e \<noteq> 0 then (None, e_init e)
     else
       let rc = e_frame e;
           rc = (if rc = 0 then e_ep e else rc);
           rc = (if rc = 0 then e_bitrate e else rc)
       in if rc \<noteq> 0 then (None, rc)
          else if e_input_samples e \<noteq> 480 \<or> e_num_bytes e \<noteq> 190 then (None, -2)
          else (Some \<lparr>pc_encoder = fresh, pc_resampler = resample_zero, pc_encoded = 0, pc_ready = True,
                  pc_initialized = True\<rparr>, 0))"

definition pcm_codec_encode :: "(int list \<Rightarrow> int) \<Rightarrow> ('e \<Rightarrow> i16 list \<Rightarrow> i16 list \<Rightarrow> 'e \<times> int \<times> bytes \<times> int) \<Rightarrow>
    'e pcm_codec option \<Rightarrow> i16 list option \<Rightarrow> bytes option \<Rightarrow> 'e pcm_codec option \<times> int \<times> bytes option" where
  "pcm_codec_encode acc enc16 codec pcm48 packet = (case (codec, packet) of
     (Some s, Some p) \<Rightarrow>
       if \<not> pc_ready s then (Some s, -1, Some p)
       else
         let (rs, left, right) = resample_2x_process acc (pc_resampler s) (frames_in pcm48 240);
             (enc, rc, out, n) = enc16 (pc_encoder s) left right;
             s = s\<lparr>pc_resampler := rs, pc_encoder := enc\<rparr>
         in if rc \<noteq> 0 \<or> n \<noteq> 190
            then (Some (s\<lparr>pc_ready := False\<rparr>), if rc \<noteq> 0 then rc else -2, Some (replicate 190 0))
            else (Some (s\<lparr>pc_encoded := pc_encoded s + 1\<rparr>), 0, Some out)
   | _ \<Rightarrow> (codec, -1, packet))"

definition pcm_codec_destroy :: "'e pcm_codec option \<Rightarrow> 'e pcm_codec option" where
  "pcm_codec_destroy codec = map_option (\<lambda>s. if pc_initialized s
     then s\<lparr>pc_ready := False, pc_initialized := False\<rparr> else s) codec"

lemma encode_failure_latches:
  assumes "pcm_codec_encode acc enc16 (Some s) pcm (Some p) = (c, rc, out)" and "rc \<noteq> 0"
  shows "\<exists>s'. c = Some s' \<and> \<not> pc_ready s' \<and> pcm_codec_encode acc enc16 c pcm' (Some q) = (c, -1, Some q)"
  using assms by (auto simp: pcm_codec_encode_def Let_def split: prod.splits if_splits)

section \<open>The microphone decoder\<close>

record dec_setup =
  d_init :: int
  d_frame :: int
  d_ep :: int
  d_output_samples :: nat

record 'd mic_codec =
  mc_decoder :: 'd
  mc_previous :: i16
  mc_initialized :: bool

definition mic_codec_init :: "dec_setup \<Rightarrow> 'd \<Rightarrow> nat \<Rightarrow> (nat \<times> nat) option \<Rightarrow> 'd mic_codec option \<times> int" where
  "mic_codec_init e fresh need arena = (case arena of None \<Rightarrow> (None, -1) | Some (address, bytes) \<Rightarrow>
     if address mod 16 \<noteq> 0 \<or> bytes < need then (None, -1)
     else
       let rc = d_init e;
           rc = (if rc = 0 then d_frame e else rc);
           rc = (if rc = 0 then d_ep e else rc);
           rc = (if rc = 0 \<and> d_output_samples e \<noteq> 160 then -2 else rc)
       in if rc \<noteq> 0 then (None, rc)
          else (Some \<lparr>mc_decoder = fresh, mc_previous = 0, mc_initialized = True\<rparr>, 0))"

definition DECODE_ERROR :: int where "DECODE_ERROR = 2"

text \<open>Two input samples make three outputs by linear interpolation from the previous one.\<close>

definition upsample_at :: "i16 \<Rightarrow> i16 list \<Rightarrow> nat \<Rightarrow> int" where
  "upsample_at prev decoded j =
     (let i = j * 2 div 3; fraction = j * 2 mod 3;
          previous = (if i \<noteq> 0 then sint (decoded ! (i - 1)) else sint prev); current = sint (decoded ! i)
      in (previous * int (3 - fraction) + current * int fraction) sdiv 3)"

definition upsample :: "i16 \<Rightarrow> i16 list \<Rightarrow> nat \<Rightarrow> i16 list" where
  "upsample prev decoded n = map (\<lambda>j. of_int (upsample_at prev decoded j)) [0..<n]"

definition mic_codec_decode :: "('d \<Rightarrow> bytes \<Rightarrow> nat \<Rightarrow> bool \<Rightarrow> 'd \<times> int \<times> i16 list) \<Rightarrow> 'd mic_codec option \<Rightarrow>
    bytes option \<Rightarrow> i16 list option \<Rightarrow> 'd mic_codec option \<times> int \<times> i16 list option" where
  "mic_codec_decode dec16 codec frame out = (case (codec, out) of
     (Some s, Some old) \<Rightarrow>
       if \<not> mc_initialized s then (Some s, -1, Some old)
       else
         let (packet, n, bad) = (case frame of Some f \<Rightarrow> (f, 40, False) | None \<Rightarrow> (replicate 40 0, 0, True));
             (dec, rc, decoded) = dec16 (mc_decoder s) packet n bad;
             s = s\<lparr>mc_decoder := dec\<rparr>
         in if rc \<noteq> 0 \<and> rc \<noteq> DECODE_ERROR then (Some s, rc, Some old)
            else (Some (s\<lparr>mc_previous := decoded ! 159\<rparr>), rc, Some (upsample (mc_previous s) decoded 240))
   | _ \<Rightarrow> (codec, -1, out))"

definition mic_codec_reset :: "int \<Rightarrow> dec_setup \<Rightarrow> 'd \<Rightarrow> nat \<Rightarrow> 'd mic_codec option \<Rightarrow> 'd mic_codec option \<times> int" where
  "mic_codec_reset free_rc e fresh need codec = (case codec of None \<Rightarrow> (None, -1) | Some s \<Rightarrow>
     if \<not> mc_initialized s then (Some s, -1)
     else if free_rc \<noteq> 0 then (Some (s\<lparr>mc_initialized := False\<rparr>), free_rc)
     else (case mic_codec_init e fresh need (Some (0, need)) of
             (Some t, rc) \<Rightarrow> (Some t, rc) | (None, rc) \<Rightarrow> (Some (s\<lparr>mc_initialized := False\<rparr>), rc)))"

lemma sdiv3_bounds:
  fixes x m n :: int
  assumes "3 * m \<le> x" and "x \<le> 3 * n"
  shows "m \<le> x sdiv 3" and "x sdiv 3 \<le> n"
proof -
  have "x sdiv 3 = (if 0 \<le> x then x div 3 else - ((- x) div 3))"
    by (cases "x = 0") (auto simp: signed_divide_int_def sgn_if)
  then show "m \<le> x sdiv 3" "x sdiv 3 \<le> n" using assms by (auto split: if_splits)
qed

lemma upsample_hull:
  fixes p c :: int and f :: nat
  assumes "f < 3"
  shows "min p c \<le> (p * int (3 - f) + c * int f) sdiv 3" and "(p * int (3 - f) + c * int f) sdiv 3 \<le> max p c"
proof -
  have "f = 0 \<or> f = 1 \<or> f = 2" using assms by linarith
  then have "3 * min p c \<le> p * int (3 - f) + c * int f" "p * int (3 - f) + c * int f \<le> 3 * max p c"
    by auto
  then show "min p c \<le> (p * int (3 - f) + c * int f) sdiv 3" "(p * int (3 - f) + c * int f) sdiv 3 \<le> max p c"
    using sdiv3_bounds by blast+
qed

lemma third_shift: "(3 * a + j) * 2 div 3 = 2 * a + j * 2 div 3" "(3 * a + j) * 2 mod 3 = j * 2 mod (3 :: nat)"
  by presburger+

lemma upsample_within:
  assumes "j < 3 * a" and "length d = 2 * a"
  shows "j * 2 div 3 < length d"
  using assms by linarith

lemma upsample_first: "j < 3 * a \<Longrightarrow> length d = 2 * a \<Longrightarrow> upsample_at p (d @ e) j = upsample_at p d j"
  using upsample_within [of j a d] by (simp add: upsample_at_def Let_def nth_append less_imp_diff_less)

lemma upsample_second:
  assumes "length d = 2 * a" and "0 < a"
  shows "upsample_at p (d @ e) (3 * a + j) = upsample_at (last d) e j"
proof -
  have "d ! (2 * a - 1) = last d" using assms by (simp add: last_conv_nth flip: length_greater_0_conv)
  then show ?thesis
    unfolding upsample_at_def third_shift using assms by (simp add: Let_def nth_append)
qed

text \<open>The 3:2 conversion of the microphone is the same on a stream as frame by frame (the last sample kept
  across frames makes it continuous), and every output lies between its two neighbouring input samples,
  so that it fits 16 bits.\<close>

theorem mic_upsample_stream:
  assumes "length d = 2 * a" and "0 < a" and "length e = 2 * b"
  shows "upsample p (d @ e) (3 * (a + b)) = upsample p d (3 * a) @ upsample (last d) e (3 * b) \<and>
    (\<forall>j < 3 * a. let i = j * 2 div 3; before = (if i = 0 then sint p else sint (d ! (i - 1))) in
       min before (sint (d ! i)) \<le> sint (upsample p d (3 * a) ! j) \<and>
       sint (upsample p d (3 * a) ! j) \<le> max before (sint (d ! i)))"
proof (intro conjI allI impI)
  show "upsample p (d @ e) (3 * (a + b)) = upsample p d (3 * a) @ upsample (last d) e (3 * b)"
  proof (rule nth_equalityI)
    fix j
    assume "j < length (upsample p (d @ e) (3 * (a + b)))"
    then have j: "j < 3 * (a + b)" by (simp add: upsample_def)
    show "upsample p (d @ e) (3 * (a + b)) ! j = (upsample p d (3 * a) @ upsample (last d) e (3 * b)) ! j"
    proof (cases "j < 3 * a")
      case True
      then show ?thesis using upsample_first [OF True assms(1), of p e] j by (simp add: upsample_def nth_append)
    next
      case False
      then obtain k where "j = 3 * a + k" "k < 3 * b" using j by (metis add_mult_distrib2 le_Suc_ex
            linorder_not_less nat_add_left_cancel_less)
      then show ?thesis using upsample_second [OF assms(1,2), of p e k] by (simp add: upsample_def nth_append)
    qed
  qed (simp add: upsample_def)
  fix j
  assume j: "j < 3 * a"
  define i where "i = j * 2 div 3"
  define before where "before = (if i = 0 then sint p else sint (d ! (i - 1)))"
  have v: "upsample_at p d j = (before * int (3 - j * 2 mod 3) + sint (d ! i) * int (j * 2 mod 3)) sdiv 3"
    by (simp add: upsample_at_def Let_def before_def i_def)
  have b: "min before (sint (d ! i)) \<le> upsample_at p d j" "upsample_at p d j \<le> max before (sint (d ! i))"
    unfolding v by (rule upsample_hull; simp)+
  have "- 32768 \<le> before" "before \<le> 32767" using sint_i16 by (simp_all add: before_def)
  then have "- 32768 \<le> upsample_at p d j" "upsample_at p d j \<le> 32767"
    using b sint_i16 [of "d ! i"] by linarith+
  then have "sint (upsample p d (3 * a) ! j) = upsample_at p d j"
    using j by (simp add: upsample_def sint_of_int_i16)
  then show "let i = j * 2 div 3; before = (if i = 0 then sint p else sint (d ! (i - 1))) in
       min before (sint (d ! i)) \<le> sint (upsample p d (3 * a) ! j) \<and>
       sint (upsample p d (3 * a) ! j) \<le> max before (sint (d ! i))"
    using b unfolding Let_def before_def i_def by simp
qed

lemma mic_upsample_stream_witness:
  "upsample 0 ([30, 60] @ [90, 60]) 6 = upsample 0 [30, 60] 3 @ upsample 60 [90, 60] 3"
  using mic_upsample_stream [of "[30, 60]" 1 "[90, 60]" 1 0] by simp

end
