(* ===== verification/CodecServer.thy ===== *)
theory CodecServer
  imports CodecWire PcmCodec
begin

text \<open>
  Model of \<^verbatim>\<open>firmware/codec/src/main.c\<close>: the codec processor's side of the SPI link. A request is
  checked, answered from the cache when it repeats the last one, and otherwise run through the encoder
  and decoder workers, whose jobs are one step each here (the coordinator waits for both before it
  answers). The codec library calls are the fields of \<open>codec_ops\<close>; a job's time statistics are not kept.
\<close>

record ('e, 'd) codec_ops =
  o_crc :: "bytes \<Rightarrow> u32"
  o_acc :: "int list \<Rightarrow> int"
  o_enc16 :: "'e \<Rightarrow> i16 list \<Rightarrow> i16 list \<Rightarrow> 'e \<times> int \<times> bytes \<times> int"
  o_dec16 :: "'d \<Rightarrow> bytes \<Rightarrow> nat \<Rightarrow> bool \<Rightarrow> 'd \<times> int \<times> i16 list"
  o_free_rc :: int
  o_dec_setup :: dec_setup
  o_dec_fresh :: 'd
  o_dec_need :: nat

record ('e, 'd) codec_server =
  v_encoder :: "'e pcm_codec option"
  v_decoder :: "'d mic_codec option"
  v_play_in :: "i16 list"
  v_mic_out :: "i16 list"
  v_mic_in :: bytes
  v_play_out :: bytes
  v_dirty :: bool
  v_dec_ready :: bool
  v_cached :: bytes
  v_have_cached :: bool
  v_last_session :: u32
  v_last_seq :: u32
  v_have_decoder_session :: bool
  v_decoder_session :: u32
  v_duplicates :: u32
  v_errors :: u32
  v_encoded :: u32
  v_decoded :: u32
  v_resets :: u32
  v_bad_crc :: u32
  v_bad_header :: u32

definition encode_job :: "('e, 'd) codec_ops \<Rightarrow> ('e, 'd) codec_server \<Rightarrow> ('e, 'd) codec_server \<times> int" where
  "encode_job ops s =
     (let (c, rc, out) = pcm_codec_encode (o_acc ops) (o_enc16 ops) (v_encoder s) (Some (v_play_in s)) (Some (v_play_out s))
      in (s\<lparr>v_encoder := c, v_play_out := the out, v_encoded := v_encoded s + 1\<rparr>, rc))"

definition decode_job :: "('e, 'd) codec_ops \<Rightarrow> bool \<Rightarrow> bool \<Rightarrow> bool \<Rightarrow> ('e, 'd) codec_server \<Rightarrow>
    ('e, 'd) codec_server \<times> int" where
  "decode_job ops rst audio plc s =
     (let rc = (if \<not> v_dec_ready s then -1 else 0);
          (s, rc) = (if rc = 0 \<and> rst then
              (let (d, rc) = (if v_dirty s
                   then mic_codec_reset (o_free_rc ops) (o_dec_setup ops) (o_dec_fresh ops) (o_dec_need ops) (v_decoder s)
                   else (v_decoder s, 0));
                   s = s\<lparr>v_decoder := d\<rparr>
               in if rc = 0 then (s\<lparr>v_dirty := False, v_resets := v_resets s + 1\<rparr>, rc)
                  else (s\<lparr>v_dec_ready := False\<rparr>, rc))
            else (s, rc))
      in if rc = 0 \<and> audio then
           (let s = s\<lparr>v_dirty := True\<rparr>;
                (d, rc, out) = mic_codec_decode (o_dec16 ops) (v_decoder s)
                   (if plc then None else Some (v_mic_in s)) (Some (v_mic_out s));
                rc = (if rc = 2 then 0 else rc);
                s = s\<lparr>v_decoder := d, v_mic_out := the out\<rparr>
            in (if rc = 0 then s\<lparr>v_decoded := v_decoded s + 1\<rparr> else s, rc))
         else (s, rc))"

section \<open>Requests\<close>

definition request_crc :: "(bytes \<Rightarrow> u32) \<Rightarrow> bytes \<Rightarrow> bool" where
  "request_crc crc rx \<longleftrightarrow> cw_get32 rx CW_CRC = crc (take CW_CRC rx)"

definition request_header :: "nat \<Rightarrow> bytes \<Rightarrow> bool" where
  "request_header bits rx \<longleftrightarrow> bits = CW_BYTES * 8 \<and> cw_get32 rx 0 = CW_REQUEST \<and> rx ! 4 = 2 \<and> rx ! 6 = 0 \<and> rx ! 7 = 0 \<and>
     rx ! 5 AND 0xf0 = 0 \<and> rx ! 5 AND (CW_MIC OR CW_PLC) \<noteq> (CW_MIC OR CW_PLC) \<and>
     (\<forall>i \<in> set [20..<32]. rx ! i = 0)"

definition read_samples :: "bytes \<Rightarrow> i16 list" where
  "read_samples rx = map (\<lambda>i. get16 rx (CW_PLAY_IN + 2 * i)) [0..<480]"

definition add_flag :: "bytes \<Rightarrow> u8 \<Rightarrow> bytes" where "add_flag f v = f[5 := f ! 5 OR v]"
definition add_status :: "bytes \<Rightarrow> u8 \<Rightarrow> bytes" where "add_status f v = f[6 := f ! 6 OR v]"

definition answer_play :: "int \<Rightarrow> bytes \<Rightarrow> bytes \<Rightarrow> bytes" where
  "answer_play rc play_out tx =
     (if rc \<noteq> 0 then add_status tx CW_ENCODE_ERROR
      else memcpy_at (add_flag tx CW_PLAY) CW_PLAY_OUT (take 190 play_out))"

definition answer_mic :: "int \<Rightarrow> bool \<Rightarrow> u8 \<Rightarrow> i16 list \<Rightarrow> bytes \<Rightarrow> bytes" where
  "answer_mic rc audio flags mic_out tx =
     (if rc \<noteq> 0 then add_status tx CW_DECODE_ERROR
      else
        let tx = (if flags AND CW_RESET \<noteq> 0 then add_flag tx CW_RESET else tx) in
        if audio then memcpy_at (add_flag tx (flags AND (CW_MIC OR CW_PLC))) CW_MIC_OUT
                        (concat (map put16 (take 240 mic_out)))
        else tx)"

text \<open>Which jobs a request needs, their results, and the reply put together from them.\<close>

record jobs =
  j_play :: bool
  j_enc_rc :: int
  j_mic :: bool
  j_dec_rc :: int
  j_audio :: bool
  j_reset :: bool

definition run_jobs :: "('e, 'd) codec_ops \<Rightarrow> ('e, 'd) codec_server \<Rightarrow> bytes \<Rightarrow> ('e, 'd) codec_server \<times> jobs" where
  "run_jobs ops s rx =
     (let flags = rx ! 5; session = cw_get32 rx 8;
          play = flags AND CW_PLAY \<noteq> 0;
          s = (if play then s\<lparr>v_play_in := read_samples rx\<rparr> else s);
          audio = flags AND (CW_MIC OR CW_PLC) \<noteq> 0; plc = flags AND CW_PLC \<noteq> 0;
          rst = flags AND CW_RESET \<noteq> 0 \<or> (audio \<and> (\<not> v_have_decoder_session s \<or> v_decoder_session s \<noteq> session));
          mic = audio \<or> rst;
          s = (if mic then s\<lparr>v_mic_in := block CW_MIC_IN 40 rx\<rparr> else s);
          (s, enc_rc) = (if play then encode_job ops s else (s, 0));
          (s, dec_rc) = (if mic then decode_job ops rst audio plc s else (s, 0))
      in (s, \<lparr>j_play = play, j_enc_rc = enc_rc, j_mic = mic, j_dec_rc = dec_rc, j_audio = audio, j_reset = rst\<rparr>))"

definition assemble :: "jobs \<Rightarrow> u8 \<Rightarrow> bytes \<Rightarrow> i16 list \<Rightarrow> bytes \<Rightarrow> bytes" where
  "assemble j flags play_out mic_out tx =
     (let tx = (if j_play j then answer_play (j_enc_rc j) play_out tx else tx)
      in if j_mic j then answer_mic (j_dec_rc j) (j_audio j) flags mic_out tx else tx)"

definition process_new :: "('e, 'd) codec_ops \<Rightarrow> ('e, 'd) codec_server \<Rightarrow> bytes \<Rightarrow> ('e, 'd) codec_server \<times> bytes" where
  "process_new ops s rx =
     (let flags = rx ! 5; session = cw_get32 rx 8; sq = cw_get32 rx 12; frame = cw_get32 rx 16;
          (s, j) = run_jobs ops s rx;
          tx = assemble j flags (v_play_out s) (v_mic_out s) (cw_begin CW_RESPONSE 0 CW_OK session sq frame);
          s = (if j_mic j \<and> j_dec_rc j = 0 \<and> j_reset j
               then s\<lparr>v_have_decoder_session := True, v_decoder_session := session\<rparr> else s);
          s = (if tx ! 6 \<noteq> 0 then s\<lparr>v_errors := v_errors s + 1\<rparr> else s);
          tx = cw_seal (o_crc ops) tx
      in (s\<lparr>v_cached := tx, v_have_cached := True, v_last_session := session, v_last_seq := sq\<rparr>, tx))"

definition process :: "('e, 'd) codec_ops \<Rightarrow> ('e, 'd) codec_server \<Rightarrow> bytes \<Rightarrow> nat \<Rightarrow> ('e, 'd) codec_server \<times> bytes" where
  "process ops s rx bits =
     (let session = cw_get32 rx 8; sq = cw_get32 rx 12; frame = cw_get32 rx 16;
          crc = request_crc (o_crc ops) rx; header = request_header bits rx;
          s = (if \<not> crc then s\<lparr>v_bad_crc := v_bad_crc s + 1\<rparr> else s);
          s = (if \<not> header then s\<lparr>v_bad_header := v_bad_header s + 1\<rparr> else s)
      in if \<not> crc \<or> \<not> header
         then (s\<lparr>v_errors := v_errors s + 1\<rparr>,
               cw_seal (o_crc ops) (cw_begin CW_RESPONSE 0 CW_BAD_WIRE session sq frame))
         else if v_have_cached s \<and> session = v_last_session s \<and> sq = v_last_seq s
         then (s\<lparr>v_duplicates := v_duplicates s + 1\<rparr>, v_cached s)
         else process_new ops s rx)"

section \<open>Replies\<close>

definition reply_to :: "bytes \<Rightarrow> u32 \<Rightarrow> u32 \<Rightarrow> u32 \<Rightarrow> bool" where
  "reply_to f session sq frame \<longleftrightarrow> length f = CW_BYTES \<and> cw_get32 f 0 = CW_RESPONSE \<and> f ! 4 = 2 \<and> f ! 7 = 0 \<and>
     f ! 5 AND 0xf0 = 0 \<and> cw_get32 f 8 = session \<and> cw_get32 f 12 = sq \<and> cw_get32 f 16 = frame"

lemma reply_begin: "reply_to (cw_begin CW_RESPONSE 0 st session sq frame) session sq frame"
  by (simp add: reply_to_def begin_header)

lemma reply_status: "reply_to f a b c \<Longrightarrow> reply_to (add_status f v) a b c"
  by (simp add: reply_to_def add_status_def get32_update)

lemma reply_flag: "reply_to f a b c \<Longrightarrow> v AND 0xf0 = 0 \<Longrightarrow> reply_to (add_flag f v) a b c"
  by (simp add: reply_to_def add_flag_def get32_update bit.conj_disj_distrib2 CW_BYTES_def)

lemma reply_memcpy:
  "reply_to f a b c \<Longrightarrow> 32 \<le> off \<Longrightarrow> off + length src \<le> CW_BYTES \<Longrightarrow> reply_to (memcpy_at f off src) a b c"
  by (simp add: reply_to_def mem_simps cw_get32_def get32_memcpy_other CW_BYTES_def)

lemma reply_seal: "reply_to f a b c \<Longrightarrow> reply_to (cw_seal crc f) a b c \<and> cw_valid crc (cw_seal crc f) CW_RESPONSE"
  using seal_keeps [where f = f and crc = crc] seal_valid [where f = f and magic = CW_RESPONSE and crc = crc] by (simp add: reply_to_def CW_CRC_def)

lemma reply_play: "reply_to f a b c \<Longrightarrow> reply_to (answer_play rc out f) a b c"
  by (auto simp: answer_play_def cw_sizes CW_PLAY_def intro!: reply_status reply_memcpy reply_flag)

lemma flags_low: "(flags AND (CW_MIC OR CW_PLC)) AND 0xf0 = 0"
  by (simp add: CW_MIC_def CW_PLC_def and.assoc)

lemma reply_mic: "reply_to f a b c \<Longrightarrow> reply_to (answer_mic rc audio flags out f) a b c"
proof -
  assume r: "reply_to f a b c"
  have "length (concat (map put16 (take 240 out))) = 2 * length (take 240 out)"
    by (induction "take 240 out" arbitrary: out) (auto simp: length_concat sum_list_triv comp_def)
  then have "CW_MIC_OUT + length (concat (map put16 (take 240 out))) \<le> CW_BYTES" by (simp add: cw_sizes)
  moreover have "CW_RESET AND 0xf0 = 0" by (simp add: CW_RESET_def)
  ultimately show ?thesis
    using r flags_low [of flags]
    by (auto simp: answer_mic_def Let_def CW_MIC_OUT_def intro!: reply_status reply_memcpy reply_flag)
qed

definition cache_ok :: "('e, 'd) codec_ops \<Rightarrow> ('e, 'd) codec_server \<Rightarrow> bool" where
  "cache_ok ops s \<longleftrightarrow> (v_have_cached s \<longrightarrow> cw_valid (o_crc ops) (v_cached s) CW_RESPONSE \<and>
     cw_get32 (v_cached s) 8 = v_last_session s \<and> cw_get32 (v_cached s) 12 = v_last_seq s)"

lemma process_new_reply:
  assumes "process_new ops s rx = (s', tx)"
  shows "reply_to tx (cw_get32 rx 8) (cw_get32 rx 12) (cw_get32 rx 16)" and "cw_valid (o_crc ops) tx CW_RESPONSE"
    and "v_have_cached s'" and "v_cached s' = tx" and "v_last_session s' = cw_get32 rx 8" and "v_last_seq s' = cw_get32 rx 12"
proof -
  let ?r = "\<lambda>t. reply_to t (cw_get32 rx 8) (cw_get32 rx 12) (cw_get32 rx 16)"
  obtain s2 j where j: "run_jobs ops s rx = (s2, j)" by (cases "run_jobs ops s rx")
  let ?t = "assemble j (rx ! 5) (v_play_out s2) (v_mic_out s2)
      (cw_begin CW_RESPONSE 0 CW_OK (cw_get32 rx 8) (cw_get32 rx 12) (cw_get32 rx 16))"
  have "?r ?t" using reply_begin by (auto simp: assemble_def Let_def intro!: reply_play reply_mic)
  moreover have "tx = cw_seal (o_crc ops) ?t" using assms by (simp add: process_new_def Let_def j)
  ultimately obtain t where t: "tx = cw_seal (o_crc ops) t" "?r t" by blast
  then show "?r tx" "cw_valid (o_crc ops) tx CW_RESPONSE" using reply_seal [OF t(2)] by simp_all
  show "v_have_cached s'" "v_cached s' = tx" "v_last_session s' = cw_get32 rx 8" "v_last_seq s' = cw_get32 rx 12"
    using assms by (auto simp: process_new_def Let_def case_prod_beta)
qed

lemma server_answer:
  assumes "cache_ok ops s" and "process ops s rx bits = (s1, tx)"
  shows "cache_ok ops s1 \<and> cw_valid (o_crc ops) tx CW_RESPONSE \<and>
    cw_get32 tx 8 = cw_get32 rx 8 \<and> cw_get32 tx 12 = cw_get32 rx 12 \<and>
    (if request_crc (o_crc ops) rx \<and> request_header bits rx
     then process ops s1 rx bits = (s1\<lparr>v_duplicates := v_duplicates s1 + 1\<rparr>, tx)
     else tx ! 6 = CW_BAD_WIRE \<and> v_encoder s1 = v_encoder s \<and> v_decoder s1 = v_decoder s \<and> v_cached s1 = v_cached s)"
proof -
  consider (bad) "\<not> (request_crc (o_crc ops) rx \<and> request_header bits rx)"
    | (dup) "request_crc (o_crc ops) rx \<and> request_header bits rx"
        "v_have_cached s \<and> cw_get32 rx 8 = v_last_session s \<and> cw_get32 rx 12 = v_last_seq s"
    | (fresh) "request_crc (o_crc ops) rx \<and> request_header bits rx"
        "\<not> (v_have_cached s \<and> cw_get32 rx 8 = v_last_session s \<and> cw_get32 rx 12 = v_last_seq s)"
    by blast
  then show ?thesis
  proof cases
    case bad
    let ?t = "cw_begin CW_RESPONSE 0 CW_BAD_WIRE (cw_get32 rx 8) (cw_get32 rx 12) (cw_get32 rx 16)"
    have t: "tx = cw_seal (o_crc ops) ?t" using bad assms(2) by (auto simp: process_def Let_def)
    have "reply_to tx (cw_get32 rx 8) (cw_get32 rx 12) (cw_get32 rx 16)" "cw_valid (o_crc ops) tx CW_RESPONSE"
      unfolding t using reply_seal [OF reply_begin] by blast+
    moreover have "tx ! 6 = CW_BAD_WIRE"
      using seal_keeps(2) [OF length_begin, of 6] by (simp add: t CW_CRC_def begin_header)
    moreover have "cache_ok ops s1 \<and> v_encoder s1 = v_encoder s \<and> v_decoder s1 = v_decoder s \<and> v_cached s1 = v_cached s"
      using bad assms by (auto simp: process_def Let_def cache_ok_def)
    ultimately show ?thesis using bad by (auto simp: reply_to_def)
  next
    case dup
    then have "s1 = s\<lparr>v_duplicates := v_duplicates s + 1\<rparr>" "tx = v_cached s"
      using assms(2) by (auto simp: process_def Let_def)
    then show ?thesis using dup assms(1) by (auto simp: cache_ok_def process_def Let_def)
  next
    case fresh
    then have new: "process_new ops s rx = (s1, tx)" using assms(2) by (auto simp: process_def Let_def)
    note pn = process_new_reply [OF new]
    have "process ops s1 rx bits = (s1\<lparr>v_duplicates := v_duplicates s1 + 1\<rparr>, tx)"
      using fresh(1) pn by (simp add: process_def Let_def)
    then show ?thesis using fresh(1) pn by (simp add: cache_ok_def reply_to_def)
  qed
qed

text \<open>C13: Every reply is a valid response that echoes the session and sequence of its request; a malformed request is
  answered with the bad-wire status and touches neither codec nor the cached reply; and repeating the last
  valid request returns the very same reply and runs no codec: only the duplicate counter moves.\<close>

theorem server_answers_once:
  assumes "cache_ok ops s" and "process ops s rx bits = (s1, tx)"
  shows "cache_ok ops s1 \<and> cw_valid (o_crc ops) tx CW_RESPONSE \<and>
    cw_get32 tx 8 = cw_get32 rx 8 \<and> cw_get32 tx 12 = cw_get32 rx 12 \<and>
    (if request_crc (o_crc ops) rx \<and> request_header bits rx
     then process ops s1 rx bits = (s1\<lparr>v_duplicates := v_duplicates s1 + 1\<rparr>, tx)
     else tx ! 6 = CW_BAD_WIRE \<and> v_encoder s1 = v_encoder s \<and> v_decoder s1 = v_decoder s \<and> v_cached s1 = v_cached s)"
  by (rule server_answer [OF assms])

definition ex_ops :: "(unit, unit) codec_ops" where
  "ex_ops = \<lparr>o_crc = crc32_continue 0, o_acc = sum_list, o_enc16 = (\<lambda>e l r. (e, 0, replicate 190 1, 190)),
     o_dec16 = (\<lambda>d p n b. (d, 0, replicate 160 1)), o_free_rc = 0,
     o_dec_setup = \<lparr>d_init = 0, d_frame = 0, d_ep = 0, d_output_samples = 160\<rparr>, o_dec_fresh = (), o_dec_need = 64\<rparr>"

definition ex_server :: "(unit, unit) codec_server" where
  "ex_server = \<lparr>v_encoder = None, v_decoder = None, v_play_in = [], v_mic_out = [], v_mic_in = [], v_play_out = [],
     v_dirty = False, v_dec_ready = False, v_cached = [], v_have_cached = False, v_last_session = 0, v_last_seq = 0,
     v_have_decoder_session = False, v_decoder_session = 0, v_duplicates = 0, v_errors = 0, v_encoded = 0,
     v_decoded = 0, v_resets = 0, v_bad_crc = 0, v_bad_header = 0\<rparr>"

lemma server_answers_once_witness:
  "\<exists>s1 tx. process ex_ops ex_server (replicate 1280 0) 7 = (s1, tx) \<and> tx ! 6 = CW_BAD_WIRE \<and> v_encoder s1 = None"
proof -
  obtain s1 tx where run: "process ex_ops ex_server (replicate 1280 0) 7 = (s1, tx)"
    by (cases "process ex_ops ex_server (replicate 1280 0) 7")
  have "cache_ok ex_ops ex_server" by (simp add: cache_ok_def ex_server_def)
  moreover have "\<not> request_header 7 (replicate 1280 0)" by (simp add: request_header_def CW_BYTES_def)
  ultimately have "tx ! 6 = CW_BAD_WIRE \<and> v_encoder s1 = v_encoder ex_server"
    using server_answers_once [OF _ run] by simp
  then show ?thesis using run by (simp add: ex_server_def)
qed

end
