(* ===== verification/PcmStream.thy ===== *)
theory PcmStream
  imports AudioSource UsbAudio CodecServer
begin

text \<open>
  Model of \<^verbatim>\<open>firmware/radio/src/pcm_stream.c\<close>: the radio processor's side of the codec link. The
  radio appends microphone packets to a ring of 16; the worker sends one request a pass, with playback
  samples from USB and at most one fresh microphone packet, and receives in the same transfer the reply
  to its previous request, whose encoded audio goes to the audio source and whose samples go to USB.
  One pass of the worker's loop is one step; what the transfer, the clocks and the USB state give at that
  pass is an argument. Radio callbacks and the reconnect calls come between passes.
\<close>

definition PCM_Q :: nat where "PCM_Q = 16"

record mic_packet =
  mp_frame :: u32
  mp_epoch :: u32
  mp_at_us :: u32
  mp_seq :: u8
  mp_payload :: bytes

record pcm_stream =
  q_source :: ull_audio_source
  q_ready :: bool
  q_mic_enabled :: bool
  q_mic_active :: bool
  q_fault :: int
  q_epoch :: u32
  q_received :: u32
  q_decoded :: u32
  q_mic_dropped :: u32
  q_duplicates :: u32
  q_usb_frames :: u32
  q_encoded :: u32
  q_peak :: u32
  q_crc_errors :: u32
  q_sequence_errors :: u32
  q_timeouts :: u32
  q_exchanges :: u32
  q_codec_errors :: u32
  q_queue_drops :: u32
  q_reset_count :: u32
  q_written :: u32
  q_read_pos :: u32
  q_last_us :: u32
  q_max_us :: u32
  q_playback_frames :: u32
  q_packets :: "mic_packet list"
  q_previous_session :: u32
  q_previous_seq :: u32
  q_have_previous :: bool
  q_reconnect :: ull_reconnect_barrier

text \<open>The local variables of the worker.\<close>

record pcm_worker =
  k_base :: u32
  k_seq :: u32
  k_reset_epoch :: u32
  k_last_mic_frame :: u32
  k_last_mic_seq :: u8
  k_have_mic :: bool
  k_was_capture :: bool
  k_next_silence :: int
  k_last_transfer :: int
  k_paused :: bool

section \<open>Callbacks\<close>

text \<open>Asking for a pause; \<open>acknowledged\<close> is whether the worker acknowledged before the wait ended.\<close>

definition ull_pcm_stream_pause_for_reconnect :: "pcm_stream \<Rightarrow> bool \<Rightarrow> pcm_stream \<times> bool" where
  "ull_pcm_stream_pause_for_reconnect s acknowledged =
     (if b_acknowledged (q_reconnect s) \<or> ull_reconnect_requested (q_reconnect s) then (s, False)
      else
        let s = s\<lparr>q_reconnect := ull_reconnect_request (q_reconnect s)\<rparr>;
            s = (if acknowledged then s\<lparr>q_reconnect := ull_reconnect_acknowledge (q_reconnect s)\<rparr> else s)
        in (s, ull_reconnect_paused (q_reconnect s)))"

definition ull_pcm_stream_rearm :: "pcm_stream \<Rightarrow> pcm_stream \<times> bool" where
  "ull_pcm_stream_rearm s = (let (a, ok) = ull_audio_source_rearm (q_source s) (Some (q_reconnect s))
     in (s\<lparr>q_source := a\<rparr>, ok))"

definition ull_pcm_stream_resume_after_reconnect :: "pcm_stream \<Rightarrow> pcm_stream" where
  "ull_pcm_stream_resume_after_reconnect s = s\<lparr>q_reconnect := ull_reconnect_resume (q_reconnect s)\<rparr>"

definition ull_mic_stream_enable :: "pcm_stream \<Rightarrow> bool \<Rightarrow> pcm_stream" where
  "ull_mic_stream_enable s v = s\<lparr>q_mic_enabled := v\<rparr>"

definition ull_mic_stream_new_session :: "pcm_stream \<Rightarrow> pcm_stream" where
  "ull_mic_stream_new_session s = s\<lparr>q_epoch := q_epoch s + 1\<rparr>"

definition ull_air_microphone_frame :: "pcm_stream \<Rightarrow> u32 \<Rightarrow> u8 \<Rightarrow> bytes \<Rightarrow> u32 \<Rightarrow> pcm_stream" where
  "ull_air_microphone_frame s f sq payload now =
     (let s = s\<lparr>q_received := q_received s + 1\<rparr> in
      if \<not> q_mic_active s then s
      else if q_written s - q_read_pos s \<ge> of_nat PCM_Q then s\<lparr>q_mic_dropped := q_mic_dropped s + 1\<rparr>
      else s\<lparr>q_packets := (q_packets s)[unat (q_written s) mod PCM_Q :=
               \<lparr>mp_frame = f, mp_epoch = q_epoch s, mp_at_us = now, mp_seq = sq, mp_payload = take 40 payload\<rparr>],
             q_written := q_written s + 1\<rparr>)"

section \<open>Replies\<close>

definition peak_of :: "i16 list \<Rightarrow> u32" where
  "peak_of pcm = fold (\<lambda>x pk. let n = of_int \<bar>sint x\<bar> in if n > pk then n else pk) pcm 0"

definition reply_samples :: "bytes \<Rightarrow> i16 list" where
  "reply_samples rx = map (\<lambda>i. get16 rx (CW_MIC_OUT + 2 * i)) [0..<240]"

definition reply_frame :: "bytes \<Rightarrow> stereo" where
  "reply_frame rx = [block CW_PLAY_OUT 95 rx, block (CW_PLAY_OUT + 95) 95 rx]"

definition take_playback :: "pcm_stream \<Rightarrow> bytes \<Rightarrow> pcm_stream" where
  "take_playback s rx =
     (let (a, ok) = ull_audio_source_push (q_source s) (Some (reply_frame rx));
          s = s\<lparr>q_source := a\<rparr>
      in if ok then s\<lparr>q_encoded := q_encoded s + 1\<rparr> else s\<lparr>q_queue_drops := q_queue_drops s + 1\<rparr>)"

definition take_microphone :: "pcm_stream \<Rightarrow> usb_audio \<Rightarrow> bytes \<Rightarrow> pcm_stream \<times> usb_audio" where
  "take_microphone s u rx =
     (let pcm = reply_samples rx; (u, got) = ull_usb_audio_write_capture u (Some pcm) 240
      in (s\<lparr>q_peak := peak_of pcm, q_decoded := q_decoded s + 1, q_usb_frames := q_usb_frames s + of_nat got\<rparr>, u))"

definition accept_response :: "(bytes \<Rightarrow> u32) \<Rightarrow> pcm_stream \<Rightarrow> usb_audio \<Rightarrow> bytes \<Rightarrow> u32 \<Rightarrow> pcm_stream \<times> usb_audio \<times> bool" where
  "accept_response crc s u rx current_session =
     (if \<not> cw_valid crc rx CW_RESPONSE then (s\<lparr>q_crc_errors := q_crc_errors s + 1\<rparr>, u, False)
      else if \<not> q_have_previous s then (s, u, False)
      else if cw_get32 rx 8 \<noteq> q_previous_session s \<or> cw_get32 rx 12 \<noteq> q_previous_seq s
      then (s\<lparr>q_sequence_errors := q_sequence_errors s + 1\<rparr>, u, False)
      else if q_previous_session s \<noteq> current_session then (s, u, False)
      else
        let s = (if rx ! 6 \<noteq> 0 then s\<lparr>q_codec_errors := q_codec_errors s + 1\<rparr> else s);
            s = (if rx ! 5 AND CW_PLAY \<noteq> 0 then take_playback s rx else s);
            (s, u) = (if rx ! 5 AND (CW_MIC OR CW_PLC) \<noteq> 0 \<and> q_mic_active s then take_microphone s u rx else (s, u));
            s = (if rx ! 5 AND CW_RESET \<noteq> 0 then s\<lparr>q_reset_count := q_reset_count s + 1\<rparr> else s)
        in (s, u, True))"

section \<open>One pass of the worker\<close>

datatype transfer = Timeout | NotReady | BusError int | Transferred bytes

definition exchange :: "pcm_stream \<Rightarrow> transfer \<Rightarrow> pcm_stream \<times> bytes option" where
  "exchange s t = (case t of
     Timeout \<Rightarrow> (s\<lparr>q_timeouts := q_timeouts s + 1\<rparr>, None)
   | NotReady \<Rightarrow> (s, None)
   | BusError e \<Rightarrow> (s\<lparr>q_fault := e\<rparr>, None)
   | Transferred rx \<Rightarrow> (s\<lparr>q_exchanges := q_exchanges s + 1\<rparr>, Some rx))"

lemma countdown: "r \<noteq> (w :: u32) \<Longrightarrow> unat (w - (r + 1)) < unat (w - r)"
proof -
  assume "r \<noteq> w"
  then have "1 \<le> unat (w - r)" by (simp add: Suc_le_eq unat_gt_0)
  from unat_sub_advance [OF this] show ?thesis using \<open>1 \<le> unat (w - r)\<close> by simp
qed

text \<open>The microphone packet for a request: stale and repeated packets are passed over.\<close>

function mic_loop :: "pcm_stream \<Rightarrow> pcm_worker \<Rightarrow> u32 \<Rightarrow> u32 \<Rightarrow> u32 \<Rightarrow> pcm_stream \<times> mic_packet option" where
  "mic_loop s k current_epoch now mw =
     (if q_read_pos s = mw then (s, None)
      else
        let p = q_packets s ! (unat (q_read_pos s) mod PCM_Q);
            s = s\<lparr>q_read_pos := q_read_pos s + 1\<rparr> in
        if mp_epoch p \<noteq> current_epoch \<or> now - mp_at_us p > 40000
        then mic_loop (s\<lparr>q_mic_dropped := q_mic_dropped s + 1\<rparr>) k current_epoch now mw
        else if k_have_mic k \<and> (mp_frame p - k_last_mic_frame k = 0 \<or>
                (mp_seq p = k_last_mic_seq k \<and> mp_frame p - k_last_mic_frame k < 16))
        then mic_loop (s\<lparr>q_duplicates := q_duplicates s + 1\<rparr>) k current_epoch now mw
        else (s, Some p))"
  by pat_completeness auto

termination
  by (relation "measure (\<lambda>(s, k, e, n, mw). unat (mw - q_read_pos s))") (auto intro: countdown)

declare mic_loop.simps [simp del]

record pass =
  p_now :: int
  p_start :: int
  p_done :: int
  p_transfer :: transfer

definition play_bytes :: "i16 list \<Rightarrow> bytes" where
  "play_bytes pcm = concat (map put16 (memcpy_at (replicate 480 0) 0 pcm))"

text \<open>The request before the microphone is added: the flags, and the playback samples when wanted.\<close>

definition want_play :: "pcm_stream \<Rightarrow> usb_audio \<Rightarrow> pcm_worker \<Rightarrow> int \<Rightarrow> bool" where
  "want_play s u k now =
     (let a = q_source s; usb = ull_usb_audio_stats u;
          play = a_written a - a_read a < ULL_AUDIO_QUEUE_FRAMES - 1;
          play = (if s_mounted usb \<and> s_playback_active usb \<and> s_playback_buffered_frames usb < 240 then False else play)
      in if \<not> s_playback_active usb \<and> now < k_next_silence k then False else play)"

definition add_playback :: "pcm_stream \<Rightarrow> usb_audio \<Rightarrow> bytes \<Rightarrow> pcm_stream \<times> usb_audio \<times> bytes" where
  "add_playback s u tx =
     (let (u, pcm, got) = ull_usb_audio_read_playback u True 240
      in (s\<lparr>q_playback_frames := q_playback_frames s + of_nat got\<rparr>, u, memcpy_at tx CW_PLAY_IN (take 960 (play_bytes pcm))))"

definition add_microphone :: "mic_packet \<Rightarrow> bytes \<Rightarrow> bytes" where
  "add_microphone p tx = cw_put32 (add_flag (memcpy_at tx CW_MIC_IN (take 40 (mp_payload p))) CW_MIC) 16 (mp_frame p)"

text \<open>
  When a reconnect is requested the worker forgets the previous request and everything queued and
  acknowledges; it stays paused until the request is withdrawn, then retires its acknowledgement.
\<close>

definition pause_step :: "pcm_stream \<Rightarrow> pcm_worker \<Rightarrow> pcm_stream \<times> pcm_worker" where
  "pause_step s k =
     (s\<lparr>q_mic_active := False, q_have_previous := False, q_read_pos := q_written s,
        q_reconnect := ull_reconnect_acknowledge (q_reconnect s)\<rparr>,
      k\<lparr>k_have_mic := False, k_was_capture := False, k_paused := True\<rparr>)"

definition depart_step :: "pcm_stream \<Rightarrow> pcm_worker \<Rightarrow> pcm_stream \<times> pcm_worker" where
  "depart_step s k = (if ull_reconnect_requested (q_reconnect s) then (s, k)
     else (s\<lparr>q_reconnect := ull_reconnect_depart (q_reconnect s)\<rparr>, k\<lparr>k_paused := False\<rparr>))"

text \<open>The hello exchanged until the codec answers.\<close>

definition hello_step :: "(bytes \<Rightarrow> u32) \<Rightarrow> pcm_stream \<Rightarrow> usb_audio \<Rightarrow> pcm_worker \<Rightarrow> pass \<Rightarrow>
    pcm_stream \<times> usb_audio \<times> pcm_worker \<times> bytes" where
  "hello_step crc s u k e =
     (let session = k_base k + q_epoch s;
          k = k\<lparr>k_seq := k_seq k + 1\<rparr>;
          tx = cw_seal crc (cw_begin CW_REQUEST 0 0 session (k_seq k) 0)
      in case exchange s (p_transfer e) of
           (s, None) \<Rightarrow> (s, u, k, tx)
         | (s, Some rx) \<Rightarrow>
             (let (s, u, accepted) = accept_response crc s u rx session;
                  ok = accepted \<and> rx ! 6 = CW_OK;
                  s = s\<lparr>q_previous_session := session, q_previous_seq := k_seq k, q_have_previous := True\<rparr>
              in (if ok then s\<lparr>q_ready := True\<rparr> else s, u, k, tx)))"

definition open_request :: "pcm_stream \<Rightarrow> pcm_worker \<Rightarrow> bool \<Rightarrow> pcm_worker \<times> bytes" where
  "open_request s k play =
     (let current_epoch = q_epoch s; session = k_base k + current_epoch; capture = q_mic_enabled s;
          flags = (if play then CW_PLAY else 0);
          restart = capture \<and> (\<not> k_was_capture k \<or> k_reset_epoch k \<noteq> current_epoch);
          flags = (if restart then flags OR CW_RESET else flags);
          k = (if restart then k\<lparr>k_reset_epoch := current_epoch, k_have_mic := False\<rparr> else k);
          k = k\<lparr>k_was_capture := capture, k_seq := k_seq k + 1\<rparr>
      in (k, cw_begin CW_REQUEST flags 0 session (k_seq k) 0))"

definition fill_microphone :: "pcm_stream \<Rightarrow> pcm_worker \<Rightarrow> u32 \<Rightarrow> int \<Rightarrow> bytes \<Rightarrow> pcm_stream \<times> pcm_worker \<times> bytes" where
  "fill_microphone s k current_epoch now tx =
     (let mw = q_written s in
      if \<not> q_mic_enabled s then (s\<lparr>q_read_pos := mw\<rparr>, k\<lparr>k_have_mic := False\<rparr>, tx)
      else case mic_loop s k current_epoch (of_int now) mw of
          (s, None) \<Rightarrow> (s, k, tx)
        | (s, Some p) \<Rightarrow> (s, k\<lparr>k_last_mic_frame := mp_frame p, k_last_mic_seq := mp_seq p, k_have_mic := True\<rparr>,
                         add_microphone p tx))"

definition build_request :: "pcm_stream \<Rightarrow> usb_audio \<Rightarrow> pcm_worker \<Rightarrow> int \<Rightarrow> pcm_stream \<times> usb_audio \<times> pcm_worker \<times> bytes" where
  "build_request s u k now =
     (let play = want_play s u k now;
          (k, tx) = open_request s k play;
          (s', u, tx) = (if play then add_playback s u tx else (s, u, tx));
          k = (if play then k\<lparr>k_next_silence := now + 5000\<rparr> else k);
          (s', k, tx) = fill_microphone s' k (q_epoch s) now tx
      in (s', u, k, tx))"

definition request_step :: "(bytes \<Rightarrow> u32) \<Rightarrow> pcm_stream \<Rightarrow> usb_audio \<Rightarrow> pcm_worker \<Rightarrow> pass \<Rightarrow>
    pcm_stream \<times> usb_audio \<times> pcm_worker \<times> bytes" where
  "request_step crc s u k e =
     (let session = k_base k + q_epoch s;
          (s, u, k, tx) = build_request s u k (p_now e);
          tx = cw_seal crc tx
      in case exchange s (p_transfer e) of
           (s, None) \<Rightarrow> (s\<lparr>q_ready := False, q_mic_active := False, q_have_previous := False\<rparr>, u,
                        k\<lparr>k_was_capture := False\<rparr>, tx)
         | (s, Some rx) \<Rightarrow>
             (let k = k\<lparr>k_last_transfer := p_done e\<rparr>; dt = of_int (p_done e - p_start e);
                  s = s\<lparr>q_last_us := dt, q_max_us := (if dt > q_max_us s then dt else q_max_us s)\<rparr>;
                  (s, u, accepted) = accept_response crc s u rx (k_base k + q_epoch s)
              in (s\<lparr>q_previous_session := session, q_previous_seq := k_seq k, q_have_previous := True\<rparr>, u, k, tx)))"

text \<open>The pass; the last component is the request sent, if one was.\<close>

definition run_pass :: "(bytes \<Rightarrow> u32) \<Rightarrow> pcm_stream \<Rightarrow> usb_audio \<Rightarrow> pcm_worker \<Rightarrow> pass \<Rightarrow>
    pcm_stream \<times> usb_audio \<times> pcm_worker \<times> bytes option" where
  "run_pass crc s u k e =
     (if k_paused k then (let (s, k) = depart_step s k in (s, u, k, None))
      else if ull_reconnect_requested (q_reconnect s) then (let (s, k) = pause_step s k in (s, u, k, None))
      else if \<not> q_ready s then (let (s, u, k, tx) = hello_step crc s u k e in (s, u, k, Some tx))
      else if \<not> a_requested (q_source s)
      then (s\<lparr>q_mic_active := False\<rparr>, u, k\<lparr>k_was_capture := False\<rparr>, None)
      else
        let s = s\<lparr>q_mic_active := q_mic_enabled s\<rparr> in
        if \<not> want_play s u k (p_now e) \<and> (\<not> q_mic_enabled s \<or> p_now e - k_last_transfer k < 5000) then (s, u, k, None)
        else (let (s, u, k, tx) = request_step crc s u k e in (s, u, k, Some tx)))"

definition ull_pcm_stream_diagnostics :: "pcm_stream \<Rightarrow> u32 list" where
  "ull_pcm_stream_diagnostics s =
     [a_underflows (q_source s), a_discarded (q_source s), q_exchanges s, q_timeouts s, q_crc_errors s,
      q_sequence_errors s, q_codec_errors s, q_queue_drops s, q_reset_count s, q_last_us s, q_max_us s,
      q_received s, q_decoded s, q_mic_dropped s]"

section \<open>Requests are well formed\<close>

definition request_of :: "bytes \<Rightarrow> u32 \<Rightarrow> u32 \<Rightarrow> bool" where
  "request_of f session sq \<longleftrightarrow> length f = CW_BYTES \<and> cw_get32 f 0 = CW_REQUEST \<and> f ! 4 = 2 \<and> f ! 5 AND 0xf4 = 0 \<and>
     f ! 6 = 0 \<and> f ! 7 = 0 \<and> (\<forall>i \<in> {20..<32}. f ! i = 0) \<and> cw_get32 f 8 = session \<and> cw_get32 f 12 = sq"

lemma request_begin:
  assumes "flags AND 0xf4 = 0"
  shows "request_of (cw_begin CW_REQUEST flags 0 session sq 0) session sq"
proof -
  have "cw_begin CW_REQUEST flags 0 session sq 0 ! i = 0" if "i \<in> {20..<32}" for i
    using that by (simp add: cw_begin_def Let_def CW_BYTES_def nth_put32_other)
  then show ?thesis using assms by (simp add: request_of_def begin_header)
qed

lemma request_memcpy:
  "request_of f a b \<Longrightarrow> 32 \<le> off \<Longrightarrow> off + length src \<le> CW_BYTES \<Longrightarrow> request_of (memcpy_at f off src) a b"
  by (auto simp: request_of_def mem_simps cw_get32_def get32_memcpy_other CW_BYTES_def)

lemma request_flag: "request_of f a b \<Longrightarrow> v AND 0xf4 = 0 \<Longrightarrow> request_of (add_flag f v) a b"
  by (auto simp: request_of_def add_flag_def get32_update bit.conj_disj_distrib2 CW_BYTES_def)

lemma request_put: "request_of f a b \<Longrightarrow> request_of (cw_put32 f 16 v) a b"
  by (auto simp: request_of_def get32_put32_other nth_put32_other CW_BYTES_def)

lemma request_seal:
  "request_of f a b \<Longrightarrow> request_of (cw_seal crc f) a b \<and> request_crc crc (cw_seal crc f)"
  using seal_keeps [where f = f and crc = crc] by (auto simp: request_of_def request_crc_def CW_CRC_def)

lemma request_header_ok: "request_of f a b \<Longrightarrow> request_header (CW_BYTES * 8) f"
proof -
  assume r: "request_of f a b"
  have e: "f ! 5 AND 0xf4 = 0" using r by (simp add: request_of_def)
  have "f ! 5 AND 0xf0 = (f ! 5 AND 0xf4) AND 0xf0" "(f ! 5 AND (CW_MIC OR CW_PLC)) AND 4 = (f ! 5 AND 0xf4) AND 4"
    by (simp_all add: and.assoc CW_MIC_def CW_PLC_def)
  then have "f ! 5 AND 0xf0 = 0" "(f ! 5 AND (CW_MIC OR CW_PLC)) AND 4 = 0" using e by simp_all
  moreover have "(CW_MIC OR CW_PLC) AND 4 \<noteq> 0" by (simp add: CW_MIC_def CW_PLC_def)
  ultimately show ?thesis using r by (auto simp: request_header_def request_of_def)
qed

lemma request_playback:
  "request_of tx a b \<Longrightarrow> request_of (snd (snd (add_playback s u tx))) a b"
  by (auto simp: add_playback_def Let_def case_prod_beta cw_sizes intro!: request_memcpy)

lemma request_microphone: "request_of tx a b \<Longrightarrow> request_of (add_microphone p tx) a b"
  by (auto simp: add_microphone_def cw_sizes CW_MIC_def intro!: request_memcpy request_flag request_put)

lemma accept_keeps [simp]:
  "q_have_previous (fst (accept_response crc s u rx c)) = q_have_previous s"
  by (simp add: accept_response_def take_playback_def take_microphone_def Let_def case_prod_beta)

text \<open>The request a pass sends, and what the worker then remembers.\<close>

lemma hello_request:
  assumes "hello_step crc s u k e = (s', u', k', tx)"
  shows "request_of tx (k_base k + q_epoch s) (k_seq k + 1) \<and> request_crc crc tx \<and>
    (\<forall>rx. p_transfer e = Transferred rx \<longrightarrow>
       q_have_previous s' \<and> q_previous_session s' = k_base k + q_epoch s \<and> q_previous_seq s' = k_seq k + 1)"
proof -
  let ?t = "cw_begin CW_REQUEST 0 0 (k_base k + q_epoch s) (k_seq k + 1) 0"
  have tx: "tx = cw_seal crc ?t"
    using assms by (auto simp: hello_step_def Let_def case_prod_beta split: prod.splits option.splits)
  have "request_of ?t (k_base k + q_epoch s) (k_seq k + 1)" by (rule request_begin) simp
  then show ?thesis unfolding tx using assms request_seal
    by (auto simp: hello_step_def exchange_def Let_def case_prod_beta)
qed

lemma open_request_of:
  "request_of (snd (open_request s k play)) (k_base k + q_epoch s) (k_seq k + 1) \<and>
   k_seq (fst (open_request s k play)) = k_seq k + 1 \<and> k_base (fst (open_request s k play)) = k_base k"
proof -
  have "request_of (cw_begin CW_REQUEST f 0 a b 0) a b" if "f \<in> {0, CW_PLAY, CW_RESET, CW_PLAY OR CW_RESET}" for f a b
    using that by (intro request_begin) (auto simp: CW_PLAY_def CW_RESET_def)
  then show ?thesis by (auto simp: open_request_def Let_def)
qed

lemma fill_microphone_of:
  "request_of tx a b \<Longrightarrow> fill_microphone s k c now tx = (s', k', tx') \<Longrightarrow> request_of tx' a b \<and> k_seq k' = k_seq k \<and> k_base k' = k_base k"
  by (auto simp: fill_microphone_def Let_def request_microphone split: if_splits prod.splits option.splits)

lemma build_request_of:
  assumes "build_request s u k now = (s', u', k', tx)"
  shows "request_of tx (k_base k + q_epoch s) (k_seq k + 1) \<and> k_seq k' = k_seq k + 1 \<and> k_base k' = k_base k"
proof -
  let ?play = "want_play s u k now"
  obtain k1 t1 where o: "open_request s k ?play = (k1, t1)" by (cases "open_request s k ?play")
  obtain s2 u2 t2 where p: "(if ?play then add_playback s u t1 else (s, u, t1)) = (s2, u2, t2)"
    by (cases "if ?play then add_playback s u t1 else (s, u, t1)") auto
  let ?k2 = "if ?play then k1\<lparr>k_next_silence := now + 5000\<rparr> else k1"
  have r1: "request_of t1 (k_base k + q_epoch s) (k_seq k + 1)" "k_seq k1 = k_seq k + 1" "k_base k1 = k_base k"
    using open_request_of [of s k ?play] by (simp_all add: o)
  have r2: "request_of t2 (k_base k + q_epoch s) (k_seq k + 1)"
    using request_playback [OF r1(1), of s u] p r1(1) by (cases ?play) auto
  obtain s3 k3 t3 where f: "fill_microphone s2 ?k2 (q_epoch s) now t2 = (s3, k3, t3)"
    by (cases "fill_microphone s2 ?k2 (q_epoch s) now t2") auto
  have "k' = k3" "tx = t3"
    using assms unfolding build_request_def Let_def o prod.case p f by simp_all
  then show ?thesis using fill_microphone_of [OF r2 f] r1 by (simp split: if_splits)
qed

lemma request_step_of:
  assumes "request_step crc s u k e = (s', u', k', tx)"
  shows "request_of tx (k_base k + q_epoch s) (k_seq k + 1) \<and> request_crc crc tx \<and>
    (\<forall>rx. p_transfer e = Transferred rx \<longrightarrow>
       q_have_previous s' \<and> q_previous_session s' = k_base k + q_epoch s \<and> q_previous_seq s' = k_seq k + 1)"
proof -
  obtain s1 u1 k1 t where b: "build_request s u k (p_now e) = (s1, u1, k1, t)"
    by (cases "build_request s u k (p_now e)") auto
  note r = build_request_of [OF b]
  have tx: "tx = cw_seal crc t"
    using assms by (auto simp: request_step_def b exchange_def Let_def case_prod_beta split: transfer.splits)
  show ?thesis unfolding tx using assms request_seal [OF conjunct1 [OF r], of crc] r
    by (auto simp: request_step_def b exchange_def Let_def case_prod_beta)
qed

text \<open>C10: The two processors agree on the link. Any request a worker pass sends passes the codec processor's checks
  (length, magic, version, flags, zero bytes and CRC), for any microphone and playback data; once it was
  transferred the worker remembers its session and sequence; and whatever reply the codec processor makes to
  it is then accepted by the worker's own checks as long as the radio session has not changed, and by
  no later session.\<close>

theorem codec_link_agrees:
  assumes "run_pass (o_crc ops) s u k e = (s1, u1, k1, Some tx)" and "p_transfer e = Transferred rx"
    and "cache_ok ops v" and "process ops v tx (CW_BYTES * 8) = (v1, reply)"
  shows "request_crc (o_crc ops) tx \<and> request_header (CW_BYTES * 8) tx \<and>
    snd (snd (accept_response (o_crc ops) s1 u2 reply session)) = (session = k_base k + q_epoch s)"
proof -
  let ?s = "s\<lparr>q_mic_active := q_mic_enabled s\<rparr>"
  have "(\<exists>a b c. hello_step (o_crc ops) s u k e = (s1, a, b, tx)) \<or>
      (\<exists>a b c. request_step (o_crc ops) ?s u k e = (s1, a, b, tx))"
    using assms(1) by (auto simp: run_pass_def Let_def case_prod_beta prod_eq_iff split: if_splits)
  then have r: "request_of tx (k_base k + q_epoch s) (k_seq k + 1)" "request_crc (o_crc ops) tx"
    "q_have_previous s1" "q_previous_session s1 = k_base k + q_epoch s" "q_previous_seq s1 = k_seq k + 1"
    using hello_request request_step_of assms(2) by fastforce+
  have hdr: "request_header (CW_BYTES * 8) tx" by (rule request_header_ok [OF r(1)])
  have "cw_valid (o_crc ops) reply CW_RESPONSE \<and> cw_get32 reply 8 = cw_get32 tx 8 \<and> cw_get32 reply 12 = cw_get32 tx 12"
    using server_answer [OF assms(3,4)] by blast
  then have "snd (snd (accept_response (o_crc ops) s1 u2 reply session)) = (session = k_base k + q_epoch s)"
    using r by (auto simp: accept_response_def request_of_def Let_def case_prod_beta)
  then show ?thesis using r(2) hdr by blast
qed

definition ex_stream :: pcm_stream where
  "ex_stream = \<lparr>q_source = ull_audio_source_init, q_ready = False, q_mic_enabled = True, q_mic_active = False,
     q_fault = 0, q_epoch = 3, q_received = 0, q_decoded = 0, q_mic_dropped = 0, q_duplicates = 0, q_usb_frames = 0,
     q_encoded = 0, q_peak = 0, q_crc_errors = 0, q_sequence_errors = 0, q_timeouts = 0, q_exchanges = 0,
     q_codec_errors = 0, q_queue_drops = 0, q_reset_count = 0, q_written = 0, q_read_pos = 0, q_last_us = 0,
     q_max_us = 0, q_playback_frames = 0, q_packets = replicate 16
       \<lparr>mp_frame = 5, mp_epoch = 3, mp_at_us = 100, mp_seq = 1, mp_payload = replicate 40 0\<rparr>,
     q_previous_session = 0, q_previous_seq = 0, q_have_previous = False,
     q_reconnect = \<lparr>b_requested = False, b_acknowledged = False\<rparr>\<rparr>"

definition ex_worker :: pcm_worker where
  "ex_worker = \<lparr>k_base = 41, k_seq = 0, k_reset_epoch = 0, k_last_mic_frame = 0, k_last_mic_seq = 0,
     k_have_mic = False, k_was_capture = False, k_next_silence = 0, k_last_transfer = 0, k_paused = False\<rparr>"

definition ex_pass :: pass where
  "ex_pass = \<lparr>p_now = 0, p_start = 1, p_done = 2, p_transfer = Transferred (replicate 1280 0)\<rparr>"

lemma codec_link_agrees_witness:
  "\<exists>s1 u1 k1 tx v1 reply. run_pass (o_crc ex_ops) ex_stream usb_audio_zero ex_worker ex_pass = (s1, u1, k1, Some tx) \<and>
     process ex_ops ex_server tx (CW_BYTES * 8) = (v1, reply) \<and>
     snd (snd (accept_response (o_crc ex_ops) s1 usb_audio_zero reply 44))"
proof -
  obtain s1 u1 k1 tx where h: "hello_step (o_crc ex_ops) ex_stream usb_audio_zero ex_worker ex_pass = (s1, u1, k1, tx)"
    by (cases "hello_step (o_crc ex_ops) ex_stream usb_audio_zero ex_worker ex_pass") auto
  have run: "run_pass (o_crc ex_ops) ex_stream usb_audio_zero ex_worker ex_pass = (s1, u1, k1, Some tx)"
    using h by (simp add: run_pass_def) (simp add: ex_stream_def ex_worker_def ull_reconnect_requested_def)
  have t: "p_transfer ex_pass = Transferred (replicate 1280 0)" by (simp add: ex_pass_def)
  have c: "cache_ok ex_ops ex_server" by (simp add: cache_ok_def ex_server_def)
  obtain v1 reply where pr: "process ex_ops ex_server tx (CW_BYTES * 8) = (v1, reply)"
    by (cases "process ex_ops ex_server tx (CW_BYTES * 8)")
  have "snd (snd (accept_response (o_crc ex_ops) s1 usb_audio_zero reply 44)) = (44 = k_base ex_worker + q_epoch ex_stream)"
    using codec_link_agrees [OF run t c pr, of usb_audio_zero 44] by blast
  moreover have "k_base ex_worker + q_epoch ex_stream = 44" by (simp add: ex_worker_def ex_stream_def)
  ultimately show ?thesis using run pr by auto
qed

section \<open>The microphone ring\<close>

definition fresh_packet :: "pcm_worker \<Rightarrow> u32 \<Rightarrow> u32 \<Rightarrow> mic_packet \<Rightarrow> bool" where
  "fresh_packet k current_epoch now p \<longleftrightarrow> mp_epoch p = current_epoch \<and> now - mp_at_us p \<le> 40000 \<and>
     \<not> (k_have_mic k \<and> (mp_frame p = k_last_mic_frame k \<or>
          (mp_seq p = k_last_mic_seq k \<and> mp_frame p - k_last_mic_frame k < 16)))"

definition mic_queue :: "pcm_stream \<Rightarrow> u32 \<Rightarrow> mic_packet list" where
  "mic_queue s mw = ring PCM_Q (q_packets s) mw (q_read_pos s)"

definition mic_chosen :: "mic_packet option \<Rightarrow> pcm_worker \<Rightarrow> u32 \<Rightarrow> u32 \<Rightarrow> mic_packet list \<Rightarrow> mic_packet list \<Rightarrow> bool" where
  "mic_chosen r k e now before after \<longleftrightarrow> (\<exists>old. (\<forall>q \<in> set old. \<not> fresh_packet k e now q) \<and>
     (case r of None \<Rightarrow> before = old \<and> after = []
      | Some p \<Rightarrow> before = old @ p # after \<and> fresh_packet k e now p))"

definition mic_balance :: "pcm_stream \<Rightarrow> u32" where
  "mic_balance s = q_mic_dropped s + q_duplicates s - q_read_pos s"

lemma mic_chosen_skip:
  "mic_chosen r k e now before after \<Longrightarrow> \<not> fresh_packet k e now p \<Longrightarrow> mic_chosen r k e now (p # before) after"
  unfolding mic_chosen_def by (elim exE, rule_tac x = "p # old" in exI) (auto split: option.splits)

lemma mic_loop_spec:
  "mic_loop s k e now mw = (s', r) \<Longrightarrow>
   mic_chosen r k e now (mic_queue s mw) (mic_queue s' mw) \<and>
   mic_balance s' + (if r = None then 0 else 1) = mic_balance s"
proof (induction s k e now mw rule: mic_loop.induct)
  case (1 s k e now mw)
  let ?p = "q_packets s ! (unat (q_read_pos s) mod PCM_Q)"
  let ?s1 = "s\<lparr>q_read_pos := q_read_pos s + 1\<rparr>"
  show ?case
  proof (cases "q_read_pos s = mw")
    case True
    then have "mic_loop s k e now mw = (s, None)" by (subst mic_loop.simps) simp
    then have "s' = s" "r = None" using 1(3) by simp_all
    then show ?thesis using True by (simp add: mic_queue_def mic_chosen_def)
  next
    case False
    then have pos: "0 < unat (mw - q_read_pos s)" by (simp add: unat_gt_0)
    have dvd: "PCM_Q dvd 4294967296" by (simp add: PCM_Q_def)
    have ne: "mic_queue s mw \<noteq> []" using pos by (simp add: mic_queue_def flip: length_0_conv)
    have q: "mic_queue s mw = ?p # mic_queue ?s1 mw"
      using ring_hd [OF pos, of PCM_Q "q_packets s"] ring_pop [OF dvd pos, of "q_packets s"] ne
      by (simp add: mic_queue_def) (metis list.collapse)
    have same: "mic_queue (t\<lparr>q_mic_dropped := d\<rparr>) w = mic_queue t w" "mic_queue (t\<lparr>q_duplicates := d\<rparr>) w = mic_queue t w"
      for t d w by (simp_all add: mic_queue_def)
    consider (stale) "mp_epoch ?p \<noteq> e \<or> now - mp_at_us ?p > 40000"
      | (dup) "\<not> (mp_epoch ?p \<noteq> e \<or> now - mp_at_us ?p > 40000)" "\<not> fresh_packet k e now ?p"
      | (fresh) "fresh_packet k e now ?p"
      by blast
    then show ?thesis
    proof cases
      case stale
      let ?s2 = "?s1\<lparr>q_mic_dropped := q_mic_dropped ?s1 + 1\<rparr>"
      have "mic_loop s k e now mw = mic_loop ?s2 k e now mw"
        using False stale by (subst mic_loop.simps) (simp add: Let_def)
      then have run: "mic_loop ?s2 k e now mw = (s', r)" using 1(3) by simp
      have "\<not> fresh_packet k e now ?p" using stale by (auto simp: fresh_packet_def)
      moreover have "mic_balance ?s2 = mic_balance s" by (simp add: mic_balance_def)
      ultimately show ?thesis
        using 1(1) [OF False refl refl stale run] q mic_chosen_skip by (simp add: same)
    next
      case dup
      let ?s2 = "?s1\<lparr>q_duplicates := q_duplicates ?s1 + 1\<rparr>"
      have d: "k_have_mic k \<and> (mp_frame ?p - k_last_mic_frame k = 0 \<or>
          (mp_seq ?p = k_last_mic_seq k \<and> mp_frame ?p - k_last_mic_frame k < 16))"
        using dup by (auto simp: fresh_packet_def)
      have "mic_loop s k e now mw = mic_loop ?s2 k e now mw"
        using False dup(1) d by (subst mic_loop.simps) (simp add: Let_def)
      then have run: "mic_loop ?s2 k e now mw = (s', r)" using 1(3) by simp
      have "mic_balance ?s2 = mic_balance s" by (simp add: mic_balance_def)
      then show ?thesis
        using 1(2) [OF False refl refl dup(1) d run] q mic_chosen_skip dup(2) by (simp add: same)
    next
      case fresh
      then have "mic_loop s k e now mw = (?s1, Some ?p)"
        using False by (subst mic_loop.simps) (auto simp: fresh_packet_def Let_def)
      then have "s' = ?s1" "r = Some ?p" using 1(3) by simp_all
      moreover have "mic_balance ?s1 + 1 = mic_balance s" by (simp add: mic_balance_def)
      ultimately show ?thesis using q fresh by (auto simp: mic_chosen_def intro!: exI [of _ "[]"])
    qed
  qed
qed

text \<open>The scan of the microphone ring ends, passes over exactly the packets that are stale (another session or
  older than 40 ms) or repeat the last one sent, hands over the first fresh one, leaves the rest queued in
  order, and counts every packet it passed over.\<close>

theorem mic_scan_exact:
  shows "case mic_loop s k e now mw of (s', r) \<Rightarrow>
    mic_chosen r k e now (mic_queue s mw) (mic_queue s' mw) \<and>
    mic_balance s' + (if r = None then 0 else 1) = mic_balance s"
  using mic_loop_spec [of s k e now mw] by (cases "mic_loop s k e now mw") simp

lemma mic_append:
  assumes "length (q_packets s) = PCM_Q" and "q_mic_active s"
  shows "mic_queue (ull_air_microphone_frame s f sq d now) (q_written (ull_air_microphone_frame s f sq d now)) =
    mic_queue s (q_written s) @
      (if length (mic_queue s (q_written s)) < PCM_Q
       then [\<lparr>mp_frame = f, mp_epoch = q_epoch s, mp_at_us = now, mp_seq = sq, mp_payload = take 40 d\<rparr>] else [])"
  using ring_push [of PCM_Q "q_packets s" "q_written s" "q_read_pos s"] assms
  by (auto simp: mic_queue_def ull_air_microphone_frame_def PCM_Q_def word_le_nat_alt not_less)

end
