(* ===== verification/TrialPump.thy ===== *)
theory TrialPump
  imports Prelude
begin

text \<open>
  Model of \<^verbatim>\<open>firmware/radio/src/trial_pump.c\<close> as the build configures it (a trace of 4096 bytes,
  live USB): the timer that keeps one internal HCI command in flight, its limits, the gate all senders
  share, and the bounded trace of terminal records. The clock, the availability of the host interface and the
  success of starting the timer are arguments; what is handed to the controller and to the diagnostics is
  kept as two lists. A timer callback is one step between \<open>tick_enter\<close> and \<open>tick_leave\<close>.
\<close>

definition TRACE_CAPACITY :: nat where "TRACE_CAPACITY = 4096"
definition TRACE_RESERVE :: nat where "TRACE_RESERVE = 128"

record trial_pump =
  t_sender :: bool
  t_active :: bool
  t_pending :: bool
  t_continuous :: bool
  t_tick_running :: nat
  t_requests :: u32
  t_steps :: u32
  t_max_dispatch :: u32
  t_pending_since :: int
  t_started :: int
  t_timer :: bool
  t_trace :: bytes
  t_used :: nat
  t_read :: nat
  t_lost :: u32
  t_base :: int
  t_recording :: bool
  t_frozen :: bool
  t_sent :: "bytes list"
  t_reported :: "bytes list"

definition pump_zero :: trial_pump where
  "pump_zero = \<lparr>t_sender = False, t_active = False, t_pending = False, t_continuous = False, t_tick_running = 0,
     t_requests = 0, t_steps = 0, t_max_dispatch = 0, t_pending_since = 0, t_started = 0, t_timer = False,
     t_trace = replicate TRACE_CAPACITY 0, t_used = 0, t_read = 0, t_lost = 0, t_base = 0, t_recording = False,
     t_frozen = False, t_sent = [], t_reported = []\<rparr>"

text \<open>The loads of the busy test, in the order of the code; the first that reads true ends it.\<close>

definition busy_loads :: "(trial_pump \<Rightarrow> bool) list" where
  "busy_loads = [t_active, \<lambda>s. t_tick_running s \<noteq> 0, t_pending]"

definition ull_trial_pump_busy :: "trial_pump \<Rightarrow> bool" where
  "ull_trial_pump_busy s \<longleftrightarrow> list_ex (\<lambda>load. load s) busy_loads"

definition ull_trial_pump_continuous :: "trial_pump \<Rightarrow> bool \<Rightarrow> trial_pump \<times> bool" where
  "ull_trial_pump_continuous s v = (if ull_trial_pump_busy s then (s, False) else (s\<lparr>t_continuous := v\<rparr>, True))"

text \<open>The gate; \<open>available\<close> is what the host interface says. A busy gate refuses without touching it.\<close>

definition ull_hci_try_send :: "trial_pump \<Rightarrow> bytes \<Rightarrow> bool \<Rightarrow> trial_pump \<times> bool" where
  "ull_hci_try_send s data available =
     (if t_sender s then (s, False)
      else if available then (s\<lparr>t_sent := t_sent s @ [data]\<rparr>, True) else (s, False))"

section \<open>The trace\<close>

definition terminal_record :: "bytes \<Rightarrow> bool" where
  "terminal_record d \<longleftrightarrow> 8 \<le> length d \<and>
     (take 5 d = [0x55, 0x4c, 0x4c, 0x50, 3] \<or>
      (take 5 d = [0x55, 0x4c, 0x4c, 0x41, 1] \<and> d ! 5 \<ge> 3) \<or>
      (length d = 12 \<and> take 5 d = [0x55, 0x4c, 0x4c, 0x21, 1]))"

definition trace_entry :: "u32 \<Rightarrow> bytes \<Rightarrow> bytes" where
  "trace_entry delta d = put32 delta @ [of_nat (length d)] @ d"

definition ull_trial_trace_record :: "trial_pump \<Rightarrow> bytes \<Rightarrow> int \<Rightarrow> trial_pump \<times> bool" where
  "ull_trial_trace_record s d now =
     (if \<not> t_recording s then (s, False)
      else
        let terminal = terminal_record d in
        if \<not> terminal then (s, True)
        else
          let limit = (if terminal then TRACE_CAPACITY else TRACE_CAPACITY - TRACE_RESERVE);
              elapsed = now - t_base s
          in if d = [] \<or> length d > 103 \<or> elapsed < 0 \<or> elapsed > 4294967295 \<or> t_used s + 5 + length d > limit
             then (s\<lparr>t_lost := t_lost s + 1\<rparr>, True)
             else (s\<lparr>t_trace := memcpy_at (t_trace s) (t_used s) (trace_entry (of_int elapsed) d),
                     t_used := t_used s + 5 + length d\<rparr>, True))"

text \<open>The timestamp is the base plus the unsigned delta.\<close>

definition ull_trial_trace_next :: "trial_pump \<Rightarrow> nat \<Rightarrow> trial_pump \<times> (int \<times> bytes) option" where
  "ull_trial_trace_next s capacity =
     (if \<not> t_frozen s \<or> t_read s = t_used s then (s, None)
      else
        let delta = get32 (t_trace s) (t_read s); n = unat (t_trace s ! (t_read s + 4)) in
        if n > capacity \<or> t_read s + 5 + n > t_used s then (s, None)
        else
          let item = (t_base s + int (unat delta), block (t_read s + 5) n (t_trace s));
              s = s\<lparr>t_trace := memcpy_at (t_trace s) (t_read s) (replicate (5 + n) 0), t_read := t_read s + 5 + n\<rparr>
          in (if t_read s = t_used s then s\<lparr>t_frozen := False\<rparr> else s, Some item))"

section \<open>The pump\<close>

definition summary :: "trial_pump \<Rightarrow> u8 \<Rightarrow> u8 \<Rightarrow> bytes" where
  "summary s state status =
     [0x55, 0x4c, 0x4c, 0x50, 3, state, if t_pending s then 1 else 0, status] @ put32 (t_requests s) @
     put32 (t_steps s) @ put32 (t_lost s) @ put32 (of_nat (t_used s)) @ put32 (t_max_dispatch s)"

text \<open>\<^verbatim>\<open>ull_controller_diag_record\<close> of \<^verbatim>\<open>main.c\<close>: a record goes to the trace while one is being
  recorded and otherwise, framed as a vendor event, to the host queue, which the list \<open>t_reported\<close> stands for.\<close>

definition ull_controller_diag_record :: "trial_pump \<Rightarrow> bytes \<Rightarrow> int \<Rightarrow> trial_pump" where
  "ull_controller_diag_record s d now =
     (let (s, taken) = ull_trial_trace_record s d now in
      if taken then s
      else if length d > 106 - 3 then s
      else s\<lparr>t_reported := t_reported s @ [[4, 0xff, of_nat (length d)] @ d]\<rparr>)"

definition ull_trial_pump_finish :: "trial_pump \<Rightarrow> u8 \<Rightarrow> int \<Rightarrow> trial_pump" where
  "ull_trial_pump_finish s status now =
     (if \<not> t_active s then s
      else
        let s = s\<lparr>t_active := False\<rparr>;
            s = ull_controller_diag_record s (summary s (if status \<noteq> 0 then 3 else 2) status) now
        in s\<lparr>t_recording := False, t_frozen := (t_used s \<noteq> 0)\<rparr>)"

definition INTERNAL_COMMAND :: bytes where "INTERNAL_COMMAND = [1, 0xfe, 0xfc, 0]"

text \<open>The callback reads the clock once; \<open>later\<close> is the reading of the trace when it finishes the pump. The last
  two actions of the callback are separate definitions because another task may run between them.\<close>

definition tick_publish :: "trial_pump \<Rightarrow> int \<Rightarrow> trial_pump" where
  "tick_publish s now = s\<lparr>t_pending_since := now, t_pending := True, t_requests := t_requests s + 1\<rparr>"

definition tick_send :: "trial_pump \<Rightarrow> bool \<Rightarrow> trial_pump" where
  "tick_send s available =
     (let (s, sent) = ull_hci_try_send s INTERNAL_COMMAND available
      in if \<not> sent then s\<lparr>t_requests := t_requests s - 1, t_pending := False\<rparr> else s)"

definition tick_expired :: "trial_pump \<Rightarrow> int \<Rightarrow> bool" where
  "tick_expired s now \<longleftrightarrow> \<not> t_continuous s \<and> now - t_started s > 310000000"

definition tick_body :: "trial_pump \<Rightarrow> int \<Rightarrow> int \<Rightarrow> bool \<Rightarrow> trial_pump" where
  "tick_body s now later available =
     (if \<not> t_active s then s
      else if tick_expired s now then ull_trial_pump_finish s 3 later
      else if t_pending s then
        (if now - t_pending_since s > 20000 then ull_trial_pump_finish s 2 later else s)
      else tick_send (tick_publish s now) available)"

definition tick_enter :: "trial_pump \<Rightarrow> trial_pump" where
  "tick_enter s = s\<lparr>t_tick_running := t_tick_running s + 1\<rparr>"
definition tick_leave :: "trial_pump \<Rightarrow> trial_pump" where
  "tick_leave s = s\<lparr>t_tick_running := t_tick_running s - 1\<rparr>"

definition tick :: "trial_pump \<Rightarrow> int \<Rightarrow> int \<Rightarrow> bool \<Rightarrow> trial_pump" where
  "tick s now later available = tick_leave (tick_body (tick_enter s) now later available)"

definition ull_trial_pump_rearm :: "trial_pump \<Rightarrow> trial_pump \<times> bool" where
  "ull_trial_pump_rearm s =
     (if ull_trial_pump_busy s then (s, False)
      else if \<not> t_recording s \<and> \<not> ull_trial_pump_busy s
      then (s\<lparr>t_frozen := False, t_used := 0, t_read := 0, t_lost := 0\<rparr>, True) else (s, False))"

definition ull_trial_pump_init :: "trial_pump \<Rightarrow> trial_pump" where
  "ull_trial_pump_init s = s\<lparr>t_timer := True\<rparr>"

text \<open>Starting reads the clock twice, for the trace and for the run; the capability report goes to the host.\<close>

definition start_body :: "trial_pump \<Rightarrow> int \<Rightarrow> int \<Rightarrow> bool \<Rightarrow> trial_pump \<times> bool" where
  "start_body s now later timer_started =
     (if t_recording s \<or> t_frozen s then (s, False)
      else
        let s = s\<lparr>t_used := 0, t_read := 0, t_lost := 0, t_base := now,
                  t_requests := 0, t_steps := 0, t_max_dispatch := 0\<rparr>;
            s = ull_controller_diag_record s (summary s 1 0) now;
            s = s\<lparr>t_recording := True, t_started := later, t_active := True\<rparr>
        in if \<not> timer_started then (ull_trial_pump_finish s 1 later, False) else (s, True))"

definition ull_trial_pump_start :: "trial_pump \<Rightarrow> int \<Rightarrow> int \<Rightarrow> bool \<Rightarrow> trial_pump \<times> bool" where
  "ull_trial_pump_start s now later timer_started =
     (if \<not> t_timer s \<or> ull_trial_pump_busy s then (s, False) else start_body s now later timer_started)"

definition ull_trial_pump_claim :: "trial_pump \<Rightarrow> int \<Rightarrow> trial_pump \<times> bool" where
  "ull_trial_pump_claim s now =
     (if \<not> t_active s \<or> \<not> t_pending s then (s, False)
      else
        let elapsed = of_int (now - t_pending_since s) :: u32 in
        (s\<lparr>t_max_dispatch := (if elapsed > t_max_dispatch s then elapsed else t_max_dispatch s),
           t_steps := t_steps s + 1\<rparr>, True))"

definition ull_trial_pump_receive :: "trial_pump \<Rightarrow> bytes \<Rightarrow> int \<Rightarrow> trial_pump \<times> bool" where
  "ull_trial_pump_receive s d now =
     (if length d \<noteq> 7 \<or> d ! 0 \<noteq> 4 \<or> d ! 1 \<noteq> 0x0e \<or> d ! 2 \<noteq> 4 \<or> d ! 4 \<noteq> 0xfe \<or> d ! 5 \<noteq> 0xfc then (s, False)
      else
        let s = s\<lparr>t_pending := False\<rparr> in
        (if d ! 6 \<noteq> 0 then ull_trial_pump_finish s (d ! 6) now else s, True))"

section \<open>The trace returns what was recorded\<close>

text \<open>The unread part of the trace is the concatenation of the entries still to be read.\<close>

definition trace_holds :: "trial_pump \<Rightarrow> (u32 \<times> bytes) list \<Rightarrow> bool" where
  "trace_holds s es \<longleftrightarrow> length (t_trace s) = TRACE_CAPACITY \<and> t_read s \<le> t_used s \<and> t_used s \<le> TRACE_CAPACITY \<and>
     block (t_read s) (t_used s - t_read s) (t_trace s) = concat (map (\<lambda>(delta, d). trace_entry delta d) es) \<and>
     (\<forall>(delta, d) \<in> set es. d \<noteq> [] \<and> length d \<le> 103)"

lemma length_entry [simp]: "length (trace_entry delta d) = 5 + length d"
  by (simp add: trace_entry_def)

lemma block_snoc: "block p n xs @ block (p + n) m xs = block p (n + m) xs"
  unfolding block_def by (subst take_add) (simp add: add.commute)

lemma record_holds:
  assumes h: "trace_holds s es" and rcd: "t_recording s" and trm: "terminal_record d"
  shows "trace_holds (fst (ull_trial_trace_record s d now))
    (if length d \<le> 103 \<and> t_base s \<le> now \<and> now - t_base s \<le> 4294967295 \<and> t_used s + 5 + length d \<le> TRACE_CAPACITY
     then es @ [(of_int (now - t_base s), d)] else es)"
proof (cases "length d \<le> 103 \<and> t_base s \<le> now \<and> now - t_base s \<le> 4294967295 \<and> t_used s + 5 + length d \<le> TRACE_CAPACITY")
  case True
  have d: "d \<noteq> []" using trm by (auto simp: terminal_record_def)
  let ?e = "trace_entry (of_int (now - t_base s)) d"
  have run: "fst (ull_trial_trace_record s d now) =
      s\<lparr>t_trace := memcpy_at (t_trace s) (t_used s) ?e, t_used := t_used s + 5 + length d\<rparr>"
    using True d rcd trm by (simp add: ull_trial_trace_record_def Let_def)
  have fit: "t_used s + length ?e \<le> length (t_trace s)" using h True by (simp add: trace_holds_def)
  have le: "t_read s \<le> t_used s" using h by (simp add: trace_holds_def)
  have "block (t_read s) (t_used s - t_read s) (memcpy_at (t_trace s) (t_used s) ?e) = block (t_read s) (t_used s - t_read s) (t_trace s)"
    using fit le by (intro block_memcpy_other) auto
  moreover have "block (t_used s) (length ?e) (memcpy_at (t_trace s) (t_used s) ?e) = ?e"
    by (rule block_memcpy_same [OF fit])
  ultimately have "block (t_read s) (t_used s - t_read s + length ?e) (memcpy_at (t_trace s) (t_used s) ?e) =
      block (t_read s) (t_used s - t_read s) (t_trace s) @ ?e"
    using block_snoc [of "t_read s" "t_used s - t_read s" "memcpy_at (t_trace s) (t_used s) ?e" "length ?e"] le by simp
  moreover have "t_used s + 5 + length d - t_read s = t_used s - t_read s + length ?e" using le by simp
  ultimately show ?thesis
    using h True d le fit by (simp add: run trace_holds_def length_memcpy_at)
next
  case False
  then have c: "d = [] \<or> 103 < length d \<or> now - t_base s < 0 \<or> 4294967295 < now - t_base s \<or> TRACE_CAPACITY < t_used s + 5 + length d"
    by linarith
  have "fst (ull_trial_trace_record s d now) = s\<lparr>t_lost := t_lost s + 1\<rparr>"
    by (simp only: ull_trial_trace_record_def Let_def rcd trm c simp_thms if_True if_False fst_conv)
  then show ?thesis unfolding if_not_P [OF False] using h by (simp add: trace_holds_def)
qed

lemma block_parts: "block p n xs = ys @ zs \<Longrightarrow> p + n \<le> length xs \<Longrightarrow>
    block p (length ys) xs = ys \<and> block (p + length ys) (n - length ys) xs = zs"
proof -
  assume b: "block p n xs = ys @ zs" "p + n \<le> length xs"
  then have n: "n = length ys + length zs" by (metis length_append length_block)
  then have "block p (length ys) xs @ block (p + length ys) (length zs) xs = ys @ zs"
    using b(1) block_snoc [of p "length ys" xs "length zs"] by simp
  moreover have "length (block p (length ys) xs) = length ys" using b(2) n by (simp add: block_def)
  ultimately show ?thesis using n by simp
qed

lemma next_holds:
  assumes h: "trace_holds s ((delta, d) # es)" and fr: "t_frozen s" and cap: "103 \<le> capacity"
  shows "snd (ull_trial_trace_next s capacity) = Some (t_base s + int (unat delta), d)"
    and "trace_holds (fst (ull_trial_trace_next s capacity)) es"
    and "t_base (fst (ull_trial_trace_next s capacity)) = t_base s"
    and "t_frozen (fst (ull_trial_trace_next s capacity)) \<longleftrightarrow> es \<noteq> []"
proof -
  let ?r = "t_read s" and ?rest = "concat (map (\<lambda>(delta, d). trace_entry delta d) es)"
  have d: "d \<noteq> []" "length d \<le> 103" using h by (simp_all add: trace_holds_def)
  have room: "?r + (t_used s - ?r) \<le> length (t_trace s)" using h by (simp add: trace_holds_def)
  have all: "block ?r (t_used s - ?r) (t_trace s) = trace_entry delta d @ ?rest"
    using h by (simp add: trace_holds_def)
  note sp = block_parts [OF all room]
  have le: "?r + 5 + length d \<le> t_used s"
    using arg_cong [OF all, of length] room by (simp add: length_block)
  have "block ?r 4 (t_trace s) = put32 delta" "block (?r + 4) 1 (t_trace s) = [of_nat (length d)]" "block (?r + 5) (length d) (t_trace s) = d"
  proof -
    have e: "block ?r (4 + (1 + length d)) (t_trace s) = put32 delta @ [of_nat (length d)] @ d"
      using sp by (simp add: trace_entry_def)
    have bound: "?r + (4 + (1 + length d)) \<le> length (t_trace s)" using le room by linarith
    from block_parts [OF e bound] have one: "block ?r 4 (t_trace s) = put32 delta"
      and two: "block (?r + 4) (1 + length d) (t_trace s) = [of_nat (length d)] @ d" by simp_all
    show "block ?r 4 (t_trace s) = put32 delta" by (rule one)
    have bound': "?r + 4 + (1 + length d) \<le> length (t_trace s)" using bound by simp
    from block_parts [OF two bound'] show "block (?r + 4) 1 (t_trace s) = [of_nat (length d)]"
      "block (?r + 5) (length d) (t_trace s) = d" by (simp_all add: add.commute [of _ ?r])
  qed
  then have get: "get32 (t_trace s) ?r = delta" "t_trace s ! (?r + 4) = of_nat (length d)"
      "block (?r + 5) (length d) (t_trace s) = d"
    using le room get32_at [of ?r "t_trace s"] by (auto simp: le_simps block_def take_Suc_conv_app_nth hd_drop_conv_nth take_Suc)
  have n: "unat (t_trace s ! (?r + 4)) = length d" using d get(2) by (simp add: unat_of_nat_u8)
  let ?s = "s\<lparr>t_trace := memcpy_at (t_trace s) ?r (replicate (5 + length d) 0), t_read := ?r + 5 + length d\<rparr>"
  have run: "ull_trial_trace_next s capacity = (if ?r + 5 + length d = t_used s then ?s\<lparr>t_frozen := False\<rparr> else ?s,
      Some (t_base s + int (unat delta), d))"
    using fr le n get cap d by (simp add: ull_trial_trace_next_def Let_def)
  show "snd (ull_trial_trace_next s capacity) = Some (t_base s + int (unat delta), d)" by (simp add: run)
  show "t_base (fst (ull_trial_trace_next s capacity)) = t_base s" by (simp add: run)
  have "block (?r + (5 + length d)) (t_used s - ?r - (5 + length d)) (t_trace s) = ?rest" using sp by simp
  then have rest: "block (?r + 5 + length d) (t_used s - (?r + 5 + length d)) (memcpy_at (t_trace s) ?r (replicate (5 + length d) 0)) = ?rest"
    using le room by (subst block_memcpy_other) (simp_all add: add.assoc)
  then show "trace_holds (fst (ull_trial_trace_next s capacity)) es"
    using h le room by (cases "?r + 5 + length d = t_used s") (simp_all add: run trace_holds_def length_memcpy_at)
  have "?rest = [] \<longleftrightarrow> es = []" by (cases es) (auto simp: trace_entry_def split: prod.splits)
  moreover have "length ?rest = t_used s - (?r + 5 + length d)"
    using arg_cong [OF all, of length] room by (simp add: length_block)
  ultimately show "t_frozen (fst (ull_trial_trace_next s capacity)) \<longleftrightarrow> es \<noteq> []"
    using le fr by (auto simp: run)
qed

text \<open>Everything the diagnostics record while the pump is active, with the clock readings.\<close>

primrec record_all :: "trial_pump \<Rightarrow> (bytes \<times> int) list \<Rightarrow> trial_pump" where
  "record_all s [] = s"
| "record_all s (x # xs) = record_all (ull_controller_diag_record s (fst x) (snd x)) xs"

text \<open>The console's reads until one fails.\<close>

primrec read_all :: "nat \<Rightarrow> trial_pump \<Rightarrow> nat \<Rightarrow> trial_pump \<times> (int \<times> bytes) list" where
  "read_all 0 s capacity = (s, [])"
| "read_all (Suc k) s capacity =
     (case ull_trial_trace_next s capacity of (s, None) \<Rightarrow> (s, [])
      | (s, Some item) \<Rightarrow> let (s, items) = read_all k s capacity in (s, item # items))"

text \<open>What is kept: the terminal records of a legal length that were made in time and still fit.\<close>

definition keeps :: "int \<Rightarrow> nat \<Rightarrow> bytes \<Rightarrow> int \<Rightarrow> bool" where
  "keeps base used d now \<longleftrightarrow> terminal_record d \<and> length d \<le> 103 \<and> base \<le> now \<and> now - base \<le> 4294967295 \<and>
     used + 5 + length d \<le> TRACE_CAPACITY"

primrec kept :: "int \<Rightarrow> nat \<Rightarrow> (bytes \<times> int) list \<Rightarrow> (int \<times> bytes) list" where
  "kept base used [] = []"
| "kept base used (x # xs) =
     (if keeps base used (fst x) (snd x) then (snd x, fst x) # kept base (used + 5 + length (fst x)) xs
      else kept base used xs)"

definition as_entries :: "int \<Rightarrow> (int \<times> bytes) list \<Rightarrow> (u32 \<times> bytes) list" where
  "as_entries base items = map (\<lambda>(t, d). (of_int (t - base), d)) items"

lemma as_entries_simps [simp]:
  "as_entries base [] = []"
  "as_entries base (x # xs) = (of_int (fst x - base), snd x) # as_entries base xs"
  by (simp_all add: as_entries_def split: prod.splits)

lemma as_entries_append [simp]: "as_entries base (xs @ ys) = as_entries base xs @ as_entries base ys"
  by (simp add: as_entries_def)

lemma record_fields [simp]:
  "t_recording (fst (ull_trial_trace_record s d now)) = t_recording s"
  "t_base (fst (ull_trial_trace_record s d now)) = t_base s"
  "t_active (fst (ull_trial_trace_record s d now)) = t_active s"
  "t_pending (fst (ull_trial_trace_record s d now)) = t_pending s"
  "t_tick_running (fst (ull_trial_trace_record s d now)) = t_tick_running s"
  "t_sent (fst (ull_trial_trace_record s d now)) = t_sent s"
  "t_frozen (fst (ull_trial_trace_record s d now)) = t_frozen s"
  "t_read (fst (ull_trial_trace_record s d now)) = t_read s"
  by (simp_all add: ull_trial_trace_record_def Let_def)

lemma record_taken: "snd (ull_trial_trace_record s d now) \<longleftrightarrow> t_recording s"
  by (simp add: ull_trial_trace_record_def Let_def)

lemma diag_eq: "ull_controller_diag_record s d now =
    (if t_recording s then fst (ull_trial_trace_record s d now)
     else if length d > 103 then s else s\<lparr>t_reported := t_reported s @ [[4, 0xff, of_nat (length d)] @ d]\<rparr>)"
proof -
  obtain s' taken where run: "ull_trial_trace_record s d now = (s', taken)" by fastforce
  have t: "taken \<longleftrightarrow> t_recording s" using record_taken [of s d now] run by simp
  have "\<not> t_recording s \<Longrightarrow> s' = s" using run by (simp add: ull_trial_trace_record_def)
  then show ?thesis using t by (simp add: ull_controller_diag_record_def run)
qed

lemma diag_fields [simp]:
  "t_recording (ull_controller_diag_record s d now) = t_recording s"
  "t_base (ull_controller_diag_record s d now) = t_base s"
  "t_active (ull_controller_diag_record s d now) = t_active s"
  "t_pending (ull_controller_diag_record s d now) = t_pending s"
  "t_tick_running (ull_controller_diag_record s d now) = t_tick_running s"
  "t_sent (ull_controller_diag_record s d now) = t_sent s"
  "t_frozen (ull_controller_diag_record s d now) = t_frozen s"
  "t_read (ull_controller_diag_record s d now) = t_read s"
  by (simp_all add: diag_eq)

lemma finish_fields [simp]:
  "t_pending (ull_trial_pump_finish s st now) = t_pending s"
  "t_tick_running (ull_trial_pump_finish s st now) = t_tick_running s"
  "t_sent (ull_trial_pump_finish s st now) = t_sent s"
  "\<not> t_active (ull_trial_pump_finish s st now)"
  by (simp_all add: ull_trial_pump_finish_def Let_def)

lemma diag_holds:
  assumes "trace_holds s es" "t_recording s"
  shows "trace_holds (ull_controller_diag_record s d now)
      (if keeps (t_base s) (t_used s) d now then es @ [(of_int (now - t_base s), d)] else es)"
    and "t_used (ull_controller_diag_record s d now) = t_used s + (if keeps (t_base s) (t_used s) d now then 5 + length d else 0)"
proof -
  show "trace_holds (ull_controller_diag_record s d now)
      (if keeps (t_base s) (t_used s) d now then es @ [(of_int (now - t_base s), d)] else es)"
  proof (cases "terminal_record d")
    case True
    then show ?thesis using record_holds [OF assms True] assms(2)
      by (simp only: diag_eq keeps_def if_True True simp_thms)
  next
    case False
    then show ?thesis using assms by (simp add: diag_eq keeps_def ull_trial_trace_record_def)
  qed
  have "d = [] \<Longrightarrow> \<not> terminal_record d" by (simp add: terminal_record_def)
  then show "t_used (ull_controller_diag_record s d now) = t_used s + (if keeps (t_base s) (t_used s) d now then 5 + length d else 0)"
    using assms(2) by (simp add: diag_eq keeps_def ull_trial_trace_record_def Let_def)
qed

lemma records_hold:
  "trace_holds s es \<Longrightarrow> t_recording s \<Longrightarrow>
     trace_holds (record_all s xs) (es @ as_entries (t_base s) (kept (t_base s) (t_used s) xs)) \<and>
     t_recording (record_all s xs) \<and> t_active (record_all s xs) = t_active s \<and> t_base (record_all s xs) = t_base s \<and>
     t_read (record_all s xs) = t_read s"
proof (induction xs arbitrary: s es)
  case (Cons x xs)
  let ?s = "ull_controller_diag_record s (fst x) (snd x)"
  note h = diag_holds [OF Cons.prems, of "fst x" "snd x"]
  have r: "t_recording ?s" using Cons.prems by simp
  show ?case using Cons.IH [OF h(1) r] h(2) by (simp add: add.assoc split: if_splits)
qed simp

lemma kept_append: "kept base used (xs @ ys) =
    kept base used xs @ kept base (used + sum_list (map (\<lambda>(t, d). 5 + length d) (kept base used xs))) ys"
  by (induction xs arbitrary: used) (simp_all add: add.assoc)

lemma trace_used_len: "trace_holds s es \<Longrightarrow> t_used s = t_read s + sum_list (map (\<lambda>(t, d). 5 + length d) es)"
proof -
  assume h: "trace_holds s es"
  have "length (block (t_read s) (t_used s - t_read s) (t_trace s)) = t_used s - t_read s"
    by (rule length_block) (use h in \<open>simp add: trace_holds_def\<close>)
  moreover have "length (concat (map (\<lambda>(delta, d). trace_entry delta d) es)) = sum_list (map (\<lambda>(t, d). 5 + length d) es)"
    by (induction es) (auto split: prod.splits)
  moreover have "block (t_read s) (t_used s - t_read s) (t_trace s) = concat (map (\<lambda>(delta, d). trace_entry delta d) es)" "t_read s \<le> t_used s"
    using h by (simp_all add: trace_holds_def)
  ultimately show ?thesis by (metis le_add_diff_inverse)
qed

lemma kept_in_range: "(t, d) \<in> set (kept base used xs) \<Longrightarrow> base \<le> t \<and> t - base \<le> 4294967295"
  by (induction xs arbitrary: used) (auto simp: keeps_def split: if_splits)

lemma delta_exact: "base \<le> t \<Longrightarrow> t - base \<le> 4294967295 \<Longrightarrow> base + int (unat (of_int (t - base) :: u32)) = t"
proof -
  assume "base \<le> t" "t - base \<le> 4294967295"
  then have "uint (of_int (t - base) :: u32) = t - base" by (simp add: uint_word_of_int_eq take_bit_int_eq_self del: of_int_diff)
  then show ?thesis by (simp del: of_int_diff)
qed

lemma reads_hold:
  "trace_holds s (as_entries (t_base s) items) \<Longrightarrow> (t_frozen s \<longleftrightarrow> items \<noteq> []) \<Longrightarrow> 103 \<le> capacity \<Longrightarrow>
   (\<forall>(t, d) \<in> set items. t_base s \<le> t \<and> t - t_base s \<le> 4294967295) \<Longrightarrow> length items < k \<Longrightarrow>
   snd (read_all k s capacity) = items \<and> \<not> t_frozen (fst (read_all k s capacity))"
proof (induction items arbitrary: s k)
  case Nil
  then obtain k' where "k = Suc k'" by (cases k) auto
  then show ?case using Nil by (simp add: ull_trial_trace_next_def)
next
  case (Cons x items)
  obtain t d where x: "x = (t, d)" by fastforce
  obtain k' where k: "k = Suc k'" "length items < k'" using Cons.prems(5) by (cases k) auto
  have fr: "t_frozen s" using Cons.prems(2) by simp
  have h: "trace_holds s ((of_int (t - t_base s), d) # as_entries (t_base s) items)" using Cons.prems(1) x by simp
  obtain s' r where run: "ull_trial_trace_next s capacity = (s', r)" by fastforce
  note n = next_holds [OF h fr Cons.prems(3), unfolded run fst_conv snd_conv]
  have exact: "t_base s + int (unat (of_int (t - t_base s) :: u32)) = t"
    using Cons.prems(4) x by (intro delta_exact) auto
  have r: "r = Some (t, d)" using n(1) by (simp only: exact)
  have e: "as_entries (t_base s) items = [] \<longleftrightarrow> items = []" by (simp add: as_entries_def)
  have "snd (read_all k' s' capacity) = items \<and> \<not> t_frozen (fst (read_all k' s' capacity))"
    using n(2-4) e Cons.prems(3,4) k(2) by (intro Cons.IH) auto
  then show ?case by (cases "read_all k' s' capacity") (simp add: k(1) run r x)
qed



section \<open>One command in flight\<close>

text \<open>
  The timer callback interleaved with the tasks that finish, claim, complete and restart the run. The
  callback is cut where another task can run: after it was entered, after its check of the run, after it
  published the command and after the send. \<open>p_seen\<close> counts the loads of the busy test that have read false;
  a restart or a rearm follows a test whose three loads read false, which is the place the code has it.
  A completion arrives only for a command that was sent and not yet completed (\<open>p_done\<close> counts them).
\<close>

datatype tick_pc = Idle | Entered | Checked | Published | Leaving

record pump_sys =
  p_pump :: trial_pump
  p_pc :: tick_pc
  p_seen :: nat
  p_done :: nat

definition commands_sent :: "trial_pump \<Rightarrow> nat" where
  "commands_sent s = length (filter (\<lambda>d. d = INTERNAL_COMMAND) (t_sent s))"

inductive pump_step :: "pump_sys \<Rightarrow> pump_sys \<Rightarrow> bool" where
  enter: "p_pc x = Idle \<Longrightarrow> pump_step x (x\<lparr>p_pump := tick_enter (p_pump x), p_pc := Entered\<rparr>)"
| quit: "p_pc x = Entered \<Longrightarrow> \<not> t_active (p_pump x) \<Longrightarrow> pump_step x (x\<lparr>p_pc := Leaving\<rparr>)"
| look: "p_pc x = Entered \<Longrightarrow> t_active (p_pump x) \<Longrightarrow> pump_step x (x\<lparr>p_pc := Checked\<rparr>)"
| expire: "p_pc x = Checked \<Longrightarrow> tick_expired (p_pump x) now \<Longrightarrow>
    pump_step x (x\<lparr>p_pump := ull_trial_pump_finish (p_pump x) 3 later, p_pc := Leaving\<rparr>)"
| stuck: "p_pc x = Checked \<Longrightarrow> t_pending (p_pump x) \<Longrightarrow>
    pump_step x (x\<lparr>p_pump := (if now - t_pending_since (p_pump x) > 20000 then ull_trial_pump_finish (p_pump x) 2 later else p_pump x),
       p_pc := Leaving\<rparr>)"
| publish: "p_pc x = Checked \<Longrightarrow> \<not> tick_expired (p_pump x) now \<Longrightarrow> \<not> t_pending (p_pump x) \<Longrightarrow>
    pump_step x (x\<lparr>p_pump := tick_publish (p_pump x) now, p_pc := Published\<rparr>)"
| send: "p_pc x = Published \<Longrightarrow> pump_step x (x\<lparr>p_pump := tick_send (p_pump x) available, p_pc := Leaving\<rparr>)"
| leave: "p_pc x = Leaving \<Longrightarrow> pump_step x (x\<lparr>p_pump := tick_leave (p_pump x), p_pc := Idle\<rparr>)"
| complete: "p_done x < commands_sent (p_pump x) \<Longrightarrow> ull_trial_pump_receive (p_pump x) d now = (s, True) \<Longrightarrow>
    pump_step x (x\<lparr>p_pump := s, p_done := p_done x + 1\<rparr>)"
| refused: "ull_trial_pump_receive (p_pump x) d now = (s, False) \<Longrightarrow> pump_step x (x\<lparr>p_pump := s\<rparr>)"
| claim: "pump_step x (x\<lparr>p_pump := fst (ull_trial_pump_claim (p_pump x) now)\<rparr>)"
| finish: "pump_step x (x\<lparr>p_pump := ull_trial_pump_finish (p_pump x) status now\<rparr>)"
| diagnose: "pump_step x (x\<lparr>p_pump := ull_controller_diag_record (p_pump x) d now\<rparr>)"
| drain: "pump_step x (x\<lparr>p_pump := fst (ull_trial_trace_next (p_pump x) capacity)\<rparr>)"
| gate: "pump_step x (x\<lparr>p_pump := (p_pump x)\<lparr>t_sender := held\<rparr>\<rparr>)"
| other: "d \<noteq> INTERNAL_COMMAND \<Longrightarrow> pump_step x (x\<lparr>p_pump := fst (ull_hci_try_send (p_pump x) d available)\<rparr>)"
| rearm: "pump_step x (x\<lparr>p_pump := fst (ull_trial_pump_rearm (p_pump x))\<rparr>)"
| continuous: "pump_step x (x\<lparr>p_pump := fst (ull_trial_pump_continuous (p_pump x) v)\<rparr>)"
| retest: "pump_step x (x\<lparr>p_seen := 0\<rparr>)"
| load: "p_seen x < 3 \<Longrightarrow> \<not> (busy_loads ! p_seen x) (p_pump x) \<Longrightarrow> pump_step x (x\<lparr>p_seen := p_seen x + 1\<rparr>)"
| restart: "p_seen x = 3 \<Longrightarrow>
    pump_step x (x\<lparr>p_pump := fst (start_body (p_pump x) now later started), p_seen := 0\<rparr>)"

definition pump_init :: pump_sys where
  "pump_init = \<lparr>p_pump = ull_trial_pump_init pump_zero, p_pc = Idle, p_seen = 0, p_done = 0\<rparr>"

definition pump_inv :: "pump_sys \<Rightarrow> bool" where
  "pump_inv x \<longleftrightarrow> (let s = p_pump x in
     t_tick_running s = (if p_pc x = Idle then 0 else 1) \<and>
     (if p_pc x = Published then t_pending s \<and> commands_sent s = p_done x
      else commands_sent s = p_done x + (if t_pending s then 1 else 0)) \<and>
     (1 \<le> p_seen x \<longrightarrow> \<not> t_active s) \<and>
     (2 \<le> p_seen x \<longrightarrow> p_pc x \<noteq> Checked \<and> p_pc x \<noteq> Published) \<and>
     (3 \<le> p_seen x \<longrightarrow> \<not> t_pending s))"

lemma finish_active: "t_active (ull_trial_pump_finish s st now) \<Longrightarrow> t_active s"
  by simp

lemma start_fields [simp]:
  "t_pending (fst (start_body s now later ok)) = t_pending s"
  "t_tick_running (fst (start_body s now later ok)) = t_tick_running s"
  "t_sent (fst (start_body s now later ok)) = t_sent s"
  by (simp_all add: start_body_def Let_def diag_eq)

lemma claim_fields [simp]:
  "t_pending (fst (ull_trial_pump_claim s now)) = t_pending s"
  "t_tick_running (fst (ull_trial_pump_claim s now)) = t_tick_running s"
  "t_sent (fst (ull_trial_pump_claim s now)) = t_sent s"
  "t_active (fst (ull_trial_pump_claim s now)) = t_active s"
  by (simp_all add: ull_trial_pump_claim_def Let_def)

lemma next_fields [simp]:
  "t_pending (fst (ull_trial_trace_next s capacity)) = t_pending s"
  "t_tick_running (fst (ull_trial_trace_next s capacity)) = t_tick_running s"
  "t_sent (fst (ull_trial_trace_next s capacity)) = t_sent s"
  "t_active (fst (ull_trial_trace_next s capacity)) = t_active s"
  by (simp_all add: ull_trial_trace_next_def Let_def)

lemma rearm_fields [simp]:
  "t_pending (fst (ull_trial_pump_rearm s)) = t_pending s"
  "t_tick_running (fst (ull_trial_pump_rearm s)) = t_tick_running s"
  "t_sent (fst (ull_trial_pump_rearm s)) = t_sent s"
  "t_active (fst (ull_trial_pump_rearm s)) = t_active s"
  by (simp_all add: ull_trial_pump_rearm_def)

lemma continuous_fields [simp]:
  "t_pending (fst (ull_trial_pump_continuous s v)) = t_pending s"
  "t_tick_running (fst (ull_trial_pump_continuous s v)) = t_tick_running s"
  "t_sent (fst (ull_trial_pump_continuous s v)) = t_sent s"
  "t_active (fst (ull_trial_pump_continuous s v)) = t_active s"
  by (simp_all add: ull_trial_pump_continuous_def)

lemma receive_fields:
  assumes "ull_trial_pump_receive s d now = (s', ok)"
  shows "t_tick_running s' = t_tick_running s" and "t_sent s' = t_sent s" and "t_active s' \<Longrightarrow> t_active s"
    and "t_pending s' \<longleftrightarrow> t_pending s \<and> \<not> ok" and "\<not> ok \<Longrightarrow> s' = s"
  using assms by (auto simp: ull_trial_pump_receive_def Let_def split: if_splits dest: finish_active)

lemma try_send_other: "d \<noteq> INTERNAL_COMMAND \<Longrightarrow> commands_sent (fst (ull_hci_try_send s d available)) = commands_sent s"
  by (simp add: ull_hci_try_send_def commands_sent_def)

lemma try_send_fields [simp]:
  "t_pending (fst (ull_hci_try_send s d available)) = t_pending s"
  "t_tick_running (fst (ull_hci_try_send s d available)) = t_tick_running s"
  "t_active (fst (ull_hci_try_send s d available)) = t_active s"
  by (simp_all add: ull_hci_try_send_def)

lemma send_effect:
  "t_tick_running (tick_send s available) = t_tick_running s" "t_active (tick_send s available) = t_active s"
  "t_pending s \<Longrightarrow> commands_sent (tick_send s available) = commands_sent s + (if t_pending (tick_send s available) then 1 else 0)"
  by (simp_all add: tick_send_def ull_hci_try_send_def commands_sent_def)

lemma sent_cong: "t_sent s' = t_sent s \<Longrightarrow> commands_sent s' = commands_sent s"
  by (simp add: commands_sent_def)

lemmas pump_sent = sent_cong [OF finish_fields(3)] sent_cong [OF start_fields(3)] sent_cong [OF claim_fields(3)]
  sent_cong [OF next_fields(3)] sent_cong [OF diag_fields(6)]
  sent_cong [OF rearm_fields(3)] sent_cong [OF continuous_fields(3)]

lemma tick_sent [simp]:
  "commands_sent (tick_enter s) = commands_sent s" "commands_sent (tick_leave s) = commands_sent s"
  "commands_sent (tick_publish s now) = commands_sent s" "commands_sent (s\<lparr>t_sender := held\<rparr>) = commands_sent s"
  by (simp_all add: commands_sent_def tick_enter_def tick_leave_def tick_publish_def)

lemma tick_fields [simp]:
  "t_tick_running (tick_enter s) = Suc (t_tick_running s)" "t_tick_running (tick_leave s) = t_tick_running s - 1"
  "t_tick_running (tick_publish s now) = t_tick_running s" "t_active (tick_enter s) = t_active s"
  "t_active (tick_leave s) = t_active s" "t_active (tick_publish s now) = t_active s"
  "t_pending (tick_enter s) = t_pending s" "t_pending (tick_leave s) = t_pending s" "t_pending (tick_publish s now)"
  by (simp_all add: tick_enter_def tick_leave_def tick_publish_def)

lemma pump_inv_step: "pump_step x y \<Longrightarrow> pump_inv x \<Longrightarrow> pump_inv y"
proof (induction rule: pump_step.induct)
  case (complete x d now s)
  note f = receive_fields [OF complete(2)]
  have "t_pending (p_pump x)" "p_pc x \<noteq> Published" using complete(1,3) by (auto simp: pump_inv_def Let_def split: if_splits)
  then show ?case using complete f sent_cong [OF f(2)] by (auto simp: pump_inv_def Let_def)
next
  case (refused x d now s)
  then show ?case using receive_fields(5) [OF refused(1)] by simp
next
  case (send x available)
  then show ?case using send_effect [of "p_pump x" available] by (auto simp: pump_inv_def Let_def)
next
  case (load x)
  then have "p_seen x = 0 \<or> p_seen x = 1 \<or> p_seen x = 2" by auto
  then show ?case using load by (auto simp: pump_inv_def Let_def busy_loads_def)
next
  case (other d x available)
  then show ?case by (auto simp: pump_inv_def Let_def try_send_other)
next
  case (restart x now later started)
  then show ?case by (auto simp: pump_inv_def Let_def pump_sent)
qed (auto simp: pump_inv_def Let_def pump_sent split: if_splits)

lemma pump_inv_reachable: "pump_step\<^sup>*\<^sup>* pump_init x \<Longrightarrow> pump_inv x"
proof (induction rule: rtranclp_induct)
  case base
  show ?case by (simp add: pump_inv_def pump_init_def ull_trial_pump_init_def pump_zero_def commands_sent_def)
next
  case (step y z)
  then show ?case using pump_inv_step by blast
qed

text \<open>The whole callback is one path of these steps.\<close>

lemma tick_is_path:
  assumes "p_pc x = Idle"
  shows "pump_step\<^sup>*\<^sup>* x (x\<lparr>p_pump := tick (p_pump x) now later available\<rparr>)"
proof -
  let ?e = "x\<lparr>p_pump := tick_enter (p_pump x), p_pc := Entered\<rparr>"
  let ?b = "tick_body (tick_enter (p_pump x)) now later available"
  let ?l = "x\<lparr>p_pump := ?b, p_pc := Leaving\<rparr>"
  have first: "pump_step\<^sup>*\<^sup>* x ?e" by (intro r_into_rtranclp enter assms)
  have last: "pump_step\<^sup>*\<^sup>* ?l (x\<lparr>p_pump := tick (p_pump x) now later available\<rparr>)"
    using leave [of ?l] assms by (cases x) (auto simp: tick_def)
  have "pump_step\<^sup>*\<^sup>* ?e ?l"
  proof (cases "t_active (tick_enter (p_pump x))")
    case False
    then show ?thesis using quit [of ?e] by (auto simp: tick_body_def)
  next
    case True
    let ?c = "x\<lparr>p_pump := tick_enter (p_pump x), p_pc := Checked\<rparr>"
    have c: "pump_step\<^sup>*\<^sup>* ?e ?c" using look [of ?e] True by auto
    have "pump_step\<^sup>*\<^sup>* ?c ?l"
    proof (cases "tick_expired (tick_enter (p_pump x)) now \<or> t_pending (tick_enter (p_pump x))")
      case exit: True
      then show ?thesis using expire [of ?c now later] stuck [of ?c now later] True
        by (cases "tick_expired (tick_enter (p_pump x)) now") (auto simp: tick_body_def simp del: tick_fields)
    next
      case False
      let ?p = "x\<lparr>p_pump := tick_publish (tick_enter (p_pump x)) now, p_pc := Published\<rparr>"
      have "pump_step ?c ?p" using publish [of ?c now] False by auto
      moreover have "pump_step ?p ?l" using send [of ?p available] False True by (simp add: tick_body_def)
      ultimately show ?thesis by (meson r_into_rtranclp rtranclp_trans)
    qed
    with c show ?thesis by (rule rtranclp_trans)
  qed
  with first last show ?thesis by (meson rtranclp_trans)
qed

text \<open>C5:
  At most one internal command is in flight, whatever the interleaving of the timer callback with the tasks
  that complete, claim, finish and restart the run, and over any number of runs and timeouts: in every
  reachable state at most one command was sent that is not completed. And when the busy test has read its
  three loads false, in the order the code has them, none is in flight, none is marked pending and no callback
  is on its way to publish one, although the callback may have been anywhere when the test began.
\<close>

theorem one_command_in_flight:
  assumes "pump_step\<^sup>*\<^sup>* pump_init x"
  shows "p_done x \<le> commands_sent (p_pump x) \<and> commands_sent (p_pump x) \<le> p_done x + 1 \<and>
    (p_seen x = 3 \<longrightarrow> commands_sent (p_pump x) = p_done x \<and> \<not> t_pending (p_pump x) \<and> \<not> t_active (p_pump x) \<and>
      p_pc x \<noteq> Checked \<and> p_pc x \<noteq> Published)"
  using pump_inv_reachable [OF assms] by (auto simp: pump_inv_def Let_def split: if_splits)

lemma one_command_in_flight_witness:
  "pump_step\<^sup>*\<^sup>* pump_init (pump_init\<lparr>p_seen := 3\<rparr>) \<and> commands_sent (p_pump pump_init) = 0 \<and> \<not> t_pending (p_pump pump_init)"
proof -
  have at: "\<not> (busy_loads ! k) (p_pump pump_init)" if "k < 3" for k
  proof -
    have "k = 0 \<or> k = 1 \<or> k = 2" using that by auto
    then show ?thesis by (auto simp: busy_loads_def pump_init_def ull_trial_pump_init_def pump_zero_def)
  qed
  have s0: "p_seen pump_init = 0" by (simp add: pump_init_def)
  have "pump_step pump_init (pump_init\<lparr>p_seen := 1\<rparr>)" using load [of pump_init] at s0 by simp
  moreover have "pump_step (pump_init\<lparr>p_seen := 1\<rparr>) (pump_init\<lparr>p_seen := 2\<rparr>)" using load [of "pump_init\<lparr>p_seen := 1\<rparr>"] at by (simp add: numeral_2_eq_2)
  moreover have "pump_step (pump_init\<lparr>p_seen := 2\<rparr>) (pump_init\<lparr>p_seen := 3\<rparr>)" using load [of "pump_init\<lparr>p_seen := 2\<rparr>"] at by (simp add: numeral_3_eq_3)
  ultimately have r: "pump_step\<^sup>*\<^sup>* pump_init (pump_init\<lparr>p_seen := 3\<rparr>)"
    by (meson converse_rtranclp_into_rtranclp rtranclp.rtrancl_refl)
  show ?thesis using r one_command_in_flight [OF r]
    by (simp add: pump_init_def ull_trial_pump_init_def pump_zero_def commands_sent_def)
qed

section \<open>The trace stays inside its buffer\<close>

definition trace_wf :: "trial_pump \<Rightarrow> bool" where
  "trace_wf s \<longleftrightarrow> length (t_trace s) = TRACE_CAPACITY \<and> t_read s \<le> t_used s \<and> t_used s \<le> TRACE_CAPACITY \<and>
     (t_recording s \<longrightarrow> \<not> t_frozen s)"

lemma trace_wf_diag: "trace_wf s \<Longrightarrow> trace_wf (ull_controller_diag_record s d now)"
  by (auto simp: trace_wf_def diag_eq ull_trial_trace_record_def Let_def length_memcpy_at trace_entry_def)

lemma trace_wf_finish: "trace_wf s \<Longrightarrow> trace_wf (ull_trial_pump_finish s st now)"
proof -
  assume "trace_wf s"
  then have "trace_wf (ull_controller_diag_record (s\<lparr>t_active := False\<rparr>) d now)" for d
    by (intro trace_wf_diag) (simp add: trace_wf_def)
  then show ?thesis using \<open>trace_wf s\<close> by (auto simp: ull_trial_pump_finish_def Let_def trace_wf_def)
qed

lemma trace_wf_start: "trace_wf s \<Longrightarrow> trace_wf (fst (start_body s now later ok))"
  by (auto simp: start_body_def Let_def diag_eq trace_wf_def ull_trial_pump_finish_def ull_trial_trace_record_def
      length_memcpy_at trace_entry_def)

lemma trace_wf_next: "trace_wf s \<Longrightarrow> trace_wf (fst (ull_trial_trace_next s capacity))"
  by (auto simp: trace_wf_def ull_trial_trace_next_def Let_def length_memcpy_at)

lemma trace_wf_keep: "t_trace s' = t_trace s \<Longrightarrow> t_read s' = t_read s \<Longrightarrow> t_used s' = t_used s \<Longrightarrow>
    t_recording s' = t_recording s \<Longrightarrow> t_frozen s' = t_frozen s \<Longrightarrow> trace_wf s \<Longrightarrow> trace_wf s'"
  by (simp add: trace_wf_def)

lemma trace_wf_rest:
  assumes "trace_wf s"
  shows "trace_wf (tick_enter s)" "trace_wf (tick_leave s)" "trace_wf (tick_publish s now)" "trace_wf (tick_send s available)"
    "trace_wf (fst (ull_trial_pump_claim s now))" "trace_wf (fst (ull_hci_try_send s d available))"
    "trace_wf (fst (ull_trial_pump_continuous s v))" "trace_wf (s\<lparr>t_sender := held\<rparr>)"
    "trace_wf (fst (ull_trial_pump_rearm s))"
proof -
  show "trace_wf (fst (ull_trial_pump_rearm s))" using assms by (simp add: trace_wf_def ull_trial_pump_rearm_def)
qed (rule trace_wf_keep [OF _ _ _ _ _ assms];
     simp add: tick_enter_def tick_leave_def tick_publish_def tick_send_def ull_trial_pump_claim_def
       ull_hci_try_send_def ull_trial_pump_continuous_def Let_def)+

lemma trace_wf_receive: "trace_wf s \<Longrightarrow> trace_wf (fst (ull_trial_pump_receive s d now))"
proof -
  assume wf: "trace_wf s"
  then have "trace_wf (s\<lparr>t_pending := False\<rparr>)" by (simp add: trace_wf_def)
  then show ?thesis using wf trace_wf_finish by (simp add: ull_trial_pump_receive_def Let_def)
qed

lemma trace_wf_step: "pump_step x y \<Longrightarrow> trace_wf (p_pump x) \<Longrightarrow> trace_wf (p_pump y)"
proof (induction rule: pump_step.induct)
  case (complete x d now s)
  then show ?case using trace_wf_receive [of "p_pump x" d now] by simp
next
  case (refused x d now s)
  then show ?case using trace_wf_receive [of "p_pump x" d now] by simp
qed (simp_all add: trace_wf_diag trace_wf_finish trace_wf_start trace_wf_next trace_wf_rest)

text \<open>C40:
  The trace buffer keeps its size and its two indices stay in order inside it over every interleaving: no
  record is written and no entry is read or erased outside the buffer, and it is never frozen for the reader
  while it is being recorded.
\<close>

theorem trace_memory_safe:
  assumes "pump_step\<^sup>*\<^sup>* pump_init x"
  shows "trace_wf (p_pump x)"
  using assms
proof (induction rule: rtranclp_induct)
  case base
  show ?case by (simp add: pump_init_def ull_trial_pump_init_def pump_zero_def trace_wf_def)
next
  case (step y z)
  then show ?case using trace_wf_step by blast
qed

lemma trace_memory_safe_witness:
  "pump_step\<^sup>*\<^sup>* pump_init (pump_init\<lparr>p_pump := tick (p_pump pump_init) 5 6 True\<rparr>) \<and>
   trace_wf (tick (p_pump pump_init) 5 6 True)"
proof -
  have r: "pump_step\<^sup>*\<^sup>* pump_init (pump_init\<lparr>p_pump := tick (p_pump pump_init) 5 6 True\<rparr>)"
    by (rule tick_is_path) (simp add: pump_init_def)
  show ?thesis using r trace_memory_safe [OF r] by simp
qed

end
