(* ===== verification/AirEvent.thy ===== *)
theory AirEvent
  imports TrialPump
begin

text \<open>
  Model of \<^verbatim>\<open>firmware/radio/src/air_event.c\<close>: one reservation of the radio scheduler that performs no
  radio operation, its four callbacks and its report. The scheduler itself (the arbitration list and the
  active slot) is ROM code: its state is a type parameter and its three operations are the fields of
  \<open>arb_rom\<close>, with the address of the module's own element and the outcome of the check of the ROM tables.
  The clock is an argument; a locked region or a callback is one step.
\<close>

record radio_time = rt_hs :: u32 rt_hus :: u32

datatype arb_callback = NoCallback | OnStart | OnStop | OnCancel

record arb_event =
  ev_next :: u32
  ev_hs :: u32
  ev_hus :: u32
  ev_limit_hs :: u32
  ev_duration_hus :: u32
  ev_control :: u16
  ev_priority :: u8
  ev_padding :: u8
  ev_start :: arb_callback
  ev_stop :: arb_callback
  ev_cancel :: arb_callback

record owned_event =
  ow_before :: u32
  ow_event :: arb_event
  ow_after :: u32

record observed_event =
  ob_phase :: u8
  ob_insert_status :: u8
  ob_remove_status :: u8
  ob_cleanup_ok :: u8
  ob_calls :: u8
  ob_had_link :: u8
  ob_generation :: u16
  ob_counter :: u16
  ob_program_delay :: u8
  ob_arm :: radio_time
  ob_requested :: radio_time
  ob_callback :: radio_time

record 'w arb_rom =
  rom_self :: u32
  rom_verified :: bool
  rom_active :: "'w \<Rightarrow> u32"
  rom_insert :: "'w \<Rightarrow> u32 \<Rightarrow> arb_event \<Rightarrow> 'w \<times> u8"
  rom_remove :: "'w \<Rightarrow> u32 \<Rightarrow> u8 \<Rightarrow> 'w \<times> u8"

record 'w air_event =
  ae_owned :: owned_event
  ae_observed :: observed_event
  ae_world :: 'w

definition time_zero :: radio_time where "time_zero = \<lparr>rt_hs = 0, rt_hus = 0\<rparr>"

definition event_zero :: arb_event where
  "event_zero = \<lparr>ev_next = 0, ev_hs = 0, ev_hus = 0, ev_limit_hs = 0, ev_duration_hus = 0, ev_control = 0,
     ev_priority = 0, ev_padding = 0, ev_start = NoCallback, ev_stop = NoCallback, ev_cancel = NoCallback\<rparr>"

definition owned_zero :: owned_event where
  "owned_zero = \<lparr>ow_before = 0, ow_event = event_zero, ow_after = 0\<rparr>"

definition observed_zero :: observed_event where
  "observed_zero = \<lparr>ob_phase = 0, ob_insert_status = 0, ob_remove_status = 0, ob_cleanup_ok = 0, ob_calls = 0,
     ob_had_link = 0, ob_generation = 0, ob_counter = 0, ob_program_delay = 0, ob_arm = time_zero,
     ob_requested = time_zero, ob_callback = time_zero\<rparr>"

abbreviation flag8 :: "bool \<Rightarrow> u8" where "flag8 b \<equiv> (if b then 1 else 0)"

definition canaries_ok :: "'w air_event \<Rightarrow> bool" where
  "canaries_ok s \<longleftrightarrow> ow_before (ae_owned s) = 0xa1565c01 \<and> ow_after (ae_owned s) = 0x5310a17e"

definition active_is_ours :: "'w arb_rom \<Rightarrow> 'w air_event \<Rightarrow> bool" where
  "active_is_ours rom s \<longleftrightarrow> rom_active rom (ae_world s) = rom_self rom"

definition observe_with :: "'w air_event \<Rightarrow> (observed_event \<Rightarrow> observed_event) \<Rightarrow> 'w air_event" where
  "observe_with s f = s\<lparr>ae_observed := f (ae_observed s)\<rparr>"

definition call_remove :: "'w arb_rom \<Rightarrow> 'w air_event \<Rightarrow> u32 \<Rightarrow> u8 \<Rightarrow> 'w air_event" where
  "call_remove rom s event active_only =
     (let (w, status) = rom_remove rom (ae_world s) event active_only
      in observe_with (s\<lparr>ae_world := w\<rparr>) (\<lambda>ob. ob\<lparr>ob_remove_status := status\<rparr>))"

definition note_callback :: "'w air_event \<Rightarrow> radio_time \<Rightarrow> 'w air_event" where
  "note_callback s now = observe_with s (\<lambda>ob. ob\<lparr>ob_callback := now, ob_calls := ob_calls ob + 1\<rparr>)"

definition set_phase :: "'w air_event \<Rightarrow> u8 \<Rightarrow> 'w air_event" where
  "set_phase s p = observe_with s (\<lambda>ob. ob\<lparr>ob_phase := p\<rparr>)"

definition set_cleanup :: "'w air_event \<Rightarrow> bool \<Rightarrow> 'w air_event" where
  "set_cleanup s ok = observe_with s (\<lambda>ob. ob\<lparr>ob_cleanup_ok := flag8 ok\<rparr>)"

section \<open>The callbacks\<close>

definition started :: "'w arb_rom \<Rightarrow> 'w air_event \<Rightarrow> u32 \<Rightarrow> radio_time \<Rightarrow> 'w air_event" where
  "started rom s event now =
     (if event \<noteq> rom_self rom \<or> ob_phase (ae_observed s) \<noteq> 1 \<or> \<not> canaries_ok s then set_phase s 5
      else
        let s = note_callback s now in
        if \<not> active_is_ours rom s then set_phase s 5
        else
          let s = call_remove rom s event 1;
              ok = (\<not> active_is_ours rom s \<and> canaries_ok s);
              s = set_cleanup s ok
          in set_phase s (if ok then 2 else 5))"

definition cancelled :: "'w arb_rom \<Rightarrow> 'w air_event \<Rightarrow> u32 \<Rightarrow> radio_time \<Rightarrow> 'w air_event" where
  "cancelled rom s event now =
     (if event \<noteq> rom_self rom \<or> ob_phase (ae_observed s) \<noteq> 1 \<or> \<not> canaries_ok s then set_phase s 5
      else
        let s = note_callback s now;
            s = set_cleanup s (\<not> active_is_ours rom s)
        in set_phase s 3)"

definition stopped :: "'w arb_rom \<Rightarrow> 'w air_event \<Rightarrow> u32 \<Rightarrow> radio_time \<Rightarrow> 'w air_event" where
  "stopped rom s event now =
     (if event \<noteq> rom_self rom then set_phase s 5
      else
        let s = note_callback s now;
            s = (if active_is_ours rom s then call_remove rom s event 1 else s);
            s = set_cleanup s (\<not> active_is_ours rom s \<and> canaries_ok s)
        in set_phase s 6)"

definition ull_air_event_reset :: "'w arb_rom \<Rightarrow> 'w air_event \<Rightarrow> 'w air_event" where
  "ull_air_event_reset rom s =
     (if ob_phase (ae_observed s) = 1 then set_phase (call_remove rom s (rom_self rom) 0) 7 else s)"

section \<open>Arming and reporting\<close>

text \<open>The request: 32 half slots ahead on the 28-bit clock, the minimum reservation, one attempt.\<close>

definition armed_event :: "radio_time \<Rightarrow> arb_event" where
  "armed_event now = event_zero\<lparr>ev_hs := (rt_hs now + 32) AND 0x0fffffff, ev_hus := rt_hus now,
     ev_duration_hus := 625, ev_start := OnStart, ev_stop := OnStop, ev_cancel := OnCancel\<rparr>"

text \<open>\<open>link\<close> is the event counter of the first connection, when its two environments exist.\<close>

definition armed_observed :: "u16 \<Rightarrow> radio_time \<Rightarrow> u8 \<Rightarrow> u16 option \<Rightarrow> observed_event" where
  "armed_observed generation now delay link = observed_zero\<lparr>ob_generation := generation, ob_arm := now,
     ob_requested := \<lparr>rt_hs = ev_hs (armed_event now), rt_hus = ev_hus (armed_event now)\<rparr>,
     ob_program_delay := delay, ob_had_link := flag8 (link \<noteq> None),
     ob_counter := (case link of None \<Rightarrow> 0xffff | Some counter \<Rightarrow> counter), ob_phase := 1\<rparr>"

definition ull_air_event_arm :: "'w arb_rom \<Rightarrow> 'w air_event \<Rightarrow> radio_time \<Rightarrow> u8 \<Rightarrow> u16 option \<Rightarrow> 'w air_event \<times> u8" where
  "ull_air_event_arm rom s now delay link =
     (if ob_phase (ae_observed s) = 1 \<or> active_is_ours rom s then (s, 0x0c)
      else if \<not> rom_verified rom then (set_phase s 5, 0x0c)
      else
        let s = s\<lparr>ae_observed := armed_observed (ob_generation (ae_observed s) + 1) now delay link,
                  ae_owned := \<lparr>ow_before = 0xa1565c01, ow_event = armed_event now, ow_after = 0x5310a17e\<rparr>\<rparr>;
            (w, status) = rom_insert rom (ae_world s) (rom_self rom) (ow_event (ae_owned s));
            s = observe_with (s\<lparr>ae_world := w\<rparr>) (\<lambda>ob. ob\<lparr>ob_insert_status := status\<rparr>);
            s = (if status \<noteq> 0 then set_phase s 4 else s)
        in (s, if status \<noteq> 0 then 0x0c else 0))"

definition ull_air_event_report :: "'w arb_rom \<Rightarrow> 'w air_event \<Rightarrow> bytes" where
  "ull_air_event_report rom s =
     (let ob = ae_observed s in
      [0x55, 0x4c, 0x4c, 0x41, 1, ob_phase ob, ob_insert_status ob, ob_remove_status ob] @ put16 (ob_generation ob) @
      [ob_program_delay ob, ob_cleanup_ok ob] @ put32 (rt_hs (ob_requested ob)) @ put16 (ucast (rt_hus (ob_requested ob))) @
      put16 (ucast (rt_hus (ob_callback ob))) @ put32 (rt_hs (ob_callback ob)) @ put32 (rt_hs (ob_arm ob)) @
      put16 (ucast (rt_hus (ob_arm ob))) @ put16 (ob_counter ob) @
      [ob_calls ob, ob_had_link ob, flag8 (canaries_ok s), flag8 (active_is_ours rom s)])"

section \<open>One reservation at a time\<close>

text \<open>
  The laws of the scheduler the module relies on: \<open>listed\<close> says whether the module's element is in the
  arbitration list. A refused insertion leaves it out, a full removal takes it out, and a removal from the
  active slot leaves the list alone.
\<close>

definition arb_law :: "'w arb_rom \<Rightarrow> ('w \<Rightarrow> bool) \<Rightarrow> bool" where
  "arb_law rom listed \<longleftrightarrow>
     (\<forall>w ev. \<not> listed w \<longrightarrow> (listed (fst (rom_insert rom w (rom_self rom) ev)) \<longleftrightarrow> snd (rom_insert rom w (rom_self rom) ev) = 0)) \<and>
     (\<forall>w. listed (fst (rom_remove rom w (rom_self rom) 1)) = listed w) \<and>
     (\<forall>w. \<not> listed (fst (rom_remove rom w (rom_self rom) 0)))"

text \<open>What the scheduler and the controller task do in any order; anything may overwrite the owned memory.\<close>

inductive event_step :: "'w arb_rom \<Rightarrow> ('w \<Rightarrow> bool) \<Rightarrow> 'w air_event \<Rightarrow> 'w air_event \<Rightarrow> bool" for rom listed where
  arm: "event_step rom listed s (fst (ull_air_event_arm rom s now delay link))"
| reset: "event_step rom listed s (ull_air_event_reset rom s)"
| fire: "listed (ae_world s) \<Longrightarrow> \<not> listed w \<Longrightarrow> rom_active rom w = rom_self rom \<Longrightarrow>
    event_step rom listed s (started rom (s\<lparr>ae_world := w\<rparr>) (rom_self rom) now)"
| drop: "listed (ae_world s) \<Longrightarrow> \<not> listed w \<Longrightarrow>
    event_step rom listed s (cancelled rom (s\<lparr>ae_world := w\<rparr>) (rom_self rom) now)"
| halt: "rom_active rom (ae_world s) = rom_self rom \<Longrightarrow> \<not> listed (ae_world s) \<Longrightarrow>
    event_step rom listed s (stopped rom s (rom_self rom) now)"
| other: "listed w = listed (ae_world s) \<Longrightarrow> event_step rom listed s (s\<lparr>ae_world := w\<rparr>)"
| overwrite: "event_step rom listed s (s\<lparr>ae_owned := any\<rparr>)"

definition event_inv :: "('w \<Rightarrow> bool) \<Rightarrow> 'w air_event \<Rightarrow> bool" where
  "event_inv listed s \<longleftrightarrow> (ob_phase (ae_observed s) = 1 \<longleftrightarrow> listed (ae_world s)) \<and> ob_phase (ae_observed s) \<le> 7 \<and>
     (ob_phase (ae_observed s) = 2 \<longrightarrow> ob_cleanup_ok (ae_observed s) = 1)"

lemmas event_defs = observe_with_def note_callback_def set_phase_def set_cleanup_def call_remove_def

lemma remove_parts:
  "ae_world (call_remove rom s e k) = fst (rom_remove rom (ae_world s) e k)"
  "ob_phase (ae_observed (call_remove rom s e k)) = ob_phase (ae_observed s)"
  "ae_owned (call_remove rom s e k) = ae_owned s"
  by (simp_all add: call_remove_def observe_with_def split: prod.splits)

lemma started_inv:
  assumes law: "arb_law rom listed" and l: "\<not> listed (ae_world s)"
  shows "event_inv listed (started rom s e now)"
proof (cases "e = rom_self rom")
  case True
  have "\<not> listed (fst (rom_remove rom (ae_world s) (rom_self rom) 1))" using law l by (simp add: arb_law_def)
  then show ?thesis using l
    by (auto simp: started_def Let_def event_inv_def event_defs split_def)
next
  case False
  then show ?thesis using l by (simp add: started_def event_inv_def event_defs)
qed

lemma stopped_inv:
  assumes law: "arb_law rom listed" and l: "\<not> listed (ae_world s)"
  shows "event_inv listed (stopped rom s (rom_self rom) now)"
proof -
  have "\<not> listed (fst (rom_remove rom (ae_world s) (rom_self rom) 1))" using law l by (simp add: arb_law_def)
  then show ?thesis using l by (simp add: stopped_def Let_def event_inv_def event_defs split_def)
qed

lemma reset_inv: "arb_law rom listed \<Longrightarrow> event_inv listed s \<Longrightarrow> event_inv listed (ull_air_event_reset rom s)"
proof -
  assume law: "arb_law rom listed" and inv: "event_inv listed s"
  have "\<not> listed (fst (rom_remove rom (ae_world s) (rom_self rom) 0))" using law by (simp add: arb_law_def)
  then show ?thesis using inv by (auto simp: ull_air_event_reset_def Let_def event_inv_def event_defs split_def)
qed

lemma arm_inv:
  assumes law: "arb_law rom listed" and inv: "event_inv listed s"
  shows "event_inv listed (fst (ull_air_event_arm rom s now delay link))"
proof (cases "ob_phase (ae_observed s) = 1 \<or> active_is_ours rom s \<or> \<not> rom_verified rom")
  case True
  then show ?thesis using inv by (auto simp: ull_air_event_arm_def event_inv_def event_defs)
next
  case False
  obtain w st where ins: "rom_insert rom (ae_world s) (rom_self rom) (armed_event now) = (w, st)" by fastforce
  have "\<not> listed (ae_world s)" using inv False by (simp add: event_inv_def)
  then have "listed w \<longleftrightarrow> st = 0" using law ins by (metis arb_law_def fst_conv snd_conv)
  then show ?thesis using False ins
    by (simp add: ull_air_event_arm_def Let_def event_inv_def event_defs armed_observed_def)
qed

lemma event_inv_step: "event_step rom listed s t \<Longrightarrow> arb_law rom listed \<Longrightarrow> event_inv listed s \<Longrightarrow> event_inv listed t"
proof (induction rule: event_step.induct)
  case (drop s w now)
  then show ?case by (simp add: cancelled_def Let_def event_inv_def event_defs)
next
  case (fire s w now)
  then show ?case by (simp add: started_inv)
next
  case (halt s now)
  then show ?case by (simp add: stopped_inv)
qed (simp_all add: arm_inv reset_inv, simp_all add: event_inv_def)

definition event_init :: "'w \<Rightarrow> 'w air_event" where
  "event_init w = \<lparr>ae_owned = owned_zero, ae_observed = observed_zero, ae_world = w\<rparr>"

lemma event_inv_reachable:
  "(event_step rom listed)\<^sup>*\<^sup>* (event_init w) s \<Longrightarrow> arb_law rom listed \<Longrightarrow> \<not> listed w \<Longrightarrow> event_inv listed s"
proof (induction rule: rtranclp_induct)
  case base
  then show ?case by (simp add: event_init_def event_inv_def observed_zero_def)
next
  case (step t u)
  then show ?case using event_inv_step by blast
qed

lemma clock_ahead: "uint ((x + 32) AND 0x0fffffff :: u32) = (uint x + 32) mod 2 ^ 28"
proof -
  have "(0x0fffffff :: u32) = mask 28" by (simp add: mask_eq_exp_minus_1)
  then have "(x + 32) AND 0x0fffffff = take_bit 28 (x + 32)" by (simp only: take_bit_eq_mask)
  then have "uint ((x + 32) AND 0x0fffffff) = take_bit 28 (uint (x + 32))" by (simp only: unsigned_take_bit_eq)
  also have "\<dots> = (uint x + 32) mod 2 ^ 28"
    by (simp add: uint_word_ariths take_bit_eq_mod mod_mod_cancel)
  finally show ?thesis .
qed

text \<open>C32:
  The scheduler never gets the element twice. For every interleaving of arming and resetting with the start,
  cancel and stop callbacks, and whatever overwrites the owned memory: the module is in phase 1 exactly while
  its element is in the arbitration list, so an accepted arming always found it neither in the list nor in the
  active slot, and its request lies 32 half slots ahead on the wrapping clock. Phase 2 is only reported after
  a verified cleanup.
\<close>

theorem event_inserted_once:
  assumes "(event_step rom listed)\<^sup>*\<^sup>* (event_init w) s" and "arb_law rom listed" and "\<not> listed w"
  shows "(ob_phase (ae_observed s) = 1 \<longleftrightarrow> listed (ae_world s)) \<and> ob_phase (ae_observed s) \<le> 7 \<and>
    (ob_phase (ae_observed s) = 2 \<longrightarrow> ob_cleanup_ok (ae_observed s) = 1) \<and>
    (\<forall>now delay link. snd (ull_air_event_arm rom s now delay link) = 0 \<longrightarrow>
       \<not> listed (ae_world s) \<and> rom_active rom (ae_world s) \<noteq> rom_self rom \<and>
       listed (ae_world (fst (ull_air_event_arm rom s now delay link))) \<and>
       uint (rt_hs (ob_requested (ae_observed (fst (ull_air_event_arm rom s now delay link))))) = (uint (rt_hs now) + 32) mod 2 ^ 28)"
proof -
  have inv: "event_inv listed s" by (rule event_inv_reachable [OF assms])
  have "\<not> listed (ae_world s) \<and> rom_active rom (ae_world s) \<noteq> rom_self rom \<and>
       listed (ae_world (fst (ull_air_event_arm rom s now delay link))) \<and>
       uint (rt_hs (ob_requested (ae_observed (fst (ull_air_event_arm rom s now delay link))))) = (uint (rt_hs now) + 32) mod 2 ^ 28"
    if ok: "snd (ull_air_event_arm rom s now delay link) = 0" for now delay link
  proof -
    have guard: "ob_phase (ae_observed s) \<noteq> 1" "\<not> active_is_ours rom s" "rom_verified rom"
      using ok by (auto simp: ull_air_event_arm_def split: if_splits)
    have post: "event_inv listed (fst (ull_air_event_arm rom s now delay link))" by (rule arm_inv [OF assms(2) inv])
    obtain u st where ins: "rom_insert rom (ae_world s) (rom_self rom) (armed_event now) = (u, st)" by fastforce
    have st: "st = 0" using ok guard ins by (auto simp: ull_air_event_arm_def Let_def split: if_splits)
    have "ob_phase (ae_observed (fst (ull_air_event_arm rom s now delay link))) = 1"
      using guard ins st by (simp add: ull_air_event_arm_def Let_def event_defs armed_observed_def)
    then have "listed (ae_world (fst (ull_air_event_arm rom s now delay link)))" using post by (simp add: event_inv_def)
    moreover have "rt_hs (ob_requested (ae_observed (fst (ull_air_event_arm rom s now delay link)))) = (rt_hs now + 32) AND 0x0fffffff"
      using guard ins st by (simp add: ull_air_event_arm_def Let_def event_defs armed_observed_def armed_event_def)
    moreover have "uint ((rt_hs now + 32) AND 0x0fffffff) = (uint (rt_hs now) + 32) mod 2 ^ 28"
      by (rule clock_ahead)
    ultimately show ?thesis using guard inv by (simp add: active_is_ours_def event_inv_def)
  qed
  then show ?thesis using inv by (auto simp: event_inv_def)
qed

text \<open>A scheduler with a list of at most one element, for the examples: its state is the list flag and the slot.\<close>

definition ex_rom :: "(bool \<times> u32) arb_rom" where
  "ex_rom = \<lparr>rom_self = 8, rom_verified = True, rom_active = snd,
     rom_insert = (\<lambda>w e ev. ((True, snd w), 0)),
     rom_remove = (\<lambda>w e k. ((if k = 0 then False else fst w, 0), 0))\<rparr>"

lemma event_inserted_once_witness:
  "\<exists>s. (event_step ex_rom fst)\<^sup>*\<^sup>* (event_init (False, 0)) s \<and> arb_law ex_rom fst \<and>
     snd (ull_air_event_arm ex_rom s \<lparr>rt_hs = 0x0ffffff0, rt_hus = 3\<rparr> 4 None) = 0 \<and> \<not> fst (ae_world s) \<and>
     rt_hs (ob_requested (ae_observed (fst (ull_air_event_arm ex_rom s \<lparr>rt_hs = 0x0ffffff0, rt_hus = 3\<rparr> 4 None)))) = 0x10"
proof -
  let ?s = "fst (ull_air_event_arm ex_rom (event_init (False, 0)) \<lparr>rt_hs = 5, rt_hus = 3\<rparr> 4 (Some 9))"
  let ?t = "ull_air_event_reset ex_rom ?s"
  have r: "(event_step ex_rom fst)\<^sup>*\<^sup>* (event_init (False, 0)) ?t"
    by (meson event_step.arm event_step.reset rtranclp.rtrancl_into_rtrancl rtranclp.rtrancl_refl)
  have law: "arb_law ex_rom fst" by (simp add: arb_law_def ex_rom_def)
  have ok: "snd (ull_air_event_arm ex_rom ?t \<lparr>rt_hs = 0x0ffffff0, rt_hus = 3\<rparr> 4 None) = 0"
    "rt_hs (ob_requested (ae_observed (fst (ull_air_event_arm ex_rom ?t \<lparr>rt_hs = 0x0ffffff0, rt_hus = 3\<rparr> 4 None)))) = 0x10"
    by (simp_all add: ull_air_event_arm_def ull_air_event_reset_def event_init_def ex_rom_def Let_def event_defs
        observed_zero_def active_is_ours_def armed_observed_def armed_event_def)
  have "\<not> fst (ae_world ?t)" using event_inserted_once [OF r law] ok by (simp add: ex_rom_def)
  then show ?thesis using r law ok by blast
qed

section \<open>The report\<close>

text \<open>The report of the reservation is 36 bytes from which a host reads back the phase, the statuses, the
  generation, the requested, armed and called times (the fine parts modulo 2 to the 16) and the counter; and
  the trace of the pump keeps it exactly when the reservation ended in a fault, a cancellation or a stop
  (phase 3 and above), never while it is idle, armed or cleanly ended.
\<close>

theorem event_report_read:
  fixes rom :: "'w arb_rom" and s :: "'w air_event"
  defines "r \<equiv> ull_air_event_report rom s" and "ob \<equiv> ae_observed s"
  shows "length r = 36 \<and> r ! 5 = ob_phase ob \<and> r ! 6 = ob_insert_status ob \<and> r ! 7 = ob_remove_status ob \<and>
    get16 r 8 = ob_generation ob \<and> r ! 10 = ob_program_delay ob \<and> r ! 11 = ob_cleanup_ok ob \<and>
    get32 r 12 = rt_hs (ob_requested ob) \<and> get16 r 16 = ucast (rt_hus (ob_requested ob)) \<and>
    get16 r 18 = ucast (rt_hus (ob_callback ob)) \<and> get32 r 20 = rt_hs (ob_callback ob) \<and>
    get32 r 24 = rt_hs (ob_arm ob) \<and> get16 r 28 = ucast (rt_hus (ob_arm ob)) \<and> get16 r 30 = ob_counter ob \<and>
    r ! 32 = ob_calls ob \<and> r ! 33 = ob_had_link ob \<and>
    (terminal_record r \<longleftrightarrow> 3 \<le> ob_phase ob)"
proof -
  have bytes: "r = [0x55, 0x4c, 0x4c, 0x41, 1, ob_phase ob, ob_insert_status ob, ob_remove_status ob] @ put16 (ob_generation ob) @
      [ob_program_delay ob, ob_cleanup_ok ob] @ put32 (rt_hs (ob_requested ob)) @ put16 (ucast (rt_hus (ob_requested ob))) @
      put16 (ucast (rt_hus (ob_callback ob))) @ put32 (rt_hs (ob_callback ob)) @ put32 (rt_hs (ob_arm ob)) @
      put16 (ucast (rt_hus (ob_arm ob))) @ put16 (ob_counter ob) @
      [ob_calls ob, ob_had_link ob, flag8 (canaries_ok s), flag8 (active_is_ours rom s)]"
    by (simp add: r_def ob_def ull_air_event_report_def Let_def)
  have len: "length r = 36" by (simp add: bytes put16_def put32_bytes)
  have scalars: "r ! 5 = ob_phase ob" "r ! 6 = ob_insert_status ob" "r ! 7 = ob_remove_status ob" "r ! 10 = ob_program_delay ob"
    "r ! 11 = ob_cleanup_ok ob" "r ! 32 = ob_calls ob" "r ! 33 = ob_had_link ob"
    by (simp_all add: bytes put16_def put32_bytes)
  have words: "get16 r 8 = ob_generation ob" "get32 r 12 = rt_hs (ob_requested ob)" "get16 r 16 = ucast (rt_hus (ob_requested ob))"
    "get16 r 18 = ucast (rt_hus (ob_callback ob))" "get32 r 20 = rt_hs (ob_callback ob)" "get32 r 24 = rt_hs (ob_arm ob)"
    "get16 r 28 = ucast (rt_hus (ob_arm ob))" "get16 r 30 = ob_counter ob"
    by (intro get16_read get32_read; simp add: bytes put16_def put32_bytes)+
  have "terminal_record r \<longleftrightarrow> 3 \<le> ob_phase ob"
    by (simp add: terminal_record_def len scalars, simp add: bytes)
  then show ?thesis using len scalars words by simp
qed

end
