(* ===== verification/RadioProgram.thy ===== *)
theory RadioProgram
  imports AirEvent
begin

text \<open>
  Models of \<^verbatim>\<open>firmware/radio/src/radio_program.c\<close>, the bounded capture of what the controller programs
  into the radio, and \<^verbatim>\<open>radio_activity.c\<close>, the snapshot of the activity table. What the ROM provides (the
  program parameters, the ring index, the event descriptors in exchange memory, the memory of the controller
  and its pointers) are arguments.
\<close>

section \<open>The capture of radio programs\<close>

definition PROG_CAPACITY :: nat where "PROG_CAPACITY = 8"
definition RECORD_SIZE :: nat where "RECORD_SIZE = 51"

record radio_program =
  rp_enabled :: bool
  rp_captured :: nat
  rp_consumed :: nat
  rp_records :: "bytes list"

definition program_zero :: radio_program where
  "program_zero = \<lparr>rp_enabled = False, rp_captured = 0, rp_consumed = 0,
     rp_records = replicate PROG_CAPACITY (replicate RECORD_SIZE 0)\<rparr>"

text \<open>One programmed event: the parameters, the flag, the time after the call, the ring index and the eight
  words of its descriptor.\<close>

record push_call =
  pc_parameters :: bytes
  pc_flag :: u8
  pc_now :: radio_time
  pc_index :: u8
  pc_descriptor :: "u16 list"

definition program_record :: "push_call \<Rightarrow> bytes" where
  "program_record c = put32 (rt_hs (pc_now c)) @ put16 (ucast (rt_hus (pc_now c))) @ [pc_index c, pc_flag c] @
     block 0 8 (pc_parameters c) @ block 8 2 (pc_parameters c) @ block 12 8 (pc_parameters c) @
     block 20 9 (pc_parameters c) @ concat (map put16 (take 8 (pc_descriptor c)))"

definition sch_prog_push :: "radio_program \<Rightarrow> push_call \<Rightarrow> radio_program" where
  "sch_prog_push s c =
     (if \<not> rp_enabled s \<or> rp_captured s \<ge> PROG_CAPACITY then s
      else if pc_index c \<ge> 16 then s\<lparr>rp_enabled := False\<rparr>
      else
        let s = s\<lparr>rp_records := (rp_records s)[rp_captured s := program_record c], rp_captured := rp_captured s + 1\<rparr>
        in if rp_captured s = PROG_CAPACITY then s\<lparr>rp_enabled := False\<rparr> else s)"

definition ull_radio_program_arm :: "radio_program \<Rightarrow> bool \<Rightarrow> radio_program \<times> u8" where
  "ull_radio_program_arm s verified =
     (if rp_enabled s \<or> \<not> verified then (s, 0x0c)
      else (s\<lparr>rp_captured := 0, rp_consumed := 0, rp_enabled := True\<rparr>, 0))"

definition ull_radio_program_reset :: "radio_program \<Rightarrow> radio_program" where
  "ull_radio_program_reset s = s\<lparr>rp_enabled := False, rp_captured := 0, rp_consumed := 0\<rparr>"

definition ull_radio_program_report :: "radio_program \<Rightarrow> radio_program \<times> bytes" where
  "ull_radio_program_report s =
     (let status = (if rp_consumed s < rp_captured s then 0 else if rp_enabled s then 1 else 2);
          head = [0x55, 0x4c, 0x4c, 0x50, 1, status, of_nat (rp_captured s), of_nat (rp_consumed s)]
      in if status = 0
         then (s\<lparr>rp_consumed := rp_consumed s + 1\<rparr>, head @ take RECORD_SIZE (rp_records s ! rp_consumed s))
         else (s, head @ replicate RECORD_SIZE 0))"

primrec pushes :: "radio_program \<Rightarrow> push_call list \<Rightarrow> radio_program" where
  "pushes s [] = s"
| "pushes s (c # cs) = pushes (sch_prog_push s c) cs"

primrec reports :: "nat \<Rightarrow> radio_program \<Rightarrow> bytes list" where
  "reports 0 s = []"
| "reports (Suc k) s = (let (s, r) = ull_radio_program_report s in r # reports k s)"

definition call_ok :: "push_call \<Rightarrow> bool" where
  "call_ok c \<longleftrightarrow> 29 \<le> length (pc_parameters c) \<and> 8 \<le> length (pc_descriptor c)"

lemma length_put16s: "length (concat (map put16 ws)) = 2 * length ws"
  by (induction ws) simp_all

lemma length_program_record: "call_ok c \<Longrightarrow> length (program_record c) = RECORD_SIZE"
  by (simp add: call_ok_def program_record_def length_block length_put16s RECORD_SIZE_def)

definition prog_inv :: "radio_program \<Rightarrow> bool" where
  "prog_inv s \<longleftrightarrow> length (rp_records s) = PROG_CAPACITY \<and> rp_consumed s \<le> rp_captured s \<and> rp_captured s \<le> PROG_CAPACITY"

definition waiting_records :: "radio_program \<Rightarrow> bytes list" where
  "waiting_records s = drop (rp_consumed s) (take (rp_captured s) (rp_records s))"

text \<open>What a run of calls leaves: calls up to the first bad index, as many as still fit.\<close>

definition usable :: "push_call list \<Rightarrow> push_call list" where
  "usable cs = takeWhile (\<lambda>c. pc_index c < 16) cs"

lemma pushes_closed: "\<not> rp_enabled s \<Longrightarrow> pushes s cs = s"
  by (induction cs) (simp_all add: sch_prog_push_def)

lemma pushes_state:
  "prog_inv s \<Longrightarrow> rp_enabled s \<Longrightarrow> rp_captured s < PROG_CAPACITY \<Longrightarrow>
   waiting_records (pushes s cs) = waiting_records s @ map program_record (take (PROG_CAPACITY - rp_captured s) (usable cs)) \<and>
   prog_inv (pushes s cs) \<and> rp_consumed (pushes s cs) = rp_consumed s \<and>
   rp_captured (pushes s cs) = rp_captured s + length (take (PROG_CAPACITY - rp_captured s) (usable cs))"
proof (induction cs arbitrary: s)
  case Nil
  then show ?case by (simp add: usable_def)
next
  case (Cons c cs)
  show ?case
  proof (cases "pc_index c < 16")
    case False
    then have "16 \<le> pc_index c" by simp
    then show ?thesis using Cons.prems
      by (simp add: usable_def sch_prog_push_def pushes_closed waiting_records_def prog_inv_def)
  next
    case True
    let ?s = "s\<lparr>rp_records := (rp_records s)[rp_captured s := program_record c], rp_captured := rp_captured s + 1\<rparr>"
    have inv: "prog_inv ?s" using Cons.prems by (simp add: prog_inv_def)
    have w: "waiting_records ?s = waiting_records s @ [program_record c]"
      using Cons.prems by (simp add: waiting_records_def prog_inv_def take_Suc_conv_app_nth)
    have u: "take (PROG_CAPACITY - rp_captured s) (usable (c # cs)) = c # take (PROG_CAPACITY - rp_captured ?s) (usable cs)"
      using True Cons.prems by (simp add: usable_def take_Cons' )
    have step: "sch_prog_push s c = (if rp_captured s + 1 = PROG_CAPACITY then ?s\<lparr>rp_enabled := False\<rparr> else ?s)"
      using True Cons.prems by (simp add: sch_prog_push_def Let_def)
    show ?thesis
    proof (cases "rp_captured s + 1 = PROG_CAPACITY")
      case full: True
      have "pushes s (c # cs) = ?s\<lparr>rp_enabled := False\<rparr>" using full by (simp add: step pushes_closed)
      then show ?thesis using w inv u full by (simp add: waiting_records_def prog_inv_def)
    next
      case False
      then show ?thesis using Cons.IH [OF inv] Cons.prems w u by (simp add: step)
    qed
  qed
qed

lemma report_waiting:
  assumes inv: "prog_inv s"
  shows "waiting_records s = r # rs \<Longrightarrow>
      \<exists>s'. ull_radio_program_report s = (s', [0x55, 0x4c, 0x4c, 0x50, 1, 0, of_nat (rp_captured s), of_nat (rp_consumed s)] @ take RECORD_SIZE r) \<and>
        waiting_records s' = rs \<and> prog_inv s' \<and> rp_captured s' = rp_captured s \<and> rp_consumed s' = rp_consumed s + 1"
proof -
  assume w: "waiting_records s = r # rs"
  then have lt: "rp_consumed s < rp_captured s" using inv
    by (cases "rp_consumed s < rp_captured s") (simp_all add: waiting_records_def)
  then have "waiting_records s = rp_records s ! rp_consumed s # drop (Suc (rp_consumed s)) (take (rp_captured s) (rp_records s))"
    using inv by (simp add: waiting_records_def prog_inv_def Cons_nth_drop_Suc [symmetric])
  then show ?thesis using w lt inv
    by (simp add: ull_radio_program_report_def Let_def waiting_records_def prog_inv_def)
qed

lemma reports_waiting:
  assumes "\<forall>r \<in> set ws. length r = RECORD_SIZE"
  shows "prog_inv s \<Longrightarrow> waiting_records s = ws \<Longrightarrow>
    reports (length ws) s = map (\<lambda>i. [0x55, 0x4c, 0x4c, 0x50, 1, 0, of_nat (rp_captured s), of_nat (rp_consumed s + i)] @ ws ! i) [0..<length ws]"
  using assms
proof (induction ws arbitrary: s)
  case (Cons r rs)
  obtain s' where s': "ull_radio_program_report s = (s', [0x55, 0x4c, 0x4c, 0x50, 1, 0, of_nat (rp_captured s), of_nat (rp_consumed s)] @ take RECORD_SIZE r)"
      "waiting_records s' = rs" "prog_inv s'" "rp_captured s' = rp_captured s" "rp_consumed s' = rp_consumed s + 1"
    using report_waiting [OF Cons.prems(1,2)] by blast
  have "take RECORD_SIZE r = r" using Cons.prems(3) by simp
  then show ?case using Cons.IH [OF s'(3,2)] Cons.prems(3) s'
    by (simp add: upt_conv_Cons map_Suc_upt [symmetric] del: upt_Suc)
qed simp

text \<open>An armed capture keeps the first eight programmed events, stops at the first whose ring index is not one of
  the sixteen, and hands them to the host in order, one per report, each of the 51 bytes of its call, with
  the number captured and its own number.
\<close>

theorem programs_captured:
  assumes arm: "ull_radio_program_arm s verified = (s1, 0)" and size: "length (rp_records s) = PROG_CAPACITY"
    and calls: "\<forall>c \<in> set cs. call_ok c"
  defines "kept_calls \<equiv> take PROG_CAPACITY (usable cs)"
  shows "reports (length kept_calls) (pushes s1 cs) =
      map (\<lambda>i. [0x55, 0x4c, 0x4c, 0x50, 1, 0, of_nat (length kept_calls), of_nat i] @ program_record (kept_calls ! i)) [0..<length kept_calls]"
proof -
  have s1: "prog_inv s1" "rp_enabled s1" "rp_captured s1 = 0" "rp_consumed s1 = 0"
    using arm size by (auto simp: ull_radio_program_arm_def prog_inv_def split: if_splits)
  have none: "waiting_records s1 = []" using s1 by (simp add: waiting_records_def)
  have st: "waiting_records (pushes s1 cs) = map program_record kept_calls" "prog_inv (pushes s1 cs)"
      "rp_consumed (pushes s1 cs) = 0" "rp_captured (pushes s1 cs) = length kept_calls"
    using pushes_state [OF s1(1,2), of cs] s1 none by (simp_all add: kept_calls_def PROG_CAPACITY_def)
  have "set kept_calls \<subseteq> set cs" unfolding kept_calls_def usable_def
    using set_take_subset set_takeWhileD by (metis subsetD subsetI)
  then have "\<forall>r \<in> set (map program_record kept_calls). length r = RECORD_SIZE"
    using calls length_program_record by auto
  from reports_waiting [OF this st(2,1)] show ?thesis by (simp add: st)
qed


lemma programs_captured_witness:
  "let c = \<lparr>pc_parameters = replicate 29 7, pc_flag = 1, pc_now = \<lparr>rt_hs = 5, rt_hus = 6\<rparr>, pc_index = 3, pc_descriptor = replicate 8 9\<rparr>;
       s1 = fst (ull_radio_program_arm program_zero True)
   in reports 1 (pushes s1 [c, c\<lparr>pc_index := 16\<rparr>, c]) = [[0x55, 0x4c, 0x4c, 0x50, 1, 0, 1, 0] @ program_record c]"
proof -
  let ?c = "\<lparr>pc_parameters = replicate 29 7, pc_flag = 1, pc_now = \<lparr>rt_hs = 5, rt_hus = 6\<rparr>, pc_index = 3, pc_descriptor = replicate 8 9\<rparr>"
  obtain s1 where arm: "ull_radio_program_arm program_zero True = (s1, 0)"
    by (simp add: ull_radio_program_arm_def program_zero_def)
  have size: "length (rp_records program_zero) = PROG_CAPACITY" by (simp add: program_zero_def)
  have calls: "\<forall>c \<in> set [?c, ?c\<lparr>pc_index := 16\<rparr>, ?c]. call_ok c" by (simp add: call_ok_def)
  show ?thesis using programs_captured [OF arm size calls] arm by (simp add: usable_def PROG_CAPACITY_def Let_def)
qed

section \<open>The snapshot of the activity table\<close>

text \<open>The memory of the controller, the three pointers and pointer arrays, and the words of the control
  structure of a slot in exchange memory.\<close>

record controller_view =
  cv_mem :: "u32 \<Rightarrow> u8"
  cv_llm_env :: u32
  cv_adv_env :: "nat \<Rightarrow> u32"
  cv_con_env :: "nat \<Rightarrow> u32"
  cv_control :: "u8 \<Rightarrow> nat \<Rightarrow> u16"

definition valid :: "u32 \<Rightarrow> u32 \<Rightarrow> bool" where
  "valid address n \<longleftrightarrow> address \<ge> 0x3fc80000 \<and> address \<le> 0x3fcf0000 - n"

definition FIELD_OFFSETS :: "nat list" where
  "FIELD_OFFSETS = [0, 2, 4, 6, 8, 10, 22, 24, 26, 28, 30, 40, 42]"

definition mem32 :: "controller_view \<Rightarrow> u32 \<Rightarrow> u32" where
  "mem32 v a = get32 (map (\<lambda>i. cv_mem v (a + of_nat i)) [0..<4]) 0"

definition timing_field :: "controller_view \<Rightarrow> u8 \<Rightarrow> nat \<Rightarrow> bytes" where
  "timing_field v slot off = of_nat off # put16 (cv_control v slot (off div 2))"

definition activity_entry :: "controller_view \<Rightarrow> u32 \<Rightarrow> nat \<Rightarrow> bytes" where
  "activity_entry v activities i =
     (let activity = activities + 68 * of_nat i; parameters = mem32 v activity; state = cv_mem v (activity + 64)
      in [state, flag8 (parameters \<noteq> 0), if state = 1 \<and> valid parameters 1 then cv_mem v parameters else 255,
          flag8 (cv_adv_env v i \<noteq> 0), flag8 (cv_con_env v i \<noteq> 0)])"

definition activity_table :: "controller_view \<Rightarrow> u32" where
  "activity_table v = (if valid (cv_llm_env v) 12 then mem32 v (cv_llm_env v + 8) else 0)"

definition control_slot :: "controller_view \<Rightarrow> u8" where
  "control_slot v = (if valid (cv_con_env v 0) 143 then cv_mem v (cv_con_env v 0 + 142) else 255)"

definition timing_report :: "controller_view \<Rightarrow> u8 \<Rightarrow> bytes" where
  "timing_report v slot =
     (if slot < 6
      then [0x55, 0x4c, 0x4c, 0x56, 1, 0, slot, of_nat (length FIELD_OFFSETS)] @ concat (map (timing_field v slot) FIELD_OFFSETS)
      else [0x55, 0x4c, 0x4c, 0x56, 1, 1, 255, of_nat (length FIELD_OFFSETS)] @ replicate (3 * length FIELD_OFFSETS) 0)"

text \<open>The two reports and the status.\<close>

definition ull_radio_activity_snapshot :: "controller_view \<Rightarrow> bytes \<times> bytes \<times> u8" where
  "ull_radio_activity_snapshot v =
     (let activities = activity_table v in
      if \<not> valid activities (68 * 6)
      then ([0x55, 0x4c, 0x4c, 0x43, 1, 1, 6, 255] @ replicate 30 0, timing_report v 255, 0x0c)
      else
        let slot = control_slot v in
        ([0x55, 0x4c, 0x4c, 0x43, 1, 0, 6, slot] @ concat (map (activity_entry v activities) [0..<6]),
         timing_report v slot, 0))"

text \<open>What a snapshot may read: the data RAM, and of a control structure only the listed words.\<close>

definition same_view :: "controller_view \<Rightarrow> controller_view \<Rightarrow> bool" where
  "same_view v w \<longleftrightarrow> (\<forall>a. 0x3fc80000 \<le> a \<and> a < 0x3fcf0000 \<longrightarrow> cv_mem v a = cv_mem w a) \<and>
     cv_llm_env v = cv_llm_env w \<and> cv_con_env v 0 = cv_con_env w 0 \<and>
     (\<forall>i < 6. (cv_adv_env v i = 0) = (cv_adv_env w i = 0) \<and> (cv_con_env v i = 0) = (cv_con_env w i = 0)) \<and>
     (\<forall>slot < 6. \<forall>off \<in> set FIELD_OFFSETS. cv_control v slot (off div 2) = cv_control w slot (off div 2))"

lemma same_byte:
  assumes "same_view v w" and "valid a n" and "k < unat n" and "n \<le> 0x70000"
  shows "cv_mem v (a + of_nat k) = cv_mem w (a + of_nat k)"
proof -
  have i: "(of_nat k :: u32) < n" using assms(3) le_less_trans [OF take_bit_nat_less_eq_self, of k "unat n" 32]
    by (simp add: word_less_nat_alt unsigned_of_nat)
  have "uint n \<le> 458752" "0 \<le> uint n" using assms(4) by (simp_all add: word_le_def)
  then have "(1070530560 - uint n) mod 4294967296 = 1070530560 - uint n"
    by (intro mod_pos_pos_trivial; linarith)
  then have "uint a + uint (of_nat k :: u32) < 0x3fcf0000" "0x3fc80000 \<le> uint a"
    using assms(2) i by (auto simp: valid_def word_le_def word_less_def uint_word_ariths)
  moreover from this have low: "0x3fc80000 \<le> uint a + uint (of_nat k :: u32)"
    using uint_ge_0 [of "of_nat k :: u32"] by linarith
  ultimately have "0x3fc80000 \<le> a + of_nat k \<and> a + of_nat k < 0x3fcf0000"
    using low by (simp add: word_le_def word_less_def uint_word_ariths)
  then show ?thesis using assms(1) by (simp add: same_view_def)
qed

lemma mem32_same:
  assumes "same_view v w" and "valid a n" and "k + 4 \<le> unat n" and "n \<le> 0x70000"
  shows "mem32 v (a + of_nat k) = mem32 w (a + of_nat k)"
proof -
  have "cv_mem v (a + of_nat k + of_nat i) = cv_mem w (a + of_nat k + of_nat i)" if "i < 4" for i
    using same_byte [OF assms(1,2) _ assms(4), of "k + i"] that assms(3) by (simp add: add.assoc)
  then show ?thesis unfolding mem32_def by (intro arg_cong [of _ _ "\<lambda>l. get32 l 0"] map_cong) auto
qed

lemma same_entry:
  assumes same: "same_view v w" and ok: "valid activities 408" and i: "i < 6"
  shows "activity_entry v activities i = activity_entry w activities i"
proof -
  have "mem32 v (activities + of_nat (68 * i)) = mem32 w (activities + of_nat (68 * i))"
    by (rule mem32_same [OF same ok]) (use i in simp_all)
  moreover have "cv_mem v (activities + of_nat (68 * i + 64)) = cv_mem w (activities + of_nat (68 * i + 64))"
    by (rule same_byte [OF same ok]) (use i in simp_all)
  moreover have "valid p 1 \<Longrightarrow> cv_mem v p = cv_mem w p" for p
    using same_byte [OF same, of p 1 0] by simp
  ultimately show ?thesis using same i by (simp add: activity_entry_def Let_def add.assoc same_view_def)
qed

text \<open>The snapshot reads nothing but the data RAM of the controller and, of a control structure, the thirteen
  listed control and timing words: two controllers that agree there give the same reports and status,
  whatever their other memory, keys, initialisation vectors and packet buffers hold.
\<close>

theorem snapshot_reads_bounded:
  assumes "same_view v w"
  shows "ull_radio_activity_snapshot v = ull_radio_activity_snapshot w"
proof -
  have table: "activity_table v = activity_table w"
    using mem32_same [OF assms, of "cv_llm_env v" 12 8] assms by (simp add: activity_table_def same_view_def)
  have slot: "control_slot v = control_slot w"
    using same_byte [OF assms, of "cv_con_env v 0" 143 142] assms by (simp add: control_slot_def same_view_def)
  have "timing_field v s off = timing_field w s off" if "s < 6" "off \<in> set FIELD_OFFSETS" for s off
    using assms that by (simp add: timing_field_def same_view_def)
  then have timing: "timing_report v s = timing_report w s" for s
    unfolding timing_report_def by (auto cong: map_cong)
  have "concat (map (activity_entry v (activity_table w)) [0..<6]) = concat (map (activity_entry w (activity_table w)) [0..<6])"
    if "valid (activity_table w) 408"
    using same_entry [OF assms that] by (intro arg_cong [of _ _ concat] map_cong) auto
  then show ?thesis by (simp add: ull_radio_activity_snapshot_def Let_def table slot timing)
qed

lemma snapshot_reads_bounded_witness:
  "let v = \<lparr>cv_mem = (\<lambda>a. if a = 0x3fc8001a then 0xc9 else if a = 0x3fc8001b then 0x3f else 0), cv_llm_env = 0x3fc80010,
         cv_adv_env = (\<lambda>i. 0), cv_con_env = (\<lambda>i. 0), cv_control = (\<lambda>s o'. 7)\<rparr>;
       w = v\<lparr>cv_mem := (\<lambda>a. if a < 0x3fc80000 then 5 else cv_mem v a), cv_control := (\<lambda>s o'. if o' = 8 then 1 else 7)\<rparr>
   in ull_radio_activity_snapshot v = ull_radio_activity_snapshot w \<and> snd (snd (ull_radio_activity_snapshot w)) = 0"
proof -
  let ?v = "\<lparr>cv_mem = (\<lambda>a. if a = 0x3fc8001a then 0xc9 else if a = 0x3fc8001b then 0x3f else 0), cv_llm_env = 0x3fc80010,
         cv_adv_env = (\<lambda>i. 0), cv_con_env = (\<lambda>i. 0), cv_control = (\<lambda>s o'. 7)\<rparr>"
  let ?w = "?v\<lparr>cv_mem := (\<lambda>a. if a < 0x3fc80000 then 5 else cv_mem ?v a), cv_control := (\<lambda>s o'. if o' = 8 then 1 else 7)\<rparr>"
  have same: "same_view ?v ?w" by (auto simp: same_view_def FIELD_OFFSETS_def)
  have "activity_table ?v = 0x3fc90000"
    by (simp add: activity_table_def valid_def mem32_def get32_def upt_rec push_bit_eq_mult)
  then have "snd (snd (ull_radio_activity_snapshot ?v)) = 0"
    by (simp add: ull_radio_activity_snapshot_def Let_def valid_def)
  then show ?thesis using snapshot_reads_bounded [OF same] by (simp only: Let_def simp_thms)
qed

end
