(* ===== verification/AutoLink.thy ===== *)
theory AutoLink
  imports TrialPump
begin

text \<open>
  Model of \<^verbatim>\<open>firmware/radio/src/auto_link.c\<close>: the keeper that brings up the link to the headset with the
  stored bond and answers its channels: sending with fragmentation, the channel handlers, the events of the
  controller and the reassembly. The environment is explicit: \<open>a_gate\<close> holds the answers of the send gate to
  the attempts to come (refused when the list is used up), \<open>a_arrivals\<close> the packets that reach the event queue
  before each receive to come, \<open>a_clock\<close> the clock readings to come, and \<open>a_out\<close> collects what was sent. The
  link is only disabled by the console while the keeper is idle, so the enable flag is constant during an
  operation. The bond and the addresses come from generated headers and are arguments. The commands, the
  startup and the main loop are in \<open>AutoKeeper\<close>.
\<close>

record bond =
  b_sirk :: bytes
  b_ltk :: bytes
  b_ediv :: bytes
  b_rand :: bytes
  b_target :: bytes
  b_identity :: bytes

record auto_link =
  a_handle :: u16
  a_acl_limit :: nat
  a_assembled :: nat
  a_fragment :: bytes
  a_encrypted :: bool
  a_encryption_requested :: bool
  a_setup :: bool
  a_peer_verified :: bool
  a_idle_sent :: bool
  a_holding :: bool
  a_disconnected :: bool
  a_failed :: bool
  a_connected_at :: int
  a_next_action :: int
  a_last_feedback :: int
  a_previous_feedback :: u32
  a_max_tx_octets :: u16
  a_raw_guard :: u8
  a_raw_status :: u8
  a_raw_tries :: nat
  a_startup_step :: nat
  a_activity_valid :: bool
  a_raw_acked :: bool
  a_air_ready :: bool
  a_started :: bool
  a_stream_attempted :: bool
  a_activity :: bytes
  a_control_slot :: u8
  a_diagnostic_ok :: bool
  a_enabled :: bool
  a_busy :: bool
  a_lost :: bool
  a_pause_requested :: bool
  a_state :: string
  a_queue :: "bytes list"
  a_gate :: "bool list"
  a_arrivals :: "bytes list list"
  a_clock :: "int list"
  a_now :: int
  a_out :: "bytes list"
  a_logged :: "bytes list"
  a_retired :: nat
  a_raw_resets :: nat
  a_mic_sessions :: nat
  a_features :: bool

definition QUEUE_DEPTH :: nat where "QUEUE_DEPTH = 32"
definition FRAGMENT_BYTES :: nat where "FRAGMENT_BYTES = 4096"
definition clean_map :: bytes where "clean_map = [0xff, 0xff, 0x01, 0xe0, 0x13]"

text \<open>The session fields after the \<^verbatim>\<open>memset\<close> of \<open>start_connection\<close> and its two assignments.\<close>

definition peer_reset :: "auto_link \<Rightarrow> auto_link" where
  "peer_reset s = s\<lparr>a_handle := 0xffff, a_acl_limit := 27, a_assembled := 0, a_fragment := replicate FRAGMENT_BYTES 0,
     a_encrypted := False, a_encryption_requested := False, a_setup := False, a_peer_verified := False,
     a_idle_sent := False, a_holding := False, a_disconnected := False, a_failed := False, a_connected_at := 0,
     a_next_action := 0, a_last_feedback := 0, a_previous_feedback := 0, a_max_tx_octets := 0, a_raw_guard := 0,
     a_raw_status := 0, a_raw_tries := 0, a_startup_step := 0, a_activity_valid := False, a_raw_acked := False,
     a_air_ready := False, a_started := False, a_stream_attempted := False, a_activity := replicate 30 0,
     a_control_slot := 0, a_diagnostic_ok := False\<rparr>"

definition set_state :: "auto_link \<Rightarrow> string \<Rightarrow> auto_link" where
  "set_state s st = (if a_state s = st then s else s\<lparr>a_state := st\<rparr>)"

definition ull_auto_receive :: "auto_link \<Rightarrow> bytes \<Rightarrow> auto_link \<times> bool" where
  "ull_auto_receive s d =
     (if \<not> a_enabled s then (s, False)
      else if length d > 512 then (s\<lparr>a_lost := True\<rparr>, True)
      else if length (a_queue s) < QUEUE_DEPTH then (s\<lparr>a_queue := a_queue s @ [d]\<rparr>, True)
      else (s\<lparr>a_lost := True\<rparr>, True))"

section \<open>Sending\<close>

definition send_try :: "auto_link \<Rightarrow> bytes \<Rightarrow> auto_link \<times> bool" where
  "send_try s p =
     (case a_gate s of [] \<Rightarrow> (s, False)
      | g # gs \<Rightarrow> (if g then (s\<lparr>a_gate := gs, a_out := a_out s @ [p]\<rparr>, True) else (s\<lparr>a_gate := gs\<rparr>, False)))"

primrec send_tries :: "nat \<Rightarrow> auto_link \<Rightarrow> bytes \<Rightarrow> auto_link \<times> bool" where
  "send_tries 0 s p = (s, False)"
| "send_tries (Suc k) s p =
     (if \<not> a_enabled s then (s, False)
      else let (s, sent) = send_try s p in if sent then (s, True) else send_tries k s p)"

definition send_packet :: "auto_link \<Rightarrow> bytes \<Rightarrow> auto_link \<times> bool" where
  "send_packet s p = send_tries 200 s p"

lemma send_try_gate: "send_try s p = (s', ok) \<Longrightarrow> length (a_gate s') + (if ok then 1 else 0) \<le> length (a_gate s)"
  by (auto simp: send_try_def split: list.splits if_splits)

lemma send_tries_gate: "send_tries k s p = (s', ok) \<Longrightarrow> length (a_gate s') + (if ok then 1 else 0) \<le> length (a_gate s)"
proof (induction k arbitrary: s)
  case (Suc k)
  obtain t sent where first: "send_try s p = (t, sent)" by fastforce
  show ?case using Suc.prems Suc.IH [of t] send_try_gate [OF first] first by (auto split: if_splits)
qed simp

lemma send_packet_gate: "send_packet s p = (s', True) \<Longrightarrow> length (a_gate s') < length (a_gate s)"
  using send_tries_gate [of 200 s p s' True] by (simp add: send_packet_def)

text \<open>One ACL fragment: the continuation flag is set on all but the first.\<close>

definition acl_packet :: "u16 \<Rightarrow> nat \<Rightarrow> bytes \<Rightarrow> bytes" where
  "acl_packet handle offset part =
     [2] @ put16 (handle OR (if offset \<noteq> 0 then 0x1000 else 0)) @ put16 (of_nat (length part)) @ part"

function acl_fragments :: "auto_link \<Rightarrow> bytes \<Rightarrow> nat \<Rightarrow> auto_link \<times> bool" where
  "acl_fragments s body offset =
     (if length body \<le> offset then (s, True)
      else
        let n = min (length body - offset) (a_acl_limit s);
            (s', sent) = send_packet s (acl_packet (a_handle s) offset (block offset n body))
        in if \<not> sent then (s', False) else acl_fragments s' body (offset + n))"
  by pat_completeness auto
termination
  by (relation "measure (\<lambda>(s, body, offset). length (a_gate s))") (auto dest: send_packet_gate [OF sym])

declare acl_fragments.simps [simp del]

definition send_acl :: "auto_link \<Rightarrow> u16 \<Rightarrow> bytes \<Rightarrow> auto_link \<times> bool" where
  "send_acl s cid payload =
     (if a_handle s = 0xffff \<or> length payload > 300 - 4 then (s, False)
      else acl_fragments s (put16 (of_nat (length payload)) @ put16 cid @ payload) 0)"

section \<open>The channels of the peer\<close>

definition PEER_MODE :: bytes where "PEER_MODE = [0, 0, 0, 0, 0, 0x77, 1, 0, 0, 0x7d, 0, 0]"
definition IDLE_EXPECTED :: bytes where "IDLE_EXPECTED = [17, 0, 0, 0, 0, 3, 0, 0, 0]"
definition IDLE_REPLY :: bytes where "IDLE_REPLY = [17, 1, 0, 0, 0, 3, 0, 0, 0]"
definition IDLE_RECORD :: bytes where "IDLE_RECORD = 15 # replicate 280 0"

definition send_idle :: "auto_link \<Rightarrow> auto_link" where
  "send_idle s =
     (let (s, ok) = send_acl s 0x101 IDLE_REPLY in
      if \<not> ok then s\<lparr>a_failed := True\<rparr>
      else let (s, ok) = send_acl s 0x101 IDLE_RECORD in if \<not> ok then s\<lparr>a_failed := True\<rparr> else s)"

definition proprietary :: "bond \<Rightarrow> auto_link \<Rightarrow> bytes \<Rightarrow> auto_link" where
  "proprietary b s p =
     (if \<not> a_encrypted s then s\<lparr>a_failed := True\<rparr>
      else if length p = 45 \<and> p ! 0 = 14 \<and> p ! 1 = 2 then
        (if p ! 2 \<noteq> 1 \<or> p ! 3 \<noteq> 1 \<or> block 4 16 p \<noteq> b_sirk b \<or> block 25 12 p \<noteq> PEER_MODE
         then set_state (s\<lparr>a_failed := True\<rparr>) ''peer_configuration_mismatch''
         else set_state (s\<lparr>a_peer_verified := True\<rparr>) ''proprietary_peer_verified'')
      else if length p = 9 \<and> p ! 0 = 17 \<and> \<not> a_idle_sent s then
        (if \<not> a_peer_verified s \<or> p \<noteq> IDLE_EXPECTED then s\<lparr>a_failed := True\<rparr>
         else send_idle (s\<lparr>a_idle_sent := True\<rparr>))
      else if length p = 281 \<and> p ! 0 = 15 \<and> a_peer_verified s \<and> a_idle_sent s then
        set_state (s\<lparr>a_holding := True\<rparr>) ''holding_proprietary_connection''
      else s\<lparr>a_logged := a_logged s @ [p]\<rparr>)"

definition l2cap :: "bond \<Rightarrow> auto_link \<Rightarrow> u16 \<Rightarrow> bytes \<Rightarrow> auto_link" where
  "l2cap b s cid p =
     (let n = length p in
      if cid = 0x101 then proprietary b s p
      else if cid = 4 \<and> n = 3 \<and> p ! 0 = 2 then fst (send_acl s 4 [3, 23, 0])
      else if cid = 4 \<and> n \<ge> 7 \<and> p ! 0 = 6 then fst (send_acl s 4 [1, 6, p ! 1, p ! 2, 10])
      else if cid = 6 \<and> n \<noteq> 0 \<and> p ! 0 = 1 then fst (send_acl s 6 [5, 5])
      else if cid = 5 \<and> n \<ge> 4 \<and> p ! 0 = 0x12 then fst (send_acl s 5 [0x13, p ! 1, 2, 0, 1, 0])
      else s)"

section \<open>Events and data of the controller\<close>

text \<open>The vendor records the firmware's own diagnostics send.\<close>

definition vendor_record :: "auto_link \<Rightarrow> bytes \<Rightarrow> auto_link" where
  "vendor_record s d =
     (let len = length d in
      if len = 38 \<and> take 5 d = [0x55, 0x4c, 0x4c, 0x43, 1] then
        s\<lparr>a_activity_valid := (d ! 5 = 0 \<and> d ! 6 = 6), a_control_slot := d ! 7, a_activity := block 8 30 d\<rparr>
      else if len = 12 \<and> take 5 d = [0x55, 0x4c, 0x4c, 0x44, 1] then
        s\<lparr>a_diagnostic_ok := (d ! 6 = 0 \<and> d ! 7 \<noteq> 0 \<and> get16 d 8 = 27 \<and> get16 d 10 = 513)\<rparr>
      else if len = 12 \<and> take 5 d = [0x55, 0x4c, 0x4c, 0x54, 1] then
        (let s = (if d ! 5 = 1 then s\<lparr>a_raw_guard := d ! 8, a_raw_status := d ! 9\<rparr> else s) in
         if d ! 5 = 2 \<and> d ! 6 = 0xe4
         then (if d ! 8 \<noteq> 7 \<or> d ! 9 \<noteq> 1 then s\<lparr>a_failed := True\<rparr> else s\<lparr>a_raw_acked := True\<rparr>)
         else s)
      else if len = 16 \<and> take 6 d = [0x55, 0x4c, 0x4c, 0x52, 1, 1] then s\<lparr>a_air_ready := True\<rparr>
      else if len = 28 \<and> take 5 d = [0x55, 0x4c, 0x4c, 0x50, 3] \<and> d ! 5 = 3 then s\<lparr>a_failed := True\<rparr>
      else s)"

definition connected :: "bond \<Rightarrow> auto_link \<Rightarrow> bytes \<Rightarrow> int \<Rightarrow> auto_link" where
  "connected b s d now =
     (if d ! 1 \<noteq> 0 then s\<lparr>a_disconnected := True\<rparr>
      else if block 6 6 d \<noteq> b_target b then s\<lparr>a_failed := True\<rparr>
      else set_state (s\<lparr>a_handle := get16 d 2, a_connected_at := now\<rparr>) ''connected_encrypting'')"

definition disconnected :: "auto_link \<Rightarrow> bytes \<Rightarrow> auto_link" where
  "disconnected s d =
     (let s = (if a_started s \<and> d ! 0 = 0 \<and> a_handle s \<noteq> 0xffff \<and> get16 d 1 = a_handle s
               then s\<lparr>a_retired := a_retired s + 1\<rparr> else s);
          s = (if \<not> a_started s then s\<lparr>a_disconnected := True\<rparr> else s)
      in s\<lparr>a_handle := 0xffff\<rparr>)"

definition hci_event :: "bond \<Rightarrow> auto_link \<Rightarrow> bytes \<Rightarrow> int \<Rightarrow> auto_link" where
  "hci_event b s p now =
     (let len = unat (p ! 2); d = drop 3 p; code = p ! 1 in
      if length p \<noteq> 3 + len then s\<lparr>a_failed := True\<rparr>
      else if code = 0x3e \<and> len \<ge> 12 \<and> (d ! 0 = 1 \<or> d ! 0 = 10) then connected b s d now
      else if code = 5 \<and> len \<ge> 4 then disconnected s d
      else if code = 0x3e \<and> len = 11 \<and> d ! 0 = 7 then s\<lparr>a_max_tx_octets := get16 d 3\<rparr>
      else if code = 0xff then vendor_record s d
      else if code = 8 \<and> len \<ge> 4 then
        (let s = s\<lparr>a_encrypted := (d ! 0 = 0 \<and> d ! 3 \<noteq> 0)\<rparr> in
         if \<not> a_encrypted s then s\<lparr>a_failed := True\<rparr> else s)
      else if code = 0x3e \<and> len \<ge> 3 \<and> d ! 0 = 5 then fst (send_packet s [1, 0x1b, 0x20, 2, d ! 1, d ! 2])
      else s)"

text \<open>ACL data: fragments are collected until the length in the first four bytes is reached.\<close>

definition acl_collect :: "bond \<Rightarrow> auto_link \<Rightarrow> bytes \<Rightarrow> auto_link" where
  "acl_collect b s part =
     (let n = length part in
      if a_assembled s + n > FRAGMENT_BYTES then s\<lparr>a_failed := True\<rparr>
      else
        let s = s\<lparr>a_fragment := memcpy_at (a_fragment s) (a_assembled s) part, a_assembled := a_assembled s + n\<rparr> in
        if a_assembled s < 4 then s
        else
          let expected = 4 + unat (get16 (a_fragment s) 0) in
          if expected > FRAGMENT_BYTES \<or> a_assembled s > expected then s\<lparr>a_failed := True\<rparr>
          else if a_assembled s = expected then
            (l2cap b s (get16 (a_fragment s) 2) (block 4 (expected - 4) (a_fragment s)))\<lparr>a_assembled := 0\<rparr>
          else s)"

definition acl_data :: "bond \<Rightarrow> auto_link \<Rightarrow> bytes \<Rightarrow> auto_link" where
  "acl_data b s p =
     (let flags = get16 p 1; pb = (drop_bit 12 flags) AND 3 in
      if flags AND 0xfff \<noteq> a_handle s then s
      else if pb = 0 \<or> pb = 2 then acl_collect b (s\<lparr>a_assembled := 0\<rparr>) (drop 5 p)
      else if pb \<noteq> 1 \<or> a_assembled s = 0 then s
      else acl_collect b s (drop 5 p))"

definition process_packet :: "bond \<Rightarrow> auto_link \<Rightarrow> bytes \<Rightarrow> int \<Rightarrow> auto_link" where
  "process_packet b s p now =
     (if length p < 3 then s
      else if p ! 0 = 4 then hci_event b s p now
      else if p ! 0 \<noteq> 2 \<or> length p < 5 \<or> unat (get16 p 3) \<noteq> length p - 5 then s
      else acl_data b s p)"

section \<open>Fragments are reassembled\<close>

lemma send_tries_effect: "send_tries k s p = (s', True) \<Longrightarrow> \<exists>gs. s' = s\<lparr>a_gate := gs, a_out := a_out s @ [p]\<rparr>"
proof (induction k arbitrary: s)
  case (Suc k)
  show ?case
  proof (cases "a_gate s")
    case Nil
    then show ?thesis using Suc.prems Suc.IH [of s] by (auto simp: send_try_def split: if_splits)
  next
    case (Cons g gs)
    then show ?thesis using Suc.prems Suc.IH [of "s\<lparr>a_gate := gs\<rparr>"] by (auto simp: send_try_def split: if_splits)
  qed
qed simp

lemma send_packet_effect: "send_packet s p = (s', True) \<Longrightarrow> \<exists>gs. s' = s\<lparr>a_gate := gs, a_out := a_out s @ [p]\<rparr>"
  unfolding send_packet_def by (rule send_tries_effect)

primrec process_all :: "bond \<Rightarrow> auto_link \<Rightarrow> (bytes \<times> int) list \<Rightarrow> auto_link" where
  "process_all b s [] = s"
| "process_all b s (x # xs) = process_all b (process_packet b s (fst x) (snd x)) xs"

lemma unat_put16_len: "n \<le> 65535 \<Longrightarrow> unat (of_nat n :: u16) = n"
  by (simp add: unsigned_of_nat take_bit_nat_eq_self)

lemma acl_packet_parts:
  assumes "length part \<le> 65535"
  shows "acl_packet h off part ! 0 = 2" "length (acl_packet h off part) = 5 + length part"
    "get16 (acl_packet h off part) 1 = h OR (if off \<noteq> 0 then 0x1000 else 0)"
    "unat (get16 (acl_packet h off part) 3) = length part" "drop 5 (acl_packet h off part) = part"
proof -
  have "get16 (acl_packet h off part) 3 = of_nat (length part)" by (rule get16_read) (simp_all add: acl_packet_def put16_def)
  then show "unat (get16 (acl_packet h off part) 3) = length part" using assms by (simp add: unat_put16_len)
  show "get16 (acl_packet h off part) 1 = h OR (if off \<noteq> 0 then 0x1000 else 0)"
    by (rule get16_read) (simp_all add: acl_packet_def put16_def)
qed (simp_all add: acl_packet_def put16_def)

lemma handle_flags:
  assumes "(h :: u16) < 0x1000"
  shows "(h OR (if c then 0x1000 else 0)) AND 0xfff = h" "drop_bit 12 (h OR (if c then 0x1000 else 0)) AND 3 = (if c then 1 else 0)"
proof -
  have m: "(0xfff :: u16) = mask 12" "(0x1000 :: u16) = push_bit 12 1" by (simp_all add: mask_eq_exp_minus_1)
  have "unat h < 2 ^ 12" using assms by (simp add: word_less_nat_alt)
  then have h: "take_bit 12 h = h" by (intro word_unat_eq_iff [THEN iffD2]) (simp add: unsigned_take_bit_eq take_bit_nat_eq_self)
  have one: "bit (0x1000 :: u16) n \<longleftrightarrow> n = 12" for n
    by (subst m(2)) (simp only: bit_push_bit_iff bit_1_iff, auto)
  have hi: "\<not> bit h n" if "12 \<le> n" for n
    by (subst h [symmetric]) (use that in \<open>simp add: bit_take_bit_iff\<close>)
  have lo: "bit h n \<Longrightarrow> n < 12" for n using hi [of n] by (cases "n < 12") auto
  show "(h OR (if c then 0x1000 else 0)) AND 0xfff = h"
  proof (rule bit_eqI)
    fix n
    have "bit (mask 12 :: u16) n \<longleftrightarrow> n < 12" by (auto simp: bit_mask_iff possible_bit_word)
    then show "bit ((h OR (if c then 0x1000 else 0)) AND 0xfff) n = bit h n"
      using one [of n] lo [of n] unfolding m(1) by (cases c) (auto simp only: bit_and_iff bit_or_iff if_True if_False bit_0_eq bot_apply bot_bool_def)
  qed
  have "drop_bit 12 h = 0" by (rule bit_eqI) (simp add: bit_simps hi)
  then show "drop_bit 12 (h OR (if c then 0x1000 else 0)) AND 3 = (if c then 1 else 0)"
    by (cases c) (simp_all add: drop_bit_or)
qed

lemma block_extend: "take off xs @ block off n xs = take (off + n) xs"
  by (simp add: block_def take_add)

lemma take_memcpy: "off + length part \<le> length fr \<Longrightarrow> take (off + length part) (memcpy_at fr off part) = take off fr @ part"
  by (simp add: memcpy_at_def)

lemma acl_data_taken:
  assumes "get16 p 1 AND 0xfff = a_handle r" "drop_bit 12 (get16 p 1) AND 3 = (if off \<noteq> 0 then 1 else 0)"
    and "off = 0 \<or> a_assembled r = off"
  shows "acl_data b r p = acl_collect b (r\<lparr>a_assembled := off\<rparr>) (drop 5 p)"
proof (cases "off = 0")
  case True
  then show ?thesis using assms by (simp only: acl_data_def Let_def) simp
next
  case False
  then have "r\<lparr>a_assembled := off\<rparr> = r" using assms(3) by (cases r) simp
  moreover have "acl_data b r p = acl_collect b r (drop 5 p)"
    using False assms by (simp only: acl_data_def Let_def) simp
  ultimately show ?thesis by simp
qed

lemma collect_taken:
  fixes r :: auto_link
  assumes "off + length part \<le> FRAGMENT_BYTES"
  defines "r' \<equiv> r\<lparr>a_fragment := memcpy_at (a_fragment r) off part, a_assembled := off + length part\<rparr>"
  shows "acl_collect b (r\<lparr>a_assembled := off\<rparr>) part = (if off + length part < 4 then r'
      else let expected = 4 + unat (get16 (a_fragment r') 0) in
        if expected > FRAGMENT_BYTES \<or> off + length part > expected then r'\<lparr>a_failed := True\<rparr>
        else if off + length part = expected then (l2cap b r' (get16 (a_fragment r') 2) (block 4 (expected - 4) (a_fragment r')))\<lparr>a_assembled := 0\<rparr>
        else r')"
  using assms(1) unfolding acl_collect_def Let_def r'_def by simp

text \<open>One fragment at the receiver.\<close>

lemma acl_step:
  assumes h: "a_handle r < 0x1000" and fr: "length (a_fragment r) = FRAGMENT_BYTES" and so_far: "take off (a_fragment r) = take off body"
    and off: "off = 0 \<or> a_assembled r = off" and n: "0 < n" "off + n \<le> length body" "n \<le> 65535"
    and body: "length body = 4 + unat (get16 body 0)" "length body \<le> FRAGMENT_BYTES"
    and r': "r' = r\<lparr>a_fragment := memcpy_at (a_fragment r) off (block off n body), a_assembled := off + n\<rparr>"
  shows "process_packet b r (acl_packet (a_handle r) off (block off n body)) now =
      (if off + n = length body then (l2cap b r' (get16 body 2) (drop 4 body))\<lparr>a_assembled := 0\<rparr> else r') \<and>
    take (off + n) (a_fragment r') = take (off + n) body \<and> length (a_fragment r') = FRAGMENT_BYTES"
proof -
  let ?part = "block off n body"
  have part: "length ?part = n" using n by (simp add: length_block)
  have fit: "off + length ?part \<le> length (a_fragment r)" using n body fr part by simp
  have t: "take (off + n) (a_fragment r') = take (off + n) body"
    using take_memcpy [OF fit] so_far block_extend [of off body n] by (simp add: r' part)
  have len: "length (a_fragment r') = FRAGMENT_BYTES" using fit fr by (simp add: r' length_memcpy_at)
  have l: "length ?part \<le> 65535" using part n by simp
  note parts = acl_packet_parts [OF l, of "a_handle r" off]
  note flags = handle_flags [OF h, of "off \<noteq> 0"]
  let ?p = "acl_packet (a_handle r) off ?part"
  have "process_packet b r ?p now = acl_data b r ?p"
    unfolding process_packet_def using parts(1,2,4) by simp
  also have "\<dots> = acl_collect b (r\<lparr>a_assembled := off\<rparr>) (drop 5 ?p)"
    by (rule acl_data_taken) (simp_all only: parts flags off)
  also have "\<dots> = acl_collect b (r\<lparr>a_assembled := off\<rparr>) ?part" by (simp only: parts)
  also have "\<dots> = (if off + n < 4 then r'
      else let expected = 4 + unat (get16 (a_fragment r') 0) in
        if expected > FRAGMENT_BYTES \<or> off + n > expected then r'\<lparr>a_failed := True\<rparr>
        else if off + n = expected then (l2cap b r' (get16 (a_fragment r') 2) (block 4 (expected - 4) (a_fragment r')))\<lparr>a_assembled := 0\<rparr>
        else r')"
    using collect_taken [of off ?part b r, unfolded part] n(2) body(2) unfolding r' by linarith
  also have "\<dots> = (if off + n = length body then (l2cap b r' (get16 body 2) (drop 4 body))\<lparr>a_assembled := 0\<rparr> else r')"
  proof (cases "off + n < 4")
    case True
    then have "off + n \<noteq> length body" using body(1) by linarith
    then show ?thesis using True by simp
  next
    case False
    have at: "a_fragment r' ! i = body ! i" if "i < off + n" for i
      using arg_cong [OF t, of "\<lambda>l. l ! i"] that by simp
    have g: "get16 (a_fragment r') 0 = get16 body 0" "get16 (a_fragment r') 2 = get16 body 2"
      using at [of 0] at [of 1] at [of 2] at [of 3] False n(1) by (simp_all add: get16_def)
    have e: "4 + unat (get16 (a_fragment r') 0) = length body" unfolding g using body(1) by simp
    have "off + n = length body \<Longrightarrow> block 4 (length body - 4) (a_fragment r') = drop 4 body"
      using arg_cong [OF t, of "drop 4"] by (simp add: block_def drop_take)
    then show ?thesis unfolding Let_def e g(2) using False body(2) n(2) by simp
  qed
  finally show ?thesis using t len by simp
qed

lemma fragments_received:
  assumes "acl_fragments s body off = (s', True)" and "off < length body" and "0 < a_acl_limit s" "a_acl_limit s \<le> 65535"
    and "a_handle r = a_handle s" "a_handle r < 0x1000" "length (a_fragment r) = FRAGMENT_BYTES"
    and "take off (a_fragment r) = take off body" and "off = 0 \<or> a_assembled r = off"
    and "length body = 4 + unat (get16 body 0)" "length body \<le> FRAGMENT_BYTES"
  shows "\<exists>pkts fr. a_out s' = a_out s @ pkts \<and> length fr = FRAGMENT_BYTES \<and> take (length body) fr = body \<and>
    (\<forall>p \<in> set pkts. length p \<le> 5 + a_acl_limit s) \<and>
    (\<forall>times. length times = length pkts \<longrightarrow>
      process_all b r (zip pkts times) =
        (l2cap b (r\<lparr>a_fragment := fr, a_assembled := length body\<rparr>) (get16 body 2) (drop 4 body))\<lparr>a_assembled := 0\<rparr>)"
  using assms
proof (induction s body off arbitrary: r rule: acl_fragments.induct)
  case (1 s body off)
  define n where nd: "n = min (length body - off) (a_acl_limit s)"
  let ?p = "acl_packet (a_handle s) off (block off n body)"
  obtain t sent where send: "send_packet s ?p = (t, sent)" by fastforce
  have unfolded: "acl_fragments s body off = (if sent then acl_fragments t body (off + n) else (t, False))"
    using 1(3) send by (subst acl_fragments.simps) (simp add: Let_def nd [symmetric])
  have ok: "sent" using unfolded 1(2) by (cases sent) simp_all
  have rest: "acl_fragments t body (off + n) = (s', True)" using unfolded ok 1(2) by simp
  have "\<exists>gs. t = s\<lparr>a_gate := gs, a_out := a_out s @ [?p]\<rparr>"
    using send_packet_effect [of s ?p t] send ok by auto
  then obtain gs where t: "t = s\<lparr>a_gate := gs, a_out := a_out s @ [?p]\<rparr>"
    by blast
  have n: "0 < n" "off + n \<le> length body" "n \<le> 65535" unfolding nd using "1.prems"(2-4) by auto
  let ?r = "r\<lparr>a_fragment := memcpy_at (a_fragment r) off (block off n body), a_assembled := off + n\<rparr>"
  have step: "process_packet b r ?p now = (if off + n = length body then (l2cap b ?r (get16 body 2) (drop 4 body))\<lparr>a_assembled := 0\<rparr> else ?r)"
      "take (off + n) (a_fragment ?r) = take (off + n) body" "length (a_fragment ?r) = FRAGMENT_BYTES" for now
    using acl_step [OF "1.prems"(6,7,8,9) n "1.prems"(10,11) refl, of b now] unfolding "1.prems"(5) by blast+
  have small: "length ?p \<le> 5 + a_acl_limit s" by (simp add: acl_packet_def block_def nd)
  have same: "a_acl_limit t = a_acl_limit s" "a_handle t = a_handle s" using t by simp_all
  show ?case
  proof (cases "off + n = length body")
    case True
    have out: "a_out s' = a_out s @ [?p]" using rest True t by (auto simp: acl_fragments.simps)
    have "process_all b r (zip [?p] times) =
        (l2cap b (r\<lparr>a_fragment := a_fragment ?r, a_assembled := length body\<rparr>) (get16 body 2) (drop 4 body))\<lparr>a_assembled := 0\<rparr>"
      if "length times = length [?p]" for times
      using step(1) [of "hd times"] True that by (cases times) simp_all
    then show ?thesis using out step(2,3) True small
      by (intro exI [of _ "[?p]"] exI [of _ "a_fragment ?r"]) simp
  next
    case False
    have "\<exists>pkts fr. a_out s' = a_out t @ pkts \<and> length fr = FRAGMENT_BYTES \<and> take (length body) fr = body \<and>
      (\<forall>p \<in> set pkts. length p \<le> 5 + a_acl_limit t) \<and>
      (\<forall>times. length times = length pkts \<longrightarrow>
        process_all b ?r (zip pkts times) =
          (l2cap b (?r\<lparr>a_fragment := fr, a_assembled := length body\<rparr>) (get16 body 2) (drop 4 body))\<lparr>a_assembled := 0\<rparr>)"
      using "1.prems"(2-) False n step(2,3) same
      by (intro "1.IH" [OF _ nd send [symmetric]]) (auto simp: rest ok)
    then obtain pkts fr where IH: "a_out s' = a_out t @ pkts" "length fr = FRAGMENT_BYTES" "take (length body) fr = body"
      "\<forall>p \<in> set pkts. length p \<le> 5 + a_acl_limit t" "\<And>times. length times = length pkts \<Longrightarrow> process_all b ?r (zip pkts times) =
          (l2cap b (?r\<lparr>a_fragment := fr, a_assembled := length body\<rparr>) (get16 body 2) (drop 4 body))\<lparr>a_assembled := 0\<rparr>" by blast
    have "process_all b r (zip (?p # pkts) times) =
        (l2cap b (r\<lparr>a_fragment := fr, a_assembled := length body\<rparr>) (get16 body 2) (drop 4 body))\<lparr>a_assembled := 0\<rparr>"
      if "length times = length (?p # pkts)" for times
    proof (cases times)
      case (Cons u us)
      then show ?thesis using step(1) [of u] False that IH(5) [of us] by simp
    qed (use that in simp)
    then show ?thesis using IH(1-4) t small by (intro exI [of _ "?p # pkts"] exI [of _ fr]) simp
  qed
qed

text \<open>C11:
  What the keeper sends on a channel arrives. Whatever the gate refused in between, when \<open>send_acl\<close> returns true
  the packets it added to the link, none longer than the negotiated limit, make a keeper at the other end hand
  exactly this payload to its channel handler once, on the same channel, and leave its buffer empty; and
  every payload of up to 296 bytes is treated so, the empty one included.
\<close>

theorem acl_roundtrip:
  assumes send: "send_acl s cid payload = (s', True)"
    and limit: "1 \<le> a_acl_limit s" "a_acl_limit s \<le> 65535"
    and link: "a_handle r = a_handle s" "a_handle s < 0x1000" "length (a_fragment r) = FRAGMENT_BYTES"
  shows "\<exists>pkts fr. a_out s' = a_out s @ pkts \<and> (\<forall>p \<in> set pkts. length p \<le> 5 + a_acl_limit s) \<and>
    (\<forall>times. length times = length pkts \<longrightarrow>
      process_all b r (zip pkts times) =
        (l2cap b (r\<lparr>a_fragment := fr, a_assembled := 4 + length payload\<rparr>) cid payload)\<lparr>a_assembled := 0\<rparr>)"
proof -
  let ?body = "put16 (of_nat (length payload)) @ put16 cid @ payload"
  have run: "acl_fragments s ?body 0 = (s', True)" and short: "length payload \<le> 296"
    using send by (auto simp: send_acl_def split: if_splits)
  have g: "get16 ?body 0 = of_nat (length payload)" "get16 ?body 2 = cid" by (rule get16_read; simp add: put16_def)+
  have len: "length ?body = 4 + unat (get16 ?body 0)" using short by (simp add: g unat_put16_len)
  have small: "length ?body \<le> FRAGMENT_BYTES" using short by (simp add: FRAGMENT_BYTES_def)
  have d: "drop 4 ?body = payload" by (simp add: put16_def)
  obtain pkts fr where "a_out s' = a_out s @ pkts" "\<forall>p \<in> set pkts. length p \<le> 5 + a_acl_limit s"
    "\<forall>times. length times = length pkts \<longrightarrow> process_all b r (zip pkts times) =
        (l2cap b (r\<lparr>a_fragment := fr, a_assembled := length ?body\<rparr>) (get16 ?body 2) (drop 4 ?body))\<lparr>a_assembled := 0\<rparr>"
    using fragments_received [OF run _ _ limit(2) link(1) _ link(3) _ _ len small, of b] limit link(1,2) by auto
  moreover have "length ?body = 4 + length payload" by simp
  ultimately show ?thesis unfolding g d by (intro exI [of _ pkts] exI [of _ fr]) (simp only: simp_thms)
qed

definition auto_zero :: auto_link where
  "auto_zero = peer_reset \<lparr>a_handle = 0, a_acl_limit = 0, a_assembled = 0, a_fragment = [], a_encrypted = False,
     a_encryption_requested = False, a_setup = False, a_peer_verified = False, a_idle_sent = False, a_holding = False,
     a_disconnected = False, a_failed = False, a_connected_at = 0, a_next_action = 0, a_last_feedback = 0,
     a_previous_feedback = 0, a_max_tx_octets = 0, a_raw_guard = 0, a_raw_status = 0, a_raw_tries = 0,
     a_startup_step = 0, a_activity_valid = False, a_raw_acked = False, a_air_ready = False, a_started = False,
     a_stream_attempted = False, a_activity = [], a_control_slot = 0, a_diagnostic_ok = False, a_enabled = True,
     a_busy = False, a_lost = False, a_pause_requested = False, a_state = ''starting'', a_queue = [], a_gate = [],
     a_arrivals = [], a_clock = [], a_now = 0, a_out = [], a_logged = [], a_retired = 0, a_raw_resets = 0,
     a_mic_sessions = 0, a_features = False\<rparr>"

lemma send_packet_now:
  assumes "a_enabled s" and "a_gate s = True # gs \<or> a_gate s = False # True # gs"
  shows "send_packet s p = (s\<lparr>a_gate := gs, a_out := a_out s @ [p]\<rparr>, True)"
proof -
  have "send_tries (Suc (Suc k)) s p = (s\<lparr>a_gate := gs, a_out := a_out s @ [p]\<rparr>, True)" for k
    using assms by (auto simp: send_try_def)
  from this [of 198] show ?thesis by (simp add: send_packet_def)
qed

definition ex_bond :: bond where
  "ex_bond = \<lparr>b_sirk = replicate 16 1, b_ltk = replicate 16 2, b_ediv = [3, 4], b_rand = replicate 8 5,
     b_target = replicate 6 6, b_identity = replicate 6 7\<rparr>"

lemma acl_roundtrip_witness:
  "\<exists>pkts fr. a_out (fst (send_acl (auto_zero\<lparr>a_handle := 7, a_gate := [False, True, False, True]\<rparr>) 4 (replicate 30 9))) = pkts \<and>
    process_all ex_bond (auto_zero\<lparr>a_handle := 7\<rparr>) (zip pkts (replicate (length pkts) 0)) =
      (l2cap ex_bond (auto_zero\<lparr>a_handle := 7, a_fragment := fr, a_assembled := 34\<rparr>) 4 (replicate 30 9))\<lparr>a_assembled := 0\<rparr>"
proof -
  let ?s = "auto_zero\<lparr>a_handle := 7, a_gate := [False, True, False, True]\<rparr>"
  have z: "a_acl_limit ?s = 27" "a_out ?s = []" "a_enabled ?s" "length (a_fragment auto_zero) = FRAGMENT_BYTES"
    "a_acl_limit auto_zero = 27" "a_out auto_zero = []" "a_enabled auto_zero"
    by (simp_all add: auto_zero_def peer_reset_def)
  have "snd (send_acl ?s 4 (replicate 30 9))"
    by (simp add: send_acl_def acl_fragments.simps z send_packet_now)
  then have "send_acl ?s 4 (replicate 30 9) = (fst (send_acl ?s 4 (replicate 30 9)), True)"
    by (cases "send_acl ?s 4 (replicate 30 9)") simp
  from acl_roundtrip [OF this, of "auto_zero\<lparr>a_handle := 7\<rparr>" ex_bond] z
  obtain pkts fr where "a_out (fst (send_acl ?s 4 (replicate 30 9))) = pkts"
    "\<forall>times. length times = length pkts \<longrightarrow> process_all ex_bond (auto_zero\<lparr>a_handle := 7\<rparr>) (zip pkts times) =
      (l2cap ex_bond (auto_zero\<lparr>a_handle := 7, a_fragment := fr, a_assembled := 34\<rparr>) 4 (replicate 30 9))\<lparr>a_assembled := 0\<rparr>"
    by auto
  then show ?thesis by (intro exI [of _ pkts] exI [of _ fr]) simp
qed

end
