(* ===== verification/AutoKeeper.thy ===== *)
theory AutoKeeper
  imports AutoLink
begin

text \<open>
  The second half of \<^verbatim>\<open>firmware/radio/src/auto_link.c\<close>: HCI commands with their completions, the connection
  setup, the reservation of the audio slots, the startup machine and one turn of the main loop. What the
  other modules answer (the audio source, the switch to continuous mode, the state of the stream) is given
  per turn by a \<open>keeper_view\<close>. When the arrivals are used up nothing more arrives, so the five seconds pass.
\<close>

section \<open>Commands\<close>

definition read_clock :: "auto_link \<Rightarrow> auto_link \<times> int" where
  "read_clock s = (case a_clock s of [] \<Rightarrow> (s, a_now s) | t # ts \<Rightarrow> (s\<lparr>a_clock := ts, a_now := t\<rparr>, t))"

text \<open>A receive: what has arrived enters the queue of 32, then its head is taken.\<close>

primrec enqueue_all :: "auto_link \<Rightarrow> bytes list \<Rightarrow> auto_link" where
  "enqueue_all s [] = s"
| "enqueue_all s (d # ds) = enqueue_all (fst (ull_auto_receive s d)) ds"

definition receive_event :: "auto_link \<Rightarrow> bytes list \<Rightarrow> auto_link \<times> bytes option" where
  "receive_event s arrived =
     (let s = enqueue_all s arrived in
      case a_queue s of [] \<Rightarrow> (s, None) | e # es \<Rightarrow> (s\<lparr>a_queue := es\<rparr>, Some e))"

text \<open>What an event says of a command: its completion with the return parameters, its status, or nothing.\<close>

datatype completion = Completed u8 bytes | Statused u8 | Unrelated

definition command_event :: "u16 \<Rightarrow> bytes \<Rightarrow> completion" where
  "command_event opcode e =
     (if length e \<ge> 7 \<and> e ! 0 = 4 \<and> length e = 3 + unat (e ! 2) then
        (if e ! 1 = 14 \<and> get16 e 4 = opcode then Completed (e ! 6) (drop 6 e)
         else if e ! 1 = 15 \<and> get16 e 5 = opcode then Statused (e ! 3)
         else Unrelated)
      else Unrelated)"

text \<open>Every other event is handled as usual, except while the controller is being reset.\<close>

definition other_event :: "bond \<Rightarrow> auto_link \<Rightarrow> u16 \<Rightarrow> bytes \<Rightarrow> auto_link" where
  "other_event b s opcode e =
     (if opcode \<noteq> 0x0c03 then (let (s, now) = read_clock s in process_packet b s e now) else s)"

text \<open>The wait of a command; \<open>cap\<close> is the room for the reply where the caller wants one. The result is the
  outcome and the reply that was stored.\<close>

primrec command_wait :: "bytes list list \<Rightarrow> bond \<Rightarrow> auto_link \<Rightarrow> u16 \<Rightarrow> nat option \<Rightarrow> int \<Rightarrow> auto_link \<times> bool \<times> bytes option" where
  "command_wait [] b s opcode cap until = (s, False, None)"
| "command_wait (arrived # rest) b s opcode cap until =
     (let (s, now) = read_clock s in
      if \<not> a_enabled s \<or> now \<ge> until then (s, False, None)
      else
        let (s, got) = receive_event (s\<lparr>a_arrivals := rest\<rparr>) arrived in
        case got of
          None \<Rightarrow> command_wait rest b s opcode cap until
        | Some e \<Rightarrow>
            (case command_event opcode e of
               Completed status reply \<Rightarrow>
                 (case cap of
                    None \<Rightarrow> (s, status = 0, None)
                  | Some room \<Rightarrow> if length reply > room then (s, False, None) else (s, status = 0, Some reply))
             | Statused status \<Rightarrow> (s, status = 0, None)
             | Unrelated \<Rightarrow>
                 let s = other_event b s opcode e in if a_lost s then (s, False, None) else command_wait rest b s opcode cap until))"

definition command_packet :: "u16 \<Rightarrow> bytes \<Rightarrow> bytes" where
  "command_packet opcode params = [1] @ put16 opcode @ [of_nat (length params)] @ params"

definition hci_command :: "bond \<Rightarrow> auto_link \<Rightarrow> u16 \<Rightarrow> bytes \<Rightarrow> nat option \<Rightarrow> auto_link \<times> bool \<times> bytes option" where
  "hci_command b s opcode params cap =
     (if length params > 64 - 4 then (s, False, None)
      else
        let s = (if opcode = 0x0c03 then s\<lparr>a_raw_resets := a_raw_resets s + 1\<rparr> else s);
            (s, sent) = send_packet s (command_packet opcode params)
        in if \<not> sent then (s, False, None)
           else let (s, now) = read_clock s in command_wait (a_arrivals s) b s opcode cap (now + 5000000))"

definition CMD :: "bond \<Rightarrow> u16 \<Rightarrow> bytes \<Rightarrow> auto_link \<Rightarrow> auto_link \<times> bool" where
  "CMD b opcode params s = (let (s, ok, reply) = hci_command b s opcode params None in (s, ok))"

text \<open>A command whose reply has to satisfy a test.\<close>

definition ASK :: "bond \<Rightarrow> u16 \<Rightarrow> bytes \<Rightarrow> nat \<Rightarrow> (bytes \<Rightarrow> bool) \<Rightarrow> (bytes \<Rightarrow> auto_link \<Rightarrow> auto_link) \<Rightarrow> auto_link \<Rightarrow> auto_link \<times> bool" where
  "ASK b opcode params room test f s =
     (let (s, ok, reply) = hci_command b s opcode params (Some room) in
      case reply of
        None \<Rightarrow> (s, False)
      | Some r \<Rightarrow> if ok \<and> test r then (f r s, True) else (s, False))"

text \<open>The short-circuit sequence the guards of the code are.\<close>

definition both :: "(auto_link \<Rightarrow> auto_link \<times> bool) \<Rightarrow> (auto_link \<Rightarrow> auto_link \<times> bool) \<Rightarrow> auto_link \<Rightarrow> auto_link \<times> bool" where
  "both f g s = (let (s, ok) = f s in if ok then g s else (s, False))"

primrec all_of :: "(auto_link \<Rightarrow> auto_link \<times> bool) list \<Rightarrow> auto_link \<Rightarrow> auto_link \<times> bool" where
  "all_of [] s = (s, True)"
| "all_of (f # fs) s = both f (all_of fs) s"

definition guard :: "(auto_link \<Rightarrow> bool) \<Rightarrow> auto_link \<Rightarrow> auto_link \<times> bool" where
  "guard p s = (s, p s)"

definition assign :: "(auto_link \<Rightarrow> auto_link) \<Rightarrow> auto_link \<Rightarrow> auto_link \<times> bool" where
  "assign f s = (f s, True)"

section \<open>Connection setup\<close>

definition FEATURES :: bytes where "FEATURES = [0, 0xff, 0xf9, 1, 8, 0, 0, 0, 0x40]"
definition EVENT_MASK :: bytes where "EVENT_MASK = [255, 255, 255, 255, 255, 255, 255, 63]"
definition LE_EVENT_MASK :: bytes where "LE_EVENT_MASK = [255, 255, 31, 0, 0, 0, 0, 0]"

definition connection_parameters :: "bond \<Rightarrow> bytes" where
  "connection_parameters b = [0, 1, 0] @ b_target b @ [1] @ concat (map put16 [16, 16, 24, 24, 0, 500, 2, 2])"

definition session_start :: "auto_link \<Rightarrow> auto_link" where
  "session_start s = (peer_reset (s\<lparr>a_mic_sessions := a_mic_sessions s + 1\<rparr>))\<lparr>a_queue := [], a_lost := False, a_features := False\<rparr>"

definition setup_commands :: "bond \<Rightarrow> auto_link \<Rightarrow> auto_link \<times> bool" where
  "setup_commands b = all_of
     [CMD b 0x0c03 [],
      ASK b 0x2002 [] 16 (\<lambda>r. length r = 4 \<and> unat (get16 r 1) \<ge> 27 \<and> r ! 3 \<noteq> 0)
        (\<lambda>r s. s\<lparr>a_acl_limit := min (unat (get16 r 1)) 251\<rparr>),
      assign (\<lambda>s. s\<lparr>a_features := True\<rparr>),
      ASK b 0x2003 [] 16 (\<lambda>r. r = FEATURES) (\<lambda>r s. s),
      CMD b 0x0c01 EVENT_MASK,
      CMD b 0x2001 LE_EVENT_MASK,
      CMD b 0x2005 (b_identity b),
      CMD b 0x2014 clean_map,
      CMD b 0x2043 (connection_parameters b),
      assign (\<lambda>s. set_state s ''searching_for_headset'')]"

definition start_connection :: "bond \<Rightarrow> auto_link \<Rightarrow> auto_link \<times> bool" where
  "start_connection b s = setup_commands b (session_start s)"

section \<open>Audio startup\<close>

definition verify_map :: "bond \<Rightarrow> auto_link \<Rightarrow> auto_link \<times> bool" where
  "verify_map b s = ASK b 0x2015 (put16 (a_handle s)) 8
     (\<lambda>r. length r = 8 \<and> get16 r 1 = a_handle s \<and> block 3 5 r = clean_map) (\<lambda>r s. s) s"

definition UNUSED_SLOT :: bytes where "UNUSED_SLOT = [0, 0, 255, 0, 0]"

definition advertising_parameters :: "u8 \<Rightarrow> bytes" where
  "advertising_parameters h = [h, 0, 0, 160, 0, 0, 160, 0, 0, 7, 0, 0, 0, 0, 0, 0, 0, 0, 0, 127, 1, 0, 1, 0, 0]"

definition slot_handle :: "nat \<Rightarrow> u8" where
  "slot_handle slot = (if slot = 1 then 0xee else if slot = 2 then 0xef else 0xed)"

definition snapshot_activity :: "bond \<Rightarrow> auto_link \<Rightarrow> auto_link \<times> bool" where
  "snapshot_activity b = both (CMD b 0xfcfa []) (guard (\<lambda>s. a_activity_valid s \<and> a_control_slot s = 0))"

definition reserve_slot :: "bond \<Rightarrow> nat \<Rightarrow> bytes \<Rightarrow> auto_link \<Rightarrow> auto_link \<times> bool" where
  "reserve_slot b slot expected = all_of
     [assign (\<lambda>s. s\<lparr>a_activity_valid := False\<rparr>),
      CMD b 0x2036 (advertising_parameters (slot_handle slot)),
      snapshot_activity b,
      guard (\<lambda>s. a_activity s = expected)]"

definition with_slot :: "nat \<Rightarrow> bytes \<Rightarrow> bytes" where
  "with_slot slot expected = memcpy_at expected (slot * 5) [1, 1, slot_handle slot, 0, 0]"

definition reserve_slots :: "bond \<Rightarrow> auto_link \<Rightarrow> auto_link \<times> bool" where
  "reserve_slots b s =
     (let e0 = a_activity s; e1 = with_slot 1 e0; e2 = with_slot 2 e1; e3 = with_slot 3 e2 in
      if block 5 5 e0 \<noteq> UNUSED_SLOT \<or> block 10 5 e0 \<noteq> UNUSED_SLOT \<or> block 15 5 e0 \<noteq> UNUSED_SLOT then (s, False)
      else all_of [reserve_slot b 1 e1, reserve_slot b 2 e2, reserve_slot b 3 e3] s)"

definition reserve_audio :: "bond \<Rightarrow> auto_link \<Rightarrow> auto_link \<times> bool" where
  "reserve_audio b = all_of [assign (\<lambda>s. s\<lparr>a_activity_valid := False\<rparr>), snapshot_activity b, reserve_slots b]"

text \<open>What the other modules answer in a turn.\<close>

record keeper_view =
  v_source :: bool
  v_continuous :: bool
  v_feedback :: u32
  v_pump_busy :: bool

definition send_bytes :: "bytes \<Rightarrow> auto_link \<Rightarrow> auto_link \<times> bool" where
  "send_bytes payload s = send_acl s 0x101 payload"

definition CMD_here :: "bond \<Rightarrow> u16 \<Rightarrow> (auto_link \<Rightarrow> bytes) \<Rightarrow> auto_link \<Rightarrow> auto_link \<times> bool" where
  "CMD_here b opcode params s = CMD b opcode (params s) s"

definition startup_open :: "bond \<Rightarrow> auto_link \<Rightarrow> auto_link \<times> bool" where
  "startup_open b = all_of
     [verify_map b, CMD b 0xfcf0 [], guard a_diagnostic_ok, reserve_audio b,
      send_bytes [2, 1, 0], send_bytes [4, 1, 0, 100, 100, 0], send_bytes [2, 2, 0],
      CMD_here b 0x2022 (\<lambda>s. put16 (a_handle s) @ put16 251 @ put16 2120),
      assign (\<lambda>s. set_state (s\<lparr>a_startup_step := 1\<rparr>) ''negotiating_audio'')]"

text \<open>One of the two raw control messages: refused by the guard it is tried again, twelve times.\<close>

definition startup_raw :: "bond \<Rightarrow> u16 \<Rightarrow> nat \<Rightarrow> int \<Rightarrow> auto_link \<Rightarrow> auto_link \<times> bool" where
  "startup_raw b opcode next_step due s =
     (let (s, ok) = CMD b opcode [] (s\<lparr>a_raw_guard := 255, a_raw_status := 255\<rparr>) in
      if \<not> ok then
        (if a_raw_guard s \<noteq> 4 then (s, False)
         else let s = s\<lparr>a_raw_tries := a_raw_tries s + 1\<rparr> in
              if a_raw_tries s \<ge> 12 then (s, False) else (s\<lparr>a_next_action := due\<rparr>, True))
      else (s\<lparr>a_startup_step := next_step, a_raw_tries := 0, a_next_action := due\<rparr>, True))"

definition stream_on :: "auto_link \<Rightarrow> auto_link \<times> bool" where
  "stream_on = all_of
     [assign (\<lambda>s. s\<lparr>a_started := True\<rparr>), send_bytes [6, 1, 0], send_bytes [6, 2, 0],
      assign (\<lambda>s. let (s, now) = read_clock s in set_state (s\<lparr>a_last_feedback := now\<rparr>) ''streaming_usb_audio'')]"

definition stream_try :: "bond \<Rightarrow> int \<Rightarrow> auto_link \<Rightarrow> auto_link \<times> bool" where
  "stream_try b now s =
     (let (s, ok) = CMD b 0xfcfb [] (s\<lparr>a_stream_attempted := True\<rparr>) in
          if \<not> ok then
            (let s = s\<lparr>a_raw_tries := a_raw_tries s + 1\<rparr> in
             if a_raw_tries s \<ge> 10 then (s, False) else (s\<lparr>a_next_action := now + 1000\<rparr>, True))
          else stream_on s)"

definition startup_stream :: "bond \<Rightarrow> keeper_view \<Rightarrow> int \<Rightarrow> auto_link \<Rightarrow> auto_link \<times> bool" where
  "startup_stream b v now = both (both (verify_map b) (guard (\<lambda>s. v_continuous v))) (stream_try b now)"

definition audio_startup :: "bond \<Rightarrow> keeper_view \<Rightarrow> int \<Rightarrow> auto_link \<Rightarrow> auto_link \<times> bool" where
  "audio_startup b v now s =
     (if now < a_next_action s then (s, True)
      else if a_startup_step s = 0 then (if \<not> v_source v then (s, True) else startup_open b s)
      else if a_startup_step s = 1 then
        (if a_max_tx_octets s < 182 then (s, True) else startup_raw b 0xfcf3 2 (now + 250000) s)
      else if a_startup_step s = 2 then
        (if \<not> a_raw_acked s then (s, True) else startup_raw b 0xfcf4 3 (now + 1000) s)
      else if a_startup_step s = 3 then
        (if \<not> a_air_ready s then (s, True) else startup_stream b v now s)
      else (s, False))"

definition audio_live :: "keeper_view \<Rightarrow> int \<Rightarrow> auto_link \<Rightarrow> auto_link \<times> bool" where
  "audio_live v now s =
     (let s = (if v_feedback v \<noteq> a_previous_feedback s then s\<lparr>a_previous_feedback := v_feedback v, a_last_feedback := now\<rparr> else s)
      in (s, v_pump_busy v \<and> now - a_last_feedback s \<le> 5000000))"

section \<open>The main loop\<close>

definition link_usable :: "auto_link \<Rightarrow> bool" where
  "link_usable s \<longleftrightarrow> a_enabled s \<and> \<not> a_pause_requested s \<and> \<not> a_failed s \<and> \<not> a_disconnected s \<and> \<not> a_lost s"

definition fail_unless :: "auto_link \<times> bool \<Rightarrow> auto_link" where
  "fail_unless r = (if snd r then fst r else (fst r)\<lparr>a_failed := True\<rparr>)"

definition encryption_parameters :: "bond \<Rightarrow> u16 \<Rightarrow> bytes" where
  "encryption_parameters b handle = put16 handle @ b_rand b @ b_ediv b @ b_ltk b"

definition request_encryption :: "bond \<Rightarrow> auto_link \<Rightarrow> auto_link" where
  "request_encryption b s = fail_unless (CMD b 0x2019 (encryption_parameters b (a_handle s)) (s\<lparr>a_encryption_requested := True\<rparr>))"

definition SETUP_RECORD :: bytes where "SETUP_RECORD = [14, 1] @ replicate 43 0"

definition send_setup :: "auto_link \<Rightarrow> auto_link" where
  "send_setup s = fail_unless (send_acl (s\<lparr>a_setup := True\<rparr>) 0x101 SETUP_RECORD)"

text \<open>The actions on a connection that is not streaming yet.\<close>

definition connection_turn :: "bond \<Rightarrow> keeper_view \<Rightarrow> int \<Rightarrow> auto_link \<Rightarrow> auto_link" where
  "connection_turn b v now s =
     (let s = (if \<not> a_encryption_requested s \<and> now - a_connected_at s \<ge> 1000000 then request_encryption b s else s);
          s = (if a_encrypted s \<and> \<not> a_setup s then send_setup s else s);
          s = (if a_holding s then fail_unless (audio_startup b v now s) else s)
      in if \<not> a_started s \<and> now - a_connected_at s > 20000000 then s\<lparr>a_failed := True\<rparr> else s)"

text \<open>One turn of the inner loop; the second result says that the search for the headset timed out.\<close>

definition link_turn :: "bond \<Rightarrow> keeper_view \<Rightarrow> int \<Rightarrow> bytes list \<Rightarrow> auto_link \<Rightarrow> auto_link \<times> bool" where
  "link_turn b v began arrived s =
     (let (s, got) = receive_event s arrived;
          s = (case got of None \<Rightarrow> s | Some e \<Rightarrow> (let (s, now) = read_clock s in process_packet b s e now));
          (s, now) = read_clock s in
      if a_started s then (fail_unless (audio_live v now s), False)
      else if a_handle s \<noteq> 0xffff then (connection_turn b v now s, False)
      else (s, now - began > 20000000))"

text \<open>The loop runs while the link is usable; the list stands for the turns to come.\<close>

primrec link_turns :: "(keeper_view \<times> bytes list) list \<Rightarrow> bond \<Rightarrow> int \<Rightarrow> auto_link \<Rightarrow> auto_link" where
  "link_turns [] b began s = s"
| "link_turns (x # xs) b began s =
     (if \<not> link_usable s then s
      else let (s, timed_out) = link_turn b (fst x) began (snd x) s in
           if timed_out then s else link_turns xs b began s)"

text \<open>Stopping: the cancellation is repeated until a reading of the stream says it is terminal and the pump idle,
  or half a second has passed; the last reading decides.\<close>

record stream_reading =
  sr_phase :: u32
  sr_pump_busy :: bool

primrec stop_poll :: "stream_reading list \<Rightarrow> bond \<Rightarrow> int \<Rightarrow> auto_link \<Rightarrow> auto_link \<times> bool" where
  "stop_poll [] b until s = (s, True)"
| "stop_poll (r # rs) b until s =
     (let (s, ok) = CMD b 0xfcfd [] s in
      if \<not> ok then (s, False)
      else if \<not> sr_pump_busy r \<and> sr_phase r \<ge> 3 then (s, True)
      else let (s, now) = read_clock s in if now < until then stop_poll rs b until s else (s, True))"

definition stop_audio :: "bond \<Rightarrow> stream_reading list \<Rightarrow> stream_reading \<Rightarrow> bool \<Rightarrow> auto_link \<Rightarrow> auto_link \<times> bool" where
  "stop_audio b readings final paused s =
     (if \<not> a_stream_attempted s then (s, True)
      else
        let (s, now) = read_clock s;
            (s, ok) = stop_poll readings b (now + 500000) s
        in if \<not> ok then (s, False)
           else if sr_pump_busy final \<or> sr_phase final < 3 \<or> sr_phase final \<ge> 6 then (s, False)
           else if \<not> paused then (s, False)
           else CMD b 0xfcff [] s)"

text \<open>One session of the task; the result says whether the device has to be restarted.\<close>

definition keeper_session ::
  "bond \<Rightarrow> (keeper_view \<times> bytes list) list \<Rightarrow> stream_reading list \<Rightarrow> stream_reading \<Rightarrow> bool \<Rightarrow> auto_link \<Rightarrow> auto_link \<times> bool" where
  "keeper_session b turns readings final paused s =
     (if \<not> a_enabled s \<or> a_pause_requested s then (s\<lparr>a_busy := False\<rparr>, False)
      else
        let (s, ok) = start_connection b (s\<lparr>a_busy := True\<rparr>) in
        if \<not> ok then
          (let s = (if a_enabled s then set_state s ''retrying_controller_setup'' else s) in (s\<lparr>a_busy := False\<rparr>, False))
        else
          let (s, began) = read_clock s;
              s = link_turns turns b began s;
              (s, ok) = stop_audio b readings final paused s
          in if \<not> ok then (set_state s ''restarting_unclean_audio_session'', True)
             else let s = (if a_enabled s then set_state s ''reconnecting'' else s) in (s\<lparr>a_busy := False\<rparr>, False))"

text \<open>The console: pausing waits until the keeper is not busy; the second result says that the call has returned.\<close>

definition ull_auto_enable :: "auto_link \<Rightarrow> bool \<Rightarrow> auto_link \<times> bool" where
  "ull_auto_enable s on =
     (if \<not> on then
        (let s = s\<lparr>a_pause_requested := True\<rparr> in
         if a_busy s then (s, False) else (set_state (s\<lparr>a_enabled := False\<rparr>) ''paused_for_manual_session'', True))
      else (s\<lparr>a_pause_requested := False, a_enabled := True\<rparr>, True))"

section \<open>What every operation keeps\<close>

definition keeps :: "(auto_link \<Rightarrow> bool) \<Rightarrow> (auto_link \<Rightarrow> auto_link \<times> bool) \<Rightarrow> bool" where
  "keeps P f \<longleftrightarrow> (\<forall>s. P s \<longrightarrow> P (fst (f s)))"

lemma keepsI: "(\<And>s. P s \<Longrightarrow> P (fst (f s))) \<Longrightarrow> keeps P f"
  by (simp add: keeps_def)

lemma keepsD: "keeps P f \<Longrightarrow> P s \<Longrightarrow> P (fst (f s))"
  by (simp add: keeps_def)

lemma keeps_both: "keeps P f \<Longrightarrow> keeps P g \<Longrightarrow> keeps P (both f g)"
  by (simp add: keeps_def both_def split_def Let_def)

lemma keeps_Nil: "keeps P (all_of [])"
  by (simp add: keeps_def)

lemma keeps_Cons: "keeps P f \<Longrightarrow> keeps P (all_of fs) \<Longrightarrow> keeps P (all_of (f # fs))"
  by (simp add: keeps_def both_def split_def Let_def)

lemma keeps_guard: "keeps P (guard p)"
  by (simp add: keeps_def guard_def)

lemma keeps_assign: "(\<And>s. P s \<Longrightarrow> P (f s)) \<Longrightarrow> keeps P (assign f)"
  by (simp add: keeps_def assign_def)

lemmas keeps_intros = keeps_both keeps_Nil keeps_Cons keeps_guard keeps_assign

text \<open>
  The contract between the handling of packets and the waits: a property that processing a packet, reading the
  clock and receiving keep is kept by every wait; one that sending keeps as well is kept by every command.
\<close>

locale wait_invariant =
  fixes P :: "auto_link \<Rightarrow> bool" and b :: bond
  assumes clock: "P s \<Longrightarrow> P (fst (read_clock s))"
    and event: "P s \<Longrightarrow> P (fst (receive_event (s\<lparr>a_arrivals := rest\<rparr>) arrived))"
    and handle: "P s \<Longrightarrow> P (process_packet b s e now)"
begin

lemma wait: "P s \<Longrightarrow> P (fst (command_wait arrivals b s opcode cap until))"
proof (induction arrivals arbitrary: s)
  case (Cons arrived rest)
  obtain s1 now where c: "read_clock s = (s1, now)" by fastforce
  have p1: "P s1" using clock [OF Cons.prems] by (simp add: c)
  obtain s2 got where r: "receive_event (s1\<lparr>a_arrivals := rest\<rparr>) arrived = (s2, got)" by fastforce
  have p2: "P s2" using event [OF p1, of rest arrived] by (simp add: r)
  have p3: "P (other_event b s2 opcode e)" for e
    using p2 clock [OF p2] handle by (cases "read_clock s2") (simp add: other_event_def)
  show ?case
    using p1 p2 p3 Cons.IH
    by (simp add: c r Let_def split: option.split completion.split)
qed simp

end

locale link_invariant = wait_invariant +
  assumes send: "P s \<Longrightarrow> P (fst (send_packet s p))"
    and resets: "P s \<Longrightarrow> P (s\<lparr>a_raw_resets := k\<rparr>)"
begin

lemma hci: "P s \<Longrightarrow> P (fst (hci_command b s opcode params cap))"
proof -
  assume P: "P s"
  let ?s = "if opcode = 0x0c03 then s\<lparr>a_raw_resets := a_raw_resets s + 1\<rparr> else s"
  obtain t sent where t: "send_packet ?s (command_packet opcode params) = (t, sent)" by fastforce
  have "P ?s" using P resets by simp
  then have Pt: "P t" using send [of ?s "command_packet opcode params"] by (simp only: t fst_conv)
  obtain u now where u: "read_clock t = (u, now)" by fastforce
  have Pu: "P u" using clock [OF Pt] by (simp add: u)
  show ?thesis using P Pt wait [OF Pu] by (simp add: hci_command_def Let_def t u)
qed

lemma cmd: "keeps P (CMD b opcode params)"
  using hci [of _ opcode params None] by (simp add: keeps_def CMD_def split_def Let_def)

lemma ask: "(\<And>r s. P s \<Longrightarrow> P (f r s)) \<Longrightarrow> keeps P (ASK b opcode params room test f)"
  using hci [of _ opcode params "Some room"] by (simp add: keeps_def ASK_def split_def Let_def split: option.split)

lemma acl_loop: "P s \<Longrightarrow> P (fst (acl_fragments s body off))"
proof (induction s body off rule: acl_fragments.induct)
  case (1 s body off)
  define n where n: "n = min (length body - off) (a_acl_limit s)"
  obtain t sent where t: "send_packet s (acl_packet (a_handle s) off (block off n body)) = (t, sent)" by fastforce
  have Pt: "P t" using send [OF "1.prems", of "acl_packet (a_handle s) off (block off n body)"] by (simp add: t)
  have "acl_fragments s body off = (if length body \<le> off then (s, True) else if sent then acl_fragments t body (off + n) else (t, False))"
    by (subst acl_fragments.simps) (simp add: Let_def n [symmetric] t)
  then show ?case using "1.prems" Pt "1.IH" [OF _ n t [symmetric]] by simp
qed

lemma acl: "P s \<Longrightarrow> P (fst (send_acl s cid payload))"
  by (simp add: send_acl_def acl_loop)

lemma acl_bytes: "keeps P (send_bytes payload)"
  by (simp add: keeps_def send_bytes_def acl)

lemma cmd_here: "keeps P (CMD_here b opcode params)"
  using cmd by (simp add: keeps_def CMD_here_def)

lemmas command_intros = cmd ask acl_bytes cmd_here

end

section \<open>Nothing is streamed to a peer that was not authenticated\<close>

definition auth_ok :: "auto_link \<Rightarrow> bool" where
  "auth_ok s \<longleftrightarrow> (a_peer_verified s \<longrightarrow> a_encrypted s \<or> a_failed s) \<and> (a_idle_sent s \<longrightarrow> a_peer_verified s) \<and>
     (a_holding s \<longrightarrow> a_idle_sent s) \<and> (0 < a_startup_step s \<longrightarrow> a_holding s) \<and>
     (a_stream_attempted s \<longrightarrow> a_holding s) \<and> (a_started s \<longrightarrow> a_stream_attempted s)"

definition auth_at :: "bool \<Rightarrow> bool \<Rightarrow> auto_link \<Rightarrow> bool" where
  "auth_at h a s \<longleftrightarrow> auth_ok s \<and> (h \<longrightarrow> a_holding s) \<and> (a \<longrightarrow> a_stream_attempted s)"

lemmas auth_defs = auth_at_def auth_ok_def

lemma tries_frame: "\<exists>gs out. fst (send_tries k s p) = s\<lparr>a_gate := gs, a_out := out\<rparr>"
proof (induction k arbitrary: s)
  case 0
  show ?case by (intro exI [of _ "a_gate s"] exI [of _ "a_out s"]) simp
next
  case (Suc k)
  obtain t sent where t: "send_try s p = (t, sent)" by fastforce
  have "\<exists>gs out. t = s\<lparr>a_gate := gs, a_out := out\<rparr>"
  proof (cases "a_gate s")
    case Nil
    then show ?thesis using t by (intro exI [of _ "a_gate s"] exI [of _ "a_out s"]) (simp add: send_try_def)
  next
    case (Cons g gs)
    then show ?thesis using t
      by (intro exI [of _ gs] exI [of _ "if g then a_out s @ [p] else a_out s"]) (auto simp: send_try_def split: if_splits)
  qed
  then obtain gs out where tt: "t = s\<lparr>a_gate := gs, a_out := out\<rparr>" by blast
  obtain gs' out' where IH: "fst (send_tries k t p) = t\<lparr>a_gate := gs', a_out := out'\<rparr>" using Suc by blast
  show ?case
  proof (cases "a_enabled s")
    case False
    then show ?thesis by (intro exI [of _ "a_gate s"] exI [of _ "a_out s"]) simp
  next
    case True
    then show ?thesis
      by (cases sent) (use t tt IH in auto)
  qed
qed

lemma auth_send: "auth_at h a s \<Longrightarrow> auth_at h a (fst (send_packet s p))"
  using tries_frame [of 200 s p] by (auto simp: send_packet_def auth_defs)

lemma auth_fields:
  "auth_at h a s \<Longrightarrow> auth_at h a (s\<lparr>a_failed := True\<rparr>)" "auth_at h a (s\<lparr>a_raw_resets := k\<rparr>) = auth_at h a s"
  "auth_at h a (set_state s st) = auth_at h a s" "auth_at h a (fst (ull_auto_receive s d)) = auth_at h a s"
  "auth_at h a (s\<lparr>a_queue := q\<rparr>) = auth_at h a s" "auth_at h a (s\<lparr>a_arrivals := ar\<rparr>) = auth_at h a s"
  "auth_at h a (s\<lparr>a_logged := l\<rparr>) = auth_at h a s"
  by (auto simp: auth_defs set_state_def ull_auto_receive_def)

lemma auth_clock: "auth_at h a s \<Longrightarrow> auth_at h a (fst (read_clock s))"
  by (simp add: read_clock_def auth_defs split: list.split)

lemma auth_enqueue: "auth_at h a (enqueue_all s ds) = auth_at h a s"
  by (induction ds arbitrary: s) (simp_all add: auth_fields)

lemma auth_event: "auth_at h a s \<Longrightarrow> auth_at h a (fst (receive_event (s\<lparr>a_arrivals := rest\<rparr>) arrived))"
  by (simp add: receive_event_def Let_def auth_enqueue auth_fields split: list.split)

lemma acl_loop_frame: "\<exists>gs out. fst (acl_fragments s body off) = s\<lparr>a_gate := gs, a_out := out\<rparr>"
proof (induction s body off rule: acl_fragments.induct)
  case (1 s body off)
  define n where n: "n = min (length body - off) (a_acl_limit s)"
  obtain t sent where t: "send_packet s (acl_packet (a_handle s) off (block off n body)) = (t, sent)" by fastforce
  have "\<exists>gs out. t = s\<lparr>a_gate := gs, a_out := out\<rparr>"
    using tries_frame [of 200 s "acl_packet (a_handle s) off (block off n body)"] t by (simp add: send_packet_def)
  then obtain gs out where tt: "t = s\<lparr>a_gate := gs, a_out := out\<rparr>" by blast
  have run: "acl_fragments s body off = (if length body \<le> off then (s, True) else if sent then acl_fragments t body (off + n) else (t, False))"
    by (subst acl_fragments.simps) (simp add: Let_def n [symmetric] t)
  have stay: "\<exists>gs out. s = s\<lparr>a_gate := gs, a_out := out\<rparr>"
    by (intro exI [of _ "a_gate s"] exI [of _ "a_out s"]) simp
  show ?case
  proof (cases "\<not> length body \<le> off \<and> sent")
    case True
    have "\<exists>gs out. fst (acl_fragments t body (off + n)) = t\<lparr>a_gate := gs, a_out := out\<rparr>"
      by (rule "1.IH" [OF _ n t [symmetric]]) (use True in simp_all)
    then show ?thesis using True tt by (auto simp: run)
  next
    case False
    then show ?thesis using tt stay by (auto simp: run)
  qed
qed

lemma acl_frame: "\<exists>gs out. fst (send_acl s cid payload) = s\<lparr>a_gate := gs, a_out := out\<rparr>"
proof (cases "a_handle s = 0xffff \<or> length payload > 300 - 4")
  case True
  then show ?thesis by (intro exI [of _ "a_gate s"] exI [of _ "a_out s"]) (auto simp: send_acl_def)
next
  case False
  then show ?thesis using acl_loop_frame [of s "put16 (of_nat (length payload)) @ put16 cid @ payload" 0] by (simp add: send_acl_def)
qed

lemma auth_acl: "auth_at h a s \<Longrightarrow> auth_at h a (fst (send_acl s cid payload))"
  using acl_frame [of s cid payload] by (auto simp: auth_defs)

lemma auth_idle: "auth_at h a s \<Longrightarrow> auth_at h a (send_idle s)"
proof -
  assume A: "auth_at h a s"
  obtain t ok where t: "send_acl s 0x101 IDLE_REPLY = (t, ok)" by fastforce
  have At: "auth_at h a t" using auth_acl [OF A, of "0x101" IDLE_REPLY] by (simp add: t)
  obtain u ok' where u: "send_acl t 0x101 IDLE_RECORD = (u, ok')" by fastforce
  have Au: "auth_at h a u" using auth_acl [OF At, of "0x101" IDLE_RECORD] by (simp add: u)
  show ?thesis using At Au by (simp add: send_idle_def t u auth_fields)
qed

lemma auth_proprietary: "auth_at h a s \<Longrightarrow> auth_at h a (proprietary b s p)"
proof -
  assume A: "auth_at h a s"
  have idle: "a_peer_verified s \<Longrightarrow> auth_at h a (send_idle (s\<lparr>a_idle_sent := True\<rparr>))"
    by (rule auth_idle) (use A in \<open>simp add: auth_defs\<close>)
  have hold: "a_peer_verified s \<Longrightarrow> a_idle_sent s \<Longrightarrow> auth_at h a (s\<lparr>a_holding := True\<rparr>)"
    using A by (simp add: auth_defs)
  have ver: "a_encrypted s \<Longrightarrow> auth_at h a (s\<lparr>a_peer_verified := True\<rparr>)"
    using A by (simp add: auth_defs)
  show ?thesis using A by (simp add: proprietary_def auth_fields idle hold ver)
qed

lemma auth_l2cap: "auth_at h a s \<Longrightarrow> auth_at h a (l2cap b s cid p)"
  by (simp add: l2cap_def Let_def auth_proprietary auth_acl)

lemma auth_vendor: "auth_at h a s \<Longrightarrow> auth_at h a (vendor_record s d)"
  by (simp add: vendor_record_def Let_def) (simp add: auth_defs)

lemma auth_hci: "auth_at h a s \<Longrightarrow> auth_at h a (hci_event b s p now)"
proof -
  assume A: "auth_at h a s"
  have con: "auth_at h a (connected b s d now)" for d
    using A by (simp add: connected_def auth_fields) (simp add: auth_defs)
  have dis: "auth_at h a (disconnected s d)" for d
    using A by (simp add: disconnected_def Let_def) (simp add: auth_defs)
  have enc: "auth_at h a (s\<lparr>a_encrypted := True\<rparr>)" "\<And>c. auth_at h a (s\<lparr>a_encrypted := c, a_failed := True\<rparr>)"
    using A by (simp_all add: auth_defs)
  have mx: "auth_at h a (s\<lparr>a_max_tx_octets := c\<rparr>)" for c using A by (simp add: auth_defs)
  show ?thesis using A con dis enc mx by (simp add: hci_event_def Let_def auth_fields auth_vendor auth_send)
qed

lemma auth_data: "auth_at h a s \<Longrightarrow> auth_at h a (acl_data b s p)"
proof -
  assume A: "auth_at h a s"
  have as: "auth_at h a (t\<lparr>a_assembled := k\<rparr>) = auth_at h a t" for t k by (simp add: auth_defs)
  have fr: "auth_at h a (t\<lparr>a_fragment := k\<rparr>) = auth_at h a t" for t k by (simp add: auth_defs)
  have "auth_at h a (acl_collect b t part)" if "auth_at h a t" for t part
    using that by (simp add: acl_collect_def Let_def auth_fields as fr auth_l2cap)
  then show ?thesis using A by (simp add: acl_data_def Let_def as)
qed

lemma auth_process: "auth_at h a s \<Longrightarrow> auth_at h a (process_packet b s p now)"
  by (simp add: process_packet_def auth_hci auth_data)

interpretation auth: link_invariant "auth_at h a" b for h a b
  by unfold_locales (simp_all add: auth_clock auth_event auth_process auth_send auth_fields)

section \<open>The keeper\<close>

lemma auth_start: "auth_at False False (fst (start_connection b s))"
proof -
  have "auth_at h a (s\<lparr>a_acl_limit := k\<rparr>) = auth_at h a s" "auth_at h a (s\<lparr>a_features := c\<rparr>) = auth_at h a s" for h a s k c
    by (simp_all add: auth_defs)
  then have "keeps (auth_at False False) (setup_commands b)"
    unfolding setup_commands_def by (intro keeps_intros auth.command_intros) (simp_all add: auth_fields)
  moreover have "auth_at False False (session_start s)" by (simp add: auth_defs session_start_def peer_reset_def)
  ultimately show ?thesis unfolding start_connection_def by (rule keepsD)
qed

lemma auth_audio_live: "auth_at h a s \<Longrightarrow> auth_at h a (fst (audio_live v now s))"
  by (simp add: audio_live_def Let_def) (simp add: auth_defs)

lemma auth_valid: "auth_at h a s \<Longrightarrow> auth_at h a (s\<lparr>a_activity_valid := c\<rparr>)"
  by (simp add: auth_defs)

lemma auth_snapshot: "keeps (auth_at h a) (snapshot_activity b)"
  unfolding snapshot_activity_def by (intro keeps_intros auth.command_intros)

lemma auth_reserve_slot: "keeps (auth_at h a) (reserve_slot b k e)"
  unfolding reserve_slot_def by (intro keeps_intros auth.command_intros auth_snapshot) (simp add: auth_valid)

lemma auth_reserve: "keeps (auth_at h a) (reserve_audio b)"
proof -
  have "keeps (auth_at h a) (all_of [reserve_slot b 1 e1, reserve_slot b 2 e2, reserve_slot b 3 e3])" for e1 e2 e3
    by (intro keeps_intros auth_reserve_slot)
  then have "keeps (auth_at h a) (reserve_slots b)"
    by (simp add: keeps_def reserve_slots_def Let_def del: all_of.simps)
  then show ?thesis unfolding reserve_audio_def by (intro keeps_intros auth_snapshot) (simp_all add: auth_valid)
qed

lemma auth_map: "keeps (auth_at h a) (verify_map b)"
proof (rule keepsI)
  fix s assume "auth_at h a s"
  then show "auth_at h a (fst (verify_map b s))"
    unfolding verify_map_def by (intro keepsD [OF auth.ask]) simp_all
qed

lemma auth_step: "auth_at True a s \<Longrightarrow> auth_at True a (s\<lparr>a_startup_step := k\<rparr>)"
  by (simp add: auth_defs)

lemma auth_open: "keeps (auth_at True a) (startup_open b)"
  unfolding startup_open_def
  by (intro keeps_intros auth.command_intros auth_map auth_reserve) (simp add: auth_fields auth_step)

lemma auth_raw: "auth_at True a s \<Longrightarrow> auth_at True a (fst (startup_raw b opcode k due s))"
proof -
  assume A: "auth_at True a s"
  obtain t ok where t: "CMD b opcode [] (s\<lparr>a_raw_guard := 255, a_raw_status := 255\<rparr>) = (t, ok)" by fastforce
  have "auth_at True a (s\<lparr>a_raw_guard := 255, a_raw_status := 255\<rparr>)" using A by (simp add: auth_defs)
  from keepsD [OF auth.cmd this, of b opcode "[]"] have "auth_at True a t" by (simp add: t)
  then show ?thesis by (simp add: startup_raw_def t Let_def) (simp add: auth_defs)
qed

lemma auth_stream_on: "keeps (auth_at True True) stream_on"
proof -
  have "auth_at True True (let (s, now) = read_clock s in set_state (s\<lparr>a_last_feedback := now\<rparr>) ''streaming_usb_audio'')"
    if A: "auth_at True True s" for s
  proof -
    obtain t now where t: "read_clock s = (t, now)" by fastforce
    have "auth_at True True t" using auth_clock [OF A] by (simp add: t)
    then have "auth_at True True (t\<lparr>a_last_feedback := now\<rparr>)" by (simp add: auth_defs)
    then show ?thesis by (simp add: t auth_fields)
  qed
  moreover have "auth_at True True (s\<lparr>a_started := True\<rparr>)" if "auth_at True True s" for s
    using that by (simp add: auth_defs)
  ultimately show ?thesis unfolding stream_on_def by (intro keeps_intros auth.command_intros)
qed

lemma auth_stream_try: "keeps (auth_at True False) (stream_try b now)"
proof (rule keepsI)
  fix t assume A: "auth_at True False t"
  obtain u ok where u: "CMD b 0xfcfb [] (t\<lparr>a_stream_attempted := True\<rparr>) = (u, ok)" by fastforce
  have "auth_at True True (t\<lparr>a_stream_attempted := True\<rparr>)" using A by (simp add: auth_defs)
  from keepsD [OF auth.cmd this, of b "0xfcfb" "[]"] have U: "auth_at True True u" by (simp add: u)
  have "auth_at True True (u\<lparr>a_raw_tries := k\<rparr>)" "auth_at True True (u\<lparr>a_raw_tries := k, a_next_action := m\<rparr>)" for k m
    using U by (simp_all add: auth_defs)
  then have "auth_at True True (fst (stream_try b now t))"
    using keepsD [OF auth_stream_on U] by (simp add: stream_try_def u Let_def)
  then show "auth_at True False (fst (stream_try b now t))" by (simp add: auth_at_def)
qed

lemma auth_startup: "auth_at True False s \<Longrightarrow> auth_at True False (fst (audio_startup b v now s))"
proof -
  assume A: "auth_at True False s"
  have "keeps (auth_at True False) (startup_stream b v now)"
    unfolding startup_stream_def by (intro keeps_intros auth_map auth_stream_try)
  then show ?thesis using A by (simp add: audio_startup_def keepsD [OF auth_open] auth_raw keepsD)
qed

lemma auth_unless: "auth_at h a (fst r) \<Longrightarrow> auth_at h a (fail_unless r)"
  by (simp add: fail_unless_def auth_fields)

lemma auth_connection: "auth_at False False s \<Longrightarrow> auth_at False False (connection_turn b v now s)"
proof -
  assume A: "auth_at False False s"
  have enc: "auth_at False False (request_encryption b t)" if "auth_at False False t" for t
    unfolding request_encryption_def by (intro auth_unless keepsD [OF auth.cmd]) (use that in \<open>simp add: auth_defs\<close>)
  have set: "auth_at False False (send_setup t)" if "auth_at False False t" for t
    unfolding send_setup_def by (intro auth_unless auth_acl) (use that in \<open>simp add: auth_defs\<close>)
  have aud: "auth_at False False (fail_unless (audio_startup b v now t))" if "auth_at False False t" "a_holding t" for t
  proof -
    have "auth_at True False t" using that by (simp add: auth_defs)
    from auth_unless [OF auth_startup [OF this]] show ?thesis by (simp add: auth_at_def)
  qed
  show ?thesis using A by (simp add: connection_turn_def Let_def auth_fields enc set aud)
qed

lemma auth_turn: "auth_at False False s \<Longrightarrow> auth_at False False (fst (link_turn b v began arrived s))"
proof -
  assume A: "auth_at False False s"
  obtain t got where t: "receive_event s arrived = (t, got)" by fastforce
  have T: "auth_at False False t" using auth_event [of False False s "a_arrivals s" arrived] A by (simp add: t)
  let ?u = "case got of None \<Rightarrow> t | Some e \<Rightarrow> (let (s, now) = read_clock t in process_packet b s e now)"
  have U: "auth_at False False ?u"
    using T auth_clock [OF T] by (cases "read_clock t") (simp add: auth_process split: option.split)
  obtain w now where w: "read_clock ?u = (w, now)" by fastforce
  have "auth_at False False w" using auth_clock [OF U] by (simp add: w)
  then show ?thesis
    by (simp add: link_turn_def t w Let_def auth_unless auth_audio_live auth_connection)
qed

text \<open>The keeper in any environment: sessions, turns while the link is usable, and new gate answers, arrivals
  and clock readings at any point.\<close>

inductive keeper_step :: "bond \<Rightarrow> auto_link \<Rightarrow> auto_link \<Rightarrow> bool" for b where
  session: "keeper_step b s (fst (start_connection b s))"
| turn: "link_usable s \<Longrightarrow> keeper_step b s (fst (link_turn b v began arrived s))"
| world: "keeper_step b s (s\<lparr>a_gate := gates, a_arrivals := arrivals, a_clock := clock\<rparr>)"

lemma auth_keeper_step: "keeper_step b s t \<Longrightarrow> auth_at False False s \<Longrightarrow> auth_at False False t"
proof (induction rule: keeper_step.induct)
  case (world s gates arrivals clock)
  then show ?case by (simp add: auth_defs)
qed (simp_all add: auth_start auth_turn)

lemma auth_reachable: "(keeper_step b)\<^sup>*\<^sup>* auto_zero s \<Longrightarrow> auth_at False False s"
proof (induction rule: rtranclp_induct)
  case base
  show ?case by (simp add: auth_defs auto_zero_def peer_reset_def)
next
  case (step t u)
  then show ?case using auth_keeper_step by blast
qed

lemma idle_verified: "a_peer_verified (send_idle s) = a_peer_verified s"
proof -
  obtain t ok where t: "send_acl s 0x101 IDLE_REPLY = (t, ok)" by fastforce
  obtain u ok' where u: "send_acl t 0x101 IDLE_RECORD = (u, ok')" by fastforce
  have "a_peer_verified t = a_peer_verified s" "a_peer_verified u = a_peer_verified t"
    using acl_frame [of s "0x101" IDLE_REPLY] acl_frame [of t "0x101" IDLE_RECORD] t u by auto
  then show ?thesis by (simp add: send_idle_def t u)
qed

lemma acl_verified: "a_peer_verified (fst (send_acl s cid p)) = a_peer_verified s"
  using acl_frame [of s cid p] by auto

lemma verified_by_sirk:
  "a_peer_verified (l2cap b s cid p) \<Longrightarrow> \<not> a_peer_verified s \<Longrightarrow>
   a_encrypted s \<and> cid = 0x101 \<and> length p = 45 \<and> block 4 16 p = b_sirk b"
  by (auto simp: l2cap_def Let_def proprietary_def acl_verified idle_verified set_state_def split: if_splits)



section \<open>The commands of the connection setup\<close>

text \<open>The HCI commands on the link, other than the refusal of a parameter change.\<close>

definition host_commands :: "bytes list \<Rightarrow> bytes list" where
  "host_commands out = filter (\<lambda>p. p ! 0 = 1 \<and> get16 p 1 \<noteq> 0x201b) out"

definition sent_so_far :: "bytes list \<Rightarrow> nat \<Rightarrow> auto_link \<Rightarrow> bool" where
  "sent_so_far H L s \<longleftrightarrow> host_commands (a_out s) = H \<and> a_acl_limit s = L"

lemma host_append: "host_commands (xs @ ys) = host_commands xs @ host_commands ys"
  by (simp add: host_commands_def)

lemma tries_out: "a_out (fst (send_tries k s p)) = (if snd (send_tries k s p) then a_out s @ [p] else a_out s) \<and>
    a_acl_limit (fst (send_tries k s p)) = a_acl_limit s"
proof (induction k arbitrary: s)
  case (Suc k)
  show ?case using Suc by (cases "a_gate s") (auto simp: send_try_def split_def Let_def)
qed simp

lemma packet_out: "a_out (fst (send_packet s p)) = (if snd (send_packet s p) then a_out s @ [p] else a_out s)"
    "a_acl_limit (fst (send_packet s p)) = a_acl_limit s"
  using tries_out [of 200 s p] by (simp_all add: send_packet_def)

lemma sent_packet: "host_commands [p] = [] \<Longrightarrow> sent_so_far H L s \<Longrightarrow> sent_so_far H L (fst (send_packet s p))"
  by (simp add: sent_so_far_def packet_out host_append)

lemma acl_not_host: "host_commands [acl_packet h off part] = []"
  by (simp add: host_commands_def acl_packet_def)

lemma sent_loop: "sent_so_far H L s \<Longrightarrow> sent_so_far H L (fst (acl_fragments s body off))"
proof (induction s body off rule: acl_fragments.induct)
  case (1 s body off)
  define n where n: "n = min (length body - off) (a_acl_limit s)"
  obtain t sent where t: "send_packet s (acl_packet (a_handle s) off (block off n body)) = (t, sent)" by fastforce
  have T: "sent_so_far H L t" using sent_packet [OF acl_not_host "1.prems", of "a_handle s" off "block off n body"] by (simp add: t)
  have "acl_fragments s body off = (if length body \<le> off then (s, True) else if sent then acl_fragments t body (off + n) else (t, False))"
    by (subst acl_fragments.simps) (simp add: Let_def n [symmetric] t)
  then show ?case using "1.prems" T "1.IH" [OF _ n t [symmetric]] by simp
qed

lemma sent_acl: "sent_so_far H L s \<Longrightarrow> sent_so_far H L (fst (send_acl s cid payload))"
  by (simp add: send_acl_def sent_loop)

lemma sent_same: "a_out s' = a_out s \<Longrightarrow> a_acl_limit s' = a_acl_limit s \<Longrightarrow> sent_so_far H L s' = sent_so_far H L s"
  by (simp add: sent_so_far_def)

lemma sent_idle: "sent_so_far H L s \<Longrightarrow> sent_so_far H L (send_idle s)"
proof -
  assume A: "sent_so_far H L s"
  obtain t ok where t: "send_acl s 0x101 IDLE_REPLY = (t, ok)" by fastforce
  obtain u ok' where u: "send_acl t 0x101 IDLE_RECORD = (u, ok')" by fastforce
  have T: "sent_so_far H L t" using sent_acl [OF A, of "0x101" IDLE_REPLY] by (simp add: t)
  then have U: "sent_so_far H L u" using sent_acl [OF T, of "0x101" IDLE_RECORD] by (simp add: u)
  show ?thesis using T U by (simp add: send_idle_def t u sent_so_far_def)
qed

lemma sent_proprietary: "sent_so_far H L s \<Longrightarrow> sent_so_far H L (proprietary b s p)"
proof -
  assume A: "sent_so_far H L s"
  then have "sent_so_far H L (send_idle (s\<lparr>a_idle_sent := True\<rparr>))" by (intro sent_idle) (simp add: sent_so_far_def)
  then show ?thesis using A by (simp add: proprietary_def set_state_def) (simp add: sent_so_far_def)
qed

lemma sent_l2cap: "sent_so_far H L s \<Longrightarrow> sent_so_far H L (l2cap b s cid p)"
  by (simp add: l2cap_def Let_def sent_proprietary sent_acl)

lemma sent_hci: "sent_so_far H L s \<Longrightarrow> sent_so_far H L (hci_event b s p now)"
proof -
  assume A: "sent_so_far H L s"
  have "sent_so_far H L (connected b s d now)" "sent_so_far H L (disconnected s d)" "sent_so_far H L (vendor_record s d)" for d
    using A by (simp_all add: sent_so_far_def connected_def disconnected_def vendor_record_def set_state_def Let_def)
  moreover have "sent_so_far H L (fst (send_packet s [1, 0x1b, 0x20, 2, x, y]))" for x y
    using A by (intro sent_packet) (simp_all add: host_commands_def get16_def push_bit_eq_mult)
  ultimately show ?thesis using A by (simp add: hci_event_def Let_def) (simp add: sent_so_far_def)
qed

lemma sent_collect: "sent_so_far H L s \<Longrightarrow> sent_so_far H L (acl_collect b s part)"
proof -
  assume A: "sent_so_far H L s"
  have "sent_so_far H L (l2cap b (s\<lparr>a_fragment := fr, a_assembled := k\<rparr>) cid q)" for fr k cid q
    by (rule sent_l2cap) (use A in \<open>simp add: sent_so_far_def\<close>)
  then show ?thesis using A by (simp add: acl_collect_def Let_def) (simp add: sent_so_far_def)
qed

lemma sent_process: "sent_so_far H L s \<Longrightarrow> sent_so_far H L (process_packet b s p now)"
proof -
  assume A: "sent_so_far H L s"
  have "sent_so_far H L (acl_collect b (s\<lparr>a_assembled := 0\<rparr>) q)" for q
    by (rule sent_collect) (use A in \<open>simp add: sent_so_far_def\<close>)
  then show ?thesis using A by (simp add: process_packet_def acl_data_def Let_def sent_hci sent_collect)
qed

lemma sent_enqueue: "sent_so_far H L (enqueue_all s ds) = sent_so_far H L s"
proof (induction ds arbitrary: s)
  case (Cons d ds)
  have "sent_so_far H L (fst (ull_auto_receive s d)) = sent_so_far H L s" by (rule sent_same) (simp_all add: ull_auto_receive_def)
  then show ?case using Cons by simp
qed simp

interpretation commands: wait_invariant "sent_so_far H L" b for H L b
proof unfold_locales
  show "sent_so_far H L s \<Longrightarrow> sent_so_far H L (fst (read_clock s))" for s
    by (simp add: read_clock_def sent_so_far_def split: list.split)
  show "sent_so_far H L s \<Longrightarrow> sent_so_far H L (fst (receive_event (s\<lparr>a_arrivals := rest\<rparr>) arrived))" for s rest arrived
  proof -
    assume "sent_so_far H L s"
    then have "sent_so_far H L (enqueue_all (s\<lparr>a_arrivals := rest\<rparr>) arrived)" by (simp add: sent_enqueue) (simp add: sent_so_far_def)
    then show ?thesis by (simp add: receive_event_def Let_def sent_so_far_def split: list.split)
  qed
qed (rule sent_process)

definition emits :: "(auto_link \<Rightarrow> auto_link \<times> bool) \<Rightarrow> bytes list \<Rightarrow> bool" where
  "emits f xs \<longleftrightarrow> (\<forall>s s'. f s = (s', True) \<longrightarrow> host_commands (a_out s') = host_commands (a_out s) @ xs)"

lemma emits_both: "emits f xs \<Longrightarrow> emits g ys \<Longrightarrow> emits (both f g) (xs @ ys)"
  unfolding emits_def both_def by (auto simp: Let_def split: prod.splits if_splits)

lemma emits_Nil: "emits (all_of []) []"
  by (simp add: emits_def)

lemma emits_Cons: "emits f xs \<Longrightarrow> emits (all_of fs) ys \<Longrightarrow> emits (all_of (f # fs)) (xs @ ys)"
  using emits_both [of f xs "all_of fs" ys] by (simp add: emits_def)

lemma emits_assign: "(\<And>s. a_out (f s) = a_out s) \<Longrightarrow> emits (assign f) []"
  by (simp add: emits_def assign_def)

lemma hci_sent:
  assumes "hci_command b s opcode params cap = (s', True, r)" and "opcode \<noteq> 0x201b"
  shows "sent_so_far (host_commands (a_out s) @ [command_packet opcode params]) (a_acl_limit s) s'"
proof -
  let ?s = "if opcode = 0x0c03 then s\<lparr>a_raw_resets := a_raw_resets s + 1\<rparr> else s"
  let ?p = "command_packet opcode params"
  obtain t sent where t: "send_packet ?s ?p = (t, sent)" by fastforce
  obtain u now where u: "read_clock t = (u, now)" by fastforce
  have ok: sent and run: "command_wait (a_arrivals u) b u opcode cap (now + 5000000) = (s', True, r)"
    using assms(1) by (simp_all add: hci_command_def t u Let_def split: if_splits)
  have "get16 ?p 1 = opcode" by (rule get16_read) (simp_all add: command_packet_def put16_def)
  then have "host_commands [?p] = [?p]" using assms(2) by (simp add: host_commands_def command_packet_def)
  then have "sent_so_far (host_commands (a_out s) @ [?p]) (a_acl_limit s) t"
    using packet_out [of ?s ?p] t ok by (simp add: sent_so_far_def host_append)
  then have "sent_so_far (host_commands (a_out s) @ [?p]) (a_acl_limit s) u"
    using commands.clock [of _ _ t] by (simp add: u)
  from commands.wait [OF this, of "a_arrivals u" b opcode cap "now + 5000000"] show ?thesis by (simp add: run)
qed

lemma emits_CMD: "opcode \<noteq> 0x201b \<Longrightarrow> emits (CMD b opcode params) [command_packet opcode params]"
  unfolding emits_def CMD_def using hci_sent
  by (fastforce simp: Let_def sent_so_far_def split: prod.splits)

lemma emits_ASK: "opcode \<noteq> 0x201b \<Longrightarrow> (\<And>r s. a_out (f r s) = a_out s) \<Longrightarrow>
    emits (ASK b opcode params room test f) [command_packet opcode params]"
  unfolding emits_def ASK_def using hci_sent
  by (fastforce simp: Let_def sent_so_far_def split: prod.splits option.splits if_splits)

definition STARTUP_COMMANDS :: "bond \<Rightarrow> bytes list" where
  "STARTUP_COMMANDS b = [command_packet 0x0c03 [], command_packet 0x2002 [], command_packet 0x2003 [],
     command_packet 0x0c01 EVENT_MASK, command_packet 0x2001 LE_EVENT_MASK, command_packet 0x2005 (b_identity b),
     command_packet 0x2014 clean_map, command_packet 0x2043 (connection_parameters b)]"

text \<open>The fragment limit: fixed by the reply to the second command, kept by all that follows.\<close>

definition limit_ok :: "auto_link \<Rightarrow> bool" where
  "limit_ok s \<longleftrightarrow> 27 \<le> a_acl_limit s \<and> a_acl_limit s \<le> 251"

lemma limit_hci: "a_acl_limit (fst (hci_command b s opcode params cap)) = a_acl_limit s"
proof -
  let ?s = "if opcode = 0x0c03 then s\<lparr>a_raw_resets := a_raw_resets s + 1\<rparr> else s"
  obtain t sent where t: "send_packet ?s (command_packet opcode params) = (t, sent)" by fastforce
  obtain u now where u: "read_clock t = (u, now)" by fastforce
  have T: "a_acl_limit t = a_acl_limit s" using packet_out(2) [of ?s "command_packet opcode params"] t by auto
  have "sent_so_far (host_commands (a_out u)) (a_acl_limit t) u"
    using u by (auto simp: sent_so_far_def read_clock_def split: list.splits)
  from commands.wait [OF this, of "a_arrivals u" b opcode cap "now + 5000000"]
  show ?thesis using T by (simp add: hci_command_def t u Let_def sent_so_far_def)
qed

lemma limit_cmd: "keeps limit_ok (CMD b opcode params)"
  using limit_hci [of b _ opcode params None] by (simp add: keeps_def CMD_def split_def Let_def limit_ok_def)

lemma limit_ask: "(\<And>r s. test r \<Longrightarrow> limit_ok s \<Longrightarrow> limit_ok (f r s)) \<Longrightarrow> keeps limit_ok (ASK b opcode params room test f)"
  using limit_hci [of b _ opcode params "Some room"]
  by (simp add: keeps_def ASK_def split_def Let_def limit_ok_def split: option.split)

lemma limit_start: "limit_ok (fst (start_connection b s))"
proof -
  have "keeps limit_ok (setup_commands b)"
    unfolding setup_commands_def
    by (intro keeps_intros limit_cmd limit_ask) (auto simp: limit_ok_def set_state_def)
  moreover have "limit_ok (session_start s)" by (simp add: limit_ok_def session_start_def peer_reset_def)
  ultimately show ?thesis unfolding start_connection_def by (rule keepsD)
qed

lemma emits_setup: "emits (setup_commands b) (STARTUP_COMMANDS b)"
proof -
  have "emits (setup_commands b) ([command_packet 0x0c03 []] @ [command_packet 0x2002 []] @ [] @ [command_packet 0x2003 []] @
      [command_packet 0x0c01 EVENT_MASK] @ [command_packet 0x2001 LE_EVENT_MASK] @ [command_packet 0x2005 (b_identity b)] @
      [command_packet 0x2014 clean_map] @ [command_packet 0x2043 (connection_parameters b)] @ [] @ [])"
    unfolding setup_commands_def
    by (intro emits_Cons emits_Nil emits_CMD emits_ASK emits_assign) (simp_all add: set_state_def)
  then show ?thesis by (simp add: STARTUP_COMMANDS_def)
qed

text \<open>When the connection setup reports success, exactly these eight commands went to the controller, in this
  order: reset, buffer size, features, the two event masks, the stored identity address, the channel map and
  the connection to the stored address; whatever arrived meanwhile added none. And however the setup ends the
  fragment limit lies between 27 and 251, which is what sending relies on.
\<close>

theorem startup_commands_exact:
  assumes "start_connection b s = (s', ok)"
  shows "27 \<le> a_acl_limit s' \<and> a_acl_limit s' \<le> 251 \<and>
    (ok \<longrightarrow> host_commands (a_out s') = host_commands (a_out s) @ STARTUP_COMMANDS b)"
proof -
  have "a_out (session_start s) = a_out s" by (simp add: session_start_def peer_reset_def)
  then have "ok \<Longrightarrow> host_commands (a_out s') = host_commands (a_out s) @ STARTUP_COMMANDS b"
    using emits_setup [of b] assms by (simp add: emits_def start_connection_def)
  then show ?thesis using limit_start [of b s] assms by (simp add: limit_ok_def)
qed

text \<open>A command whose completion is the next arrival.\<close>

definition completed_event :: "u16 \<Rightarrow> bytes \<Rightarrow> bytes" where
  "completed_event opcode params = [4, 14, of_nat (3 + length params), 1] @ put16 opcode @ params"

lemma command_completed:
  "params \<noteq> [] \<Longrightarrow> length params \<le> 250 \<Longrightarrow> command_event opcode (completed_event opcode params) = Completed (hd params) params"
proof -
  assume p: "params \<noteq> []" "length params \<le> 250"
  let ?e = "completed_event opcode params"
  have "get16 ?e 4 = opcode" by (rule get16_read) (simp_all add: completed_event_def put16_def)
  moreover have "unat (of_nat (3 + length params) :: u8) = 3 + length params" using p by (intro unat_of_nat_u8) simp
  then have "length ?e = 3 + unat (?e ! 2)" by (simp add: completed_event_def del: of_nat_add)
  moreover have "7 \<le> length ?e" using p by (cases params) (simp_all add: completed_event_def)
  moreover have "?e ! 0 = 4" "?e ! 1 = 14" "?e ! 6 = hd params" "drop 6 ?e = params"
    using p by (simp_all add: completed_event_def put16_def hd_conv_nth)
  ultimately show ?thesis unfolding command_event_def by simp
qed

lemma hci_done:
  assumes "a_enabled s" "a_gate s = True # gs" "a_arrivals s = [completed_event opcode reply] # rest" "a_queue s = []" "a_clock s = []"
    and "length params \<le> 60" "reply \<noteq> []" "hd reply = 0" "length reply \<le> 250"
  shows "hci_command b s opcode params cap =
     ((if opcode = 0x0c03 then s\<lparr>a_raw_resets := a_raw_resets s + 1\<rparr> else s)
        \<lparr>a_gate := gs, a_out := a_out s @ [command_packet opcode params], a_arrivals := rest\<rparr>,
      case cap of None \<Rightarrow> (True, None) | Some room \<Rightarrow> if length reply > room then (False, None) else (True, Some reply))"
proof -
  let ?s = "if opcode = 0x0c03 then s\<lparr>a_raw_resets := a_raw_resets s + 1\<rparr> else s"
  let ?t = "?s\<lparr>a_gate := gs, a_out := a_out s @ [command_packet opcode params]\<rparr>"
  have sent: "send_packet ?s (command_packet opcode params) = (?t, True)"
    using send_packet_now [of ?s gs "command_packet opcode params"] assms(1,2) by simp
  have c: "read_clock ?t = (?t, a_now s)" using assms(5) by (simp add: read_clock_def)
  have ev: "command_event opcode (completed_event opcode reply) = Completed 0 reply" using assms by (simp add: command_completed)
  have short: "length (completed_event opcode reply) \<le> 512" using assms(9) by (simp add: completed_event_def)
  have r: "receive_event (?t\<lparr>a_arrivals := rest\<rparr>) [completed_event opcode reply] = (?t\<lparr>a_arrivals := rest\<rparr>, Some (completed_event opcode reply))"
    using assms(1,4) short by (simp add: receive_event_def ull_auto_receive_def QUEUE_DEPTH_def)
  have ar: "a_arrivals ?t = [completed_event opcode reply] # rest" "a_enabled ?t" using assms(1,3) by simp_all
  show ?thesis unfolding hci_command_def Let_def sent prod.case c ar(1)
    using assms(6) ar(2) by (simp add: c r ev Let_def split: option.split)
qed

definition ex_keeper :: auto_link where
  "ex_keeper = auto_zero\<lparr>a_gate := [True, True, True, True, True, True, True, True], a_arrivals :=
     [[completed_event 0x0c03 [0]], [completed_event 0x2002 [0, 251, 0, 8]], [completed_event 0x2003 FEATURES],
      [completed_event 0x0c01 [0]], [completed_event 0x2001 [0]], [completed_event 0x2005 [0]],
      [completed_event 0x2014 [0]], [completed_event 0x2043 [0]]]\<rparr>"

lemma startup_commands_exact_witness:
  "\<exists>s'. start_connection ex_bond ex_keeper = (s', True) \<and> host_commands (a_out s') = STARTUP_COMMANDS ex_bond \<and>
     a_acl_limit s' = 251"
proof -
  have z: "a_enabled auto_zero" "a_queue auto_zero = []" "a_clock auto_zero = []" "a_out auto_zero = []"
    by (simp_all add: auto_zero_def peer_reset_def)
  have s: "session_start ex_keeper = ex_keeper\<lparr>a_mic_sessions := 1\<rparr>"
    by (simp add: session_start_def ex_keeper_def auto_zero_def peer_reset_def)
  have run: "snd (start_connection ex_bond ex_keeper)" "a_acl_limit (fst (start_connection ex_bond ex_keeper)) = 251"
    unfolding start_connection_def s
    by (simp_all add: setup_commands_def both_def CMD_def ASK_def assign_def ex_keeper_def z hci_done
        FEATURES_def EVENT_MASK_def LE_EVENT_MASK_def clean_map_def connection_parameters_def ex_bond_def
        get16_def set_state_def)
  obtain s' where s': "start_connection ex_bond ex_keeper = (s', True)"
    using run(1) by (cases "start_connection ex_bond ex_keeper") simp
  show ?thesis using startup_commands_exact [OF s'] s' run(2) by (simp add: ex_keeper_def z host_commands_def)
qed

end
