(* ===== verification/RawLlcp.thy ===== *)
theory RawLlcp
  imports AirSession ParentAck LlcpPool AirFeedback AirEvent RadioProgram
begin

text \<open>
  Model of \<^verbatim>\<open>firmware/radio/src/raw_llcp.c\<close>, first half: the proprietary link-layer
  transactions E4, E0/E1 and E2 on the parent connection, with the session they negotiate. What the
  code reads of the controller while it holds the lock is the record \<open>controller\<close>: the two
  connection pointers (0 is NULL), the bytes behind them, the words of exchange memory by pointer and
  index, the event counter and the clocks. What the ROM answers during a transmission is the record
  \<open>send_answers\<close>. Every call the code makes to something outside the file is an element of the list
  of effects it returns, in the order of the calls; the diagnostic records are the effects \<open>DIAG\<close>.
\<close>

section \<open>State\<close>

record ull_parent_pdu =
  pp_header :: u8
  pp_length :: u8
  pp_payload :: bytes

definition parent_pdu_zero :: ull_parent_pdu where
  "parent_pdu_zero = \<lparr>pp_header = 0, pp_length = 0, pp_payload = replicate 68 0\<rparr>"

record air_parent =
  ap_active :: bool
  ap_pending :: bool
  ap_tx_sn :: u8
  ap_rx_nesn :: u8
  ap_hardware_sequence :: u16
  ap_llc :: u32
  ap_lld :: u32
  ap_accepted_e1 :: bytes
  ap_message :: ull_parent_pdu

definition air_parent_zero :: air_parent where
  "air_parent_zero = \<lparr>ap_active = False, ap_pending = False, ap_tx_sn = 0, ap_rx_nesn = 0,
     ap_hardware_sequence = 0, ap_llc = 0, ap_lld = 0, ap_accepted_e1 = replicate 9 0, ap_message = parent_pdu_zero\<rparr>"

definition anchor_zero :: ull_air_anchor where
  "anchor_zero = \<lparr>an_hs = 0, an_interval_hs = 0, an_hus = 0, an_event_counter = 0\<rparr>"

definition plan_zero :: ull_air_session_plan where
  "plan_zero = \<lparr>pl_start_hs = 0, pl_start_hus = 0, pl_acl_instant = 0, pl_event_counter = 0,
     pl_access_address = 0, pl_offset_us = 0, pl_e2 = replicate ULL_AIR_E2_BYTES 0\<rparr>"

record raw_llcp =
  rl_held :: pool_reservation
  rl_handed_off :: bool
  rl_released_slots :: u8
  rl_tail_ok :: u8
  rl_e4_confirmed :: bool
  rl_e4_confirmed_us :: int
  rl_e1_expected :: bool
  rl_e0_counter :: u16
  rl_e0_sent_us :: int
  rl_sent_e0 :: bytes
  rl_received_e1 :: bytes
  rl_origin_anchor :: ull_air_anchor
  rl_prepared_plan :: ull_air_session_plan
  rl_session_llc :: u32
  rl_session_lld :: u32
  rl_e1_received :: bool
  rl_session_prepared :: bool
  rl_e2_confirmed :: bool
  rl_committed_first :: ull_air_session_plan
  rl_committed_llc :: u32
  rl_committed_lld :: u32
  rl_second_available :: bool
  rl_first_commit_us :: int
  rl_air_parent :: air_parent
  rl_parent_retired :: bool
  rl_detached_stereo :: bool
  rl_detached :: ull_parent_ack
  rl_detached_status :: "u32 list"
  rl_detached_eligibility :: u32
  rl_control_probe_frames :: u32
  rl_control_auto_poll :: bool

definition raw_zero :: raw_llcp where
  "raw_zero = \<lparr>rl_held = reservation_zero, rl_handed_off = False, rl_released_slots = 0, rl_tail_ok = 0,
     rl_e4_confirmed = False, rl_e4_confirmed_us = 0, rl_e1_expected = False, rl_e0_counter = 0,
     rl_e0_sent_us = 0, rl_sent_e0 = replicate 39 0, rl_received_e1 = replicate 9 0,
     rl_origin_anchor = anchor_zero, rl_prepared_plan = plan_zero, rl_session_llc = 0, rl_session_lld = 0,
     rl_e1_received = False, rl_session_prepared = False, rl_e2_confirmed = False,
     rl_committed_first = plan_zero, rl_committed_llc = 0, rl_committed_lld = 0,
     rl_second_available = False, rl_first_commit_us = 0, rl_air_parent = air_parent_zero,
     rl_parent_retired = False, rl_detached_stereo = False, rl_detached = ull_parent_ack_reset,
     rl_detached_status = replicate 8 0, rl_detached_eligibility = 0, rl_control_probe_frames = 0,
     rl_control_auto_poll = True\<rparr>"

datatype raw_effect =
    DIAG bytes
  | SLOT_FREE u16
  | SLOT_FILL nat bytes
  | DESCRIPTOR_LENGTH nat u8
  | WRITE16 u32 u16
  | QUEUE_PUSH u32 bytes
  | QUEUE_POP u32
  | TRANSMIT u8 nat
  | NODE_FREE
  | RX_FREE u16 u32
  | COEX_SCHEDULE
  | EVENT_RESET
  | PROGRAM_RESET
  | LOG_AIR u8 bytes nat
  | CONSUMER_KEY u16
  | HEADSET_MIC_MUTE bool

section \<open>The view of the controller\<close>

datatype rom_symbol = SYM_TX_FREE_WRAP | SYM_LLCP_TX | SYM_RX_FREE | SYM_OTHER

record controller =
  ct_llc :: u32
  ct_lld :: u32
  ct_mem :: "u32 \<Rightarrow> u8"
  ct_emi :: "u16 \<Rightarrow> nat \<Rightarrow> u16"
  ct_event_counter :: u16
  ct_us :: int
  ct_time :: radio_time
  ct_register :: "u32 \<Rightarrow> u32"
  ct_ip :: "(nat \<Rightarrow> rom_symbol) option"
  ct_plf_60 :: bool

definition rd16 :: "controller \<Rightarrow> u32 \<Rightarrow> u16" where
  "rd16 c a = get16 [ct_mem c a, ct_mem c (a + 1)] 0"

definition rd32 :: "controller \<Rightarrow> u32 \<Rightarrow> u32" where
  "rd32 c a = get32 [ct_mem c a, ct_mem c (a + 1), ct_mem c (a + 2), ct_mem c (a + 3)] 0"

text \<open>Both directions encrypted, no disconnection pending; word \<open>k\<close> of the connection's control structure.\<close>

definition link_encrypted :: "controller \<Rightarrow> u32 \<Rightarrow> u32 \<Rightarrow> bool" where
  "link_encrypted c llc lld \<longleftrightarrow> rd16 c (lld + 132) AND 0x60 = 0x60 \<and> rd16 c (llc + 66) AND 0x40 = 0"

definition cs_word :: "controller \<Rightarrow> u32 \<Rightarrow> nat \<Rightarrow> u16" where
  "cs_word c lld k = ct_emi c (0x400 + 90 * ucast (ct_mem c (lld + 142))) k"

definition queues_empty :: "controller \<Rightarrow> u32 \<Rightarrow> u32 \<Rightarrow> bool" where
  "queues_empty c llc lld \<longleftrightarrow> rd32 c (llc + 40) = 0 \<and> rd32 c (lld + 36) = 0 \<and> rd16 c (llc + 66) AND 2 = 0"

definition parent_sequence :: "controller \<Rightarrow> u32 \<Rightarrow> u32 \<Rightarrow> u16 option" where
  "parent_sequence c llc lld =
     (if llc = 0 \<or> lld = 0 \<or> ct_llc c \<noteq> llc \<or> ct_lld c \<noteq> lld \<or> ct_mem c (lld + 142) \<ge> 6 \<or> \<not> link_encrypted c llc lld
      then None else Some (cs_word c lld 12 AND 0x3000))"

definition air_parent_current :: "raw_llcp \<Rightarrow> controller \<Rightarrow> bool" where
  "air_parent_current s c \<longleftrightarrow> ap_active (rl_air_parent s) \<and>
     parent_sequence c (ap_llc (rl_air_parent s)) (ap_lld (rl_air_parent s)) =
       Some (ap_hardware_sequence (rl_air_parent s))"

definition air_control_report :: "raw_llcp \<Rightarrow> u8 \<Rightarrow> u8 \<Rightarrow> u8 \<Rightarrow> raw_effect" where
  "air_control_report s stage rx_header tx_header =
     DIAG [0x55, 0x4c, 0x4c, 0x50, 1, stage, rx_header, tx_header,
       ap_tx_sn (rl_air_parent s), ap_rx_nesn (rl_air_parent s)]"

definition clear_session :: "raw_llcp \<Rightarrow> raw_llcp" where
  "clear_session s = s\<lparr>rl_e1_received := False, rl_session_prepared := False, rl_session_llc := 0, rl_session_lld := 0,
     rl_sent_e0 := replicate 39 0, rl_received_e1 := replicate 9 0, rl_origin_anchor := anchor_zero,
     rl_prepared_plan := plan_zero\<rparr>"

text \<open>The anchor is written before its last check, so it is returned with the verdict.\<close>

definition capture_anchor :: "controller \<Rightarrow> ull_air_anchor \<times> bool" where
  "capture_anchor c =
     (let lld = ct_lld c in
      if lld = 0 \<or> ct_llc c = 0 \<or> rd32 c (lld + 72) \<noteq> rd32 c (lld + 4) \<or> rd32 c (lld + 8) > 624 \<or> rd16 c (lld + 126) > 32
      then (anchor_zero, False)
      else
        let a = \<lparr>an_hs = rd32 c (lld + 72), an_interval_hs = rd32 c (lld + 100), an_hus = ucast (rd32 c (lld + 8)),
                 an_event_counter = ct_event_counter c + rd16 c (lld + 126)\<rparr>
        in (a, an_hs a \<le> CLOCK_MASK \<and> an_interval_hs a = 96))"

definition session_connection_valid :: "raw_llcp \<Rightarrow> controller \<Rightarrow> bool" where
  "session_connection_valid s c \<longleftrightarrow>
     (let elapsed = ct_us c - rl_e0_sent_us s in
      rl_e1_received s \<and> rl_session_llc s \<noteq> 0 \<and> rl_session_lld s \<noteq> 0 \<and>
      ct_llc c = rl_session_llc s \<and> ct_lld c = rl_session_lld s \<and> elapsed \<ge> 0 \<and> elapsed < 1000000 \<and>
      link_encrypted c (rl_session_llc s) (rl_session_lld s))"

section \<open>Preparing a session\<close>

definition same_plan :: "ull_air_session_plan \<Rightarrow> ull_air_session_plan \<Rightarrow> bool" where
  "same_plan a b \<longleftrightarrow> pl_start_hs a = pl_start_hs b \<and> pl_start_hus a = pl_start_hus b \<and>
     pl_acl_instant a = pl_acl_instant b \<and> pl_event_counter a = pl_event_counter b \<and>
     pl_access_address a = pl_access_address b \<and> pl_offset_us a = pl_offset_us b \<and> pl_e2 a = pl_e2 b"

definition plan_status :: "(session_error + ull_air_session_plan) option \<Rightarrow> u8" where
  "plan_status r = (case r of None \<Rightarrow> 157 | Some (Inl SESSION_REFUSED) \<Rightarrow> 255 | Some (Inl SESSION_INSTANT) \<Rightarrow> 254 | Some (Inr _) \<Rightarrow> 0)"

definition plan_of :: "(session_error + ull_air_session_plan) option \<Rightarrow> ull_air_session_plan option" where
  "plan_of r = (case r of Some (Inr p) \<Rightarrow> Some p | _ \<Rightarrow> None)"

text \<open>
  The plan is computed from the anchor of the request and from the current anchor; both must agree.
  \<open>None\<close> stands for the status -99 of a computation that was not made.
\<close>

definition original_plan :: "raw_llcp \<Rightarrow> bool \<Rightarrow> ull_air_session_seed \<Rightarrow> u32 \<Rightarrow> (session_error + ull_air_session_plan) option" where
  "original_plan s captured seed offset =
     (if captured then Some (ull_air_session_plan_build True (Some (rl_sent_e0 s)) (Some (rl_received_e1 s))
        (Some (rl_origin_anchor s)) (Some seed) offset) else None)"

definition advanced_plan :: "raw_llcp \<Rightarrow> ull_air_anchor \<Rightarrow> (session_error + ull_air_session_plan) option \<Rightarrow>
    ull_air_session_seed \<Rightarrow> u32 \<Rightarrow> (session_error + ull_air_session_plan) option" where
  "advanced_plan s current initial seed offset =
     (if plan_of initial = None then None
      else Some (ull_air_session_plan_build True (Some (rl_sent_e0 s)) (Some (rl_received_e1 s)) (Some current) (Some seed) offset))"

definition anchor_report :: "raw_llcp \<Rightarrow> bool \<Rightarrow> bool \<Rightarrow> ull_air_anchor \<Rightarrow> (session_error + ull_air_session_plan) option \<Rightarrow>
    (session_error + ull_air_session_plan) option \<Rightarrow> bool \<Rightarrow> bytes" where
  "anchor_report s connection captured current initial advanced same =
     (let original = (case plan_of initial of None \<Rightarrow> plan_zero | Some p \<Rightarrow> p); origin = rl_origin_anchor s in
      [0x55, 0x4c, 0x4c, 0x4e, 1, flag8 connection, flag8 captured, plan_status initial, plan_status advanced, flag8 same]
      @ put16 (rl_e0_counter s) @ put16 (an_event_counter origin) @ put16 (an_event_counter current)
      @ put32 (an_hs origin) @ put16 (an_hus origin) @ put32 (an_hs current) @ put16 (an_hus current)
      @ put32 (pl_start_hs original) @ put16 (pl_start_hus original)
      @ (case plan_of advanced of Some p \<Rightarrow> put32 (pl_start_hs p) @ put16 (pl_start_hus p) | None \<Rightarrow> replicate 6 0))"

definition plans_agree :: "(session_error + ull_air_session_plan) option \<Rightarrow> (session_error + ull_air_session_plan) option \<Rightarrow> bool" where
  "plans_agree r r' = (case (plan_of r, plan_of r') of (Some a, Some b) \<Rightarrow> same_plan a b | _ \<Rightarrow> False)"

definition plan_for_current_anchor :: "raw_llcp \<Rightarrow> controller \<Rightarrow> ull_air_session_seed \<Rightarrow> u32 \<Rightarrow>
    ull_air_session_plan option \<times> raw_effect list" where
  "plan_for_current_anchor s c seed offset =
     (let connection = session_connection_valid s c;
          (current, ok) = (if connection then capture_anchor c else (anchor_zero, False));
          captured = connection \<and> ok;
          initial = original_plan s captured seed offset;
          advanced = advanced_plan s current initial seed offset;
          same = plans_agree initial advanced
      in (if same then plan_of advanced else None,
          if rl_sent_e0 s ! 2 = 2 then [DIAG (anchor_report s connection captured current initial advanced same)] else []))"

definition ull_raw_prepare_session :: "raw_llcp \<Rightarrow> controller \<Rightarrow> ull_air_session_seed option \<Rightarrow> u32 \<Rightarrow> bool \<Rightarrow>
    raw_llcp \<times> u8 \<times> ull_air_session_plan option \<times> raw_effect list" where
  "ull_raw_prepare_session s c seed offset out =
     (case seed of None \<Rightarrow> (s, 0x12, None, [])
      | Some seed \<Rightarrow>
          if \<not> out then (s, 0x12, None, [])
          else case plan_for_current_anchor s c seed offset of
            (Some candidate, effects) \<Rightarrow>
              (s\<lparr>rl_prepared_plan := candidate, rl_session_prepared := True\<rparr>, 0, Some candidate, effects)
          | (None, effects) \<Rightarrow> (s, 0x0c, None, effects))"

definition ull_raw_second_stream_ready :: "raw_llcp \<Rightarrow> bool" where
  "ull_raw_second_stream_ready s \<longleftrightarrow> rl_e1_received s \<and> rl_sent_e0 s ! 2 = 2"

section \<open>Reading the parent connection\<close>

definition bits_set :: "bytes \<Rightarrow> nat" where
  "bits_set m = (\<Sum>b\<leftarrow>m. length (filter (bit b) [0..<8]))"

definition parent_map :: "controller \<Rightarrow> u32 \<Rightarrow> bytes" where
  "parent_map c lld = put16 (cs_word c lld 17) @ put16 (cs_word c lld 18) @ [ucast (cs_word c lld 19 AND 31)]"

definition ull_raw_session_channel_map :: "raw_llcp \<Rightarrow> controller \<Rightarrow> bool \<Rightarrow> u8 \<times> bytes option" where
  "ull_raw_session_channel_map s c out =
     (if \<not> out then (0x12, None)
      else if session_connection_valid s c \<and> ct_mem c (rl_session_lld s + 142) < 6
      then let m = parent_map c (rl_session_lld s) in (if bits_set m \<ge> 2 then 0 else 0x0c, Some m)
      else (0x0c, None))"

definition ull_raw_session_crc_init :: "raw_llcp \<Rightarrow> controller \<Rightarrow> bool \<Rightarrow> u8 \<times> u32 option" where
  "ull_raw_session_crc_init s c out =
     (let lld = rl_session_lld s in
      if \<not> out then (0x12, None)
      else if rl_session_prepared s \<and> session_connection_valid s c \<and> ct_mem c (lld + 142) < 6
      then (0, Some (ucast (cs_word c lld 8) OR push_bit 16 (ucast (cs_word c lld 9 AND 0xff))))
      else (0x0c, None))"

definition ull_raw_parent_poll_header :: "raw_llcp \<Rightarrow> controller \<Rightarrow> bool \<Rightarrow> u8 \<times> u8 option" where
  "ull_raw_parent_poll_header s c out =
     (let llc = ct_llc c; lld = ct_lld c in
      if \<not> out then (0x12, None)
      else if llc \<noteq> 0 \<and> lld \<noteq> 0 \<and>
         ((llc = rl_committed_llc s \<and> lld = rl_committed_lld s) \<or> (llc = rl_session_llc s \<and> lld = rl_session_lld s)) \<and>
         link_encrypted c llc lld \<and> ct_mem c (lld + 142) < 6
      then (0, Some (ucast (1 OR (drop_bit 10 (cs_word c lld 12) AND 12))))
      else (0x0c, None))"

end
