(* ===== verification/SessionKey.thy ===== *)
theory SessionKey
  imports RawSend
begin

text \<open>
  The session key and initialisation vector in the operations of \<^verbatim>\<open>raw_llcp.c\<close>: they are
  changed to other values by exclusive or with a mask, everything else of the state and the arguments
  kept, and the runs are compared. Nothing but the message E2 itself may differ.
\<close>

section \<open>Changing the key\<close>

definition mask_bytes :: "bytes \<Rightarrow> bytes \<Rightarrow> bytes" where "mask_bytes m xs = map2 (XOR) xs m"

definition mask_key :: "bytes \<Rightarrow> ull_air_session_plan \<Rightarrow> ull_air_session_plan" where
  "mask_key m p = p\<lparr>pl_e2 := take 44 (pl_e2 p) @ mask_bytes m (drop 44 (pl_e2 p))\<rparr>"

definition mask_seed :: "bytes \<Rightarrow> ull_air_session_seed \<Rightarrow> ull_air_session_seed" where
  "mask_seed m d = d\<lparr>sd_iv := mask_bytes (take 8 m) (sd_iv d), sd_key := mask_bytes (drop 8 m) (sd_key d)\<rparr>"

lemma mask_bytes_twice: "length xs = length m \<Longrightarrow> mask_bytes m (mask_bytes m xs) = xs"
  unfolding mask_bytes_def by (induction xs m rule: list_induct2) (simp_all add: xor.assoc)

lemma mask_bytes_append: "length xs = length m \<Longrightarrow> mask_bytes (m @ n) (xs @ ys) = mask_bytes m xs @ mask_bytes n ys"
  by (simp add: mask_bytes_def)

lemma length_mask_bytes [simp]: "length (mask_bytes m xs) = min (length xs) (length m)"
  by (simp add: mask_bytes_def)

lemma mask_key_fields [simp]:
  "pl_start_hs (mask_key m p) = pl_start_hs p" "pl_start_hus (mask_key m p) = pl_start_hus p"
  "pl_offset_us (mask_key m p) = pl_offset_us p" "pl_access_address (mask_key m p) = pl_access_address p"
  "pl_event_counter (mask_key m p) = pl_event_counter p" "pl_acl_instant (mask_key m p) = pl_acl_instant p"
  by (simp_all add: mask_key_def)

text \<open>A plan that carries an E2 message.\<close>

definition real_plan :: "ull_air_session_plan \<Rightarrow> bool" where
  "real_plan p \<longleftrightarrow> length (pl_e2 p) = 68 \<and> pl_e2 p ! 0 = 0xe2"

lemma mask_key_inj: "length m = 24 \<Longrightarrow> real_plan p \<Longrightarrow> real_plan q \<Longrightarrow> mask_key m p = mask_key m q \<longleftrightarrow> p = q"
proof
  assume m: "length m = 24" "real_plan p" "real_plan q" and eq: "mask_key m p = mask_key m q"
  have "take 44 (pl_e2 p) = take 44 (pl_e2 q)" "mask_bytes m (drop 44 (pl_e2 p)) = mask_bytes m (drop 44 (pl_e2 q))"
    using arg_cong [OF eq, of "\<lambda>p. take 44 (pl_e2 p)"] arg_cong [OF eq, of "\<lambda>p. drop 44 (pl_e2 p)"] m
    by (simp_all add: mask_key_def real_plan_def)
  moreover have "length (drop 44 (pl_e2 p)) = length m" "length (drop 44 (pl_e2 q)) = length m"
    using m by (simp_all add: real_plan_def)
  ultimately have "take 44 (pl_e2 p) = take 44 (pl_e2 q)" "drop 44 (pl_e2 p) = drop 44 (pl_e2 q)"
    by (metis, metis mask_bytes_twice)
  then have "pl_e2 p = pl_e2 q" by (metis append_take_drop_id)
  moreover have "p\<lparr>pl_e2 := []\<rparr> = q\<lparr>pl_e2 := []\<rparr>"
    using arg_cong [OF eq, of "\<lambda>p. p\<lparr>pl_e2 := []\<rparr>"] by (simp add: mask_key_def)
  ultimately show "p = q" by (cases p; cases q) simp
qed simp

lemma real_masked: "length m = 24 \<Longrightarrow> real_plan p \<Longrightarrow> real_plan (mask_key m p)"
  by (auto simp: real_plan_def mask_key_def nth_append)

lemma block_masked:
  assumes "length m = 24" and "real_plan p"
  shows "block 19 5 (pl_e2 (mask_key m p)) = block 19 5 (pl_e2 p)" "pl_e2 (mask_key m p) ! 18 = pl_e2 p ! 18"
    "block 44 8 (pl_e2 (mask_key m p)) = mask_bytes (take 8 m) (block 44 8 (pl_e2 p))"
    "block 52 16 (pl_e2 (mask_key m p)) = mask_bytes (drop 8 m) (block 52 16 (pl_e2 p))"
  using assms by (simp_all add: real_plan_def mask_key_def block_def nth_append mask_bytes_def take_map drop_map
      take_zip drop_zip drop_take)

definition seed_sized :: "ull_air_session_seed \<Rightarrow> bool" where
  "seed_sized d \<longleftrightarrow> length (sd_channel_map d) = 5 \<and> length (sd_iv d) = 8 \<and> length (sd_key d) = 16"

lemma plan_built_masked:
  assumes m: "length m = 24" and d: "seed_sized d"
  shows "ull_air_session_plan_build out proposal reply anchor (Some (mask_seed m d)) offset =
     map_sum id (mask_key m) (ull_air_session_plan_build out proposal reply anchor (Some d) offset)"
proof -
  have e2: "plan_e2 pr (mask_seed m d) offset inst =
      take 44 (plan_e2 pr d offset inst) @ mask_bytes m (drop 44 (plan_e2 pr d offset inst))" for pr inst
  proof -
    have "mask_bytes m (sd_iv d @ sd_key d) = mask_bytes (take 8 m) (sd_iv d) @ mask_bytes (drop 8 m) (sd_key d)"
      using mask_bytes_append [of "sd_iv d" "take 8 m" "drop 8 m" "sd_key d"] m d by (simp add: seed_sized_def)
    then show ?thesis
      using m d by (simp add: plan_e2_image seed_sized_def mask_seed_def)
  qed
  have "plan_refused pr re an (mask_seed m d) offset = plan_refused pr re an d offset" for pr re an
    by (simp add: plan_refused_def mask_seed_def)
  moreover have "sd_channel_map (mask_seed m d) = sd_channel_map d" "sd_event_counter (mask_seed m d) = sd_event_counter d"
    "sd_access_address (mask_seed m d) = sd_access_address d" by (simp_all add: mask_seed_def)
  ultimately show ?thesis
    by (auto simp: ull_air_session_plan_build_def Let_def mask_key_def e2 split: option.splits)
qed

lemma built_real:
  assumes "ull_air_session_plan_build True (Some proposal) (Some reply) (Some anchor) (Some d) offset = Inr p" and "seed_sized d"
  shows "real_plan p"
  using assms by (auto simp: plan_build_cases real_plan_def plan_e2_image seed_sized_def)


section \<open>Two runs\<close>

text \<open>Plans and states that differ at most in the key. The zeroed plan stands for itself.\<close>

definition plans_keyed :: "bytes \<Rightarrow> ull_air_session_plan \<Rightarrow> ull_air_session_plan \<Rightarrow> bool" where
  "plans_keyed m p q \<longleftrightarrow> (p = plan_zero \<and> q = plan_zero) \<or> (real_plan p \<and> q = mask_key m p)"

definition keyed :: "bytes \<Rightarrow> raw_llcp \<Rightarrow> raw_llcp \<Rightarrow> bool" where
  "keyed m s t \<longleftrightarrow> plans_keyed m (rl_prepared_plan s) (rl_prepared_plan t) \<and>
     plans_keyed m (rl_committed_first s) (rl_committed_first t) \<and>
     t = s\<lparr>rl_prepared_plan := rl_prepared_plan t, rl_committed_first := rl_committed_first t,
           rl_air_parent := (rl_air_parent s)\<lparr>ap_message := ap_message (rl_air_parent t)\<rparr>\<rparr> \<and>
     pp_length (ap_message (rl_air_parent t)) = pp_length (ap_message (rl_air_parent s))"

lemma zero_not_real: "\<not> real_plan plan_zero"
  by (simp add: real_plan_def plan_zero_def ULL_AIR_E2_BYTES_def)

lemma same_keyed:
  assumes "length m = 24" and "plans_keyed m a a'" and "plans_keyed m b b'"
  shows "same_plan a' b' \<longleftrightarrow> same_plan a b"
proof -
  have "mask_key m p \<noteq> plan_zero" if "real_plan p" for p
    using real_masked [OF assms(1) that] zero_not_real by metis
  then show ?thesis
    using assms(2,3) mask_key_inj [OF assms(1)] zero_not_real
    by (auto simp: plans_keyed_def same_plan_eq dest: sym)
qed

lemma keyed_fields:
  assumes "keyed m s t"
  shows "rl_sent_e0 t = rl_sent_e0 s" "rl_received_e1 t = rl_received_e1 s" "rl_origin_anchor t = rl_origin_anchor s"
    "rl_e0_counter t = rl_e0_counter s" "rl_session_prepared t = rl_session_prepared s" "rl_handed_off t = rl_handed_off s"
    "rl_e1_received t = rl_e1_received s" "rl_committed_llc t = rl_committed_llc s" "rl_committed_lld t = rl_committed_lld s"
    "rl_held t = rl_held s" "rl_second_available t = rl_second_available s" "rl_e2_confirmed t = rl_e2_confirmed s"
    "rl_first_commit_us t = rl_first_commit_us s" "rl_e4_confirmed t = rl_e4_confirmed s" "rl_e4_confirmed_us t = rl_e4_confirmed_us s"
    "session_connection_valid t c = session_connection_valid s c"
    "ap_active (rl_air_parent t) = ap_active (rl_air_parent s)" "ap_pending (rl_air_parent t) = ap_pending (rl_air_parent s)"
    "ap_tx_sn (rl_air_parent t) = ap_tx_sn (rl_air_parent s)" "ap_rx_nesn (rl_air_parent t) = ap_rx_nesn (rl_air_parent s)"
    "ap_llc (rl_air_parent t) = ap_llc (rl_air_parent s)" "ap_lld (rl_air_parent t) = ap_lld (rl_air_parent s)"
    "air_parent_current t c = air_parent_current s c"
proof -
  obtain p f am where t: "t = s\<lparr>rl_prepared_plan := p, rl_committed_first := f,
      rl_air_parent := (rl_air_parent s)\<lparr>ap_message := am\<rparr>\<rparr>"
    using assms unfolding keyed_def by metis
  show "rl_sent_e0 t = rl_sent_e0 s" "rl_received_e1 t = rl_received_e1 s" "rl_origin_anchor t = rl_origin_anchor s"
    "rl_e0_counter t = rl_e0_counter s" "rl_session_prepared t = rl_session_prepared s" "rl_handed_off t = rl_handed_off s"
    "rl_e1_received t = rl_e1_received s" "rl_committed_llc t = rl_committed_llc s" "rl_committed_lld t = rl_committed_lld s"
    "rl_held t = rl_held s" "rl_second_available t = rl_second_available s" "rl_e2_confirmed t = rl_e2_confirmed s"
    "rl_first_commit_us t = rl_first_commit_us s" "rl_e4_confirmed t = rl_e4_confirmed s" "rl_e4_confirmed_us t = rl_e4_confirmed_us s"
    "session_connection_valid t c = session_connection_valid s c"
    "ap_active (rl_air_parent t) = ap_active (rl_air_parent s)" "ap_pending (rl_air_parent t) = ap_pending (rl_air_parent s)"
    "ap_tx_sn (rl_air_parent t) = ap_tx_sn (rl_air_parent s)" "ap_rx_nesn (rl_air_parent t) = ap_rx_nesn (rl_air_parent s)"
    "ap_llc (rl_air_parent t) = ap_llc (rl_air_parent s)" "ap_lld (rl_air_parent t) = ap_lld (rl_air_parent s)"
    "air_parent_current t c = air_parent_current s c"
    by (simp_all add: t session_connection_valid_def air_parent_current_def)
qed

lemma plan_for_unfold:
  "plan_for_current_anchor s c d offset =
     (let v = session_connection_valid s c; an = (if v then fst (capture_anchor c) else anchor_zero);
          ok = (v \<and> snd (capture_anchor c)); i = original_plan s ok d offset; j = advanced_plan s an i d offset
      in (if plans_agree i j then plan_of j else None,
          if rl_sent_e0 s ! 2 = 2 then [DIAG (anchor_report s v ok an i j (plans_agree i j))] else []))"
  by (cases "session_connection_valid s c") (simp_all add: plan_for_current_anchor_def Let_def split_def)

lemma plan_for_keyed:
  assumes m: "length m = 24" and st: "keyed m s t" and d: "seed_sized d"
  shows "plan_for_current_anchor t c (mask_seed m d) offset =
     map_prod (map_option (mask_key m)) id (plan_for_current_anchor s c d offset) \<and>
     (\<forall>p effects. plan_for_current_anchor s c d offset = (Some p, effects) \<longrightarrow> real_plan p)"
proof -
  note fields = keyed_fields [OF st]
  let ?mr = "map_option (map_sum id (mask_key m))"
  have orig: "original_plan t ok (mask_seed m d) offset = ?mr (original_plan s ok d offset)" for ok
    by (simp add: original_plan_def fields plan_built_masked [OF m d])
  have plan: "plan_of (?mr r) = map_option (mask_key m) (plan_of r)" for r
    by (auto simp: plan_of_def split: option.splits sum.splits)
  have adv: "advanced_plan t an (?mr r) (mask_seed m d) offset = ?mr (advanced_plan s an r d offset)" for an r
    by (auto simp: advanced_plan_def plan fields plan_built_masked [OF m d])
  have stat: "plan_status (?mr r) = plan_status r" for r
    by (auto simp: plan_status_def split: option.splits sum.splits)
  have rep: "anchor_report t b1 b2 an (?mr r) (?mr r') b3 = anchor_report s b1 b2 an r r' b3" for b1 b2 an r r' b3
    by (auto simp: anchor_report_def Let_def fields plan stat split: option.splits)
  have real: "plan_of (original_plan s ok d offset) = Some p \<Longrightarrow> real_plan p"
    "plan_of (advanced_plan s an r d offset) = Some p \<Longrightarrow> real_plan p" for ok an r p
    using built_real [OF _ d] by (auto simp: original_plan_def advanced_plan_def plan_of_Some split: if_splits)
  define an ok where "an = (if session_connection_valid s c then fst (capture_anchor c) else anchor_zero)"
    and "ok = (session_connection_valid s c \<and> snd (capture_anchor c))"
  define i where "i = original_plan s ok d offset"
  define j where "j = advanced_plan s an i d offset"
  have "plans_agree (?mr i) (?mr j) = plans_agree i j"
    using real(1) [of ok] real(2) [of an i] mask_key_inj [OF m]
    by (auto simp: plans_agree_def plan same_plan_eq i_def [symmetric] j_def [symmetric] split: option.splits)
  moreover have "plan_for_current_anchor t c (mask_seed m d) offset =
      (if plans_agree (?mr i) (?mr j) then plan_of (?mr j) else None,
       if rl_sent_e0 s ! 2 = 2
       then [DIAG (anchor_report t (session_connection_valid s c) ok an (?mr i) (?mr j) (plans_agree (?mr i) (?mr j)))] else [])"
    by (simp add: plan_for_unfold Let_def fields orig adv an_def ok_def i_def j_def)
  moreover have "plan_for_current_anchor s c d offset =
      (if plans_agree i j then plan_of j else None,
       if rl_sent_e0 s ! 2 = 2 then [DIAG (anchor_report s (session_connection_valid s c) ok an i j (plans_agree i j))] else [])"
    by (simp add: plan_for_unfold Let_def an_def ok_def i_def j_def)
  ultimately show ?thesis using real(2) [of an i] by (auto simp: plan rep j_def [symmetric])
qed


text \<open>Effects without the contents of the transmit memory and of the queued node.\<close>

fun public :: "raw_effect \<Rightarrow> raw_effect" where
  "public (SLOT_FILL a b) = SLOT_FILL a []"
| "public (QUEUE_PUSH a b) = QUEUE_PUSH a []"
| "public e = e"

definition alike :: "bytes \<Rightarrow> raw_llcp \<times> u8 \<times> raw_effect list \<Rightarrow> raw_llcp \<times> u8 \<times> raw_effect list \<Rightarrow> bool" where
  "alike m r r' \<longleftrightarrow> (case (r, r') of ((s, status, effects), (t, status', effects')) \<Rightarrow>
     keyed m s t \<and> status' = status \<and> map public effects' = map public effects)"

lemma seed_of_masked:
  assumes "length m = 24" and "real_plan p"
  shows "seed_of_plan (mask_key m p) = mask_seed m (seed_of_plan p)" "seed_sized (seed_of_plan p)"
    "joined_seed (mask_key m p) k = mask_seed m (joined_seed p k)" "seed_sized (joined_seed p k)"
proof -
  show "seed_of_plan (mask_key m p) = mask_seed m (seed_of_plan p)" "joined_seed (mask_key m p) k = mask_seed m (joined_seed p k)"
    by (simp_all add: seed_of_plan_def joined_seed_def mask_seed_def block_masked [OF assms])
  show "seed_sized (seed_of_plan p)" "seed_sized (joined_seed p k)"
    using assms(2) by (simp_all add: seed_of_plan_def joined_seed_def seed_sized_def real_plan_def block_def)
qed

lemma keyed_shape:
  assumes "keyed m s t"
  obtains p f am where "t = s\<lparr>rl_prepared_plan := p, rl_committed_first := f,
      rl_air_parent := (rl_air_parent s)\<lparr>ap_message := am\<rparr>\<rparr>" "plans_keyed m (rl_prepared_plan s) p"
    "plans_keyed m (rl_committed_first s) f" "pp_length am = pp_length (ap_message (rl_air_parent s))"
proof -
  let ?am = "ap_message (rl_air_parent t)"
  show thesis
    by (rule that [where p = "rl_prepared_plan t" and f = "rl_committed_first t" and am = ?am]) (use assms in \<open>auto simp: keyed_def\<close>)
qed

lemma prepared_keyed:
  assumes m: "length m = 24" and st: "keyed m s t" and p: "real_plan p"
  shows "prepared_plan_current t c (Some (mask_key m p)) = prepared_plan_current s c (Some p)"
proof -
  have prep: "plans_keyed m (rl_prepared_plan s) (rl_prepared_plan t)" using st by (simp add: keyed_def)
  have key: "plans_keyed m p (mask_key m p)" using p by (simp add: plans_keyed_def)
  note run = plan_for_keyed [OF m st seed_of_masked(2) [OF m p], of c "pl_offset_us p"]
  obtain q e where q: "plan_for_current_anchor s c (seed_of_plan p) (pl_offset_us p) = (q, e)"
    by (cases "plan_for_current_anchor s c (seed_of_plan p) (pl_offset_us p)") auto
  show ?thesis
  proof (cases q)
    case None
    then show ?thesis using run q
      by (simp add: prepared_plan_current_def same_keyed [OF m key prep] keyed_fields [OF st] seed_of_masked(1) [OF m p])
  next
    case (Some r)
    then have "plans_keyed m r (mask_key m r)" using run q by (simp add: plans_keyed_def)
    then show ?thesis using run q Some
      by (simp add: prepared_plan_current_def same_keyed [OF m key prep] same_keyed [OF m key] keyed_fields [OF st]
          seed_of_masked(1) [OF m p])
  qed
qed

lemma guard_keyed:
  assumes m: "length m = 24" and st: "keyed m s t" and p: "real_plan p"
  shows "send_guard t c opcode (Some (mask_key m p)) = send_guard s c opcode (Some p)"
proof -
  have com: "plans_keyed m (rl_committed_first s) (rl_committed_first t)" using st by (simp add: keyed_def)
  have key: "plans_keyed m p (mask_key m p)" using p by (simp add: plans_keyed_def)
  have "e0_allowed t c (Some (mask_key m p)) = e0_allowed s c (Some p)"
    by (simp add: e0_allowed_def keyed_fields [OF st] same_keyed [OF m key com])
  then show ?thesis by (simp add: send_guard_def Let_def keyed_fields [OF st] prepared_keyed [OF m st p])
qed

lemma payload_keyed:
  assumes "length m = 24" and "real_plan p"
  shows "length (send_payload c opcode (Some (mask_key m p))) = length (send_payload c opcode (Some p))"
    "send_payload c opcode (Some (mask_key m p)) ! 0 = send_payload c opcode (Some p) ! 0"
  using assms real_masked [OF assms] by (simp_all add: send_payload_def real_plan_def)

lemma sent_keyed:
  assumes "length m = 24" and "keyed m s t" and p: "real_plan p"
  shows "keyed m (sent_update s c a opcode (Some p)) (sent_update t c a opcode (Some (mask_key m p)))"
proof -
  obtain pp f am where t: "t = s\<lparr>rl_prepared_plan := pp, rl_committed_first := f,
      rl_air_parent := (rl_air_parent s)\<lparr>ap_message := am\<rparr>\<rparr>" "plans_keyed m (rl_prepared_plan s) pp"
    "plans_keyed m (rl_committed_first s) f" "pp_length am = pp_length (ap_message (rl_air_parent s))"
    using keyed_shape [OF assms(2)] .
  have z: "plans_keyed m plan_zero plan_zero" "plans_keyed m p (mask_key m p)" using p by (simp_all add: plans_keyed_def)
  consider "opcode = 0xe0" | "opcode = 0xe4" | "opcode = 0xe2" | "opcode \<noteq> 0xe0 \<and> opcode \<noteq> 0xe4 \<and> opcode \<noteq> 0xe2" by blast
  then show ?thesis
    by cases (use t z in \<open>simp_all add: sent_update_def clear_session_def keyed_def Let_def\<close>)
qed

lemma handing_keyed:
  "length q = length q' \<Longrightarrow> map public (handing_over c a held q') = map public (handing_over c a held q)"
  by (simp add: handing_over_def Let_def)

lemma keyed_update:
  assumes "keyed m s t"
  shows "keyed m (s\<lparr>rl_held := h\<rparr>) (t\<lparr>rl_held := h\<rparr>)"
    "keyed m (s\<lparr>rl_handed_off := b, rl_held := h\<rparr>) (t\<lparr>rl_handed_off := b, rl_held := h\<rparr>)"
    "keyed m (s\<lparr>rl_held := h, rl_released_slots := r, rl_tail_ok := k, rl_handed_off := b\<rparr>)
       (t\<lparr>rl_held := h, rl_released_slots := r, rl_tail_ok := k, rl_handed_off := b\<rparr>)"
    "keyed m (s\<lparr>rl_released_slots := r, rl_tail_ok := k, rl_handed_off := b, rl_held := h\<rparr>)
       (t\<lparr>rl_released_slots := r, rl_tail_ok := k, rl_handed_off := b, rl_held := h\<rparr>)"
  by (rule keyed_shape [OF assms]; simp add: keyed_def)+


lemma reserved_keyed:
  assumes m: "length m = 24" and st: "keyed m s t" and p: "real_plan p"
    and s': "send_reserved s c a opcode (Some p) = (s', code, status, effects)"
    and t': "send_reserved t c a opcode (Some (mask_key m p)) = (t', code', status', effects')"
  shows "keyed m s' t' \<and> code' = code \<and> status' = status \<and> map public effects' = map public effects"
proof -
  note upd = keyed_update [OF st]
  note hand = handing_keyed [OF payload_keyed(1) [OF m p, symmetric]]
  obtain h ok freed where r: "ull_pool_reserve (sa_env a) (sa_emi a) (sa_allocated a) (Some (rl_held s)) 7 = (h, ok, freed)"
    by (cases "ull_pool_reserve (sa_env a) (sa_emi a) (sa_allocated a) (Some (rl_held s)) 7") auto
  have r': "ull_pool_reserve (sa_env a) (sa_emi a) (sa_allocated a) (Some (rl_held t)) 7 = (h, ok, freed)"
    using r by (simp add: keyed_fields [OF st])
  show ?thesis
  proof (cases "ok \<and> h \<noteq> None")
    case False
    have "ok \<longrightarrow> h \<noteq> None" "\<not> ok \<longrightarrow> h \<noteq> None" using reserve_spec [OF _ _ r] by auto
    then obtain held where "\<not> ok" "h = Some held" using False by blast
    then show ?thesis using s' t' r r' upd(1) by (auto simp: send_reserved_def)
  next
    case True
    then obtain held where held: "h = Some held" "ok" by auto
    obtain h' released where rel: "ull_pool_release held 0 = (h', released)" by (cases "ull_pool_release held 0") auto
    have up: "keyed m (s\<lparr>rl_held := x, rl_released_slots := 0, rl_tail_ok := 0, rl_handed_off := b\<rparr>)
       (t\<lparr>rl_held := x, rl_released_slots := 0, rl_tail_ok := 0, rl_handed_off := b\<rparr>)" for x b
      by (rule upd(3))
    consider "\<not> sa_node a" | "sa_node a" "sa_status a \<noteq> 0" | "sa_node a" "sa_status a = 0" by blast
    then show ?thesis
    proof cases
      case 1
      then show ?thesis using s' t' r r' held rel upd(1) [of h'] by (auto simp: send_reserved_def Let_def)
    next
      case 2
      then show ?thesis using s' t' r r' held rel upd(4)
        by (auto simp: send_reserved_def Let_def payload_keyed [OF m p] hand simp del: map_map)
    next
      case 3
      then show ?thesis using s' t' r r' held sent_keyed [OF m up p]
        by (auto simp: send_reserved_def Let_def payload_keyed [OF m p] hand)
    qed
  qed
qed

lemma send_keyed:
  assumes m: "length m = 24" and st: "keyed m s t" and p: "real_plan p"
  shows "alike m (raw_send s c a opcode (Some p)) (raw_send t c a opcode (Some (mask_key m p)))"
proof -
  obtain code checks where g: "send_guard s c opcode (Some p) = (code, checks)" by (cases "send_guard s c opcode (Some p)") auto
  obtain s' k status e where rs: "send_reserved s c a opcode (Some p) = (s', k, status, e)"
    by (cases "send_reserved s c a opcode (Some p)") auto
  obtain t' k' status' e' where rt: "send_reserved t c a opcode (Some (mask_key m p)) = (t', k', status', e')"
    by (cases "send_reserved t c a opcode (Some (mask_key m p))") auto
  show ?thesis
  proof (cases "opcode \<noteq> 0x12 \<and> opcode \<noteq> 0xe4 \<and> opcode \<noteq> 0xe0 \<and> opcode \<noteq> 0xe2")
    case True
    then show ?thesis using st by (simp add: raw_send_def alike_def)
  next
    case False
    show ?thesis
      unfolding raw_send_def if_not_P [OF False] g guard_keyed [OF m st p] rs rt
      using reserved_keyed [OF m st p rs rt] st
      by (cases "code = 0") (simp_all add: alike_def Let_def payload_keyed [OF m p])
  qed
qed

lemma commit_keyed:
  assumes m: "length m = 24" and st: "keyed m s t" and p: "real_plan p"
  shows "alike m (ull_raw_commit_session s c a (Some p)) (ull_raw_commit_session t c a (Some (mask_key m p)))"
proof (cases "ap_active (rl_air_parent s)")
  case False
  then show ?thesis using send_keyed [OF m st p] by (simp add: ull_raw_commit_session_def keyed_fields [OF st])
next
  case True
  obtain ok e where e: "commit_over_air s c (Some p) = (ok, e)" by (cases "commit_over_air s c (Some p)") auto
  have e': "commit_over_air t c (Some (mask_key m p)) = (ok, e)"
    using e by (auto simp: commit_over_air_def keyed_fields [OF st] prepared_keyed [OF m st p] split: if_splits)
  obtain pp f am where t: "t = s\<lparr>rl_prepared_plan := pp, rl_committed_first := f,
      rl_air_parent := (rl_air_parent s)\<lparr>ap_message := am\<rparr>\<rparr>" "plans_keyed m (rl_prepared_plan s) pp"
    "plans_keyed m (rl_committed_first s) f" "pp_length am = pp_length (ap_message (rl_air_parent s))"
    using keyed_shape [OF st] .
  show ?thesis
  proof (cases ok)
    case False
    then show ?thesis using True e e' st
      by (simp add: ull_raw_commit_session_def keyed_fields [OF st] alike_def)
  next
    case ok: True
    then show ?thesis using True e e' t
      by (simp add: ull_raw_commit_session_def alike_def keyed_def Let_def air_control_report_def parent_header_def)
  qed
qed

lemma prepare_keyed:
  assumes m: "length m = 24" and st: "keyed m s t" and d: "seed_sized d"
    and s': "ull_raw_prepare_session s c (Some d) offset out = (s', status, q, effects)"
    and t': "ull_raw_prepare_session t c (Some (mask_seed m d)) offset out = (t', status', q', effects')"
  shows "keyed m s' t' \<and> status' = status \<and> q' = map_option (mask_key m) q \<and> effects' = effects"
proof -
  obtain pp f am where t: "t = s\<lparr>rl_prepared_plan := pp, rl_committed_first := f,
      rl_air_parent := (rl_air_parent s)\<lparr>ap_message := am\<rparr>\<rparr>" "plans_keyed m (rl_prepared_plan s) pp"
    "plans_keyed m (rl_committed_first s) f" "pp_length am = pp_length (ap_message (rl_air_parent s))"
    using keyed_shape [OF st] .
  obtain r e where r: "plan_for_current_anchor s c d offset = (r, e)" by (cases "plan_for_current_anchor s c d offset") auto
  note run = plan_for_keyed [OF m st d, of c offset, unfolded r]
  show ?thesis
  proof (cases "out \<and> r \<noteq> None")
    case False
    then show ?thesis using s' t' st run r by (auto simp: ull_raw_prepare_session_def split: if_splits)
  next
    case True
    then obtain p where p: "r = Some p" "real_plan p" using run by auto
    then have "plans_keyed m p (mask_key m p)" by (simp add: plans_keyed_def)
    moreover have "s' = s\<lparr>rl_prepared_plan := p, rl_session_prepared := True\<rparr>" "status = 0" "q = Some p" "effects = e"
      "t' = t\<lparr>rl_prepared_plan := mask_key m p, rl_session_prepared := True\<rparr>" "status' = 0" "q' = Some (mask_key m p)" "effects' = e"
      using s' t' run r p True by (auto simp: ull_raw_prepare_session_def)
    ultimately show ?thesis using t by (simp add: keyed_def)
  qed
qed

text \<open>C17: The session key stays inside E2. Take two runs whose states differ at most in the keys and
  initialisation vectors of the plans they hold, and give them seeds or plans that differ in the same
  way: preparing a session, and committing it through the controller or over Air, answer with the same
  status, leave states that again differ at most in the key, and have the same effects in the same
  order, every diagnostic record included; only the contents of the transmit slot and of the queued
  message may differ.\<close>

theorem session_key_hidden:
  assumes "length m = 24" and "keyed m s t" and "real_plan p" and "seed_sized d"
  shows "alike m (ull_raw_commit_session s c a (Some p)) (ull_raw_commit_session t c a (Some (mask_key m p))) \<and>
    alike m (ull_raw_request_second_stream s c a (Some p)) (ull_raw_request_second_stream t c a (Some (mask_key m p))) \<and>
    (case (ull_raw_prepare_session s c (Some d) offset out, ull_raw_prepare_session t c (Some (mask_seed m d)) offset out) of
      ((s', status, q, effects), (t', status', q', effects')) \<Rightarrow>
        keyed m s' t' \<and> status' = status \<and> q' = map_option (mask_key m) q \<and> effects' = effects)"
  using commit_keyed [OF assms(1-3)] send_keyed [OF assms(1-3)] prepare_keyed [OF assms(1,2,4)]
  by (auto simp: ull_raw_request_second_stream_def split: prod.splits)

lemma keyed_start: "keyed m raw_zero raw_zero"
  by (simp add: keyed_def plans_keyed_def raw_zero_def)

lemma session_key_hidden_witness:
  "(\<forall>c. snd (snd (snd (ull_raw_prepare_session raw_zero c (Some (mask_seed (replicate 24 7) ex_seed)) 2000 True))) =
     snd (snd (snd (ull_raw_prepare_session raw_zero c (Some ex_seed) 2000 True)))) \<and>
   sd_key (mask_seed (replicate 24 7) ex_seed) \<noteq> sd_key ex_seed"
proof
  have "seed_sized ex_seed" by (simp add: seed_sized_def ex_seed_def)
  moreover have "real_plan (plan_zero\<lparr>pl_e2 := 0xe2 # replicate 67 0\<rparr>)" by (simp add: real_plan_def)
  ultimately have "case (ull_raw_prepare_session raw_zero c (Some ex_seed) 2000 True,
        ull_raw_prepare_session raw_zero c (Some (mask_seed (replicate 24 7) ex_seed)) 2000 True) of
      ((s', status, q, effects), (t', status', q', effects')) \<Rightarrow> effects' = effects" for c
    using session_key_hidden [where m = "replicate 24 7" and s = raw_zero and t = raw_zero and offset = 2000 and out = True
        and p = "plan_zero\<lparr>pl_e2 := 0xe2 # replicate 67 0\<rparr>" and d = ex_seed and c = c] keyed_start
    by (simp add: case_prod_beta)
  then show "\<forall>c. snd (snd (snd (ull_raw_prepare_session raw_zero c (Some (mask_seed (replicate 24 7) ex_seed)) 2000 True))) =
      snd (snd (snd (ull_raw_prepare_session raw_zero c (Some ex_seed) 2000 True)))"
    by (simp add: case_prod_beta)
  have "sd_key (mask_seed (replicate 24 7) ex_seed) ! 0 \<noteq> sd_key ex_seed ! 0"
    by (simp add: mask_seed_def ex_seed_def mask_bytes_def)
  then show "sd_key (mask_seed (replicate 24 7) ex_seed) \<noteq> sd_key ex_seed" by metis
qed

end
