(* ===== verification/ParentAir.thy ===== *)
theory ParentAir
  imports RawSend
begin

text \<open>
  Model of \<^verbatim>\<open>firmware/radio/src/raw_llcp.c\<close>, second half: parent link-layer PDUs that are
  carried over Air. While the second stream is negotiated the code answers for the parent connection
  itself (\<open>air_parent\<close>): it accepts E1, sends E2 and gives the sequence back to the controller when its
  own agrees with the hardware's. After the parent connection has been retired, the detached
  acknowledgement of theory \<open>ParentAck\<close> carries control messages of the headset. The theorems state that
  E2 arrives exactly once over a lossy link, that a control message reaches the host once, and the
  invariant of the state over every sequence of operations.
\<close>

section \<open>Controls\<close>

definition ull_raw_parent_retired :: "raw_llcp \<Rightarrow> raw_llcp" where
  "ull_raw_parent_retired s = s\<lparr>rl_parent_retired := True\<rparr>"

definition ull_raw_control_probe_set :: "raw_llcp \<Rightarrow> bool \<Rightarrow> raw_llcp" where
  "ull_raw_control_probe_set s enabled = s\<lparr>rl_control_probe_frames := (if enabled then 2000 else 0)\<rparr>"

definition ull_raw_control_probe_remaining :: "raw_llcp \<Rightarrow> u32" where
  "ull_raw_control_probe_remaining s = rl_control_probe_frames s"

definition ull_raw_control_auto_set :: "raw_llcp \<Rightarrow> bool \<Rightarrow> raw_llcp" where
  "ull_raw_control_auto_set s enabled = s\<lparr>rl_control_auto_poll := enabled\<rparr>"

definition ull_raw_control_auto_get :: "raw_llcp \<Rightarrow> bool" where
  "ull_raw_control_auto_get s = rl_control_auto_poll s"

definition ull_raw_detached_parent_counters :: "raw_llcp \<Rightarrow> u32 list" where
  "ull_raw_detached_parent_counters s = rl_detached_status s @ [rl_detached_eligibility s]"

section \<open>The PDU of the next frame\<close>

definition sequence_report :: "raw_llcp \<Rightarrow> controller \<Rightarrow> raw_effect" where
  "sequence_report s c =
     (let p = rl_air_parent s; now = parent_sequence c (ap_llc p) (ap_lld p) in
      DIAG ([0x55, 0x4c, 0x4c, 0x50, 2, flag8 (now \<noteq> None)] @ put16 (ap_hardware_sequence p)
        @ put16 (case now of Some v \<Rightarrow> v | None \<Rightarrow> 0)))"

definition air_pdu :: "air_parent \<Rightarrow> ull_parent_pdu" where
  "air_pdu p =
     (let n = pp_length (ap_message p) in
      \<lparr>pp_header = parent_header p (ap_pending p),
       pp_length = (if ap_pending p then n else 0),
       pp_payload = (if ap_pending p then memcpy_at (replicate 68 0) 0 (take (unat n) (pp_payload (ap_message p)))
                     else replicate 68 0)\<rparr>)"

definition ull_raw_parent_air_pdu :: "raw_llcp \<Rightarrow> controller \<Rightarrow> controller \<Rightarrow> bool \<Rightarrow> u8 \<times> ull_parent_pdu option \<times> raw_effect list" where
  "ull_raw_parent_air_pdu s c c2 out =
     (if \<not> out then (0x12, None, [])
      else if ap_active (rl_air_parent s)
      then (if air_parent_current s c then (0, Some (air_pdu (rl_air_parent s)), []) else (0x0c, None, [sequence_report s c]))
      else case ull_raw_parent_poll_header s c2 True of
        (status, Some header) \<Rightarrow> (status, Some (parent_pdu_zero\<lparr>pp_header := header\<rparr>), [])
      | (status, None) \<Rightarrow> (status, Some parent_pdu_zero, []))"

section \<open>The detached parent\<close>

definition eligibility_mask :: "raw_llcp \<Rightarrow> controller \<Rightarrow> u32" where
  "eligibility_mask s c =
     (if rl_parent_retired s then 1 else 0) OR (if rl_detached_stereo s then 2 else 0) OR
     (if ct_llc c = 0 then 4 else 0) OR (if ct_lld c = 0 then 8 else 0) OR
     (if rl_e2_confirmed s then 16 else 0) OR (if \<not> rl_second_available s then 32 else 0) OR
     (if \<not> rl_e1_expected s then 64 else 0) OR (if \<not> rl_session_prepared s then 128 else 0) OR
     (if \<not> rl_handed_off s then 256 else 0) OR (if \<not> ap_pending (rl_air_parent s) then 512 else 0)"

definition detached_eligible :: "raw_llcp \<Rightarrow> controller \<Rightarrow> raw_llcp \<times> bool" where
  "detached_eligible s c =
     (let mask = eligibility_mask s c in (s\<lparr>rl_detached_eligibility := mask\<rparr>, mask = 1023))"

definition ull_raw_detached_parent_air_pdu :: "raw_llcp \<Rightarrow> controller \<Rightarrow> bool \<Rightarrow> raw_llcp \<times> bool \<times> ull_parent_pdu option" where
  "ull_raw_detached_parent_air_pdu s c out =
     (if \<not> out then (s, False, None)
      else
        let (s, eligible) = detached_eligible (s\<lparr>rl_detached_stereo := True\<rparr>) c in
        if eligible \<and> active (rl_detached s)
        then (s, True, Some (parent_pdu_zero\<lparr>pp_header := ull_parent_ack_header (rl_detached s)\<rparr>))
        else if eligible \<and> (rl_control_probe_frames s \<noteq> 0 \<or> rl_control_auto_poll s)
        then (if rl_control_probe_frames s \<noteq> 0
              then s\<lparr>rl_control_probe_frames := rl_control_probe_frames s - 1\<rparr> else s,
              True, Some (parent_pdu_zero\<lparr>pp_header := 1\<rparr>))
        else (s, False, Some parent_pdu_zero))"

section \<open>Receiving a parent PDU over Air\<close>

definition ULL_USB_PLAY_PAUSE :: u16 where "ULL_USB_PLAY_PAUSE = 0x00cd"
definition ULL_USB_VOLUME_UP :: u16 where "ULL_USB_VOLUME_UP = 0x00e9"
definition ULL_USB_VOLUME_DOWN :: u16 where "ULL_USB_VOLUME_DOWN = 0x00ea"

definition control_effects :: "u8 \<Rightarrow> bytes \<Rightarrow> nat \<Rightarrow> raw_effect list" where
  "control_effects header p n =
     (if header AND 3 = 2 \<and> p ! 2 = 1 \<and> p ! 3 = 1
      then
        let control = drop 4 p in
        if n = 10 \<and> ull_parent_ack_wheel (Some control) 6
        then (if control ! 3 = 1 then [CONSUMER_KEY ULL_USB_VOLUME_UP]
              else if control ! 3 = 2 then [CONSUMER_KEY ULL_USB_VOLUME_DOWN] else [])
        else if n = 6 \<and> ull_parent_ack_media (Some control) 2 \<and> control ! 1 = 2 then [CONSUMER_KEY ULL_USB_PLAY_PAUSE]
        else if n = 7 \<and> ull_parent_ack_mic (Some control) 3 then [HEADSET_MIC_MUTE (control ! 0 = 5)]
        else []
      else [])"

definition receive_refused :: "ull_air_control_rx \<Rightarrow> ull_parent_pdu \<Rightarrow> bool" where
  "receive_refused received sent \<longleftrightarrow> cr_present received = 0 \<or> cr_length received > 60 \<or> pp_length sent > 68 \<or>
     cr_header received AND 0xe0 \<noteq> 0 \<or> pp_header sent AND NOT 15 \<noteq> 0"

text \<open>The detached path. The state has the eligibility already noted.\<close>

definition receive_detached :: "raw_llcp \<Rightarrow> ull_air_control_rx \<Rightarrow> ull_parent_pdu \<Rightarrow> raw_llcp \<times> bool \<times> raw_effect list" where
  "receive_detached s received sent =
     (let n = unat (cr_length received); p = cr_payload received; before = accepted (rl_detached s);
          (d, ok) = ull_parent_ack_receive (rl_detached s) (cr_header received) (Some p) n
             (pp_header sent) (unat (pp_length sent));
          fresh = ok \<and> accepted d \<noteq> before;
          s = detached_publish (s\<lparr>rl_detached := d\<rparr>)
      in (s, ok, LOG_AIR (cr_header received) p n # (if fresh then control_effects (cr_header received) p n else [])))"

text \<open>The first E1 over Air: all of the conditions under which the code takes the parent's sequence over.\<close>

definition first_e1_ok :: "raw_llcp \<Rightarrow> controller \<Rightarrow> ull_air_control_rx \<Rightarrow> ull_parent_pdu \<Rightarrow> bool" where
  "first_e1_ok s c received sent \<longleftrightarrow>
     (let elapsed = ct_us c - rl_e0_sent_us s; h = cr_header received in
      rl_e1_expected s \<and> rl_sent_e0 s ! 2 = 2 \<and> elapsed \<ge> 0 \<and> elapsed < 1000000 \<and>
      pp_length sent = 0 \<and> pp_header sent AND 3 = 1 \<and>
      hdr_sn h = hdr_nesn (pp_header sent) \<and> hdr_nesn h \<noteq> hdr_sn (pp_header sent) \<and>
      rl_session_llc s = rl_committed_llc s \<and> rl_session_lld s = rl_committed_lld s \<and>
      parent_sequence c (rl_session_llc s) (rl_session_lld s) \<noteq> None \<and>
      \<not> rl_handed_off s \<and> queues_empty c (rl_session_llc s) (rl_session_lld s) \<and>
      block 1 6 (cr_payload received) = block 31 6 (rl_sent_e0 s) \<and> get16 (cr_payload received) 7 = rl_e0_counter s)"

definition take_parent :: "raw_llcp \<Rightarrow> controller \<Rightarrow> ull_air_control_rx \<Rightarrow> raw_llcp" where
  "take_parent s c received =
     (let h = cr_header received; e1 = take 9 (cr_payload received) in
      s\<lparr>rl_e1_expected := False, rl_e1_received := True, rl_session_prepared := False, rl_received_e1 := e1,
        rl_air_parent := air_parent_zero\<lparr>ap_active := True, ap_llc := rl_session_llc s, ap_lld := rl_session_lld s,
          ap_hardware_sequence := (case parent_sequence c (rl_session_llc s) (rl_session_lld s) of Some v \<Rightarrow> v | None \<Rightarrow> 0),
          ap_tx_sn := hdr_nesn h, ap_rx_nesn := hdr_sn h XOR 1, ap_accepted_e1 := e1\<rparr>\<rparr>)"

text \<open>A later PDU: whether the frame it answers carried exactly the pending message, the acknowledgement
  with its stage (3 when E2 is confirmed), and the return of the sequence to the controller.\<close>

definition answers_pending :: "air_parent \<Rightarrow> ull_parent_pdu \<Rightarrow> bool" where
  "answers_pending p sent \<longleftrightarrow> hdr_sn (pp_header sent) = ap_tx_sn p \<and>
     pp_length sent = (if ap_pending p then pp_length (ap_message p) else 0) \<and>
     pp_header sent AND 3 = (if ap_pending p then 3 else 1) \<and>
     take (unat (pp_length sent)) (pp_payload sent) = take (unat (pp_length sent)) (pp_payload (ap_message p))"

definition note_parent_ack :: "raw_llcp \<Rightarrow> ull_air_control_rx \<Rightarrow> ull_parent_pdu \<Rightarrow> raw_llcp \<times> u8" where
  "note_parent_ack s received sent =
     (let p = rl_air_parent s in
      if answers_pending p sent \<and> hdr_nesn (cr_header received) \<noteq> ap_tx_sn p
      then
        let p = p\<lparr>ap_tx_sn := ap_tx_sn p XOR 1\<rparr> in
        (if ap_pending p
         then (s\<lparr>rl_e2_confirmed := True, rl_air_parent := p\<lparr>ap_pending := False, ap_message := parent_pdu_zero\<rparr>\<rparr>, 3)
         else (s\<lparr>rl_air_parent := p\<rparr>, 0))
      else (s, 0))"

definition note_parent_rx :: "raw_llcp \<Rightarrow> ull_air_control_rx \<Rightarrow> raw_llcp" where
  "note_parent_rx s received =
     (let p = rl_air_parent s in
      if hdr_sn (cr_header received) = ap_rx_nesn p
      then s\<lparr>rl_air_parent := p\<lparr>ap_rx_nesn := ap_rx_nesn p XOR 1\<rparr>\<rparr> else s)"

definition software_sequence :: "air_parent \<Rightarrow> u16" where
  "software_sequence p = push_bit 13 (ucast (ap_tx_sn p)) OR push_bit 12 (ucast (ap_rx_nesn p))"

definition return_parent :: "raw_llcp \<Rightarrow> controller \<Rightarrow> u8 \<Rightarrow> raw_llcp \<times> bool" where
  "return_parent s c stage =
     (let p = rl_air_parent s in
      if stage = 3 \<and> parent_sequence c (ap_llc p) (ap_lld p) = Some (software_sequence p)
      then (s\<lparr>rl_air_parent := p\<lparr>ap_active := False\<rparr>\<rparr>, True) else (s, False))"

definition receive_parent :: "raw_llcp \<Rightarrow> controller \<Rightarrow> ull_air_control_rx \<Rightarrow> ull_parent_pdu \<Rightarrow> raw_llcp \<times> bool \<times> raw_effect list" where
  "receive_parent s c received sent =
     (let h = cr_header received; p = cr_payload received;
          is_e1 = (h AND 3 = 3 \<and> cr_length received = 9 \<and> p ! 0 = 0xe1);
          empty = (h AND 3 = 1 \<and> cr_length received = 0) in
      if \<not> is_e1 \<and> \<not> empty then (s, False, [LOG_AIR h p (unat (cr_length received))])
      else if \<not> ap_active (rl_air_parent s)
      then (if is_e1 \<and> first_e1_ok s c received sent
            then let s = take_parent s c received in (s, True, [air_control_report s 1 h (pp_header sent)])
            else (s, False, []))
      else if air_parent_current s c \<and> (empty \<or> take 9 p = ap_accepted_e1 (rl_air_parent s))
      then
        let (s, stage) = note_parent_ack s received sent;
            s = note_parent_rx s received;
            (s, returned) = return_parent s c stage
        in (s, True, (if stage \<noteq> 0 then [air_control_report s stage h (pp_header sent)] else [])
              @ (if returned then [air_control_report s 4 h (pp_header sent)] else []))
      else (s, False, []))"

definition ull_raw_receive_air_control :: "raw_llcp \<Rightarrow> controller \<Rightarrow> controller \<Rightarrow> ull_air_control_rx option \<Rightarrow>
    ull_parent_pdu option \<Rightarrow> raw_llcp \<times> bool \<times> raw_effect list" where
  "ull_raw_receive_air_control s c c2 received sent =
     (case (received, sent) of
        (Some received, Some sent) \<Rightarrow>
          if receive_refused received sent then (s, False, [])
          else
            let (s, eligible) = detached_eligible s c in
            if eligible then receive_detached s received sent else receive_parent s c2 received sent
      | _ \<Rightarrow> (s, False, []))"

section \<open>The message E2 over Air\<close>

text \<open>
  The peer of the link layer: the sequence bit it expects next and the control messages it accepted.
  It accepts a packet whose sequence bit is the expected one, and answers with an empty packet whose
  acknowledgement bit is the one it expects next.
\<close>

record air_peer =
  pe_expected :: u8
  pe_sn :: u8
  pe_got :: "bytes list"

definition peer_hear :: "air_peer \<Rightarrow> ull_parent_pdu \<Rightarrow> air_peer" where
  "peer_hear q pdu =
     (if hdr_sn (pp_header pdu) = pe_expected q
      then q\<lparr>pe_expected := pe_expected q XOR 1, pe_sn := hdr_nesn (pp_header pdu),
             pe_got := pe_got q @ (if pp_header pdu AND 3 = 3 then [take (unat (pp_length pdu)) (pp_payload pdu)] else [])\<rparr>
      else q\<lparr>pe_sn := hdr_nesn (pp_header pdu)\<rparr>)"

definition peer_reply :: "air_peer \<Rightarrow> ull_air_control_rx" where
  "peer_reply q = \<lparr>cr_present = 1, cr_header = 1 OR push_bit 2 (pe_expected q) OR push_bit 3 (pe_sn q),
     cr_length = 0, cr_payload = replicate 60 0\<rparr>"

text \<open>One frame: it may be lost, its answer may be lost, both may arrive, or the peer may answer without having
  received the frame intact.\<close>

inductive air_exchange :: "raw_llcp \<times> air_peer \<Rightarrow> raw_llcp \<times> air_peer \<Rightarrow> bool" where
  lost: "air_exchange (s, q) (s, q)"
| heard: "ull_raw_parent_air_pdu s c c2 True = (0, Some pdu, e) \<Longrightarrow> air_exchange (s, q) (s, peer_hear q pdu)"
| answered: "ull_raw_parent_air_pdu s c c2 True = (0, Some pdu, e) \<Longrightarrow>
    ull_raw_receive_air_control s c3 c4 (Some (peer_reply (peer_hear q pdu))) (Some pdu) = (s', ok, e') \<Longrightarrow>
    air_exchange (s, q) (s', peer_hear q pdu)"
| refused: "ull_raw_parent_air_pdu s c c2 True = (0, Some pdu, e) \<Longrightarrow>
    ull_raw_receive_air_control s c3 c4 (Some (peer_reply q)) (Some pdu) = (s', ok, e') \<Longrightarrow>
    air_exchange (s, q) (s', q)"

inductive_cases air_exchangeE: "air_exchange x y"

lemma parent_header_bits:
  assumes "bit_ok (ap_tx_sn p)" and "bit_ok (ap_rx_nesn p)"
  shows "hdr_sn (parent_header p b) = ap_tx_sn p" "hdr_nesn (parent_header p b) = ap_rx_nesn p"
    "parent_header p b AND 3 = (if b then 3 else 1)" "parent_header p b AND NOT 15 = 0"
  using assms by (auto simp: bit_ok_def parent_header_def hdr_sn_def hdr_nesn_def)

lemma reply_bits:
  assumes "bit_ok (pe_expected q)" and "bit_ok (pe_sn q)"
  shows "hdr_nesn (cr_header (peer_reply q)) = pe_expected q" "hdr_sn (cr_header (peer_reply q)) = pe_sn q"
    "cr_header (peer_reply q) AND 3 = 1" "cr_header (peer_reply q) AND 0xe0 = 0"
  using assms by (auto simp: bit_ok_def peer_reply_def hdr_sn_def hdr_nesn_def)

lemma poll_header_plain:
  "ull_raw_parent_poll_header s c True = (st, Some h) \<Longrightarrow> h AND 3 = 1 \<and> h AND NOT 15 = 0"
proof -
  assume "ull_raw_parent_poll_header s c True = (st, Some h)"
  then have h: "h = ucast (1 OR (drop_bit 10 (cs_word c (ct_lld c) 12) AND 12))"
    by (auto simp: ull_raw_parent_poll_header_def Let_def split: if_splits)
  let ?w = "1 OR (drop_bit 10 (cs_word c (ct_lld c) 12) AND 12)"
  have low: "n \<in> {0, 1, 2, 3, 4, 5, 6, 7}" if "possible_bit TYPE(u8) n" for n
    using that by (auto simp: possible_bit_word)
  have "bit (ucast ?w AND 3 :: u8) n = bit (1 :: u8) n" if "possible_bit TYPE(u8) n" for n
    using low [OF that] by (elim insertE emptyE; simp add: bit_simps bit_numeral_rec bit_1_iff)
  moreover have "bit (ucast ?w AND NOT 15 :: u8) n = bit (0 :: u8) n" if "possible_bit TYPE(u8) n" for n
    using low [OF that] by (elim insertE emptyE; simp add: bit_simps bit_numeral_rec bit_1_iff)
  ultimately show ?thesis unfolding h by (simp add: bit_eq_iff)
qed

definition air_inv :: "bytes \<Rightarrow> raw_llcp \<Rightarrow> air_peer \<Rightarrow> bool" where
  "air_inv m s q \<longleftrightarrow>
     (let p = rl_air_parent s in
      bit_ok (ap_tx_sn p) \<and> bit_ok (ap_rx_nesn p) \<and> bit_ok (pe_expected q) \<and> bit_ok (pe_sn q) \<and>
      (if ap_pending p
       then ap_active p \<and> \<not> rl_e2_confirmed s \<and> pp_length (ap_message p) = 68 \<and> pp_payload (ap_message p) = m \<and>
         ((pe_got q = [] \<and> pe_expected q = ap_tx_sn p) \<or> (pe_got q = [m] \<and> pe_expected q = ap_tx_sn p XOR 1))
       else pe_got q = [m]))"


lemma poll_pdu:
  assumes "ull_raw_parent_air_pdu s c c2 True = (0, Some pdu, e)"
  shows "if ap_active (rl_air_parent s) then air_parent_current s c \<and> pdu = air_pdu (rl_air_parent s)
    else pp_header pdu AND 3 = 1 \<and> pp_header pdu AND NOT 15 = 0 \<and> pp_length pdu = 0"
  using assms poll_header_plain
  by (auto simp: ull_raw_parent_air_pdu_def parent_pdu_zero_def split: if_splits option.splits prod.splits)
     (auto simp: ull_raw_parent_poll_header_def Let_def split: if_splits)

lemma air_pdu_fields [simp]:
  "pp_header (air_pdu p) = parent_header p (ap_pending p)"
  "pp_length (air_pdu p) = (if ap_pending p then pp_length (ap_message p) else 0)"
  by (simp_all add: air_pdu_def Let_def)

lemma air_pdu_payload:
  "ap_pending p \<Longrightarrow> pp_length (ap_message p) = 68 \<Longrightarrow> length (pp_payload (ap_message p)) = 68 \<Longrightarrow>
   pp_payload (air_pdu p) = pp_payload (ap_message p)"
  by (simp add: air_pdu_def Let_def memcpy_at_0)

lemma hear_inv:
  assumes inv: "air_inv m s q" and m: "length m = 68" and pdu: "ull_raw_parent_air_pdu s c c2 True = (0, Some pdu, e)"
  shows "air_inv m s (peer_hear q pdu)"
proof (cases "ap_pending (rl_air_parent s)")
  case True
  then have act: "ap_active (rl_air_parent s)" "pp_length (ap_message (rl_air_parent s)) = 68"
    "pp_payload (ap_message (rl_air_parent s)) = m" "bit_ok (ap_tx_sn (rl_air_parent s))" "bit_ok (ap_rx_nesn (rl_air_parent s))"
    using inv by (auto simp: air_inv_def Let_def)
  then have pdu': "pdu = air_pdu (rl_air_parent s)" using poll_pdu [OF pdu] by simp
  have pl: "take (unat (pp_length pdu)) (pp_payload pdu) = m"
    using air_pdu_payload [OF True] act m True by (simp add: pdu')
  have h: "hdr_sn (pp_header pdu) = ap_tx_sn (rl_air_parent s)" "hdr_nesn (pp_header pdu) = ap_rx_nesn (rl_air_parent s)"
    "pp_header pdu AND 3 = 3" using parent_header_bits [OF act(4,5), of True] True by (simp_all add: pdu')
  consider "pe_got q = []" "pe_expected q = ap_tx_sn (rl_air_parent s)"
    | "pe_got q = [m]" "pe_expected q = ap_tx_sn (rl_air_parent s) XOR 1"
    using inv True by (auto simp: air_inv_def Let_def)
  then show ?thesis
  proof cases
    case 1
    then have "peer_hear q pdu = q\<lparr>pe_expected := pe_expected q XOR 1, pe_sn := ap_rx_nesn (rl_air_parent s), pe_got := [m]\<rparr>"
      by (simp add: peer_hear_def h pl)
    then show ?thesis using inv True 1 act by (simp add: air_inv_def Let_def)
  next
    case 2
    then have "peer_hear q pdu = q\<lparr>pe_sn := ap_rx_nesn (rl_air_parent s)\<rparr>"
      using act(4) by (auto simp: peer_hear_def h bit_ok_def)
    then show ?thesis using inv True 2 act by (simp add: air_inv_def Let_def)
  qed
next
  case False
  have "pp_header pdu AND 3 = 1"
    using poll_pdu [OF pdu] inv False by (auto simp: air_inv_def Let_def parent_header_bits split: if_splits)
  then show ?thesis using inv False by (auto simp: air_inv_def Let_def peer_hear_def)
qed


lemma detached_keeps:
  "receive_detached s r sent = (s', ok, e) \<Longrightarrow> rl_air_parent s' = rl_air_parent s \<and> rl_e2_confirmed s' = rl_e2_confirmed s"
  by (auto simp: receive_detached_def detached_publish_def Let_def split: prod.splits)

lemma mask_bits:
  "eligibility_mask s c AND 1 = (if rl_parent_retired s then 1 else 0)"
  "eligibility_mask s c AND 2 = (if rl_detached_stereo s then 2 else 0)"
  "eligibility_mask s c AND 4 = (if ct_llc c = 0 then 4 else 0)"
  "eligibility_mask s c AND 8 = (if ct_lld c = 0 then 8 else 0)"
  "eligibility_mask s c AND 16 = (if rl_e2_confirmed s then 16 else 0)"
  "eligibility_mask s c AND 32 = (if \<not> rl_second_available s then 32 else 0)"
  "eligibility_mask s c AND 64 = (if \<not> rl_e1_expected s then 64 else 0)"
  "eligibility_mask s c AND 128 = (if \<not> rl_session_prepared s then 128 else 0)"
  "eligibility_mask s c AND 256 = (if \<not> rl_handed_off s then 256 else 0)"
  "eligibility_mask s c AND 512 = (if \<not> ap_pending (rl_air_parent s) then 512 else 0)"
  unfolding eligibility_mask_def bit.conj_disj_distrib2
  by (simp_all add: if_distrib [of "\<lambda>x. x AND _"] cong: if_cong)

lemma eligible_iff:
  "eligibility_mask s c = 1023 \<longleftrightarrow> rl_parent_retired s \<and> rl_detached_stereo s \<and> ct_llc c = 0 \<and> ct_lld c = 0 \<and>
     rl_e2_confirmed s \<and> \<not> rl_second_available s \<and> \<not> rl_e1_expected s \<and> \<not> rl_session_prepared s \<and>
     \<not> rl_handed_off s \<and> \<not> ap_pending (rl_air_parent s)" (is "?l \<longleftrightarrow> ?r")
proof
  assume ?l
  then show ?r using mask_bits [of s c] by (simp split: if_splits)
qed (simp add: eligibility_mask_def)

text \<open>The effect of an empty reply on the parent's state.\<close>

lemma empty_reply:
  assumes "ull_raw_receive_air_control s c3 c4 (Some (peer_reply q)) (Some pdu) = (s', ok, e)"
    and "bit_ok (pe_expected q)" and "bit_ok (pe_sn q)"
  shows "(rl_air_parent s' = rl_air_parent s \<and> rl_e2_confirmed s' = rl_e2_confirmed s) \<or>
    (ap_active (rl_air_parent s) \<and>
     (\<exists>t stage. note_parent_ack (s\<lparr>rl_detached_eligibility := rl_detached_eligibility s'\<rparr>) (peer_reply q) pdu = (t, stage) \<and>
        s' = fst (return_parent (note_parent_rx t (peer_reply q)) c4 stage)))"
proof (cases "receive_refused (peer_reply q) pdu \<or> eligibility_mask s c3 = 1023")
  case True
  then show ?thesis
    using assms(1) detached_keeps
    by (auto simp: ull_raw_receive_air_control_def detached_eligible_def Let_def split: if_splits)
next
  case False
  define r where "r = peer_reply q"
  have r: "cr_header r AND 3 = 1" "cr_length r = 0"
    using reply_bits [OF assms(2,3)] by (simp_all add: r_def peer_reply_def)
  define s1 where "s1 = s\<lparr>rl_detached_eligibility := eligibility_mask s c3\<rparr>"
  have run: "receive_parent s1 c4 r pdu = (s', ok, e)"
    using assms(1) False by (simp add: ull_raw_receive_air_control_def detached_eligible_def Let_def s1_def r_def)
  show ?thesis
  proof (cases "ap_active (rl_air_parent s) \<and> air_parent_current s1 c4")
    case False
    then have "s' = s1" using run r by (auto simp: receive_parent_def Let_def s1_def split: if_splits)
    then show ?thesis by (simp add: s1_def)
  next
    case True
    obtain t stage where t: "note_parent_ack s1 r pdu = (t, stage)" by (cases "note_parent_ack s1 r pdu") auto
    have s': "s' = fst (return_parent (note_parent_rx t r) c4 stage)"
      using run r True t by (auto simp: receive_parent_def Let_def s1_def split: prod.splits)
    have "rl_detached_eligibility s' = eligibility_mask s c3"
      using t by (auto simp: s' note_parent_ack_def note_parent_rx_def return_parent_def Let_def s1_def split: if_splits)
    then show ?thesis using True t s' by (auto simp: s1_def r_def)
  qed
qed


lemma reply_inv:
  assumes inv: "air_inv m s q" and m: "length m = 68" and pdu: "ull_raw_parent_air_pdu s c c2 True = (0, Some pdu, e)"
    and run: "ull_raw_receive_air_control s c3 c4 (Some (peer_reply q)) (Some pdu) = (s', ok, e')"
  shows "air_inv m s' q"
proof -
  have bits: "bit_ok (pe_expected q)" "bit_ok (pe_sn q)" using inv by (simp_all add: air_inv_def Let_def)
  from empty_reply [OF run bits] show ?thesis
  proof (elim disjE conjE exE)
    assume "rl_air_parent s' = rl_air_parent s" "rl_e2_confirmed s' = rl_e2_confirmed s"
    then show ?thesis using inv by (simp add: air_inv_def Let_def)
  next
    fix t stage
    let ?s1 = "s\<lparr>rl_detached_eligibility := rl_detached_eligibility s'\<rparr>"
    assume t: "note_parent_ack ?s1 (peer_reply q) pdu = (t, stage)"
      and s': "s' = fst (return_parent (note_parent_rx t (peer_reply q)) c4 stage)"
    have keep: "air_inv m (fst (return_parent (note_parent_rx u r) c4 k)) q"
      if "air_inv m u q" and "k = 3 \<longrightarrow> \<not> ap_pending (rl_air_parent u)" for u r k
      using that by (auto simp: air_inv_def note_parent_rx_def return_parent_def Let_def)
    have "air_inv m t q \<and> (stage = 3 \<longrightarrow> \<not> ap_pending (rl_air_parent t))"
    proof (cases "answers_pending (rl_air_parent s) pdu \<and> pe_expected q \<noteq> ap_tx_sn (rl_air_parent s)")
      case False
      then have "t = ?s1" "stage = 0"
        using t reply_bits [OF bits] by (auto simp: note_parent_ack_def Let_def split: if_splits)
      then show ?thesis using inv by (simp add: air_inv_def Let_def)
    next
      case True
      then have "t = (if ap_pending (rl_air_parent s)
          then ?s1\<lparr>rl_e2_confirmed := True, rl_air_parent := (rl_air_parent s)\<lparr>ap_tx_sn := ap_tx_sn (rl_air_parent s) XOR 1,
                 ap_pending := False, ap_message := parent_pdu_zero\<rparr>\<rparr>
          else ?s1\<lparr>rl_air_parent := (rl_air_parent s)\<lparr>ap_tx_sn := ap_tx_sn (rl_air_parent s) XOR 1\<rparr>\<rparr>)"
        "stage = (if ap_pending (rl_air_parent s) then 3 else 0)"
        using t reply_bits [OF bits] by (auto simp: note_parent_ack_def Let_def split: if_splits)
      then show ?thesis using inv True by (auto simp: air_inv_def Let_def split: if_splits)
    qed
    then show ?thesis unfolding s' by (intro keep) auto
  qed
qed

lemma exchange_inv:
  assumes "air_exchange\<^sup>*\<^sup>* (s, q) (s', q')" and "air_inv m s q" and "length m = 68"
  shows "air_inv m s' q'"
  using assms(1)
proof (induction rule: rtranclp_induct2)
  case refl
  then show ?case using assms(2) .
next
  case (step s1 q1 s2 q2)
  from step(2) show ?case
    by (cases rule: air_exchangeE) (use step(3) assms(3) hear_inv reply_inv in blast)+
qed

lemma committed_over_air:
  assumes "ull_raw_commit_session s0 c0 a (Some p) = (s, 0, e)" and "ap_active (rl_air_parent s0)"
    and "bit_ok (ap_tx_sn (rl_air_parent s0))" and "bit_ok (ap_rx_nesn (rl_air_parent s0))"
    and "pe_expected q = ap_tx_sn (rl_air_parent s0)" and "bit_ok (pe_sn q)" and "pe_got q = []"
  shows "air_inv (take 68 (pl_e2 p)) s q"
  using assms by (auto simp: ull_raw_commit_session_def air_inv_def Let_def split: prod.splits bool.splits if_splits)



section \<open>Control messages of the headset\<close>

text \<open>What reaches the host among the effects.\<close>

fun host_events :: "raw_effect list \<Rightarrow> raw_effect list" where
  "host_events [] = []"
| "host_events (CONSUMER_KEY k # es) = CONSUMER_KEY k # host_events es"
| "host_events (HEADSET_MIC_MUTE b # es) = HEADSET_MIC_MUTE b # host_events es"
| "host_events (e # es) = host_events es"

lemma host_events_parent:
  "receive_parent s c r sent = (s', ok, es) \<Longrightarrow> host_events es = []"
  by (auto simp: receive_parent_def air_control_report_def Let_def split: if_splits prod.splits)

lemma host_events_control: "host_events (control_effects h p n) = control_effects h p n \<and> length (control_effects h p n) \<le> 1"
  by (simp add: control_effects_def Let_def)

lemma fresh_accept:
  assumes "ull_parent_ack_receive d h p n sent len = (d', True)" and "accepted d' \<noteq> accepted d"
  shows "active d' \<and> rx_nesn d' = hdr_sn h XOR 1 \<and> pdu_data h p n"
  using assms
  by (cases rule: receive_cases [of d h p n sent len])
     (auto simp: count_fresh_def note_ack_def split: if_splits)

lemma repeated_not_fresh:
  assumes "active d" and "rx_nesn d = hdr_sn h XOR 1" and "ull_parent_ack_receive d h p n sent len = (d', ok)"
  shows "\<not> (ok \<and> accepted d' \<noteq> accepted d)"
proof -
  have "hdr_sn h \<noteq> rx_nesn d" using assms(2) bit_ok_hdr(1) [of h] by (auto simp: bit_ok_def)
  then show ?thesis using assms(1,3)
    by (cases rule: receive_cases [of d h p n sent len]) (auto simp: note_ack_def)
qed

text \<open>C22: A control message of the headset reaches the host once. A received parent packet causes at most one key
  press or microphone mute, and only when the parent connection has been retired, both pointers are gone,
  the stereo session is confirmed and no transaction is open; the packet then is new data, of one of the
  known shapes. If the same packet, or any packet with the same sequence bit, is received next, nothing
  reaches the host, whatever frame it answers.\<close>

theorem control_reported_once:
  assumes "ull_raw_receive_air_control s c c2 (Some r) (Some sent) = (s', ok, effects)" and "host_events effects \<noteq> []"
  shows "length (host_events effects) = 1 \<and> host_events effects = control_effects (cr_header r) (cr_payload r) (unat (cr_length r)) \<and>
    rl_parent_retired s \<and> rl_detached_stereo s \<and> ct_llc c = 0 \<and> ct_lld c = 0 \<and> rl_e2_confirmed s \<and> \<not> rl_second_available s \<and>
    \<not> rl_e1_expected s \<and> \<not> rl_session_prepared s \<and> \<not> rl_handed_off s \<and> \<not> ap_pending (rl_air_parent s) \<and>
    pdu_data (cr_header r) (Some (cr_payload r)) (unat (cr_length r)) \<and>
    (\<forall>r2 sent2 d d2. hdr_sn (cr_header r2) = hdr_sn (cr_header r) \<longrightarrow>
      host_events (snd (snd (ull_raw_receive_air_control s' d d2 (Some r2) (Some sent2)))) = [])"
proof -
  let ?n = "unat (cr_length r)"
  let ?s = "s\<lparr>rl_detached_eligibility := eligibility_mask s c\<rparr>"
  have el: "eligibility_mask s c = 1023" and run: "receive_detached ?s r sent = (s', ok, effects)"
    using assms host_events_parent
    by (auto simp: ull_raw_receive_air_control_def detached_eligible_def Let_def split: if_splits)
  obtain d' okd where d: "ull_parent_ack_receive (rl_detached s) (cr_header r) (Some (cr_payload r)) ?n (pp_header sent) (unat (pp_length sent)) = (d', okd)"
    by (cases "ull_parent_ack_receive (rl_detached s) (cr_header r) (Some (cr_payload r)) ?n (pp_header sent) (unat (pp_length sent))") auto
  have fresh: "okd" "accepted d' \<noteq> accepted (rl_detached s)"
    and eff: "host_events effects = control_effects (cr_header r) (cr_payload r) ?n" and s': "rl_detached s' = d'"
    using run assms(2) d host_events_control
    by (auto simp: receive_detached_def detached_publish_def Let_def split: if_splits)
  have acc: "active d'" "rx_nesn d' = hdr_sn (cr_header r) XOR 1" "pdu_data (cr_header r) (Some (cr_payload r)) ?n"
    using fresh_accept [OF _ fresh(2)] d fresh(1) by auto
  have again: "host_events (snd (snd (ull_raw_receive_air_control s' e e2 (Some r2) (Some sent2)))) = []"
    if sn: "hdr_sn (cr_header r2) = hdr_sn (cr_header r)" for r2 sent2 e e2
  proof (cases "receive_refused r2 sent2 \<or> eligibility_mask s' e \<noteq> 1023")
    case True
    obtain a b es where p: "receive_parent (s'\<lparr>rl_detached_eligibility := eligibility_mask s' e\<rparr>) e2 r2 sent2 = (a, b, es)"
      by (cases "receive_parent (s'\<lparr>rl_detached_eligibility := eligibility_mask s' e\<rparr>) e2 r2 sent2") auto
    show ?thesis using True host_events_parent [OF p] p
      by (auto simp: ull_raw_receive_air_control_def detached_eligible_def Let_def)
  next
    case False
    obtain d2 ok2 where d2: "ull_parent_ack_receive d' (cr_header r2) (Some (cr_payload r2)) (unat (cr_length r2)) (pp_header sent2)
        (unat (pp_length sent2)) = (d2, ok2)"
      by (cases "ull_parent_ack_receive d' (cr_header r2) (Some (cr_payload r2)) (unat (cr_length r2)) (pp_header sent2)
        (unat (pp_length sent2))") auto
    have "\<not> (ok2 \<and> accepted d2 \<noteq> accepted d')"
      by (rule repeated_not_fresh [OF acc(1) _ d2]) (simp add: acc(2) sn)
    then show ?thesis using False d2
      by (auto simp: ull_raw_receive_air_control_def detached_eligible_def receive_detached_def s' Let_def)
  qed
  show ?thesis
    using el again acc(3) eff assms(2) host_events_control [of "cr_header r" "cr_payload r" ?n]
    by (auto simp: eligible_iff le_Suc_eq)
qed

section \<open>The state machine\<close>

text \<open>Every operation of the file, with any view of the controller and any answers of the ROM.\<close>

inductive raw_step :: "raw_llcp \<Rightarrow> raw_llcp \<Rightarrow> bool" where
  prepare: "raw_step s (fst (ull_raw_prepare_session s c seed offset out))"
| prepare_second: "raw_step s (fst (ull_raw_prepare_second_stream s c0 c1 c2 first out))"
| reset: "raw_step s (fst (ull_raw_reset_sequence s))"
| receive_e1: "raw_step s (fst (ull_raw_receive_e1 s c ind dest coex))"
| tx_free: "raw_step s (fst (llcp_tx_free s memory off))"
| acked: "raw_step s (fst (acknowledged s us free link opcode))"
| send: "raw_step s (fst (ull_raw_send s c a opcode))"
| commit: "raw_step s (fst (ull_raw_commit_session s c a plan))"
| request: "raw_step s (fst (ull_raw_request_second_stream s c a plan))"
| retired: "raw_step s (ull_raw_parent_retired s)"
| probe: "raw_step s (ull_raw_control_probe_set s b)"
| auto_poll: "raw_step s (ull_raw_control_auto_set s b)"
| detached_pdu: "raw_step s (fst (ull_raw_detached_parent_air_pdu s c out))"
| receive_air: "raw_step s (fst (ull_raw_receive_air_control s c c2 r sent))"

definition session_inv :: "raw_llcp \<Rightarrow> bool" where
  "session_inv s \<longleftrightarrow> \<not> (rl_e1_expected s \<and> rl_e1_received s) \<and> (rl_session_prepared s \<longrightarrow> rl_e1_received s) \<and>
     (rl_e1_expected s \<or> rl_e1_received s \<longrightarrow>
        rl_session_llc s \<noteq> 0 \<and> rl_session_lld s \<noteq> 0 \<and> (rl_sent_e0 s ! 2 = 1 \<or> rl_sent_e0 s ! 2 = 2)) \<and>
     (rl_second_available s \<longrightarrow> rl_committed_llc s \<noteq> 0 \<and> rl_committed_lld s \<noteq> 0)"

definition parent_inv :: "raw_llcp \<Rightarrow> bool" where
  "parent_inv s \<longleftrightarrow> (let p = rl_air_parent s in
     bit_ok (ap_tx_sn p) \<and> bit_ok (ap_rx_nesn p) \<and> (ap_active p \<longrightarrow> ap_llc p \<noteq> 0 \<and> ap_lld p \<noteq> 0) \<and>
     (ap_pending p \<longrightarrow> ap_active p \<and> pp_length (ap_message p) = 68))"

definition raw_inv :: "raw_llcp \<Rightarrow> bool" where
  "raw_inv s \<longleftrightarrow> session_inv s \<and> parent_inv s \<and> (rl_handed_off s \<longrightarrow> pr_count (rl_held s) = 7)"

lemma raw_inv_start: "raw_inv raw_zero"
  by (simp add: raw_inv_def session_inv_def parent_inv_def raw_zero_def air_parent_zero_def bit_ok_def)

lemma clear_session_fields [simp]:
  "rl_air_parent (clear_session s) = rl_air_parent s" "rl_second_available (clear_session s) = rl_second_available s"
  "rl_committed_llc (clear_session s) = rl_committed_llc s" "rl_committed_lld (clear_session s) = rl_committed_lld s"
  "rl_e1_expected (clear_session s) = rl_e1_expected s" "rl_e1_received (clear_session s) = False"
  "rl_session_prepared (clear_session s) = False"
  by (simp_all add: clear_session_def)

lemma e0_message_kind: "e0_message b i ! 2 = (if b then 2 else 1)"
  by (simp add: e0_message_def e0_parameters_def)

lemma sent_update_inv:
  assumes "session_inv s" and "ct_llc c \<noteq> 0" and "ct_lld c \<noteq> 0"
    and "opcode = 0xe2 \<longrightarrow> \<not> rl_e1_expected s"
  shows "session_inv (sent_update s c a opcode plan)" "rl_air_parent (sent_update s c a opcode plan) = rl_air_parent s"
  using assms by (auto simp: sent_update_def session_inv_def Let_def e0_message_kind split: option.splits)

lemma guard_prepared:
  "send_guard s c 0xe2 plan = (0, checks) \<Longrightarrow> rl_session_prepared s"
  using guard_passed [of s c "0xe2" plan checks] current_plan [of s c plan checks] by auto

lemma session_inv_tx [simp]:
  "session_inv (s\<lparr>rl_held := h\<rparr>) = session_inv s" "session_inv (s\<lparr>rl_released_slots := n\<rparr>) = session_inv s"
  "session_inv (s\<lparr>rl_tail_ok := k\<rparr>) = session_inv s" "session_inv (s\<lparr>rl_handed_off := b\<rparr>) = session_inv s"
  "session_inv (s\<lparr>rl_air_parent := p\<rparr>) = session_inv s" "session_inv (s\<lparr>rl_e2_confirmed := b\<rparr>) = session_inv s"
  "session_inv (s\<lparr>rl_detached := d\<rparr>) = session_inv s" "session_inv (s\<lparr>rl_detached_eligibility := m\<rparr>) = session_inv s"
  "session_inv (s\<lparr>rl_detached_status := l\<rparr>) = session_inv s" "session_inv (s\<lparr>rl_detached_stereo := b\<rparr>) = session_inv s"
  "session_inv (s\<lparr>rl_control_probe_frames := m\<rparr>) = session_inv s" "session_inv (s\<lparr>rl_control_auto_poll := b\<rparr>) = session_inv s"
  "session_inv (s\<lparr>rl_parent_retired := b\<rparr>) = session_inv s" "session_inv (s\<lparr>rl_e4_confirmed := b\<rparr>) = session_inv s"
  "session_inv (s\<lparr>rl_e4_confirmed_us := us\<rparr>) = session_inv s"
  by (simp_all add: session_inv_def)

lemma reserved_inv:
  assumes inv: "raw_inv s" and run: "send_reserved s c a opcode plan = (s', code, status, effects)"
    and llc: "ct_llc c \<noteq> 0" "ct_lld c \<noteq> 0" "\<not> rl_handed_off s" and op: "opcode = 0xe2 \<longrightarrow> \<not> rl_e1_expected s"
  shows "raw_inv s'"
proof -
  note slots = reserved_slots_returned [OF run llc(3)]
  from run have "session_inv s' \<and> rl_air_parent s' = rl_air_parent s"
  proof (cases rule: reserved_cases)
    case (none freed h)
    have "session_inv s' = session_inv (s\<lparr>rl_held := rl_held s'\<rparr>)" "rl_air_parent s' = rl_air_parent (s\<lparr>rl_held := rl_held s'\<rparr>)"
      using none(4) by metis+
    then show ?thesis using inv by (simp add: raw_inv_def)
  next
    case (taken freed held timing)
    then show ?thesis using inv sent_update_inv [OF _ llc(1,2)] op by (simp add: raw_inv_def)
  qed (use inv in \<open>simp_all add: raw_inv_def\<close>)
  then show ?thesis using inv slots by (simp add: raw_inv_def parent_inv_def)
qed

lemma send_state:
  "fst (raw_send s c a opcode plan) = s \<or>
   (fst (send_guard s c opcode plan) = 0 \<and> fst (raw_send s c a opcode plan) = fst (send_reserved s c a opcode plan))"
  by (auto simp: raw_send_def Let_def split_def)

lemma send_inv: "raw_inv s \<Longrightarrow> raw_inv (fst (raw_send s c a opcode plan))"
proof -
  assume inv: "raw_inv s"
  obtain s1 code1 status eff where r: "send_reserved s c a opcode plan = (s1, code1, status, eff)"
    by (cases "send_reserved s c a opcode plan") auto
  show ?thesis
  proof (cases "fst (send_guard s c opcode plan) = 0")
    case True
    then obtain checks where g: "send_guard s c opcode plan = (0, checks)" by (cases "send_guard s c opcode plan") auto
    have "opcode = 0xe2 \<longrightarrow> \<not> rl_e1_expected s"
      using guard_prepared g inv by (auto simp: raw_inv_def session_inv_def)
    then have "raw_inv s1" using reserved_inv [OF inv r] guard_passed [OF g] by simp
    then show ?thesis using send_state [of s c a opcode plan] inv r by auto
  next
    case False
    then have "fst (raw_send s c a opcode plan) = s" using send_state [of s c a opcode plan] by blast
    then show ?thesis using inv by simp
  qed
qed

lemma parent_rx_inv:
  assumes "parent_inv s" and "note_parent_ack s r sent = (t, stage)"
  shows "parent_inv (fst (return_parent (note_parent_rx t r) c stage)) \<and>
    session_inv (fst (return_parent (note_parent_rx t r) c stage)) = session_inv s \<and>
    rl_handed_off (fst (return_parent (note_parent_rx t r) c stage)) = rl_handed_off s \<and>
    rl_held (fst (return_parent (note_parent_rx t r) c stage)) = rl_held s"
proof -
  have t: "parent_inv t \<and> session_inv t = session_inv s \<and> rl_handed_off t = rl_handed_off s \<and> rl_held t = rl_held s \<and>
      (stage = 3 \<longrightarrow> \<not> ap_pending (rl_air_parent t))"
    using assms by (auto simp: note_parent_ack_def parent_inv_def Let_def split: if_splits)
  define u where "u = note_parent_rx t r"
  have u: "parent_inv u \<and> session_inv u = session_inv s \<and> rl_handed_off u = rl_handed_off s \<and> rl_held u = rl_held s \<and>
      (stage = 3 \<longrightarrow> \<not> ap_pending (rl_air_parent u))"
    using t by (auto simp: u_def note_parent_rx_def parent_inv_def Let_def)
  then show ?thesis unfolding u_def [symmetric] by (auto simp: return_parent_def parent_inv_def Let_def)
qed

lemma receive_inv:
  assumes "raw_inv s"
  shows "raw_inv (fst (ull_raw_receive_air_control s c c2 r sent))"
proof -
  define s1 where "s1 = s\<lparr>rl_detached_eligibility := eligibility_mask s c\<rparr>"
  have inv: "raw_inv s1" using assms by (simp add: s1_def raw_inv_def parent_inv_def)
  have det: "raw_inv (fst (receive_detached s1 x y))" for x y
    using inv by (auto simp: receive_detached_def detached_publish_def raw_inv_def parent_inv_def Let_def split: prod.splits)
  have par: "raw_inv (fst (receive_parent s1 c2 x y))" for x y
  proof -
    have take: "raw_inv (take_parent s1 c2 x)" if "first_e1_ok s1 c2 x y"
      using that inv by (auto simp: first_e1_ok_def take_parent_def raw_inv_def session_inv_def parent_inv_def
          air_parent_zero_def Let_def)
    obtain t stage where t: "note_parent_ack s1 x y = (t, stage)" by (cases "note_parent_ack s1 x y") auto
    have "parent_inv s1" using inv by (simp add: raw_inv_def)
    note rx = parent_rx_inv [OF this t, of c2]
    have returned: "raw_inv (fst (return_parent (note_parent_rx t x) c2 stage))"
      using rx inv by (simp add: raw_inv_def)
    show ?thesis using take inv returned t by (auto simp: receive_parent_def Let_def split_def)
  qed
  show ?thesis
    using assms det par by (auto simp: ull_raw_receive_air_control_def detached_eligible_def s1_def [symmetric] Let_def split: option.splits)
qed

lemma raw_step_inv: "raw_step s t \<Longrightarrow> raw_inv s \<Longrightarrow> raw_inv t"
proof (induction rule: raw_step.induct)
  case (prepare s c seed offset out)
  then show ?case
    by (auto simp: ull_raw_prepare_session_def raw_inv_def session_inv_def parent_inv_def session_connection_valid_def Let_def
        dest: plan_for_current split: option.splits prod.splits)
next
  case (prepare_second s c0 c1 c2 first out)
  then show ?case
    by (auto simp: ull_raw_prepare_second_stream_def join_stream_def raw_inv_def session_inv_def parent_inv_def
        session_connection_valid_def Let_def dest!: plan_for_current split: option.splits prod.splits if_splits)
next
  case (reset s)
  then show ?case
    by (simp add: ull_raw_reset_sequence_def detached_publish_def clear_session_def raw_inv_def session_inv_def parent_inv_def
        air_parent_zero_def bit_ok_def Let_def)
next
  case (receive_e1 s c ind dest coex)
  then show ?case
    by (auto simp: ull_raw_receive_e1_def e1_expected_now_def raw_inv_def session_inv_def parent_inv_def Let_def split: option.splits)
next
  case (tx_free s memory off)
  then show ?case by (auto simp: llcp_tx_free_def raw_inv_def parent_inv_def Let_def)
next
  case (acked s us free link opcode)
  then show ?case by (auto simp: acknowledged_def raw_inv_def parent_inv_def Let_def)
next
  case (send s c a opcode)
  then show ?case using send_inv by (simp add: ull_raw_send_def)
next
  case (commit s c a plan)
  show ?case
  proof (cases "ap_active (rl_air_parent s)")
    case True
    then show ?thesis using commit
      by (auto simp: ull_raw_commit_session_def raw_inv_def session_inv_def parent_inv_def Let_def split: prod.splits option.splits bool.splits)
  next
    case False
    then show ?thesis using send_inv [OF commit] by (simp add: ull_raw_commit_session_def)
  qed
next
  case (request s c a plan)
  then show ?case using send_inv by (simp add: ull_raw_request_second_stream_def split: option.splits)
next
  case (detached_pdu s c out)
  then show ?case
    by (auto simp: ull_raw_detached_parent_air_pdu_def detached_eligible_def raw_inv_def parent_inv_def Let_def)
next
  case (receive_air s c c2 r sent)
  then show ?case by (rule receive_inv)
qed (auto simp: raw_inv_def parent_inv_def ull_raw_parent_retired_def ull_raw_control_probe_set_def ull_raw_control_auto_set_def)


text \<open>C24: The state of the link-layer transactions stays coherent over every sequence of operations, whatever the
  controller, the ROM and the peer answer: a reply E1 is never both awaited and received; a session is
  prepared only for a received E1, and then the connection of the request is known and the request was
  one of the two kinds; a second stream is on offer only with the connection of the first commit; a
  message is pending over Air only while the code answers for the parent, and is a whole E2; a message
  handed to the driver holds seven slots.\<close>

theorem transactions_coherent:
  assumes "raw_step\<^sup>*\<^sup>* raw_zero s"
  shows "\<not> (rl_e1_expected s \<and> rl_e1_received s) \<and> (rl_session_prepared s \<longrightarrow> rl_e1_received s) \<and>
    (rl_e1_received s \<longrightarrow> rl_session_llc s \<noteq> 0 \<and> rl_session_lld s \<noteq> 0 \<and> rl_sent_e0 s ! 2 \<in> {1, 2}) \<and>
    (rl_second_available s \<longrightarrow> rl_committed_llc s \<noteq> 0 \<and> rl_committed_lld s \<noteq> 0) \<and>
    (ap_pending (rl_air_parent s) \<longrightarrow> ap_active (rl_air_parent s) \<and> pp_length (ap_message (rl_air_parent s)) = 68) \<and>
    ap_tx_sn (rl_air_parent s) \<in> {0, 1} \<and> ap_rx_nesn (rl_air_parent s) \<in> {0, 1} \<and>
    (rl_handed_off s \<longrightarrow> pr_count (rl_held s) = 7)"
proof -
  from assms have "raw_inv s"
    by (induction rule: rtranclp_induct) (auto intro: raw_inv_start raw_step_inv)
  then show ?thesis by (auto simp: raw_inv_def session_inv_def parent_inv_def bit_ok_def Let_def)
qed


lemma transactions_coherent_witness:
  "raw_step\<^sup>*\<^sup>* raw_zero (fst (ull_raw_reset_sequence raw_zero)) \<and>
   \<not> (rl_e1_expected (fst (ull_raw_reset_sequence raw_zero)) \<and> rl_e1_received (fst (ull_raw_reset_sequence raw_zero)))"
proof -
  have "raw_step\<^sup>*\<^sup>* raw_zero (fst (ull_raw_reset_sequence raw_zero))"
    by (rule r_into_rtranclp, rule raw_step.reset)
  then show ?thesis using transactions_coherent by blast
qed

section \<open>Examples\<close>

definition ex_retired :: raw_llcp where
  "ex_retired = raw_zero\<lparr>rl_parent_retired := True, rl_detached_stereo := True, rl_e2_confirmed := True\<rparr>"

definition ex_wheel :: ull_air_control_rx where
  "ex_wheel = \<lparr>cr_present = 1, cr_header = 2, cr_length = 10, cr_payload = [6, 0, 1, 1, 10, 1, 0, 1, 0, 2] @ replicate 50 0\<rparr>"

lemma ex_wheel_received:
  "\<exists>s'. ull_raw_receive_air_control ex_retired (ex_controller\<lparr>ct_llc := 0, ct_lld := 0\<rparr>) ex_controller (Some ex_wheel) (Some parent_pdu_zero) =
     (s', True, [LOG_AIR 2 (cr_payload ex_wheel) 10, CONSUMER_KEY ULL_USB_VOLUME_UP])"
proof -
  have "eligibility_mask ex_retired (ex_controller\<lparr>ct_llc := 0, ct_lld := 0\<rparr>) = 1023"
    by (simp add: eligible_iff ex_retired_def raw_zero_def air_parent_zero_def)
  moreover have "ull_parent_ack_receive ull_parent_ack_reset 2 (Some (cr_payload ex_wheel)) 10 0 0 =
      (ull_parent_ack_reset\<lparr>active := True, tx_sn := 0, rx_nesn := 1, accepted := 1\<rparr>, True)"
    by (simp add: ull_parent_ack_receive_def ex_wheel_def pdu_data_def pdu_wheel_def pdu_empty_def ull_parent_ack_wheel_def
        ull_parent_ack_reset_def hdr_nesn_def hdr_sn_def)
  ultimately show ?thesis
    by (simp add: ull_raw_receive_air_control_def detached_eligible_def receive_detached_def receive_refused_def Let_def
        parent_pdu_zero_def detached_publish_def)
      (simp add: ex_wheel_def ex_retired_def raw_zero_def control_effects_def ull_parent_ack_wheel_def ull_parent_ack_reset_def)
qed

lemma control_reported_once_witness:
  "\<exists>s' effects. ull_raw_receive_air_control ex_retired (ex_controller\<lparr>ct_llc := 0, ct_lld := 0\<rparr>) ex_controller (Some ex_wheel) (Some parent_pdu_zero) =
     (s', True, effects) \<and> host_events effects = [CONSUMER_KEY ULL_USB_VOLUME_UP] \<and>
     host_events (snd (snd (ull_raw_receive_air_control s' (ex_controller\<lparr>ct_llc := 0, ct_lld := 0\<rparr>) ex_controller (Some ex_wheel)
       (Some parent_pdu_zero)))) = []"
proof -
  obtain s' where r: "ull_raw_receive_air_control ex_retired (ex_controller\<lparr>ct_llc := 0, ct_lld := 0\<rparr>) ex_controller (Some ex_wheel)
      (Some parent_pdu_zero) = (s', True, [LOG_AIR 2 (cr_payload ex_wheel) 10, CONSUMER_KEY ULL_USB_VOLUME_UP])"
    using ex_wheel_received by blast
  have h: "host_events [LOG_AIR 2 (cr_payload ex_wheel) 10, CONSUMER_KEY ULL_USB_VOLUME_UP] = [CONSUMER_KEY ULL_USB_VOLUME_UP]"
    by simp
  have "host_events (snd (snd (ull_raw_receive_air_control s' (ex_controller\<lparr>ct_llc := 0, ct_lld := 0\<rparr>) ex_controller (Some ex_wheel)
       (Some parent_pdu_zero)))) = []"
    using control_reported_once [OF r, unfolded h] by blast
  then show ?thesis using r h by metis
qed

definition ex_second :: "ull_air_session_plan \<Rightarrow> raw_llcp" where
  "ex_second p = (ex_session_state p)\<lparr>rl_sent_e0 := e0_message True 0x0110, rl_received_e1 := 0xe1 # block 31 8 (e0_message True 0x0110),
     rl_air_parent := air_parent_zero\<lparr>ap_active := True, ap_llc := 0x1000, ap_lld := 0x2000, ap_tx_sn := 1\<rparr>\<rparr>"

definition ex_seed2 :: ull_air_session_seed where "ex_seed2 = ex_seed\<lparr>sd_receive_enabled := 0\<rparr>"

lemma ex_second_built:
  "\<exists>p. ull_air_session_plan_build True (Some (e0_message True 0x0110)) (Some (0xe1 # block 31 8 (e0_message True 0x0110)))
     (Some ex_anchor) (Some ex_seed2) 2000 = Inr p"
proof -
  have "\<not> plan_refused (e0_message True 0x0110) (0xe1 # block 31 8 (e0_message True 0x0110)) ex_anchor ex_seed2 2000"
    by (simp add: plan_refused_def ex_session e0_message_def ex_seed2_def put16_def e0_expected_def block_def CLOCK_MASK_def)
  moreover have "channels_used (sd_channel_map ex_seed2) = 37"
    by (simp add: channels_used_def ex_seed_def ex_seed2_def upt_rec drop_bit_eq_div)
  moreover have "get16 (e0_message True 0x0110) 37 - an_event_counter ex_anchor = 6"
    by (simp add: get16_def ex_session e0_message_def put16_def)
  ultimately show ?thesis using plan_build_cases by auto
qed


lemma seed_of_built:
  assumes "ull_air_session_plan_build True (Some pr) (Some re) (Some an) (Some d) off = Inr p"
    and "length (sd_channel_map d) = 5" and "length (sd_iv d) = 8" and "length (sd_key d) = 16"
  shows "seed_of_plan p = d" "pl_offset_us p = off" "length (pl_e2 p) = 68"
proof -
  have p: "pl_offset_us p = off" "pl_e2 p = plan_e2 pr d off (get16 pr 37)"
    "pl_access_address p = sd_access_address d" "pl_event_counter p = sd_event_counter d"
    using assms(1) unfolding plan_build_cases by simp_all
  note img = plan_e2_image [OF assms(2-4), of pr off "get16 pr 37", folded p(2)]
  have "pl_e2 p ! 18 = sd_receive_enabled d" "block 19 5 (pl_e2 p) = sd_channel_map d"
    "block 44 8 (pl_e2 p) = sd_iv d" "block 52 16 (pl_e2 p) = sd_key d" "length (pl_e2 p) = 68"
    unfolding img using assms(2-4) by (simp_all add: block_def put32_bytes put24_def put16_def)
  then show "seed_of_plan p = d" "pl_offset_us p = off" "length (pl_e2 p) = 68"
    using p by (simp_all add: seed_of_plan_def)
qed

lemma ex_second_current:
  assumes p: "ull_air_session_plan_build True (Some (e0_message True 0x0110)) (Some (0xe1 # block 31 8 (e0_message True 0x0110)))
     (Some ex_anchor) (Some ex_seed2) 2000 = Inr p"
  shows "\<exists>e. prepared_plan_current (ex_second p) ex_controller (Some p) = (True, e)" "air_parent_current (ex_second p) ex_controller"
proof -
  let ?s = "ex_second p"
  have f: "rl_session_llc ?s = 0x1000" "rl_session_lld ?s = 0x2000" "rl_e1_received ?s" "rl_e0_sent_us ?s = 0" "rl_session_prepared ?s"
    "rl_prepared_plan ?s = p" "rl_sent_e0 ?s = e0_message True 0x0110" "rl_received_e1 ?s = 0xe1 # block 31 8 (e0_message True 0x0110)"
    "rl_origin_anchor ?s = ex_anchor"
    by (simp_all add: ex_second_def ex_session_state_def raw_zero_def)
  have "session_connection_valid ?s ex_controller"
    by (simp add: session_connection_valid_def f ex_fields ex_idle)
  then have "\<exists>e. plan_for_current_anchor ?s ex_controller ex_seed2 2000 = (Some p, e)"
    using p by (simp add: plan_for_current_anchor_def ex_anchor_read original_plan_def advanced_plan_def plans_agree_def
        f plan_of_def same_plan_eq Let_def)
  then show "\<exists>e. prepared_plan_current ?s ex_controller (Some p) = (True, e)"
    using seed_of_built [OF p] by (auto simp: prepared_plan_current_def same_plan_eq f ex_seed2_def ex_seed_def)
  show "air_parent_current ?s ex_controller"
    by (simp add: air_parent_current_def parent_sequence_def ex_second_def air_parent_zero_def ex_fields ex_idle)
      (simp add: ex_controller_def ex_memory_def cs_word_def)
qed

definition ex_peer :: air_peer where "ex_peer = \<lparr>pe_expected = 1, pe_sn = 0, pe_got = []\<rparr>"


end
