(* ===== verification/RadioTx.thy ===== *)
theory RadioTx
  imports AirFeedback AirEvent RadioProgram PhyPacket
begin

text \<open>
  Model of \<^verbatim>\<open>firmware/radio/src/radio_tx.c\<close>: one scheduled transmission at a time, with its
  receive window and, for a repeated frame, two further programs. The state has three parts: the
  structure \<open>tx\<close> of the code, the diagnostic snapshots, and the hardware: the three radio registers,
  the control structures and descriptors in exchange memory that the code borrows, and what it reads
  of the scheduler. The routines in ROM are an argument, a record of functions on the hardware; the
  address of \<open>tx\<close>, the window option of the configuration and the readings of the clock, in the order in
  which they are taken, are fields of that record.
\<close>

section \<open>Results and requests\<close>

datatype tx_phase = ULL_TX_IDLE | ULL_TX_QUEUED | ULL_TX_ACTIVE | ULL_TX_ABORTING | ULL_TX_ENDED
  | ULL_TX_CANCELLED | ULL_TX_REFUSED | ULL_TX_FAULT

definition ULL_TX_SCHEDULE_CONFLICT :: u8 where "ULL_TX_SCHEDULE_CONFLICT = 0x80"
definition ULL_TX_TIME_EXPIRED :: u8 where "ULL_TX_TIME_EXPIRED = 0x81"

record ull_radio_tx_request =
  rq_start_hs :: u32
  rq_start_hus :: u16
  rq_access_address :: u32
  rq_crc_init :: u32
  rq_payload :: "bytes option"
  rq_length :: nat
  rq_channel :: u8
  rq_header :: u8
  rq_phy :: u8
  rq_receive_us :: u16
  rq_tx_receive_us :: u16
  rq_followup_delay_us :: u16
  rq_followup_window_us :: u16
  rq_followup_channel :: u8
  rq_prequeued_reply :: u8
  rq_repeat_payload :: u8

record ull_radio_tx_result =
  rs_phase :: tx_phase
  rs_end_hs :: u32
  rs_tx_count :: u16
  rs_callback_reason :: u8
  rs_fault_detail :: u8
  rs_deadline_fired :: u8
  rs_test_configured :: u32
  rs_test_programmed :: u32
  rs_test_at_callback :: u32
  rs_rx_timing_before :: u32
  rs_rx_timing_active :: u32
  rs_rx_timing_callback :: u32
  rs_rx_timing_restored :: u32
  rs_sequence_before :: u32
  rs_sequence_active :: u32
  rs_sequence_callback :: u32
  rs_sequence_restored :: u32
  rs_supplied_prefix :: bytes
  rs_rx_callbacks :: u16
  rs_tx_callbacks :: u16
  rs_rx_freed :: u16
  rs_rx_snapshots :: u8
  rs_rx_invalid :: u8
  rs_deadline_hs :: u32
  rs_abort_control :: u32
  rs_deadline_hus :: u16
  rs_abort_checks :: u8
  rs_followup_status :: u8
  rs_followup_hs :: u32
  rs_first_end_hs :: u32
  rs_followup_hus :: u16
  rs_first_end_hus :: u16
  rs_rx :: "ull_radio_rx_snapshot list"

definition snapshot_zero :: ull_radio_rx_snapshot where
  "snapshot_zero = \<lparr>sn_hs = 0, sn_hus = 0, sn_descriptor = replicate 10 0, sn_copied = 0, sn_payload = replicate 64 0\<rparr>"

definition result_zero :: ull_radio_tx_result where
  "result_zero = \<lparr>rs_phase = ULL_TX_IDLE, rs_end_hs = 0, rs_tx_count = 0, rs_callback_reason = 0, rs_fault_detail = 0,
     rs_deadline_fired = 0, rs_test_configured = 0, rs_test_programmed = 0, rs_test_at_callback = 0,
     rs_rx_timing_before = 0, rs_rx_timing_active = 0, rs_rx_timing_callback = 0, rs_rx_timing_restored = 0,
     rs_sequence_before = 0, rs_sequence_active = 0, rs_sequence_callback = 0, rs_sequence_restored = 0,
     rs_supplied_prefix = replicate 8 0, rs_rx_callbacks = 0, rs_tx_callbacks = 0, rs_rx_freed = 0,
     rs_rx_snapshots = 0, rs_rx_invalid = 0, rs_deadline_hs = 0, rs_abort_control = 0, rs_deadline_hus = 0,
     rs_abort_checks = 0, rs_followup_status = 0, rs_followup_hs = 0, rs_first_end_hs = 0,
     rs_followup_hus = 0, rs_first_end_hus = 0, rs_rx = replicate 3 snapshot_zero\<rparr>"

section \<open>State\<close>

datatype frame_callback = NO_CALLBACK | FRAME_DONE | FOREIGN_CALLBACK

record tx_arb =
  ta_hs :: u32
  ta_hus :: u32
  ta_limit_hs :: u32
  ta_duration_hus :: u32

record tx_program =
  tp_callback :: frame_callback
  tp_hs :: u32
  tp_hus :: u32
  tp_duration_hus :: u32
  tp_context :: u32
  tp_priority :: u8
  tp_mode :: u8
  tp_cs :: u8

definition arb_zero :: tx_arb where "arb_zero = \<lparr>ta_hs = 0, ta_hus = 0, ta_limit_hs = 0, ta_duration_hus = 0\<rparr>"

definition tx_program_zero :: tx_program where
  "tx_program_zero = \<lparr>tp_callback = NO_CALLBACK, tp_hs = 0, tp_hus = 0, tp_duration_hus = 0, tp_context = 0,
     tp_priority = 0, tp_mode = 0, tp_cs = 0\<rparr>"

record tx_state =
  x_arb :: tx_arb
  x_alarm_hs :: u32
  x_program :: tx_program
  x_reply_program :: tx_program
  x_stop_program :: tx_program
  x_result :: ull_radio_tx_result
  x_activity_parameters :: u32
  x_reply_parameters :: u32
  x_stop_parameters :: u32
  x_saved_repeat_descriptor :: "u16 list"
  x_saved_cs :: "u16 list"
  x_saved_descriptor :: "u16 list"
  x_payload_offset :: u16
  x_saved_reply_cs :: "u16 list"
  x_saved_stop_cs :: "u16 list"
  x_saved_test_bits :: u32
  x_saved_enable :: u32
  x_saved_rx_timing :: u32
  x_rx_timing_set :: bool
  x_program_index :: u8
  x_format :: u8
  x_reply_index :: u8
  x_stop_index :: u8
  x_alarm_set :: bool
  x_globals_set :: bool
  x_storage_set :: bool
  x_followup_pending :: bool
  x_followup_active :: bool
  x_followup_window_us :: u16
  x_followup_channel :: u8
  x_phy :: u8
  x_prequeued_reply :: bool
  x_first_ended :: bool
  x_reply_ended :: bool
  x_stop_ended :: bool
  x_stop_abort_requested :: bool
  x_repeat_payload :: bool

text \<open>The structure after \<^verbatim>\<open>memset\<close> with \<^verbatim>\<open>program_index = 255\<close>, which is also its initial value.\<close>

definition tx_zero :: tx_state where
  "tx_zero = \<lparr>x_arb = arb_zero, x_alarm_hs = 0, x_program = tx_program_zero, x_reply_program = tx_program_zero,
     x_stop_program = tx_program_zero, x_result = result_zero, x_activity_parameters = 0, x_reply_parameters = 0,
     x_stop_parameters = 0, x_saved_repeat_descriptor = replicate 7 0, x_saved_cs = replicate 45 0,
     x_saved_descriptor = replicate 7 0, x_payload_offset = 0, x_saved_reply_cs = replicate 45 0,
     x_saved_stop_cs = replicate 45 0, x_saved_test_bits = 0, x_saved_enable = 0, x_saved_rx_timing = 0,
     x_rx_timing_set = False, x_program_index = 255, x_format = 0, x_reply_index = 0, x_stop_index = 0,
     x_alarm_set = False, x_globals_set = False, x_storage_set = False, x_followup_pending = False,
     x_followup_active = False, x_followup_window_us = 0, x_followup_channel = 0, x_phy = 0,
     x_prequeued_reply = False, x_first_ended = False, x_reply_ended = False, x_stop_ended = False,
     x_stop_abort_requested = False, x_repeat_payload = False\<rparr>"

record radio_trace =
  tr_rows :: "u32 list"
  tr_records :: nat
  tr_enabled :: bool
  tr_insert_pending :: bool
  tr_insert_cancelled :: bool
  tr_insert :: "u32 list"
  tr_failure :: "u32 list"
  tr_power :: "u32 list"

definition trace_zero :: radio_trace where
  "trace_zero = \<lparr>tr_rows = replicate 160 0, tr_records = 0, tr_enabled = True, tr_insert_pending = False,
     tr_insert_cancelled = False, tr_insert = replicate 8 0, tr_failure = replicate 10 0, tr_power = [0, 0]\<rparr>"

datatype arb_owner = NOBODY | OURS | FOREIGN

record tx_entry =
  en_hs :: u32
  en_callback :: frame_callback
  en_context :: u32
  en_used :: u8

text \<open>The hardware; \<open>hw_rest\<close> is whatever else the routines in ROM keep.\<close>

record 'x radio_hw =
  hw_control :: u32
  hw_test :: u32
  hw_timing :: u32
  hw_cs :: "nat \<Rightarrow> u16 list"
  hw_descriptor :: "nat \<Rightarrow> u16 list"
  hw_event :: "u8 \<Rightarrow> u16"
  hw_payload :: "u16 \<Rightarrow> nat \<Rightarrow> u8"
  hw_active :: arb_owner
  hw_head :: bool
  hw_entries :: "u8 \<Rightarrow> tx_entry"
  hw_consumer :: u8
  hw_producer :: u8
  hw_queued :: u8
  hw_prog_delay :: u8
  hw_view :: controller_view
  hw_tables :: bool
  hw_rx_checker :: bool
  hw_rx_slot :: u8
  hw_rx_descriptor :: "u8 \<Rightarrow> u16 list"
  hw_rest :: 'x

record 'x radio =
  r_tx :: tx_state
  r_trace :: radio_trace
  r_hw :: "'x radio_hw"
  r_reads :: nat

record 'x radio_rom =
  rm_insert :: "'x radio_hw \<Rightarrow> tx_arb \<Rightarrow> 'x radio_hw \<times> u8"
  rm_remove :: "'x radio_hw \<Rightarrow> u8 \<Rightarrow> 'x radio_hw \<times> u8"
  rm_push :: "'x radio_hw \<Rightarrow> tx_program \<Rightarrow> 'x radio_hw"
  rm_alarm_set :: "'x radio_hw \<Rightarrow> u32 \<Rightarrow> 'x radio_hw"
  rm_alarm_clear :: "'x radio_hw \<Rightarrow> 'x radio_hw"
  rm_alloc :: "'x radio_hw \<Rightarrow> 'x radio_hw \<times> u16"
  rm_free :: "'x radio_hw \<Rightarrow> u16 \<Rightarrow> 'x radio_hw"
  rm_antenna :: "'x radio_hw \<Rightarrow> u8 \<Rightarrow> u8 \<Rightarrow> u8 \<times> u8"
  rm_power :: "'x radio_hw \<Rightarrow> u8 \<Rightarrow> u8 \<Rightarrow> 'x radio_hw"
  rm_rx_ready :: "'x radio_hw \<Rightarrow> u8 \<Rightarrow> bool"
  rm_rx_free :: "'x radio_hw \<Rightarrow> 'x radio_hw"
  rm_rx_capacity :: "'x radio_hw \<Rightarrow> nat"
  rm_clock :: "nat \<Rightarrow> radio_time"
  rm_context :: u32
  rm_window_option :: u8

definition on_tx :: "(tx_state \<Rightarrow> tx_state) \<Rightarrow> 'x radio \<Rightarrow> 'x radio" where
  "on_tx f s = s\<lparr>r_tx := f (r_tx s)\<rparr>"

definition on_result :: "(ull_radio_tx_result \<Rightarrow> ull_radio_tx_result) \<Rightarrow> 'x radio \<Rightarrow> 'x radio" where
  "on_result f s = s\<lparr>r_tx := (r_tx s)\<lparr>x_result := f (x_result (r_tx s))\<rparr>\<rparr>"

definition on_hw :: "('x radio_hw \<Rightarrow> 'x radio_hw) \<Rightarrow> 'x radio \<Rightarrow> 'x radio" where
  "on_hw f s = s\<lparr>r_hw := f (r_hw s)\<rparr>"

definition on_trace :: "(radio_trace \<Rightarrow> radio_trace) \<Rightarrow> 'x radio \<Rightarrow> 'x radio" where
  "on_trace f s = s\<lparr>r_trace := f (r_trace s)\<rparr>"

definition tx_phase_of :: "'x radio \<Rightarrow> tx_phase" where "tx_phase_of s = rs_phase (x_result (r_tx s))"

definition set_tx_phase :: "tx_phase \<Rightarrow> 'x radio \<Rightarrow> 'x radio" where
  "set_tx_phase p = on_result (\<lambda>r. r\<lparr>rs_phase := p\<rparr>)"

definition fault :: "u8 \<Rightarrow> 'x radio \<Rightarrow> 'x radio" where
  "fault detail = on_result (\<lambda>r. r\<lparr>rs_fault_detail := detail, rs_phase := ULL_TX_FAULT\<rparr>)"

section \<open>Constants\<close>

definition ACTIVITY :: nat where "ACTIVITY = 1"
definition HANDLE :: u8 where "HANDLE = 0xee"
definition TX_FORMAT :: u8 where "TX_FORMAT = 2"
definition TEST_ENABLE :: u32 where "TEST_ENABLE = 0x00004000"
definition RADIO_ABORT :: u32 where "RADIO_ABORT = 0x04000000"
definition TEST_BITS :: u32 where "TEST_BITS = 0x08003800"
definition ULL_RX_TIMING_FIELD_ADD :: u32 where "ULL_RX_TIMING_FIELD_ADD = 0"
definition ULL_TX_PATH_FIELD_ADD :: u32 where "ULL_TX_PATH_FIELD_ADD = 24"

section \<open>Ownership\<close>

definition ull_radio_tx_min_lead :: "'x radio_hw \<Rightarrow> u32" where
  "ull_radio_tx_min_lead h = (if hw_prog_delay h \<noteq> 0 then ucast (hw_prog_delay h) + 2 else 8)"

definition tx_parameters_for :: "controller_view \<Rightarrow> nat \<Rightarrow> u8 \<Rightarrow> u32" where
  "tx_parameters_for v slot handle =
     (if \<not> valid (cv_llm_env v) 12 then 0
      else
        let activities = mem32 v (cv_llm_env v + 8) in
        if \<not> valid activities (68 * 6) then 0
        else
          let activity = activities + 68 * of_nat slot; parameters = mem32 v activity in
          if cv_mem v (activity + 64) \<noteq> 1 \<or> \<not> valid parameters 1 \<or> cv_mem v parameters \<noteq> handle \<or>
             cv_adv_env v slot \<noteq> 0 \<or> cv_con_env v slot \<noteq> 0
          then 0 else parameters)"

definition tx_activity_parameters :: "'x radio_hw \<Rightarrow> u32" where
  "tx_activity_parameters h = tx_parameters_for (hw_view h) ACTIVITY HANDLE"

definition tx_active_is_ours :: "'x radio_hw \<Rightarrow> bool" where
  "tx_active_is_ours h \<longleftrightarrow> hw_active h = OURS"

definition tx_entry_is_ours :: "'x radio_hw \<Rightarrow> u8 \<Rightarrow> tx_program \<Rightarrow> bool \<Rightarrow> bool" where
  "tx_entry_is_ours h index p require_consumer \<longleftrightarrow>
     index < 16 \<and> (\<not> require_consumer \<or> hw_consumer h = index) \<and>
     en_used (hw_entries h index) \<noteq> 0 \<and> en_callback (hw_entries h index) = tp_callback p \<and>
     en_context (hw_entries h index) = tp_context p \<and> en_hs (hw_entries h index) = tp_hs p"

definition tx_program_is_ours :: "'x radio_hw \<Rightarrow> tx_state \<Rightarrow> bool \<Rightarrow> bool" where
  "tx_program_is_ours h x require_consumer \<longleftrightarrow>
     tx_entry_is_ours h (x_program_index x) (x_program x) require_consumer \<or>
     (x_prequeued_reply x \<and> tx_entry_is_ours h (x_reply_index x) (x_reply_program x) require_consumer) \<or>
     (x_repeat_payload x \<and> tx_entry_is_ours h (x_stop_index x) (x_stop_program x) require_consumer)"

definition parameters_kept :: "'x radio \<Rightarrow> bool" where
  "parameters_kept s \<longleftrightarrow> tx_activity_parameters (r_hw s) = x_activity_parameters (r_tx s) \<and>
     (x_prequeued_reply (r_tx s) \<longrightarrow> tx_parameters_for (hw_view (r_hw s)) 2 0xef = x_reply_parameters (r_tx s)) \<and>
     (x_repeat_payload (r_tx s) \<longrightarrow> tx_parameters_for (hw_view (r_hw s)) 3 0xed = x_stop_parameters (r_tx s))"


section \<open>Traces\<close>

definition radio_now :: "'x radio_rom \<Rightarrow> 'x radio \<Rightarrow> radio_time" where
  "radio_now rom s = rm_clock rom (r_reads s)"

definition clock_read :: "'x radio \<Rightarrow> 'x radio" where "clock_read s = s\<lparr>r_reads := r_reads s + 1\<rparr>"

text \<open>The signed distance from a requested time in half-microseconds, as the 32-bit value the code keeps.\<close>

definition coarse_distance :: "u32 \<Rightarrow> u32 \<Rightarrow> int" where
  "coarse_distance now_hs hs = uint (((now_hs - hs) + 0x08000000) AND CLOCK_MASK) - 0x08000000"

definition request_relative :: "radio_time \<Rightarrow> u32 \<Rightarrow> u32 \<Rightarrow> u32" where
  "request_relative now hs hus = word_of_int (coarse_distance (rt_hs now) hs * 625 + uint (rt_hus now) - uint hus)"

definition insert_relative :: "tx_state \<Rightarrow> radio_time \<Rightarrow> u32" where
  "insert_relative x now = request_relative now (ta_hs (x_arb x)) (ta_hus (x_arb x))"

definition record_retry_failure :: "u32 list \<Rightarrow> 'x radio \<Rightarrow> 'x radio" where
  "record_retry_failure values s =
     (if tr_failure (r_trace s) ! 0 \<noteq> 0 then s else on_trace (\<lambda>t. t\<lparr>tr_failure := 1 # values\<rparr>) s)"

definition ull_radio_tx_retry_trace_enable :: "bool \<Rightarrow> 'x radio \<Rightarrow> 'x radio" where
  "ull_radio_tx_retry_trace_enable enabled = on_trace (\<lambda>t. t\<lparr>tr_enabled := enabled\<rparr>)"

definition ull_radio_tx_power_snapshot :: "'x radio \<Rightarrow> u32 list" where
  "ull_radio_tx_power_snapshot s = tr_power (r_trace s)"

definition ull_radio_tx_insert_snapshot :: "'x radio \<Rightarrow> u32 list" where
  "ull_radio_tx_insert_snapshot s = tr_insert (r_trace s)"

definition ull_radio_tx_retry_failure :: "'x radio \<Rightarrow> u32 list" where
  "ull_radio_tx_retry_failure s = tr_failure (r_trace s)"

definition ull_radio_tx_retry_snapshot :: "'x radio \<Rightarrow> u32 list" where
  "ull_radio_tx_retry_snapshot s = tr_rows (r_trace s)"

definition retry_et :: "'x radio_hw \<Rightarrow> u8 \<Rightarrow> tx_program \<Rightarrow> u32" where
  "retry_et h index p = (if tx_entry_is_ours h index p False then ucast (hw_event h index) else - 1)"

definition retry_row :: "'x radio_hw \<Rightarrow> tx_state \<Rightarrow> radio_time \<Rightarrow> u32 \<Rightarrow> u32 \<Rightarrow> u32 \<Rightarrow> u32 list" where
  "retry_row h x now kind stage reason =
     [kind, stage, reason, insert_relative x now, retry_et h (x_program_index x) (x_program x),
      if stage = 2 then retry_et h (x_stop_index x) (x_stop_program x) else retry_et h (x_reply_index x) (x_reply_program x)]"

definition retry_record :: "'x radio_rom \<Rightarrow> u32 \<Rightarrow> u32 \<Rightarrow> u32 \<Rightarrow> 'x radio \<Rightarrow> 'x radio" where
  "retry_record rom kind stage reason s =
     (if \<not> tr_enabled (r_trace s) \<or> \<not> x_repeat_payload (r_tx s) \<or> 24 \<le> tr_records (r_trace s) then s
      else
        let row = retry_row (r_hw s) (r_tx s) (radio_now rom s) kind stage reason in
        on_trace (\<lambda>t. t\<lparr>tr_rows := (memcpy_at (tr_rows t) (4 + 6 * tr_records t) row)[0 := of_nat (tr_records t + 1)],
                        tr_records := tr_records t + 1\<rparr>) (clock_read s))"

definition retry_begin :: "'x radio_rom \<Rightarrow> 'x radio \<Rightarrow> 'x radio" where
  "retry_begin rom s =
     (if \<not> tr_enabled (r_trace s) \<or> \<not> x_repeat_payload (r_tx s) then s
      else
        let rows = (replicate 160 0)[1 := ucast (hw_prog_delay (r_hw s)), 2 := tp_duration_hus (x_program (r_tx s)),
                                     3 := tp_duration_hus (x_reply_program (r_tx s))]
        in retry_record rom 1 255 0 (on_trace (\<lambda>t. t\<lparr>tr_rows := rows, tr_records := 0\<rparr>) s))"

section \<open>Borrowed storage and registers\<close>

definition restored_cs :: "tx_state \<Rightarrow> (nat \<Rightarrow> u16 list) \<Rightarrow> nat \<Rightarrow> u16 list" where
  "restored_cs x cs =
     (let cs = cs(1 := x_saved_cs x);
          cs = (if x_prequeued_reply x then cs(2 := x_saved_reply_cs x) else cs)
      in if x_repeat_payload x then cs(3 := x_saved_stop_cs x) else cs)"

definition restored_descriptor :: "tx_state \<Rightarrow> (nat \<Rightarrow> u16 list) \<Rightarrow> nat \<Rightarrow> u16 list" where
  "restored_descriptor x d =
     (let d = d(1 := x_saved_descriptor x) in if x_repeat_payload x then d(2 := x_saved_repeat_descriptor x) else d)"

definition tx_release_storage :: "'x radio_rom \<Rightarrow> 'x radio \<Rightarrow> 'x radio" where
  "tx_release_storage rom s =
     (if \<not> x_storage_set (r_tx s) then s
      else
        let s = on_hw (\<lambda>h. h\<lparr>hw_cs := restored_cs (r_tx s) (hw_cs h),
                             hw_descriptor := restored_descriptor (r_tx s) (hw_descriptor h)\<rparr>) s;
            s = on_hw (\<lambda>h. rm_free rom h (x_payload_offset (r_tx s))) s
        in on_tx (\<lambda>x. x\<lparr>x_storage_set := False\<rparr>) s)"

definition tx_restore_timing :: "'x radio \<Rightarrow> 'x radio" where
  "tx_restore_timing s =
     (if x_rx_timing_set (r_tx s)
      then on_tx (\<lambda>x. x\<lparr>x_rx_timing_set := False\<rparr>)
             (on_result (\<lambda>r. r\<lparr>rs_rx_timing_restored := x_saved_rx_timing (r_tx s)\<rparr>)
               (on_hw (\<lambda>h. h\<lparr>hw_timing := x_saved_rx_timing (r_tx s)\<rparr>) s))
      else s)"

definition tx_restore_globals :: "'x radio \<Rightarrow> 'x radio" where
  "tx_restore_globals s =
     (if \<not> x_globals_set (r_tx s) then s
      else
        let s = tx_restore_timing s;
            s = on_hw (\<lambda>h. h\<lparr>hw_test := (hw_test h AND NOT TEST_BITS) OR x_saved_test_bits (r_tx s)\<rparr>) s;
            s = on_hw (\<lambda>h. h\<lparr>hw_control := (hw_control h AND NOT (TEST_ENABLE OR RADIO_ABORT)) OR x_saved_enable (r_tx s)\<rparr>) s
        in on_tx (\<lambda>x. x\<lparr>x_globals_set := False\<rparr>) s)"

section \<open>Aborting the own event\<close>

definition abort_trace :: "'x radio_rom \<Rightarrow> 'x radio \<Rightarrow> 'x radio" where
  "abort_trace rom s =
     (if x_repeat_payload (r_tx s)
      then retry_record rom 5 (if tx_entry_is_ours (r_hw s) (x_stop_index (r_tx s)) (x_stop_program (r_tx s)) True then 2 else 255)
             (if hw_control (r_hw s) AND RADIO_ABORT \<noteq> 0 then 1 else 0) s
      else s)"

definition abort_checks :: "'x radio \<Rightarrow> u8" where
  "abort_checks s = (if tx_active_is_ours (r_hw s) then 1 else 0) OR (if tx_program_is_ours (r_hw s) (r_tx s) True then 2 else 0)"

definition abort_write :: "'x radio \<Rightarrow> 'x radio" where
  "abort_write s =
     (let s = (if x_repeat_payload (r_tx s) \<and> tx_entry_is_ours (r_hw s) (x_stop_index (r_tx s)) (x_stop_program (r_tx s)) True
               then on_tx (\<lambda>x. x\<lparr>x_stop_abort_requested := True\<rparr>) s else s);
          s = on_hw (\<lambda>h. h\<lparr>hw_control := (hw_control h AND NOT TEST_ENABLE) OR RADIO_ABORT\<rparr>) s
      in set_tx_phase ULL_TX_ABORTING (on_result (\<lambda>r. r\<lparr>rs_abort_control := hw_control (r_hw s)\<rparr>) s))"

definition tx_abort_active :: "'x radio_rom \<Rightarrow> 'x radio \<Rightarrow> 'x radio" where
  "tx_abort_active rom s =
     (let s = abort_trace rom s in
      if tx_phase_of s \<noteq> ULL_TX_ACTIVE \<and> tx_phase_of s \<noteq> ULL_TX_ABORTING then s
      else
        let s = on_result (\<lambda>r. r\<lparr>rs_abort_checks := abort_checks s\<rparr>) s in
        if rs_abort_checks (x_result (r_tx s)) \<noteq> 3 then fault 1 s else abort_write s)"

text \<open>The coarse alarm; \<open>own\<close> says that the alarm that fired is the one of the structure.\<close>

definition tx_deadline :: "'x radio_rom \<Rightarrow> bool \<Rightarrow> 'x radio \<Rightarrow> 'x radio" where
  "tx_deadline rom own s =
     (if \<not> own then s
      else
        let s = on_tx (\<lambda>x. x\<lparr>x_alarm_set := False\<rparr>) s;
            s = retry_record rom 6 255 0 s;
            now = radio_now rom s;
            s = on_result (\<lambda>r. r\<lparr>rs_deadline_fired := 1, rs_deadline_hs := rt_hs now, rs_deadline_hus := ucast (rt_hus now)\<rparr>) (clock_read s)
        in tx_abort_active rom s)"

section \<open>Owned receive descriptors\<close>

definition rx_invalid :: "'x radio \<Rightarrow> 'x radio" where "rx_invalid = on_result (\<lambda>r. r\<lparr>rs_rx_invalid := 1\<rparr>)"

definition rx_offset_bad :: "u16 \<Rightarrow> bool" where
  "rx_offset_bad offset \<longleftrightarrow> offset \<noteq> 0 \<and> (offset < 0x7805 \<or> 0x9805 < offset \<or> (unat offset - 0x7805) mod 0x400 \<noteq> 0)"

definition rx_copied :: "u16 list \<Rightarrow> nat \<Rightarrow> nat" where
  "rx_copied d capacity = (if d ! 9 = 0 then 0 else min (min (unat (drop_bit 8 (d ! 2))) capacity) 64)"

definition rx_snapshot :: "'x radio_rom \<Rightarrow> 'x radio_hw \<Rightarrow> u16 list \<Rightarrow> radio_time \<Rightarrow> ull_radio_rx_snapshot \<Rightarrow> ull_radio_rx_snapshot" where
  "rx_snapshot rom h d now old =
     (let n = rx_copied d (rm_rx_capacity rom h) in
      old\<lparr>sn_hs := rt_hs now, sn_hus := ucast (rt_hus now), sn_descriptor := d, sn_copied := of_nat n,
          sn_payload := map (hw_payload h (d ! 9)) [0..<n] @ drop n (sn_payload old)\<rparr>)"

definition rx_take :: "'x radio_rom \<Rightarrow> u16 list \<Rightarrow> 'x radio \<Rightarrow> 'x radio" where
  "rx_take rom d s =
     (let n = unat (rs_rx_snapshots (x_result (r_tx s))); now = radio_now rom s; h = r_hw s in
      on_result (\<lambda>r. r\<lparr>rs_rx_snapshots := rs_rx_snapshots r + 1, rs_rx := (rs_rx r)[n := rx_snapshot rom h d now (rs_rx r ! n)]\<rparr>)
        (clock_read s))"

definition rx_release :: "'x radio_rom \<Rightarrow> 'x radio \<Rightarrow> 'x radio" where
  "rx_release rom s = on_result (\<lambda>r. r\<lparr>rs_rx_freed := rs_rx_freed r + 1\<rparr>) (on_hw (rm_rx_free rom) s)"

primrec rx_loop :: "'x radio_rom \<Rightarrow> u8 \<Rightarrow> nat \<Rightarrow> 'x radio \<Rightarrow> 'x radio" where
  "rx_loop rom activity 0 s = s"
| "rx_loop rom activity (Suc n) s =
     (if \<not> rm_rx_ready rom (r_hw s) activity then s
      else
        let slot = hw_rx_slot (r_hw s); d = hw_rx_descriptor (r_hw s) slot in
        if 10 \<le> slot \<or> drop_bit 11 (d ! 6) AND 31 \<noteq> ucast activity \<or> rx_offset_bad (d ! 9) then rx_invalid s
        else rx_loop rom activity n
               (rx_release rom (if activity \<noteq> 3 \<and> rs_rx_snapshots (x_result (r_tx s)) < 3 then rx_take rom d s else s)))"

definition tx_receive_owned :: "'x radio_rom \<Rightarrow> u8 \<Rightarrow> 'x radio \<Rightarrow> 'x radio" where
  "tx_receive_owned rom activity s = (if \<not> hw_rx_checker (r_hw s) then rx_invalid s else rx_loop rom activity 10 s)"

section \<open>The follow-up of a native event\<close>

definition write_cs :: "nat \<Rightarrow> (nat \<times> u16) list \<Rightarrow> 'x radio \<Rightarrow> 'x radio" where
  "write_cs slot ws = on_hw (\<lambda>h. h\<lparr>hw_cs := (hw_cs h)(slot := fold (\<lambda>(i, v) cs. cs[i := v]) ws (hw_cs h slot))\<rparr>)"

text \<open>The six counters of a control structure, byte offsets 68 to 78.\<close>

definition cleared_counters :: "(nat \<times> u16) list" where "cleared_counters = map (\<lambda>i. (i, 0)) [34..<40]"

definition receive_format :: "u8 \<Rightarrow> u16" where "receive_format phy = 0x1000 OR push_bit 2 (ucast phy - 1)"

definition window_units :: "u16 \<Rightarrow> u16" where "window_units us = of_nat ((unat us + 1) div 2)"

definition followup_lead :: "'x radio \<Rightarrow> radio_time \<Rightarrow> int" where
  "followup_lead s now =
     (let r = x_result (r_tx s) in
      uint ((rs_followup_hs r - rt_hs now) AND CLOCK_MASK) * 625 + uint (rs_followup_hus r) - uint (rt_hus now))"

definition followup_late :: "'x radio \<Rightarrow> radio_time \<Rightarrow> bool" where
  "followup_late s now \<longleftrightarrow>
     (let delay = hw_prog_delay (r_hw s) in
      delay = 0 \<or> (rs_followup_hs (x_result (r_tx s)) - rt_hs now) AND CLOCK_MASK > 3200 \<or>
      followup_lead s now < (uint delay + 1) * 625)"

definition followup_ticks :: "tx_state \<Rightarrow> u32" where
  "followup_ticks x = (ucast (rs_followup_hus (x_result x)) + 2 * ucast (x_followup_window_us x) + 624) div 625 + 1"

definition followup_program :: "tx_state \<Rightarrow> tx_state" where
  "followup_program x =
     (let hs = rs_followup_hs (x_result x); hus = ucast (rs_followup_hus (x_result x));
          duration = (followup_ticks x + 2) * 625 - hus
      in x\<lparr>x_arb := \<lparr>ta_hs = hs, ta_hus = hus, ta_limit_hs = 0, ta_duration_hus = duration\<rparr>,
           x_program := (x_program x)\<lparr>tp_hs := hs, tp_hus := hus, tp_duration_hus := duration\<rparr>,
           x_alarm_hs := (hs + followup_ticks x) AND CLOCK_MASK, x_program_index := 255\<rparr>)"

definition arb_insert :: "'x radio_rom \<Rightarrow> 'x radio \<Rightarrow> 'x radio \<times> u8" where
  "arb_insert rom s = (let (h, status) = rm_insert rom (r_hw s) (x_arb (r_tx s)) in (s\<lparr>r_hw := h\<rparr>, status))"

definition arb_remove :: "'x radio_rom \<Rightarrow> u8 \<Rightarrow> 'x radio \<Rightarrow> 'x radio" where
  "arb_remove rom active_only = on_hw (\<lambda>h. fst (rm_remove rom h active_only))"

definition followup_status :: "u8 \<Rightarrow> 'x radio \<Rightarrow> 'x radio" where
  "followup_status v = on_result (\<lambda>r. r\<lparr>rs_followup_status := v\<rparr>)"

definition followup_prepare :: "'x radio \<Rightarrow> 'x radio" where
  "followup_prepare s =
     (let x = r_tx s;
          s = on_tx (\<lambda>x. x\<lparr>x_format := 29, x_followup_active := True\<rparr>) s;
          s = write_cs 1 ([(2, receive_format (x_phy x)), (11, 0x8000 OR ucast (x_followup_channel x)),
                          (13, window_units (x_followup_window_us x))] @ cleared_counters) s;
          s = on_tx followup_program s
      in set_tx_phase ULL_TX_QUEUED s)"

definition tx_queue_followup :: "'x radio_rom \<Rightarrow> 'x radio \<Rightarrow> 'x radio" where
  "tx_queue_followup rom s =
     (let s = on_tx (\<lambda>x. x\<lparr>x_followup_pending := False\<rparr>) s; h = r_hw s in
      if tx_activity_parameters h \<noteq> x_activity_parameters (r_tx s) \<or> tx_active_is_ours h \<or> hw_queued h = 0 then fault 2 s
      else if hw_active h \<noteq> NOBODY \<or> hw_queued h > 1 then followup_status 5 s
      else
        let now = radio_now rom s; s = clock_read s in
        if followup_late s now then followup_status 4 s
        else
          let (s, status) = arb_insert rom (followup_prepare s) in
          if status \<noteq> 0 then set_tx_phase ULL_TX_ENDED (followup_status 5 s) else followup_status 1 s)"

section \<open>The callback of a frame\<close>

text \<open>Which of the three programs a callback belongs to, by its context word.\<close>

datatype frame_stage = FIRST | REPLY | STOPPER

definition frame_stage_of :: "tx_state \<Rightarrow> u32 \<Rightarrow> frame_stage" where
  "frame_stage_of x context =
     (if x_repeat_payload x \<and> context = tp_context (x_stop_program x) then STOPPER
      else if x_prequeued_reply x \<and> context = tp_context (x_reply_program x) then REPLY else FIRST)"

primrec stage_program :: "tx_state \<Rightarrow> frame_stage \<Rightarrow> tx_program" where
  "stage_program x FIRST = x_program x"
| "stage_program x REPLY = x_reply_program x"
| "stage_program x STOPPER = x_stop_program x"

primrec stage_index :: "tx_state \<Rightarrow> frame_stage \<Rightarrow> u8" where
  "stage_index x FIRST = x_program_index x"
| "stage_index x REPLY = x_reply_index x"
| "stage_index x STOPPER = x_stop_index x"

primrec stage_ended :: "tx_state \<Rightarrow> frame_stage \<Rightarrow> bool" where
  "stage_ended x FIRST = x_first_ended x"
| "stage_ended x REPLY = x_reply_ended x"
| "stage_ended x STOPPER = x_stop_ended x"

primrec stage_activity :: "frame_stage \<Rightarrow> u8" where
  "stage_activity FIRST = 1"
| "stage_activity REPLY = 2"
| "stage_activity STOPPER = 3"

primrec previous_pending :: "tx_state \<Rightarrow> frame_stage \<Rightarrow> bool" where
  "previous_pending x FIRST = False"
| "previous_pending x REPLY = (\<not> x_first_ended x)"
| "previous_pending x STOPPER = (\<not> x_first_ended x \<or> \<not> x_reply_ended x)"

definition stage_number :: "tx_state \<Rightarrow> u32 \<Rightarrow> u32" where
  "stage_number x context =
     (case frame_stage_of x context of STOPPER \<Rightarrow> 2 | REPLY \<Rightarrow> 1
      | FIRST \<Rightarrow> if context = tp_context (x_program x) then 0 else 255)"

definition callback_mismatch :: "'x radio_hw \<Rightarrow> tx_state \<Rightarrow> frame_stage \<Rightarrow> u32 \<Rightarrow> u32 \<Rightarrow> u8 \<Rightarrow> u8" where
  "callback_mismatch h x stage hs context reason =
     (let p = stage_program x stage in
      (if context \<noteq> tp_context p then 1 else 0) OR (if hs \<noteq> tp_hs p then 2 else 0) OR
      (if \<not> tx_entry_is_ours h (stage_index x stage) p False then 4 else 0) OR
      (if previous_pending x stage \<and> reason \<noteq> 4 then 8 else 0))"

text \<open>A whole packet without the two error bits ends the event early.\<close>

definition packet_complete :: "ull_radio_rx_snapshot \<Rightarrow> bool" where
  "packet_complete sn \<longleftrightarrow> 7 \<le> sn_copied sn \<and> ucast (sn_copied sn) = drop_bit 8 (sn_descriptor sn ! 2) \<and>
     sn_descriptor sn ! 1 AND 9 = 0"

definition frame_received :: "'x radio_rom \<Rightarrow> frame_stage \<Rightarrow> 'x radio \<Rightarrow> 'x radio" where
  "frame_received rom stage s =
     (let s = on_result (\<lambda>r. r\<lparr>rs_rx_callbacks := rs_rx_callbacks r + 1\<rparr>) s;
          s = tx_receive_owned rom (stage_activity stage) s
      in if stage = STOPPER then s
      else
        let x = r_tx s; r = x_result x;
            native = (x_followup_pending x \<and> \<not> x_prequeued_reply x \<and> x_format x = 2);
            repeat_first = (x_repeat_payload x \<and> stage \<noteq> REPLY)
        in if (x_followup_active x \<or> stage = REPLY \<or> native \<or> repeat_first) \<and> rs_rx_invalid r = 0 \<and>
              list_ex packet_complete (take (unat (rs_rx_snapshots r)) (rs_rx r))
           then tx_abort_active rom
                  (if native then followup_status 7 (on_tx (\<lambda>x. x\<lparr>x_followup_pending := False\<rparr>) s) else s)
           else s)"

definition clear_alarm :: "'x radio_rom \<Rightarrow> 'x radio \<Rightarrow> 'x radio" where
  "clear_alarm rom s =
     (if x_alarm_set (r_tx s) then on_tx (\<lambda>x. x\<lparr>x_alarm_set := False\<rparr>) (on_hw (rm_alarm_clear rom) s) else s)"

definition first_end :: "'x radio_rom \<Rightarrow> 'x radio \<Rightarrow> 'x radio" where
  "first_end rom s =
     (let now = radio_now rom s in
      on_result (\<lambda>r. r\<lparr>rs_first_end_hs := rt_hs now, rs_first_end_hus := ucast (rt_hus now)\<rparr>) (clock_read s))"

definition note_end :: "'x radio_rom \<Rightarrow> u8 \<Rightarrow> 'x radio \<Rightarrow> 'x radio" where
  "note_end rom reason s =
     (let now = radio_now rom s in
      on_result (\<lambda>r. r\<lparr>rs_callback_reason := reason, rs_end_hs := rt_hs now\<rparr>) (clock_read s))"

definition count_transmitted :: "'x radio \<Rightarrow> 'x radio" where
  "count_transmitted s = on_result (\<lambda>r. r\<lparr>rs_tx_count := hw_cs (r_hw s) 1 ! 34\<rparr>) s"

definition end_unless_fault :: "'x radio \<Rightarrow> 'x radio" where
  "end_unless_fault s = (if tx_phase_of s \<noteq> ULL_TX_FAULT then set_tx_phase ULL_TX_ENDED s else s)"

primrec mark_ended :: "'x radio_rom \<Rightarrow> u8 \<Rightarrow> frame_stage \<Rightarrow> 'x radio \<Rightarrow> 'x radio" where
  "mark_ended rom reason FIRST s = first_end rom (count_transmitted (on_tx (\<lambda>x. x\<lparr>x_first_ended := True\<rparr>) s))"
| "mark_ended rom reason REPLY s =
     followup_status (if reason = 0 then 3 else 6) (on_tx (\<lambda>x. x\<lparr>x_reply_ended := True\<rparr>) s)"
| "mark_ended rom reason STOPPER s = on_tx (\<lambda>x. x\<lparr>x_stop_ended := True\<rparr>) s"

definition all_ended :: "tx_state \<Rightarrow> bool" where
  "all_ended x \<longleftrightarrow> x_first_ended x \<and> x_reply_ended x \<and> (x_repeat_payload x \<longrightarrow> x_stop_ended x)"

definition queued_frame_ended :: "'x radio_rom \<Rightarrow> frame_stage \<Rightarrow> u8 \<Rightarrow> 'x radio \<Rightarrow> 'x radio" where
  "queued_frame_ended rom stage reason s =
     (let s = mark_ended rom reason stage s in
      if \<not> all_ended (r_tx s) then s else end_unless_fault (note_end rom reason (clear_alarm rom s)))"

definition remove_if_ours :: "'x radio_rom \<Rightarrow> 'x radio \<Rightarrow> 'x radio" where
  "remove_if_ours rom s = (if tx_active_is_ours (r_hw s) then arb_remove rom 1 s else s)"

definition single_end :: "'x radio_rom \<Rightarrow> u8 \<Rightarrow> 'x radio \<Rightarrow> 'x radio" where
  "single_end rom reason s =
     (let s = clear_alarm rom s;
          s = (if x_followup_active (r_tx s) then s else count_transmitted s);
          s = tx_restore_globals (note_end rom reason s);
          s = end_unless_fault (remove_if_ours rom s)
      in if x_followup_active (r_tx s) then followup_status (if reason = 0 then 3 else 6) s else s)"

definition single_frame_ended :: "'x radio_rom \<Rightarrow> u8 \<Rightarrow> 'x radio \<Rightarrow> 'x radio" where
  "single_frame_ended rom reason s =
     (let s = single_end rom reason s in
      if x_followup_pending (r_tx s) \<and> reason = 0 \<and> tx_phase_of s = ULL_TX_ENDED \<and> rs_rx_invalid (x_result (r_tx s)) = 0
      then tx_queue_followup rom (first_end rom s) else s)"

definition observe_registers :: "'x radio \<Rightarrow> 'x radio" where
  "observe_registers s = on_result (\<lambda>r. r\<lparr>rs_test_at_callback := hw_test (r_hw s),
     rs_rx_timing_callback := (if x_rx_timing_set (r_tx s) then hw_timing (r_hw s) else rs_rx_timing_callback r)\<rparr>) s"

definition frame_ended :: "'x radio_rom \<Rightarrow> frame_stage \<Rightarrow> u8 \<Rightarrow> 'x radio \<Rightarrow> 'x radio" where
  "frame_ended rom stage reason s =
     (let s = (if reason \<noteq> 4 then tx_receive_owned rom (stage_activity stage) s else s) in
      if x_prequeued_reply (r_tx s) then queued_frame_ended rom stage reason s else single_frame_ended rom reason s)"

definition tx_frame_done :: "'x radio_rom \<Rightarrow> u32 \<Rightarrow> u32 \<Rightarrow> u8 \<Rightarrow> 'x radio \<Rightarrow> 'x radio" where
  "tx_frame_done rom hs context reason s =
     (let stage = frame_stage_of (r_tx s) context;
          s = retry_record rom 4 (stage_number (r_tx s) context) (ucast reason) s;
          bad = callback_mismatch (r_hw s) (r_tx s) stage hs context reason
      in if bad \<noteq> 0 then fault (0x10 OR bad) (on_result (\<lambda>r. r\<lparr>rs_callback_reason := reason\<rparr>) s)
      else if x_prequeued_reply (r_tx s) \<and> stage_ended (r_tx s) stage
        then (if reason = 0 \<or> reason = 1 \<or> reason = 4 then s else fault 0x20 s)
      else if stage = STOPPER \<and> reason = 3 then fault 0x22 s
      else
        let s = observe_registers s in
        if reason = 2 then frame_received rom stage s
        else if reason = 3 then on_result (\<lambda>r. r\<lparr>rs_tx_callbacks := rs_tx_callbacks r + 1\<rparr>) s
        else if reason = 0 \<or> reason = 1 \<or> reason = 4 then frame_ended rom stage reason s
        else s)"

section \<open>The callbacks of the scheduler\<close>

definition tx_cancelled :: "bool \<Rightarrow> 'x radio \<Rightarrow> 'x radio" where
  "tx_cancelled own s = (if \<not> own \<or> tx_phase_of s \<noteq> ULL_TX_QUEUED then fault 3 s else set_tx_phase ULL_TX_CANCELLED s)"

definition tx_stopped :: "'x radio_rom \<Rightarrow> bool \<Rightarrow> 'x radio \<Rightarrow> 'x radio" where
  "tx_stopped rom own s = (if own then tx_abort_active rom s else s)"

section \<open>The start of the event\<close>

definition tx_refuse :: "'x radio \<Rightarrow> 'x radio" where "tx_refuse = set_tx_phase ULL_TX_REFUSED"

definition start_allowed :: "bool \<Rightarrow> 'x radio \<Rightarrow> bool" where
  "start_allowed own s \<longleftrightarrow> own \<and> tx_phase_of s = ULL_TX_QUEUED \<and> tx_active_is_ours (r_hw s) \<and> parameters_kept s \<and>
     hw_queued (r_hw s) = 0 \<and> hw_control (r_hw s) AND (TEST_ENABLE OR RADIO_ABORT) = 0 \<and>
     hw_test (r_hw s) AND TEST_BITS = 0"

definition timing_probe :: "tx_state \<Rightarrow> bool" where
  "timing_probe x \<longleftrightarrow> (ULL_RX_TIMING_FIELD_ADD \<noteq> 0 \<or> ULL_TX_PATH_FIELD_ADD \<noteq> 0) \<and> x_format x = TX_FORMAT \<and> x_phy x = 2 \<and>
     (\<not> x_prequeued_reply x \<or> x_repeat_payload x)"

text \<open>The format word and the transmit power of one control structure; \<open>False\<close> when the antenna routine
  answers outside its range.\<close>

definition configure_slot :: "'x radio_rom \<Rightarrow> u8 \<Rightarrow> u8 \<Rightarrow> u8 \<Rightarrow> 'x radio \<Rightarrow> 'x radio \<times> bool" where
  "configure_slot rom slot format level s =
     (let (antenna7, antenna6) = rm_antenna rom (r_hw s) format slot in
      if antenna7 > 1 \<or> antenna6 > 1 then (s, False)
      else
        let s = write_cs (unat slot) [(0, ucast format OR push_bit 7 (ucast antenna7) OR push_bit 6 (ucast antenna6))] s
        in (on_hw (\<lambda>h. rm_power rom h slot level) s, True))"

definition note_power :: "'x radio \<Rightarrow> 'x radio" where
  "note_power s = on_trace (\<lambda>t. t\<lparr>tr_power := [ucast (hw_cs (r_hw s) 1 ! 12 AND 0xff), tr_power t ! 1 + 1]\<rparr>) s"

definition configure_reply :: "'x radio_rom \<Rightarrow> 'x radio \<Rightarrow> 'x radio \<times> bool" where
  "configure_reply rom s =
     (if \<not> x_prequeued_reply (r_tx s) then (s, True)
      else if x_repeat_payload (r_tx s) then configure_slot rom 2 TX_FORMAT 28 s else configure_slot rom 2 29 29 s)"

definition configure_stop :: "'x radio_rom \<Rightarrow> 'x radio \<Rightarrow> 'x radio \<times> bool" where
  "configure_stop rom s = (if x_repeat_payload (r_tx s) then configure_slot rom 3 29 29 s else (s, True))"

definition configure_slots :: "'x radio_rom \<Rightarrow> 'x radio \<Rightarrow> 'x radio \<times> bool" where
  "configure_slots rom s =
     (let format = x_format (r_tx s); (s, ok) = configure_slot rom 1 format (if format = 29 then 29 else 28) s in
      if \<not> ok then (s, False)
      else
        let (s, ok) = configure_reply rom (note_power s) in
        if \<not> ok then (s, False) else configure_stop rom s)"

definition take_timing :: "'x radio \<Rightarrow> 'x radio" where
  "take_timing s =
     (if timing_probe (r_tx s)
      then
        let old = hw_timing (r_hw s); new = old + push_bit 16 ULL_RX_TIMING_FIELD_ADD + ULL_TX_PATH_FIELD_ADD in
        on_result (\<lambda>r. r\<lparr>rs_rx_timing_before := old, rs_rx_timing_active := new\<rparr>)
          (on_tx (\<lambda>x. x\<lparr>x_saved_rx_timing := old, x_rx_timing_set := True\<rparr>) (on_hw (\<lambda>h. h\<lparr>hw_timing := new\<rparr>) s))
      else s)"

definition take_registers :: "'x radio \<Rightarrow> 'x radio" where
  "take_registers s =
     (let h = r_hw s;
          s = on_tx (\<lambda>x. x\<lparr>x_saved_enable := hw_control h AND TEST_ENABLE, x_saved_test_bits := hw_test h AND TEST_BITS,
                          x_globals_set := True\<rparr>) s;
          s = take_timing s;
          s = on_hw (\<lambda>h. h\<lparr>hw_control := hw_control h AND NOT TEST_ENABLE, hw_test := hw_test h AND NOT TEST_BITS\<rparr>) s;
          s = on_result (\<lambda>r. r\<lparr>rs_test_configured := hw_test (r_hw s), rs_phase := ULL_TX_ACTIVE\<rparr>) s
      in if x_followup_active (r_tx s) then followup_status 2 s else s)"

text \<open>Queueing the programs; each step ends with \<open>False\<close> when its guard failed and the fault is recorded.\<close>

definition push_first :: "'x radio_rom \<Rightarrow> 'x radio \<Rightarrow> 'x radio \<times> bool" where
  "push_first rom s =
     (let s = retry_record rom 2 0 0 (on_hw (\<lambda>h. rm_push rom h (x_program (r_tx s))) s);
          s = on_result (\<lambda>r. r\<lparr>rs_test_programmed := hw_test (r_hw s)\<rparr>) s
      in if tx_program_is_ours (r_hw s) (r_tx s) False then (s, True) else (fault 5 s, False))"

definition push_reply :: "'x radio_rom \<Rightarrow> 'x radio \<Rightarrow> 'x radio \<times> bool" where
  "push_reply rom s =
     (let s = on_tx (\<lambda>x. x\<lparr>x_reply_index := hw_producer (r_hw s)\<rparr>) s; x = r_tx s in
      if x_reply_index x \<ge> 16 \<or> x_reply_index x = x_program_index x \<or> hw_queued (r_hw s) \<noteq> 1 then (fault 6 s, False)
      else
        let s = retry_record rom 3 1 0 (on_hw (\<lambda>h. rm_push rom h (x_reply_program (r_tx s))) s) in
        if \<not> tx_entry_is_ours (r_hw s) (x_reply_index (r_tx s)) (x_reply_program (r_tx s)) False then (fault 7 s, False)
        else (followup_status 1 s, True))"

definition push_stop :: "'x radio_rom \<Rightarrow> 'x radio \<Rightarrow> 'x radio \<times> bool" where
  "push_stop rom s =
     (let s = on_tx (\<lambda>x. x\<lparr>x_stop_index := hw_producer (r_hw s)\<rparr>) s; x = r_tx s in
      if x_stop_index x \<ge> 16 \<or> x_stop_index x = x_program_index x \<or> x_stop_index x = x_reply_index x \<or>
         hw_queued (r_hw s) \<noteq> 2
      then (fault 9 s, False)
      else
        let s = retry_record rom 3 2 0 (on_hw (\<lambda>h. rm_push rom h (x_stop_program (r_tx s))) s) in
        if \<not> tx_entry_is_ours (r_hw s) (x_stop_index (r_tx s)) (x_stop_program (r_tx s)) False then (fault 10 s, False)
        else (s, True))"

definition set_alarm :: "'x radio_rom \<Rightarrow> 'x radio \<Rightarrow> 'x radio" where
  "set_alarm rom s = on_tx (\<lambda>x. x\<lparr>x_alarm_set := True\<rparr>) (on_hw (\<lambda>h. rm_alarm_set rom h (x_alarm_hs (r_tx s))) s)"

definition push_programs :: "'x radio_rom \<Rightarrow> 'x radio \<Rightarrow> 'x radio" where
  "push_programs rom s =
     (let (s, ok) = push_first rom s in
      if \<not> ok then s
      else
        let (s, ok) = (if x_prequeued_reply (r_tx s) then push_reply rom s else (s, True)) in
        if \<not> ok then s
        else
          let (s, ok) = (if x_repeat_payload (r_tx s) then push_stop rom s else (s, True)) in
          if \<not> ok then s else set_alarm rom s)"

definition start_event :: "'x radio_rom \<Rightarrow> 'x radio \<Rightarrow> 'x radio" where
  "start_event rom s =
     (if timing_probe (r_tx s) \<and> hw_timing (r_hw s) \<noteq> 0x00020407 then tx_refuse (arb_remove rom 1 s)
      else
        let s = on_tx (\<lambda>x. x\<lparr>x_program_index := hw_producer (r_hw s)\<rparr>) s in
        if 16 \<le> x_program_index (r_tx s)
        then set_tx_phase ULL_TX_FAULT (arb_remove rom 1 (on_result (\<lambda>r. r\<lparr>rs_fault_detail := 4\<rparr>) s))
        else
          let (s, ok) = configure_slots rom s in
          if \<not> ok then tx_refuse (arb_remove rom 1 s) else push_programs rom (take_registers s))"

definition tx_started :: "'x radio_rom \<Rightarrow> bool \<Rightarrow> 'x radio \<Rightarrow> 'x radio" where
  "tx_started rom own s =
     (let s = retry_begin rom s in
      if \<not> start_allowed own s then tx_refuse (remove_if_ours rom s) else start_event rom s)"

section \<open>Submitting a request\<close>

definition frame_airtime :: "ull_radio_tx_request \<Rightarrow> nat" where
  "frame_airtime r = (if rq_phy r = 1 then (rq_length r + 10) * 8 else (rq_length r + 11) * 4)"

definition header_ok :: "ull_radio_tx_request \<Rightarrow> bool" where
  "header_ok r \<longleftrightarrow> rq_header r \<le> 15 \<or> rq_header r \<in> {0x10, 0x11, 0x20, 0x30} \<or>
     (rq_header r = 0x32 \<and> (rq_length r = 205 \<or> rq_length r = 15) \<and> rq_phy r = 2)"

definition repeat_ok :: "ull_radio_tx_request \<Rightarrow> bool" where
  "repeat_ok r \<longleftrightarrow> rq_repeat_payload r = 0 \<or>
     (rq_prequeued_reply r \<noteq> 0 \<and> (rq_length r = 203 \<and> rq_header r = 0x30 \<or> rq_length r = 205 \<and> rq_header r = 0x32) \<and>
      rq_phy r = 2 \<and> rq_followup_delay_us r = 1420)"

definition reply_ok :: "ull_radio_tx_request \<Rightarrow> bool" where
  "reply_ok r \<longleftrightarrow> rq_prequeued_reply r = 0 \<or>
     (rq_followup_delay_us r \<noteq> 0 \<and> frame_airtime r + 300 \<le> unat (rq_followup_delay_us r))"

definition followup_ok :: "ull_radio_tx_request \<Rightarrow> bool" where
  "followup_ok r \<longleftrightarrow>
     (if rq_followup_delay_us r = 0 then rq_followup_window_us r = 0
      else rq_receive_us r = 0 \<and> rq_tx_receive_us r = 0 \<and>
           (if rq_prequeued_reply r \<noteq> 0 then 700 else 1800) \<le> rq_followup_delay_us r \<and> rq_followup_delay_us r \<le> 3500 \<and>
           rq_followup_window_us r \<noteq> 0 \<and> rq_followup_window_us r \<le> 1000 \<and> rq_followup_channel r \<le> 39)"

definition request_ok :: "ull_radio_tx_request \<Rightarrow> bool" where
  "request_ok r \<longleftrightarrow> rq_payload r \<noteq> None \<and> rq_length r \<noteq> 0 \<and> rq_length r \<le> 251 \<and> rq_channel r \<le> 39 \<and> header_ok r \<and>
     1 \<le> rq_phy r \<and> rq_phy r \<le> 2 \<and> rq_start_hs r \<le> CLOCK_MASK \<and> rq_start_hus r \<le> 624 \<and> rq_crc_init r \<le> 0xffffff \<and>
     rq_receive_us r \<le> 1000 \<and> rq_tx_receive_us r \<le> 1000 \<and> (rq_receive_us r = 0 \<or> rq_tx_receive_us r = 0) \<and>
     rq_prequeued_reply r \<le> 1 \<and> rq_repeat_payload r \<le> 1 \<and> repeat_ok r \<and> reply_ok r \<and> followup_ok r"

text \<open>The time of the follow-up window, \<open>delay\<close> microseconds after the start.\<close>

definition start_plus :: "ull_radio_tx_request \<Rightarrow> u32 \<Rightarrow> u32 \<times> u32" where
  "start_plus r hus = (let fine = ucast (rq_start_hus r) + hus in ((rq_start_hs r + fine div 625) AND CLOCK_MASK, fine mod 625))"

definition claimed :: "ull_radio_tx_request \<Rightarrow> u16 \<Rightarrow> u32 \<Rightarrow> u32 \<Rightarrow> u32 \<Rightarrow> tx_state" where
  "claimed r payload parameters reply stop =
     (let x = tx_zero\<lparr>x_payload_offset := payload, x_activity_parameters := parameters, x_stop_index := 255,
                      x_stop_parameters := stop, x_reply_index := 255, x_prequeued_reply := rq_prequeued_reply r \<noteq> 0,
                      x_repeat_payload := rq_repeat_payload r \<noteq> 0, x_reply_parameters := reply,
                      x_format := if rq_receive_us r \<noteq> 0 then 29 else TX_FORMAT, x_phy := rq_phy r\<rparr>;
          (hs, hus) = start_plus r (2 * ucast (rq_followup_delay_us r))
      in if rq_followup_delay_us r = 0 then x
         else x\<lparr>x_result := (x_result x)\<lparr>rs_followup_hs := hs, rs_followup_hus := ucast hus\<rparr>,
                x_followup_window_us := rq_followup_window_us r, x_followup_channel := rq_followup_channel r,
                x_followup_pending := \<not> x_prequeued_reply x\<rparr>)"

definition save_storage :: "'x radio \<Rightarrow> 'x radio" where
  "save_storage s =
     (let cs = hw_cs (r_hw s); d = hw_descriptor (r_hw s) in
      on_tx (\<lambda>x. x\<lparr>x_saved_cs := cs 1, x_saved_reply_cs := (if x_prequeued_reply x then cs 2 else x_saved_reply_cs x),
                   x_saved_descriptor := d 1, x_saved_stop_cs := (if x_repeat_payload x then cs 3 else x_saved_stop_cs x),
                   x_saved_repeat_descriptor := (if x_repeat_payload x then d 2 else x_saved_repeat_descriptor x),
                   x_storage_set := True\<rparr>) s)"

definition DESC_OFFSET :: u16 where "DESC_OFFSET = 0x1400 + 126 * 1"
definition REPEAT_DESC_OFFSET :: u16 where "REPEAT_DESC_OFFSET = 0x1400 + 126 * 2"

definition fill_payload :: "bytes \<Rightarrow> 'x radio \<Rightarrow> 'x radio" where
  "fill_payload bs s =
     (let payload = x_payload_offset (r_tx s) in
      on_result (\<lambda>r. r\<lparr>rs_supplied_prefix := memcpy_at (rs_supplied_prefix r) 0 (take 8 bs)\<rparr>)
        (on_hw (\<lambda>h. h\<lparr>hw_payload := (hw_payload h)(payload := \<lambda>i. if i < length bs then bs ! i else hw_payload h payload i)\<rparr>) s))"

definition fill_descriptors :: "ull_radio_tx_request \<Rightarrow> 'x radio \<Rightarrow> 'x radio" where
  "fill_descriptors r s =
     (let d = [0, ucast (rq_header r) OR push_bit 8 (of_nat (rq_length r)), x_payload_offset (r_tx s), 0, 0, 0, 0];
          repeat = x_repeat_payload (r_tx s)
      in on_hw (\<lambda>h. h\<lparr>hw_descriptor := (if repeat then (hw_descriptor h)(1 := d, 2 := d) else (hw_descriptor h)(1 := d))\<rparr>) s)"

definition first_window :: "'x radio_rom \<Rightarrow> ull_radio_tx_request \<Rightarrow> u16" where
  "first_window rom r =
     (let w = if rq_receive_us r \<noteq> 0 then rq_receive_us r else rq_tx_receive_us r in
      if w \<noteq> 0 then window_units w else ucast (rm_window_option rom))"

definition transmit_format :: "u8 \<Rightarrow> u16" where
  "transmit_format phy = 0x1100 OR (ucast phy - 1) OR push_bit 2 (ucast phy - 1)"

definition fill_first :: "'x radio_rom \<Rightarrow> ull_radio_tx_request \<Rightarrow> 'x radio \<Rightarrow> 'x radio" where
  "fill_first rom r =
     write_cs 1 ([(1, 0x0801), (2, if rq_receive_us r \<noteq> 0 then receive_format (rq_phy r) else transmit_format (rq_phy r)),
                  (6, ucast (rq_access_address r)), (7, ucast (drop_bit 16 (rq_access_address r))),
                  (8, ucast (rq_crc_init r)), (9, ucast (drop_bit 16 (rq_crc_init r))),
                  (11, 0x8000 OR ucast (rq_channel r)), (13, first_window rom r), (14, DESC_OFFSET), (15, 0), (16, 0),
                  (17, 0xffff), (18, 0xffff), (19, 0x001f), (20, 251), (21, 0)] @ cleared_counters)"

definition COPIED_FIELDS :: "nat list" where
  "COPIED_FIELDS = [1, 2, 6, 7, 8, 9, 11, 13, 14, 15, 16, 17, 18, 19, 20, 21, 34, 35, 36, 37, 38, 39]"

definition copied_fields :: "'x radio \<Rightarrow> (nat \<times> u16) list" where
  "copied_fields s = map (\<lambda>i. (i, hw_cs (r_hw s) 1 ! i)) COPIED_FIELDS"

definition fill_reply :: "ull_radio_tx_request \<Rightarrow> 'x radio \<Rightarrow> 'x radio" where
  "fill_reply r s =
     write_cs 2 (copied_fields s @ [(1, 0x0802),
        (2, if x_repeat_payload (r_tx s) then hw_cs (r_hw s) 1 ! 2 else receive_format (rq_phy r))] @
        (if x_repeat_payload (r_tx s) then [(14, REPEAT_DESC_OFFSET)] else []) @
        [(11, 0x8000 OR ucast (rq_followup_channel r)), (13, window_units (rq_followup_window_us r))]) s"

definition fill_stop :: "ull_radio_tx_request \<Rightarrow> 'x radio \<Rightarrow> 'x radio" where
  "fill_stop r s =
     write_cs 3 (copied_fields s @ [(1, 0x0803), (2, receive_format (rq_phy r)),
        (11, 0x8000 OR ucast (rq_followup_channel r)), (13, 10), (14, 0), (15, 0)]) s"

definition reserved_us :: "ull_radio_tx_request \<Rightarrow> nat" where
  "reserved_us r =
     (if rq_receive_us r \<noteq> 0 then unat (rq_receive_us r)
      else if rq_prequeued_reply r \<noteq> 0
        then unat (rq_followup_delay_us r) + unat (rq_followup_window_us r) + 300 +
             (if rq_repeat_payload r \<noteq> 0 then frame_airtime r + 150 else 0)
      else if rq_tx_receive_us r \<noteq> 0
        then frame_airtime r + 150 + unat (rq_tx_receive_us r) + (if rq_phy r = 1 then (64 + 10) * 8 else (64 + 11) * 4)
      else frame_airtime r)"

definition burst_ticks :: "ull_radio_tx_request \<Rightarrow> nat" where
  "burst_ticks r = (unat (rq_start_hus r) + 2 * reserved_us r + 624) div 625 + 1"

definition first_program :: "'x radio_rom \<Rightarrow> ull_radio_tx_request \<Rightarrow> tx_state \<Rightarrow> tx_state" where
  "first_program rom r x =
     (let hs = rq_start_hs r; hus = ucast (rq_start_hus r); duration = of_nat ((burst_ticks r + 2) * 625) - hus in
      x\<lparr>x_arb := \<lparr>ta_hs = hs, ta_hus = hus, ta_limit_hs = 0, ta_duration_hus = duration\<rparr>,
        x_alarm_hs := (hs + of_nat (burst_ticks r)) AND CLOCK_MASK,
        x_program := \<lparr>tp_callback = FRAME_DONE, tp_hs = hs, tp_hus = hus, tp_duration_hus = duration,
                      tp_context = rm_context rom, tp_priority = 0, tp_mode = 15, tp_cs = 1\<rparr>\<rparr>)"

definition reply_programs :: "'x radio_rom \<Rightarrow> ull_radio_tx_request \<Rightarrow> tx_state \<Rightarrow> tx_state" where
  "reply_programs rom r x =
     (let delay = 2 * ucast (rq_followup_delay_us r);
          reply = (x_program x)\<lparr>tp_hs := rs_followup_hs (x_result x), tp_hus := ucast (rs_followup_hus (x_result x)),
                                tp_context := rm_context rom XOR 1, tp_cs := 2,
                                tp_priority := if x_repeat_payload x then 1 else 0,
                                tp_duration_hus := ta_duration_hus (x_arb x) - delay\<rparr>
      in x\<lparr>x_reply_program := reply, x_program := (x_program x)\<lparr>tp_duration_hus := delay\<rparr>\<rparr>)"

definition stop_programs :: "'x radio_rom \<Rightarrow> ull_radio_tx_request \<Rightarrow> tx_state \<Rightarrow> tx_state" where
  "stop_programs rom r x =
     (let (hs, hus) = start_plus r 5950;
          ticks = (ucast (rq_start_hus r) + 5950 + 40 + 624) div 625
      in x\<lparr>x_stop_program := (x_program x)\<lparr>tp_hs := hs, tp_hus := hus, tp_context := rm_context rom XOR 2, tp_cs := 3,
                                           tp_priority := 2, tp_duration_hus := 40\<rparr>,
           x_alarm_hs := (rq_start_hs r + ticks) AND CLOCK_MASK\<rparr>)"

definition fill_event :: "'x radio_rom \<Rightarrow> ull_radio_tx_request \<Rightarrow> bytes \<Rightarrow> 'x radio \<Rightarrow> 'x radio" where
  "fill_event rom r bs s =
     (let s = fill_first rom r (fill_descriptors r (fill_payload bs s));
          s = (if x_prequeued_reply (r_tx s) then fill_reply r s else s);
          s = (if x_prequeued_reply (r_tx s) \<and> x_repeat_payload (r_tx s) then fill_stop r s else s);
          s = on_tx (first_program rom r) s;
          s = (if x_prequeued_reply (r_tx s) then on_tx (reply_programs rom r) s else s);
          s = (if x_prequeued_reply (r_tx s) \<and> x_repeat_payload (r_tx s) then on_tx (stop_programs rom r) s else s)
      in set_tx_phase ULL_TX_QUEUED s)"

definition required_lead :: "'x radio_hw \<Rightarrow> u32" where "required_lead h = ucast (hw_prog_delay h) * 625 + 1000"

definition owner_bits :: "'x radio_hw \<Rightarrow> u32" where
  "owner_bits h = (if hw_active h \<noteq> NOBODY then 1 else 0) OR (if tx_active_is_ours h then 2 else 0)"

text \<open>The insertion with its two optional measurements.\<close>

definition measure_before :: "'x radio_rom \<Rightarrow> 'x radio \<Rightarrow> 'x radio \<times> u32 list option" where
  "measure_before rom s =
     (let measure = tr_insert_pending (r_trace s); s = on_trace (\<lambda>t. t\<lparr>tr_insert_pending := False\<rparr>) s in
      if \<not> measure then (s, None)
      else
        let s = on_trace (\<lambda>t. t\<lparr>tr_insert := (tr_insert t)[0 := 0]\<rparr>) s; h = r_hw s in
        (clock_read s, Some [insert_relative (r_tx s) (radio_now rom s), required_lead h, owner_bits h,
                             if hw_head h then 1 else 0]))"

definition measure_failure :: "'x radio_rom \<Rightarrow> ull_radio_tx_request \<Rightarrow> radio_time \<Rightarrow> u32 \<Rightarrow> u8 \<Rightarrow> 'x radio \<Rightarrow> 'x radio" where
  "measure_failure rom r now before status s =
     (let after = insert_relative (r_tx s) (radio_now rom s); h = r_hw s in
      record_retry_failure [2, request_relative now (rq_start_hs r) (ucast (rq_start_hus r)), before, after, ucast status,
        required_lead h, ta_duration_hus (x_arb (r_tx s)), owner_bits h, if hw_head h then 1 else 0] (clock_read s))"

definition measure_after :: "'x radio_rom \<Rightarrow> u32 list option \<Rightarrow> u8 \<Rightarrow> 'x radio \<Rightarrow> 'x radio" where
  "measure_after rom m status s =
     (case m of None \<Rightarrow> s
      | Some v \<Rightarrow>
          let after = insert_relative (r_tx s) (radio_now rom s) in
          on_trace (\<lambda>t. t\<lparr>tr_insert := [1, v ! 0, after, ucast status, v ! 1, ta_duration_hus (x_arb (r_tx s)), v ! 2, v ! 3]\<rparr>)
            (clock_read s))"

definition insert_event :: "'x radio_rom \<Rightarrow> ull_radio_tx_request \<Rightarrow> radio_time \<Rightarrow> 'x radio \<Rightarrow> 'x radio \<times> u8" where
  "insert_event rom r now s =
     (let (s, m) = measure_before rom s;
          before = insert_relative (r_tx s) (radio_now rom s);
          s = (if rq_repeat_payload r \<noteq> 0 then clock_read s else s);
          (s, status) = arb_insert rom s;
          s = (if status \<noteq> 0 \<and> rq_repeat_payload r \<noteq> 0 then measure_failure rom r now before status s else s)
      in (measure_after rom m status s, status))"

definition tx_reset :: "'x radio \<Rightarrow> 'x radio" where "tx_reset = on_tx (\<lambda>_. tx_zero)"

definition submit_slots :: "ull_radio_tx_request \<Rightarrow> 'x radio \<Rightarrow> (u32 \<times> u32 \<times> u32) option" where
  "submit_slots r s =
     (let v = hw_view (r_hw s); p = tx_activity_parameters (r_hw s);
          reply = (if rq_prequeued_reply r \<noteq> 0 then tx_parameters_for v 2 0xef else 0);
          stop = (if rq_repeat_payload r \<noteq> 0 then tx_parameters_for v 3 0xed else 0)
      in if p = 0 \<or> (rq_prequeued_reply r \<noteq> 0 \<and> reply = 0) \<or> (rq_repeat_payload r \<noteq> 0 \<and> stop = 0) then None
         else Some (p, reply, stop))"

definition submit_late :: "ull_radio_tx_request \<Rightarrow> radio_time \<Rightarrow> 'x radio_hw \<Rightarrow> bool" where
  "submit_late r now h \<longleftrightarrow> (let ahead = (rq_start_hs r - rt_hs now) AND CLOCK_MASK in ahead < ull_radio_tx_min_lead h \<or> ahead > 3200)"

definition submit_expired :: "ull_radio_tx_request \<Rightarrow> radio_time \<Rightarrow> 'x radio \<Rightarrow> 'x radio" where
  "submit_expired r now s =
     (if rq_repeat_payload r = 0 then s
      else
        let at = request_relative now (rq_start_hs r) (ucast (rq_start_hus r)) in
        record_retry_failure [1, at, at, at, ucast ULL_TX_TIME_EXPIRED, required_lead (r_hw s), 0, 0, 0] s)"

definition submit_queue :: "'x radio_rom \<Rightarrow> ull_radio_tx_request \<Rightarrow> bytes \<Rightarrow> radio_time \<Rightarrow> u16 \<Rightarrow> u32 \<times> u32 \<times> u32 \<Rightarrow> 'x radio
    \<Rightarrow> 'x radio \<times> u8" where
  "submit_queue rom r bs now payload slots s =
     (let (p, reply, stop) = slots;
          s = on_tx (\<lambda>_. claimed r payload p reply stop) s;
          s = on_trace (\<lambda>t. t\<lparr>tr_insert_cancelled := False\<rparr>) s;
          (s, status) = insert_event rom r now (fill_event rom r bs (save_storage s))
      in if status \<noteq> 0 then (tx_reset (tx_release_storage rom s), ULL_TX_SCHEDULE_CONFLICT) else (s, 0))"

definition ull_radio_tx_submit :: "'x radio_rom \<Rightarrow> ull_radio_tx_request option \<Rightarrow> 'x radio \<Rightarrow> 'x radio \<times> u8" where
  "ull_radio_tx_submit rom request s =
     (case request of None \<Rightarrow> (s, 0x12)
      | Some r \<Rightarrow>
          (case rq_payload r of None \<Rightarrow> (s, 0x12)
           | Some bs \<Rightarrow>
               if \<not> request_ok r then (s, 0x12)
               else if tx_phase_of s \<noteq> ULL_TX_IDLE \<or> \<not> hw_tables (r_hw s) then (s, 0x0c)
               else
                 let now = radio_now rom s; s = clock_read s in
                 case submit_slots r s of None \<Rightarrow> (s, 0x0c)
                 | Some slots \<Rightarrow>
                     if submit_late r now (r_hw s) then (submit_expired r now s, ULL_TX_TIME_EXPIRED)
                     else
                       let (h, payload) = rm_alloc rom (r_hw s); s = s\<lparr>r_hw := h\<rparr> in
                       if payload = 0 then (s, 0x07) else submit_queue rom r (take (rq_length r) bs) now payload slots s))"

text \<open>The raw packet route.\<close>

record ull_radio_pdu_request =
  pq_start_hs :: u32
  pq_start_hus :: u16
  pq_access_address :: u32
  pq_crc_init :: u32
  pq_pdu :: "bytes option"
  pq_channel :: u8
  pq_phy :: u8

definition pdu_outer :: "ull_radio_pdu_request \<Rightarrow> bytes \<Rightarrow> u32 \<Rightarrow> u16 \<Rightarrow> ull_radio_tx_request" where
  "pdu_outer r bs hs hus =
     \<lparr>rq_start_hs = hs, rq_start_hus = hus, rq_access_address = 0x71764129, rq_crc_init = 0x555555, rq_payload = Some bs,
      rq_length = length bs, rq_channel = pq_channel r, rq_header = 1, rq_phy = pq_phy r, rq_receive_us = 0,
      rq_tx_receive_us = 0, rq_followup_delay_us = 0, rq_followup_window_us = 0, rq_followup_channel = 0,
      rq_prequeued_reply = 0, rq_repeat_payload = 0\<rparr>"

definition pdu_packet :: "ull_radio_pdu_request \<Rightarrow> bytes option" where
  "pdu_packet r =
     (case ull_phy_packet_build (Some (replicate ULL_PHY_PACKET_MAX 0)) ULL_PHY_PACKET_MAX True (pq_access_address r)
             (pq_crc_init r) (pq_channel r) (pq_phy r) (pq_pdu r) of
        None \<Rightarrow> None
      | Some (bs, n) \<Rightarrow> ull_phy_outer_whitening (Some (take n bs)) (pq_channel r))"

definition ull_radio_pdu_submit :: "'x radio_rom \<Rightarrow> ull_radio_pdu_request option \<Rightarrow> 'x radio \<Rightarrow> 'x radio \<times> u8" where
  "ull_radio_pdu_submit rom request s =
     (case request of None \<Rightarrow> (s, 0x12)
      | Some r \<Rightarrow>
          (case (pdu_packet r, ull_phy_dtm_start (pq_start_hs r) (pq_start_hus r) (pq_phy r) True) of
             (Some bs, Some (hs, hus)) \<Rightarrow> ull_radio_tx_submit rom (Some (pdu_outer r bs hs hus)) s
           | _ \<Rightarrow> (s, 0x12)))"

section \<open>Cancelling and collecting\<close>

definition entry_ended :: "'x radio_hw \<Rightarrow> tx_state \<Rightarrow> frame_stage \<Rightarrow> bool" where
  "entry_ended h x stage \<longleftrightarrow> stage_index x stage < 16 \<and>
     (if en_used (hw_entries h (stage_index x stage)) \<noteq> 0
      then tx_entry_is_ours h (stage_index x stage) (stage_program x stage) False else stage_ended x stage)"

definition ull_radio_tx_cancel :: "'x radio_rom \<Rightarrow> 'x radio \<Rightarrow> 'x radio" where
  "ull_radio_tx_cancel rom s =
     (let s = on_trace (\<lambda>t. t\<lparr>tr_insert_pending := False, tr_insert_cancelled := True\<rparr>) s;
          s = on_tx (\<lambda>x. x\<lparr>x_followup_pending := False\<rparr>) s;
          phase = tx_phase_of s
      in if phase = ULL_TX_QUEUED
         then
           let (h, status) = rm_remove rom (r_hw s) 0; s = s\<lparr>r_hw := h\<rparr> in
           if status = 0 \<and> \<not> tx_active_is_ours h then set_tx_phase ULL_TX_CANCELLED s else s
         else if x_repeat_payload (r_tx s) \<and> (phase = ULL_TX_ACTIVE \<or> phase = ULL_TX_ABORTING)
           then if tx_active_is_ours (r_hw s) \<and> list_all (entry_ended (r_hw s) (r_tx s)) [FIRST, REPLY, STOPPER]
                then s else fault 1 s
         else tx_abort_active rom s)"

definition fine_elapsed :: "tx_program \<Rightarrow> radio_time \<Rightarrow> int" where
  "fine_elapsed p now = coarse_distance (rt_hs now) (tp_hs p) * 625 + uint (rt_hus now) - uint (tp_hus p)"

definition fine_timeout_armed :: "'x radio \<Rightarrow> bool" where
  "fine_timeout_armed s \<longleftrightarrow>
     (let x = r_tx s; h = r_hw s in
      x_repeat_payload x \<and> x_first_ended x \<and> x_reply_ended x \<and> \<not> x_stop_ended x \<and> \<not> x_stop_abort_requested x \<and>
      (tx_phase_of s = ULL_TX_ACTIVE \<or> tx_phase_of s = ULL_TX_ABORTING) \<and> tx_active_is_ours h \<and>
      tx_entry_is_ours h (x_stop_index x) (x_stop_program x) True \<and>
      drop_bit 3 (retry_et h (x_stop_index x) (x_stop_program x)) AND 7 = 2)"

definition fine_timeout :: "'x radio_rom \<Rightarrow> 'x radio \<Rightarrow> 'x radio" where
  "fine_timeout rom s =
     (if \<not> fine_timeout_armed s then s
      else
        let now = radio_now rom s; s = clock_read s in
        if 40 \<le> fine_elapsed (x_stop_program (r_tx s)) now
        then tx_abort_active rom (on_tx (\<lambda>x. x\<lparr>x_stop_abort_requested := True\<rparr>) s) else s)"

definition entry_used :: "'x radio \<Rightarrow> frame_stage \<Rightarrow> bool" where
  "entry_used s stage \<longleftrightarrow> en_used (hw_entries (r_hw s) (stage_index (r_tx s) stage)) \<noteq> 0"

definition entry_foreign :: "'x radio \<Rightarrow> frame_stage \<Rightarrow> bool" where
  "entry_foreign s stage \<longleftrightarrow> entry_used s stage \<and>
     \<not> tx_entry_is_ours (r_hw s) (stage_index (r_tx s) stage) (stage_program (r_tx s) stage) False"

definition queued_stages :: "tx_state \<Rightarrow> frame_stage list" where
  "queued_stages x = FIRST # REPLY # (if x_repeat_payload x then [STOPPER] else [])"

definition collect_foreign :: "'x radio \<Rightarrow> bool" where
  "collect_foreign s \<longleftrightarrow> list_ex (entry_foreign s) (queued_stages (r_tx s)) \<or> hw_active (r_hw s) = FOREIGN"

text \<open>The three outcomes of the middle of a collection.\<close>

datatype 'x collect_step = COLLECT_LOST "'x radio" | COLLECT_WAIT "'x radio" | COLLECT_ON "'x radio"

definition collect_queued :: "'x radio_rom \<Rightarrow> 'x radio \<Rightarrow> 'x collect_step" where
  "collect_queued rom s =
     (if \<not> (x_prequeued_reply (r_tx s) \<and> all_ended (r_tx s)) then COLLECT_ON s
      else if collect_foreign s then COLLECT_LOST (on_trace (\<lambda>t. t\<lparr>tr_insert_pending := False\<rparr>) (fault 0x21 s))
      else if list_ex (entry_used s) (queued_stages (r_tx s)) then COLLECT_WAIT s
      else COLLECT_ON (remove_if_ours rom (tx_restore_globals s)))"

definition collect_busy :: "'x radio \<Rightarrow> bool" where
  "collect_busy s \<longleftrightarrow> tx_phase_of s \<in> {ULL_TX_QUEUED, ULL_TX_ACTIVE, ULL_TX_ABORTING} \<or> x_globals_set (r_tx s) \<or>
     x_alarm_set (r_tx s) \<or> tx_active_is_ours (r_hw s) \<or> tx_program_is_ours (r_hw s) (r_tx s) False"

definition collect_release :: "'x radio_rom \<Rightarrow> 'x radio \<Rightarrow> 'x radio" where
  "collect_release rom s =
     (let s = retry_record rom 7 255 0 s;
          measured = (tr_enabled (r_trace s) \<and> x_repeat_payload (r_tx s) \<and> \<not> tr_insert_cancelled (r_trace s) \<and>
                      tx_phase_of s = ULL_TX_ENDED);
          s = (if measured then on_trace (\<lambda>t. t\<lparr>tr_insert_pending := True\<rparr>) s else s)
      in tx_reset (tx_release_storage rom s))"

definition collect_lost :: "'x radio \<Rightarrow> bool" where
  "collect_lost s \<longleftrightarrow> tx_phase_of s = ULL_TX_FAULT \<or> (x_storage_set (r_tx s) \<and> \<not> parameters_kept s)"

text \<open>The result is what the caller's structure holds afterwards; the last component is the return value.\<close>

definition ull_radio_tx_collect :: "'x radio_rom \<Rightarrow> bool \<Rightarrow> 'x radio \<Rightarrow> 'x radio \<times> ull_radio_tx_result option \<times> int" where
  "ull_radio_tx_collect rom wanted s =
     (if \<not> wanted then (s, None, - 1)
      else if collect_lost s then (on_trace (\<lambda>t. t\<lparr>tr_insert_pending := False\<rparr>) s, Some (x_result (r_tx s)), - 1)
      else
        case collect_queued rom (fine_timeout rom s) of
          COLLECT_LOST t \<Rightarrow> (t, Some (x_result (r_tx t)), - 1)
        | COLLECT_WAIT t \<Rightarrow> (t, Some (x_result (r_tx t)), 0)
        | COLLECT_ON t \<Rightarrow> (if collect_busy t then (t, Some (x_result (r_tx t)), 0)
                           else (collect_release rom t, Some (x_result (r_tx t)), 1)))"

end
