(* ===== verification/RadioOwned.thy ===== *)
theory RadioOwned
  imports RadioTx
begin

text \<open>
  What the scheduled transmitter of \<^verbatim>\<open>radio_tx.c\<close> borrows and gives back: the three radio registers,
  the control structures and descriptors in exchange memory and the payload buffer. The laws of the
  routines in ROM say what they leave alone; every other action of the controller and of the hardware is
  a step that may change anything else.
\<close>

section \<open>What the routines leave alone\<close>

type_synonym registers = "u32 \<times> u32 \<times> u32"

definition registers :: "'x radio_hw \<Rightarrow> registers" where
  "registers h = (hw_control h, hw_test h, hw_timing h)"

definition ring :: "'x radio_hw \<Rightarrow> arb_owner \<times> (u8 \<Rightarrow> tx_entry) \<times> u8" where
  "ring h = (hw_active h, hw_entries h, hw_consumer h)"

definition rom_law :: "'x radio_rom \<Rightarrow> bool" where
  "rom_law rom \<longleftrightarrow>
     (\<forall>h a. registers (fst (rm_insert rom h a)) = registers h) \<and> (\<forall>h k. registers (fst (rm_remove rom h k)) = registers h) \<and>
     (\<forall>h p. registers (rm_push rom h p) = registers h) \<and> (\<forall>h t. registers (rm_alarm_set rom h t) = registers h) \<and>
     (\<forall>h. registers (rm_alarm_clear rom h) = registers h) \<and> (\<forall>h. registers (fst (rm_alloc rom h)) = registers h) \<and>
     (\<forall>h p. registers (rm_free rom h p) = registers h) \<and> (\<forall>h i f. registers (rm_power rom h i f) = registers h) \<and>
     (\<forall>h. registers (rm_rx_free rom h) = registers h \<and> ring (rm_rx_free rom h) = ring h)"

section \<open>The registers as they will be after the event\<close>

definition held_bits :: "tx_state \<Rightarrow> bool \<times> bool \<times> u32 \<times> u32 \<times> u32" where
  "held_bits x = (x_globals_set x, x_rx_timing_set x, x_saved_enable x, x_saved_test_bits x, x_saved_rx_timing x)"

definition outside :: "'x radio \<Rightarrow> registers" where
  "outside s =
     (if x_globals_set (r_tx s)
      then ((hw_control (r_hw s) AND NOT (TEST_ENABLE OR RADIO_ABORT)) OR x_saved_enable (r_tx s),
            (hw_test (r_hw s) AND NOT TEST_BITS) OR x_saved_test_bits (r_tx s),
            if x_rx_timing_set (r_tx s) then x_saved_rx_timing (r_tx s) else hw_timing (r_hw s))
      else registers (r_hw s))"

definition reg_view :: "'x radio \<Rightarrow> registers \<times> bool \<times> bool \<times> u32 \<times> u32 \<times> u32" where
  "reg_view s = (registers (r_hw s), held_bits (r_tx s))"

lemma outside_view: "reg_view t = reg_view s \<Longrightarrow> outside t = outside s"
  by (simp add: reg_view_def outside_def registers_def held_bits_def)

lemma view_simps [simp]:
  "reg_view (on_trace f s) = reg_view s" "reg_view (clock_read s) = reg_view s" "reg_view (on_result g s) = reg_view s"
  "reg_view (set_tx_phase p s) = reg_view s" "reg_view (fault d s) = reg_view s" "reg_view (rx_invalid s) = reg_view s"
  "reg_view (followup_status v s) = reg_view s" "reg_view (tx_refuse s) = reg_view s"
  by (simp_all add: reg_view_def on_trace_def clock_read_def on_result_def set_tx_phase_def fault_def held_bits_def
      rx_invalid_def followup_status_def tx_refuse_def)

lemma view_hw: "registers (f (r_hw s)) = registers (r_hw s) \<Longrightarrow> reg_view (on_hw f s) = reg_view s"
  by (simp add: reg_view_def on_hw_def)

lemma view_tx: "held_bits (f (r_tx s)) = held_bits (r_tx s) \<Longrightarrow> reg_view (on_tx f s) = reg_view s"
  by (simp add: reg_view_def on_tx_def)

lemma view_cs [simp]: "reg_view (write_cs i ws s) = reg_view s"
  by (simp add: write_cs_def view_hw registers_def)

lemma view_record [simp]: "reg_view (retry_record rom k st r s) = reg_view s"
  by (simp add: retry_record_def Let_def)

section \<open>The life of the event\<close>

text \<open>
  The registers are held exactly from the start of the event to its end; an active or aborting event
  holds them; a queued event whose frames have all ended is over; and the saved control word never has
  the abort bit.
\<close>

definition tx_inv :: "tx_state \<Rightarrow> bool" where
  "tx_inv x \<longleftrightarrow>
     (let p = rs_phase (x_result x) in
      (x_globals_set x \<longrightarrow> p \<noteq> ULL_TX_IDLE \<and> p \<noteq> ULL_TX_QUEUED) \<and>
      (p = ULL_TX_ACTIVE \<or> p = ULL_TX_ABORTING \<longrightarrow> x_globals_set x) \<and> (x_rx_timing_set x \<longrightarrow> x_globals_set x) \<and>
      (x_prequeued_reply x \<and> all_ended x \<longrightarrow> p \<noteq> ULL_TX_QUEUED \<and> p \<noteq> ULL_TX_ACTIVE \<and> p \<noteq> ULL_TX_ABORTING) \<and>
      x_saved_enable x AND RADIO_ABORT = 0)"

definition life :: "tx_state \<Rightarrow> tx_phase \<times> bool \<times> bool \<times> bool \<times> bool \<times> u32" where
  "life x = (rs_phase (x_result x), x_globals_set x, x_rx_timing_set x, x_prequeued_reply x, all_ended x, x_saved_enable x)"

lemma inv_life: "life y = life x \<Longrightarrow> tx_inv y = tx_inv x"
  by (simp add: life_def tx_inv_def)

lemma r_tx_simps [simp]:
  "r_tx (on_trace f s) = r_tx s" "r_tx (clock_read s) = r_tx s" "r_tx (on_hw h s) = r_tx s" "r_tx (on_tx g s) = g (r_tx s)"
  "r_tx (write_cs i ws s) = r_tx s" "r_tx (retry_record rom k st r s) = r_tx s"
  "r_tx (on_result q s) = (r_tx s)\<lparr>x_result := q (x_result (r_tx s))\<rparr>"
  by (simp_all add: on_trace_def clock_read_def on_hw_def on_tx_def write_cs_def retry_record_def Let_def on_result_def)

lemma r_hw_simps [simp]:
  "r_hw (on_trace f s) = r_hw s" "r_hw (clock_read s) = r_hw s" "r_hw (on_hw h s) = h (r_hw s)" "r_hw (on_tx g s) = r_hw s"
  "r_hw (retry_record rom k st r s) = r_hw s" "r_hw (on_result q s) = r_hw s" "r_hw (set_tx_phase p s) = r_hw s"
  "r_hw (fault d s) = r_hw s" "r_hw (followup_status v s) = r_hw s" "r_hw (rx_invalid s) = r_hw s"
  "r_hw (tx_refuse s) = r_hw s"
  by (simp_all add: on_trace_def clock_read_def on_hw_def on_tx_def retry_record_def Let_def on_result_def set_tx_phase_def
      fault_def followup_status_def rx_invalid_def tx_refuse_def)

lemma phase_simps [simp]:
  "tx_phase_of (set_tx_phase p s) = p" "tx_phase_of (fault d s) = ULL_TX_FAULT" "tx_phase_of (on_trace f s) = tx_phase_of s"
  "tx_phase_of (clock_read s) = tx_phase_of s" "tx_phase_of (on_hw h s) = tx_phase_of s"
  "tx_phase_of (retry_record rom k st r s) = tx_phase_of s" "tx_phase_of (write_cs i ws s) = tx_phase_of s"
  by (simp_all add: tx_phase_of_def set_tx_phase_def fault_def)


text \<open>What one action may do: leave \<open>outside\<close> alone and keep the invariant.\<close>

definition sound :: "'x radio \<Rightarrow> 'x radio \<Rightarrow> bool" where
  "sound s t \<longleftrightarrow> tx_inv (r_tx t) \<and> outside t = outside s"

lemma sound_trans: "sound s t \<Longrightarrow> sound t u \<Longrightarrow> sound s u"
  by (simp add: sound_def)

lemma sound_quiet: "tx_inv (r_tx s) \<Longrightarrow> reg_view t = reg_view s \<Longrightarrow> life (r_tx t) = life (r_tx s) \<Longrightarrow> sound s t"
  by (metis inv_life outside_view sound_def)

lemma life_result [simp]:
  "rs_phase r = rs_phase (x_result x) \<Longrightarrow> life (x\<lparr>x_result := r\<rparr>) = life x"
  by (simp add: life_def all_ended_def)

lemma life_simps [simp]:
  "life (r_tx (rx_invalid s)) = life (r_tx s)" "life (r_tx (followup_status v s)) = life (r_tx s)"
  by (simp_all add: rx_invalid_def followup_status_def)

lemma fault_sound: "tx_inv (r_tx s) \<Longrightarrow> sound s (fault d s)"
proof -
  assume inv: "tx_inv (r_tx s)"
  have "outside (fault d s) = outside s" by (rule outside_view) simp
  moreover have "tx_inv (r_tx (fault d s))" using inv by (simp add: fault_def tx_inv_def Let_def)
  ultimately show ?thesis by (simp add: sound_def)
qed

lemma abort_bits: "(c AND NOT TEST_ENABLE OR RADIO_ABORT) AND NOT TEST_ENABLE AND NOT RADIO_ABORT = c AND NOT TEST_ENABLE AND NOT RADIO_ABORT"
  by (rule bit_eqI) (auto simp: bit_simps)

lemma abort_write_sound:
  assumes "tx_inv (r_tx s)" and "tx_phase_of s = ULL_TX_ACTIVE \<or> tx_phase_of s = ULL_TX_ABORTING"
  shows "sound s (abort_write s)"
proof -
  have g: "x_globals_set (r_tx s)" and e: "\<not> (x_prequeued_reply (r_tx s) \<and> all_ended (r_tx s))"
    using assms by (auto simp: tx_inv_def tx_phase_of_def Let_def)
  show ?thesis using assms g e
    by (simp add: sound_def abort_write_def Let_def set_tx_phase_def tx_inv_def outside_def abort_bits all_ended_def)
qed

lemma abort_sound:
  assumes inv: "tx_inv (r_tx s)"
  shows "sound s (tx_abort_active rom s)"
proof -
  let ?s1 = "abort_trace rom s"
  let ?s2 = "on_result (\<lambda>r. r\<lparr>rs_abort_checks := abort_checks ?s1\<rparr>) ?s1"
  have s1: "sound s ?s1" by (rule sound_quiet [OF inv]) (simp_all add: abort_trace_def)
  have i1: "tx_inv (r_tx ?s1)" using s1 by (simp add: sound_def)
  have s2: "sound ?s1 ?s2" by (rule sound_quiet [OF i1]) simp_all
  have i2: "tx_inv (r_tx ?s2)" using s2 by (simp add: sound_def)
  have p: "tx_phase_of ?s2 = tx_phase_of ?s1" by (simp add: tx_phase_of_def)
  show ?thesis
    unfolding tx_abort_active_def Let_def
    using s1 s2 fault_sound [OF i2, of 1] abort_write_sound [OF i2] p by (auto intro: sound_trans)
qed

lemma deadline_sound:
  assumes inv: "tx_inv (r_tx s)"
  shows "sound s (tx_deadline rom own s)"
proof (cases own)
  case False
  then show ?thesis using inv by (simp add: tx_deadline_def sound_def)
next
  case True
  let ?t = "on_tx (\<lambda>x. x\<lparr>x_alarm_set := False\<rparr>) s"
  let ?u = "retry_record rom 6 255 0 ?t"
  let ?v = "on_result (\<lambda>r. r\<lparr>rs_deadline_fired := 1, rs_deadline_hs := rt_hs (radio_now rom ?u),
              rs_deadline_hus := ucast (rt_hus (radio_now rom ?u))\<rparr>) (clock_read ?u)"
  have "life (r_tx ?v) = life (r_tx s)" by (simp add: life_def all_ended_def)
  then have "sound s ?v" by (intro sound_quiet [OF inv]) (simp_all add: view_tx held_bits_def)
  moreover from this have "sound ?v (tx_abort_active rom ?v)" by (intro abort_sound) (simp add: sound_def)
  ultimately show ?thesis using True by (simp add: tx_deadline_def Let_def sound_trans [of s ?v])
qed

section \<open>Receiving\<close>

lemma rx_take_quiet:
  "reg_view (rx_take rom d s) = reg_view s" "life (r_tx (rx_take rom d s)) = life (r_tx s)" "r_hw (rx_take rom d s) = r_hw s"
  by (simp_all add: rx_take_def Let_def)

lemma rx_release_quiet:
  assumes "rom_law rom"
  shows "reg_view (rx_release rom s) = reg_view s" and "life (r_tx (rx_release rom s)) = life (r_tx s)"
    and "ring (r_hw (rx_release rom s)) = ring (r_hw s)"
  using assms by (simp_all add: rx_release_def view_hw rom_law_def)

lemma rx_loop_quiet:
  assumes "rom_law rom"
  shows "reg_view (rx_loop rom a n s) = reg_view s \<and> life (r_tx (rx_loop rom a n s)) = life (r_tx s) \<and>
    ring (r_hw (rx_loop rom a n s)) = ring (r_hw s)"
  by (induction n arbitrary: s) (simp_all add: Let_def rx_release_quiet [OF assms] rx_take_quiet)

lemma receive_quiet:
  assumes "rom_law rom"
  shows "reg_view (tx_receive_owned rom a s) = reg_view s" and "life (r_tx (tx_receive_owned rom a s)) = life (r_tx s)"
    and "ring (r_hw (tx_receive_owned rom a s)) = ring (r_hw s)"
  using rx_loop_quiet [OF assms] by (simp_all add: tx_receive_owned_def)

lemma receive_sound: "rom_law rom \<Longrightarrow> tx_inv (r_tx s) \<Longrightarrow> sound s (tx_receive_owned rom a s)"
  by (rule sound_quiet) (simp_all add: receive_quiet)


section \<open>The callback of a frame\<close>

lemma frame_received_sound:
  assumes law: "rom_law rom" and inv: "tx_inv (r_tx s)"
  shows "sound s (frame_received rom stage s)"
proof -
  let ?s1 = "on_result (\<lambda>r. r\<lparr>rs_rx_callbacks := rs_rx_callbacks r + 1\<rparr>) s"
  let ?s2 = "tx_receive_owned rom (stage_activity stage) ?s1"
  let ?s3 = "followup_status 7 (on_tx (\<lambda>x. x\<lparr>x_followup_pending := False\<rparr>) ?s2)"
  have s1: "sound s ?s1" by (rule sound_quiet [OF inv]) simp_all
  have s2: "sound s ?s2" using receive_sound [OF law, of ?s1] s1 by (auto simp: sound_def)
  have i2: "tx_inv (r_tx ?s2)" using s2 by (simp add: sound_def)
  have "life (r_tx ?s3) = life (r_tx ?s2)" by (simp add: life_def all_ended_def followup_status_def)
  then have s3: "sound ?s2 ?s3" by (intro sound_quiet [OF i2]) (simp_all add: view_tx held_bits_def)
  have i3: "tx_inv (r_tx ?s3)" using s3 by (simp add: sound_def)
  show ?thesis unfolding frame_received_def Let_def
    using s2 sound_trans [OF s2 abort_sound [OF i2]] sound_trans [OF sound_trans [OF s2 s3] abort_sound [OF i3]] by auto
qed

lemma alarm_quiet: "rom_law rom \<Longrightarrow> reg_view (clear_alarm rom s) = reg_view s"
  by (simp add: clear_alarm_def view_tx view_hw held_bits_def rom_law_def)

lemma remove_quiet: "rom_law rom \<Longrightarrow> reg_view (arb_remove rom k s) = reg_view s" "r_tx (arb_remove rom k s) = r_tx s"
  by (simp_all add: arb_remove_def view_hw rom_law_def)

lemma remove_if_ours_quiet:
  "rom_law rom \<Longrightarrow> reg_view (remove_if_ours rom s) = reg_view s" "r_tx (remove_if_ours rom s) = r_tx s"
  by (simp_all add: remove_if_ours_def remove_quiet)

lemma insert_quiet:
  assumes "rom_law rom"
  shows "reg_view (fst (arb_insert rom s)) = reg_view s" and "r_tx (fst (arb_insert rom s)) = r_tx s"
  using assms by (auto simp: arb_insert_def reg_view_def rom_law_def Let_def split_def)

lemma notes_quiet [simp]:
  "reg_view (first_end rom s) = reg_view s" "reg_view (note_end rom r s) = reg_view s"
  "reg_view (count_transmitted s) = reg_view s" "reg_view (end_unless_fault s) = reg_view s"
  "reg_view (observe_registers s) = reg_view s"
  by (simp_all add: first_end_def note_end_def count_transmitted_def end_unless_fault_def observe_registers_def Let_def)

lemma mark_quiet: "reg_view (mark_ended rom reason stage s) = reg_view s"
  by (cases stage) (simp_all add: view_tx held_bits_def)

text \<open>The fields the invariant reads, after the small steps of an end.\<close>

lemma end_fields [simp]:
  "life (r_tx (first_end rom s)) = life (r_tx s)" "life (r_tx (note_end rom r s)) = life (r_tx s)"
  "life (r_tx (count_transmitted s)) = life (r_tx s)" "life (r_tx (clear_alarm rom s)) = life (r_tx s)"
  "life (r_tx (observe_registers s)) = life (r_tx s)"
  by (simp_all add: first_end_def note_end_def count_transmitted_def observe_registers_def clear_alarm_def Let_def)
    (simp_all add: life_def all_ended_def)

lemma end_unless_fault_inv:
  assumes "\<not> x_globals_set (r_tx s) \<and> \<not> x_rx_timing_set (r_tx s) \<and> x_saved_enable (r_tx s) AND RADIO_ABORT = 0 \<or> tx_inv (r_tx s)"
  shows "tx_inv (r_tx (end_unless_fault s))"
  using assms by (auto simp: end_unless_fault_def tx_phase_of_def set_tx_phase_def tx_inv_def Let_def)

lemma mark_inv:
  assumes "tx_inv (r_tx s)"
  shows "if all_ended (r_tx (mark_ended rom reason stage s))
         then x_globals_set (r_tx (mark_ended rom reason stage s)) = x_globals_set (r_tx s) \<and>
              x_rx_timing_set (r_tx (mark_ended rom reason stage s)) = x_rx_timing_set (r_tx s) \<and>
              rs_phase (x_result (r_tx (mark_ended rom reason stage s))) = rs_phase (x_result (r_tx s)) \<and>
              x_saved_enable (r_tx (mark_ended rom reason stage s)) = x_saved_enable (r_tx s)
         else tx_inv (r_tx (mark_ended rom reason stage s))"
  using assms
  by (cases stage) (auto simp: first_end_def count_transmitted_def followup_status_def tx_inv_def Let_def)

lemma queued_frame_sound:
  assumes law: "rom_law rom" and inv: "tx_inv (r_tx s)"
  shows "sound s (queued_frame_ended rom stage reason s)"
proof -
  let ?m = "mark_ended rom reason stage s"
  let ?e = "note_end rom reason (clear_alarm rom ?m)"
  have o: "outside ?m = outside s" by (rule outside_view) (rule mark_quiet)
  show ?thesis
  proof (cases "all_ended (r_tx ?m)")
    case False
    then show ?thesis using o mark_inv [OF inv, of rom reason stage] by (simp add: queued_frame_ended_def sound_def)
  next
    case True
    have "life (r_tx ?e) = life (r_tx ?m)" by simp
    then have "x_globals_set (r_tx ?e) = x_globals_set (r_tx s)" "x_rx_timing_set (r_tx ?e) = x_rx_timing_set (r_tx s)"
      "rs_phase (x_result (r_tx ?e)) = rs_phase (x_result (r_tx s))" "x_saved_enable (r_tx ?e) = x_saved_enable (r_tx s)"
      using mark_inv [OF inv, of rom reason stage] True by (simp_all add: life_def)
    then have "tx_inv (r_tx (end_unless_fault ?e))"
      using inv by (auto simp: end_unless_fault_def tx_phase_of_def set_tx_phase_def tx_inv_def Let_def)
    moreover have "outside (end_unless_fault ?e) = outside s" using o outside_view [of "end_unless_fault ?e" ?m]
      by (simp add: alarm_quiet [OF law])
    ultimately show ?thesis using True by (simp add: queued_frame_ended_def sound_def)
  qed
qed

lemma restore_outside: "outside (tx_restore_globals s) = outside s"
  by (simp add: tx_restore_globals_def tx_restore_timing_def Let_def outside_def registers_def)

lemma restore_fields:
  "x_globals_set (r_tx (tx_restore_globals s)) = False"
  "tx_inv (r_tx s) \<Longrightarrow> x_rx_timing_set (r_tx (tx_restore_globals s)) = False"
  "x_prequeued_reply (r_tx (tx_restore_globals s)) = x_prequeued_reply (r_tx s)"
  "rs_phase (x_result (r_tx (tx_restore_globals s))) = rs_phase (x_result (r_tx s))"
  "all_ended (r_tx (tx_restore_globals s)) = all_ended (r_tx s)"
  "x_saved_enable (r_tx (tx_restore_globals s)) = x_saved_enable (r_tx s)"
  by (auto simp: tx_restore_globals_def tx_restore_timing_def Let_def tx_inv_def all_ended_def)

lemma followup_view:
  assumes "rom_law rom"
  shows "reg_view (tx_queue_followup rom s) = reg_view s"
proof -
  let ?s1 = "on_tx (\<lambda>x. x\<lparr>x_followup_pending := False\<rparr>) s"
  have "reg_view ?s1 = reg_view s" by (simp add: view_tx held_bits_def)
  moreover have "reg_view (followup_prepare t) = reg_view t" for t :: "'a radio"
    by (simp add: followup_prepare_def Let_def view_tx held_bits_def followup_program_def)
  ultimately show ?thesis using insert_quiet(1) [OF assms]
    by (simp add: tx_queue_followup_def Let_def split_def)
qed

lemma followup_sound:
  assumes law: "rom_law rom" and inv: "tx_inv (r_tx s)" and g: "\<not> x_globals_set (r_tx s)" and p: "\<not> x_prequeued_reply (r_tx s)"
  shows "sound s (tx_queue_followup rom s)"
proof -
  let ?s1 = "on_tx (\<lambda>x. x\<lparr>x_followup_pending := False\<rparr>) s"
  let ?s2 = "followup_prepare (clock_read ?s1)"
  obtain h st where ins: "arb_insert rom ?s2 = (h, st)" by fastforce
  have t: "\<not> x_rx_timing_set (r_tx s)" using inv g by (auto simp: tx_inv_def Let_def)
  have v1: "reg_view ?s1 = reg_view s" by (simp add: view_tx held_bits_def)
  have "life (r_tx ?s1) = life (r_tx s)" by (simp add: life_def all_ended_def)
  then have s1: "sound s ?s1" using inv v1 by (intro sound_quiet)
  then have i1: "tx_inv (r_tx ?s1)" by (simp add: sound_def)
  have f: "sound s (fault 2 ?s1)" "sound s (followup_status 5 ?s1)" "sound s (followup_status 4 (clock_read ?s1))"
    using sound_trans [OF s1 fault_sound [OF i1]] sound_trans [OF s1 sound_quiet [OF i1]] by simp_all
  have v2: "reg_view ?s2 = reg_view s" using v1
    by (simp add: followup_prepare_def Let_def view_tx held_bits_def followup_program_def)
  have l2: "x_globals_set (r_tx ?s2) = False" "x_rx_timing_set (r_tx ?s2) = False" "x_prequeued_reply (r_tx ?s2) = False"
    "x_saved_enable (r_tx ?s2) AND RADIO_ABORT = 0"
    using g t p inv [unfolded tx_inv_def Let_def] by (simp_all add: followup_prepare_def Let_def set_tx_phase_def followup_program_def)
  have "reg_view h = reg_view s" "r_tx h = r_tx ?s2" using insert_quiet [OF law, of ?s2] ins v2 by simp_all
  then have "sound s (set_tx_phase ULL_TX_ENDED (followup_status 5 h)) \<and> sound s (followup_status 1 h)"
    using l2 outside_view [of "set_tx_phase ULL_TX_ENDED (followup_status 5 h)" s] outside_view [of "followup_status 1 h" s]
    by (simp add: sound_def set_tx_phase_def followup_status_def tx_inv_def)
      (simp add: followup_prepare_def Let_def set_tx_phase_def)
  then show ?thesis unfolding tx_queue_followup_def Let_def using f ins by auto
qed


lemma single_frame_sound:
  assumes law: "rom_law rom" and inv: "tx_inv (r_tx s)" and p: "\<not> x_prequeued_reply (r_tx s)"
  shows "sound s (single_frame_ended rom reason s)"
proof -
  let ?a = "clear_alarm rom s"
  let ?b = "note_end rom reason (if x_followup_active (r_tx ?a) then ?a else count_transmitted ?a)"
  let ?c = "end_unless_fault (remove_if_ours rom (tx_restore_globals ?b))"
  let ?d = "if x_followup_active (r_tx ?c) then followup_status (if reason = 0 then 3 else 6) ?c else ?c"
  have lb: "life (r_tx ?b) = life (r_tx s)" by simp
  then have ib: "tx_inv (r_tx ?b)" and pb: "\<not> x_prequeued_reply (r_tx ?b)" using inv p inv_life [OF lb] by (simp_all add: life_def)
  have ob: "outside ?b = outside s" by (rule outside_view) (simp add: alarm_quiet [OF law])
  have g: "\<not> x_globals_set (r_tx (remove_if_ours rom (tx_restore_globals ?b)))"
    "\<not> x_rx_timing_set (r_tx (remove_if_ours rom (tx_restore_globals ?b)))"
    "\<not> x_prequeued_reply (r_tx (remove_if_ours rom (tx_restore_globals ?b)))"
    "x_saved_enable (r_tx (remove_if_ours rom (tx_restore_globals ?b))) AND RADIO_ABORT = 0"
    using restore_fields(2) [OF ib] pb ib
    by (simp_all only: remove_if_ours_quiet(2) restore_fields(1,3,6) simp_thms tx_inv_def Let_def)
  have ic: "tx_inv (r_tx ?c)" by (rule end_unless_fault_inv) (simp add: g)
  have oc: "outside ?c = outside s"
    using outside_view [of ?c "tx_restore_globals ?b"] ob by (simp add: remove_if_ours_quiet(1) [OF law] restore_outside)
  have gc: "\<not> x_globals_set (r_tx ?c)" "\<not> x_prequeued_reply (r_tx ?c)" using g by (simp_all add: end_unless_fault_def set_tx_phase_def)
  have ld: "life (r_tx ?d) = life (r_tx ?c)" by simp
  have d: "sound s ?d"
    using sound_trans [of s ?c ?d] sound_quiet [OF ic, of ?d] ic oc ld by (simp add: sound_def)
  have e: "sound ?d (first_end rom ?d)" using d by (intro sound_quiet) (simp_all add: sound_def)
  have "life (r_tx (first_end rom ?d)) = life (r_tx ?c)" using ld by simp
  then have "\<not> x_globals_set (r_tx (first_end rom ?d))" "\<not> x_prequeued_reply (r_tx (first_end rom ?d))"
    using gc unfolding life_def by simp_all
  moreover have "tx_inv (r_tx (first_end rom ?d))" using e by (simp add: sound_def)
  ultimately have "sound (first_end rom ?d) (tx_queue_followup rom (first_end rom ?d))" by (intro followup_sound [OF law])
  then have f: "sound s (tx_queue_followup rom (first_end rom ?d))" using d e by (meson sound_trans)
  have "single_end rom reason s = ?d" by (simp only: single_end_def Let_def)
  then show ?thesis using d f by (simp only: single_frame_ended_def Let_def split: if_split) blast
qed

lemma frame_ended_sound:
  assumes law: "rom_law rom" and inv: "tx_inv (r_tx s)"
  shows "sound s (frame_ended rom stage reason s)"
proof -
  let ?t = "if reason \<noteq> 4 then tx_receive_owned rom (stage_activity stage) s else s"
  have t: "sound s ?t" using receive_sound [OF law inv] inv by (simp add: sound_def)
  then have i: "tx_inv (r_tx ?t)" by (simp add: sound_def)
  show ?thesis
    unfolding frame_ended_def Let_def
    by (rule if_split [THEN iffD2])
      (use sound_trans [OF t queued_frame_sound [OF law i]] sound_trans [OF t single_frame_sound [OF law i]] in blast)
qed

lemma frame_done_sound:
  assumes law: "rom_law rom" and inv: "tx_inv (r_tx s)"
  shows "sound s (tx_frame_done rom hs context reason s)"
proof -
  let ?stage = "frame_stage_of (r_tx s) context"
  let ?a = "retry_record rom 4 (stage_number (r_tx s) context) (ucast reason) s"
  let ?b = "on_result (\<lambda>r. r\<lparr>rs_callback_reason := reason\<rparr>) ?a"
  let ?c = "observe_registers ?a"
  let ?d = "on_result (\<lambda>r. r\<lparr>rs_tx_callbacks := rs_tx_callbacks r + 1\<rparr>) ?c"
  have ia: "tx_inv (r_tx ?a)" using inv by simp
  have a: "sound s ?a" by (rule sound_quiet [OF inv]) simp_all
  have b: "sound s ?b" by (rule sound_quiet [OF inv]) simp_all
  have c: "sound s ?c" by (rule sound_quiet [OF inv]) simp_all
  have d: "sound s ?d" by (rule sound_quiet [OF inv]) simp_all
  have ib: "tx_inv (r_tx ?b)" and ic: "tx_inv (r_tx ?c)" using b c by (simp_all add: sound_def)
  note f = sound_trans [OF b fault_sound [OF ib]] sound_trans [OF a fault_sound [OF ia]]
    sound_trans [OF c frame_received_sound [OF law ic]] sound_trans [OF c frame_ended_sound [OF law ic]]
  show ?thesis unfolding tx_frame_done_def Let_def using a c d f by (simp only: split: if_split) simp
qed

section \<open>The other callbacks and the requests\<close>

lemma cancelled_sound: "tx_inv (r_tx s) \<Longrightarrow> sound s (tx_cancelled own s)"
proof (cases "\<not> own \<or> tx_phase_of s \<noteq> ULL_TX_QUEUED")
  case True
  assume "tx_inv (r_tx s)"
  then show ?thesis using True fault_sound by (simp add: tx_cancelled_def)
next
  case False
  assume inv: "tx_inv (r_tx s)"
  have "outside (set_tx_phase ULL_TX_CANCELLED s) = outside s" by (rule outside_view) simp
  then show ?thesis using False inv
    by (auto simp: tx_cancelled_def sound_def tx_phase_of_def set_tx_phase_def tx_inv_def Let_def)
qed

lemma stopped_sound: "tx_inv (r_tx s) \<Longrightarrow> sound s (tx_stopped rom own s)"
  by (simp add: tx_stopped_def abort_sound) (simp add: sound_def)

lemma refuse_sound: "tx_inv (r_tx s) \<Longrightarrow> sound s (tx_refuse s)"
proof -
  assume "tx_inv (r_tx s)"
  moreover have "outside (tx_refuse s) = outside s" by (rule outside_view) simp
  ultimately show ?thesis by (simp add: sound_def tx_refuse_def set_tx_phase_def tx_inv_def Let_def)
qed

lemma configure_quiet:
  assumes "rom_law rom"
  shows "reg_view (fst (configure_slot rom i f k s)) = reg_view s \<and> r_tx (fst (configure_slot rom i f k s)) = r_tx s"
  using assms by (simp add: configure_slot_def Let_def split_def view_hw rom_law_def)

lemma note_power_quiet [simp]: "reg_view (note_power t) = reg_view t" "r_tx (note_power t) = r_tx t"
  by (simp_all add: note_power_def)

lemma slots_quiet:
  assumes "rom_law rom"
  shows "reg_view (fst (configure_slots rom s)) = reg_view s \<and> r_tx (fst (configure_slots rom s)) = r_tx s"
proof -
  have r: "reg_view (fst (configure_reply rom t)) = reg_view t \<and> r_tx (fst (configure_reply rom t)) = r_tx t" for t
    using configure_quiet [OF assms] by (simp add: configure_reply_def)
  have k: "reg_view (fst (configure_stop rom t)) = reg_view t \<and> r_tx (fst (configure_stop rom t)) = r_tx t" for t
    using configure_quiet [OF assms] by (simp add: configure_stop_def)
  show ?thesis
    using configure_quiet [OF assms] r k by (simp add: configure_slots_def Let_def split_def)
qed

text \<open>Once the registers are taken the phase is active, and a push only leads on to a fault.\<close>

definition running :: "'x radio \<Rightarrow> 'x radio \<Rightarrow> bool" where
  "running s t \<longleftrightarrow> sound s t \<and> reg_view t = reg_view s"

lemma fault_running: "tx_inv (r_tx s) \<Longrightarrow> running s (fault d s)"
  by (simp add: running_def fault_sound)

lemma running_trans: "running s t \<Longrightarrow> running t u \<Longrightarrow> running s u"
  by (simp add: running_def sound_def)

lemma running_quiet: "tx_inv (r_tx s) \<Longrightarrow> reg_view t = reg_view s \<Longrightarrow> life (r_tx t) = life (r_tx s) \<Longrightarrow> running s t"
  by (simp add: running_def sound_quiet)

lemma push_step:
  assumes "rom_law rom" and "tx_inv (r_tx s)"
  shows "running s (retry_record rom k st r (on_hw (\<lambda>h. rm_push rom h p) s))"
  using assms by (intro running_quiet) (simp_all add: view_hw rom_law_def)

lemma push_first_running:
  assumes "rom_law rom" and "tx_inv (r_tx s)"
  shows "running s (fst (push_first rom s))"
proof -
  let ?a = "retry_record rom 2 0 0 (on_hw (\<lambda>h. rm_push rom h (x_program (r_tx s))) s)"
  let ?b = "on_result (\<lambda>r. r\<lparr>rs_test_programmed := hw_test (r_hw ?a)\<rparr>) ?a"
  have b: "running s ?b" using assms by (intro running_quiet) (simp_all add: view_hw rom_law_def)
  then have "tx_inv (r_tx ?b)" by (simp only: running_def sound_def)
  then have "running s (fault 5 ?b)" using running_trans [OF b fault_running] by blast
  then show ?thesis using b by (simp add: push_first_def Let_def)
qed

lemma push_reply_running:
  assumes "rom_law rom" and "tx_inv (r_tx s)"
  shows "running s (fst (push_reply rom s))"
proof -
  let ?a = "on_tx (\<lambda>x. x\<lparr>x_reply_index := hw_producer (r_hw s)\<rparr>) s"
  let ?b = "retry_record rom 3 1 0 (on_hw (\<lambda>h. rm_push rom h (x_reply_program (r_tx ?a))) ?a)"
  have "life (r_tx ?a) = life (r_tx s)" by (simp add: life_def all_ended_def)
  then have a: "running s ?a" using assms by (intro running_quiet) (simp_all add: view_tx held_bits_def)
  then have ia: "tx_inv (r_tx ?a)" by (simp add: running_def sound_def)
  have b: "running ?a ?b" by (rule push_step) (use assms ia in simp_all)
  then have ib: "tx_inv (r_tx ?b)" by (simp only: running_def sound_def)
  have c: "running ?b (followup_status 1 ?b)" by (intro running_quiet [OF ib]) simp_all
  show ?thesis
    using running_trans [OF a fault_running [OF ia]] running_trans [OF running_trans [OF a b] fault_running [OF ib]]
      running_trans [OF running_trans [OF a b] c]
    unfolding push_reply_def Let_def by (simp only: split: if_split) simp
qed

lemma push_stop_running:
  assumes "rom_law rom" and "tx_inv (r_tx s)"
  shows "running s (fst (push_stop rom s))"
proof -
  let ?a = "on_tx (\<lambda>x. x\<lparr>x_stop_index := hw_producer (r_hw s)\<rparr>) s"
  let ?b = "retry_record rom 3 2 0 (on_hw (\<lambda>h. rm_push rom h (x_stop_program (r_tx ?a))) ?a)"
  have "life (r_tx ?a) = life (r_tx s)" by (simp add: life_def all_ended_def)
  then have a: "running s ?a" using assms by (intro running_quiet) (simp_all add: view_tx held_bits_def)
  then have ia: "tx_inv (r_tx ?a)" by (simp add: running_def sound_def)
  have b: "running ?a ?b" by (rule push_step) (use assms ia in simp_all)
  then have ib: "tx_inv (r_tx ?b)" by (simp only: running_def sound_def)
  show ?thesis
    using running_trans [OF a fault_running [OF ia]] running_trans [OF running_trans [OF a b] fault_running [OF ib]]
      running_trans [OF a b]
    unfolding push_stop_def Let_def by (simp only: split: if_split) simp
qed


lemma programs_running:
  assumes law: "rom_law rom" and inv: "tx_inv (r_tx s)"
  shows "running s (push_programs rom s)"
proof -
  obtain a ka where a: "push_first rom s = (a, ka)" by fastforce
  obtain b kb where b: "(if x_prequeued_reply (r_tx a) then push_reply rom a else (a, True)) = (b, kb)" by fastforce
  obtain c kc where c: "(if x_repeat_payload (r_tx b) then push_stop rom b else (b, True)) = (c, kc)" by fastforce
  have ra: "running s a" using push_first_running [OF law inv] a by simp
  then have ia: "tx_inv (r_tx a)" by (simp only: running_def sound_def)
  have rb: "running a b" using push_reply_running [OF law ia] running_quiet [OF ia, of a] b by (auto split: if_splits)
  then have ib: "tx_inv (r_tx b)" by (simp only: running_def sound_def)
  have rc: "running b c" using push_stop_running [OF law ib] running_quiet [OF ib, of b] c by (auto split: if_splits)
  then have ic: "tx_inv (r_tx c)" by (simp only: running_def sound_def)
  have l: "life (r_tx (set_alarm rom c)) = life (r_tx c)" by (simp add: set_alarm_def life_def all_ended_def)
  have v: "reg_view (set_alarm rom c) = reg_view c" using law by (simp add: set_alarm_def view_tx view_hw held_bits_def rom_law_def)
  have "running c (set_alarm rom c)" using running_quiet [OF ic v l] .
  then have "running s b \<and> running s c \<and> running s (set_alarm rom c)" using ra rb rc by (meson running_trans)
  then show ?thesis using ra a b c by (simp add: push_programs_def)
qed

lemma taken_bits:
  assumes "c AND (TEST_ENABLE OR RADIO_ABORT) = 0"
  shows "(c AND NOT TEST_ENABLE) AND NOT TEST_ENABLE AND NOT RADIO_ABORT OR c AND TEST_ENABLE = c"
proof (rule bit_eqI)
  fix n assume n: "possible_bit TYPE(u32) n"
  have "bit (c AND (TEST_ENABLE OR RADIO_ABORT)) n = bit (0 :: u32) n" by (simp only: assms)
  then show "bit ((c AND NOT TEST_ENABLE) AND NOT TEST_ENABLE AND NOT RADIO_ABORT OR c AND TEST_ENABLE) n = bit c n"
    using n by (auto simp: bit_simps)
qed

lemma taken_test: "(t AND NOT TEST_BITS) OR (t AND TEST_BITS) = t"
  by (rule bit_eqI) (auto simp: bit_simps)

lemma take_registers_sound:
  assumes inv: "tx_inv (r_tx s)" and p: "tx_phase_of s = ULL_TX_QUEUED"
    and bits: "hw_control (r_hw s) AND (TEST_ENABLE OR RADIO_ABORT) = 0"
  shows "sound s (take_registers s)"
proof -
  have g: "\<not> x_globals_set (r_tx s)" "\<not> x_rx_timing_set (r_tx s)" "\<not> (x_prequeued_reply (r_tx s) \<and> all_ended (r_tx s))"
    using inv p by (auto simp: tx_inv_def tx_phase_of_def Let_def)
  have fields: "x_globals_set (r_tx (take_registers s))" "rs_phase (x_result (r_tx (take_registers s))) = ULL_TX_ACTIVE"
    "x_prequeued_reply (r_tx (take_registers s)) = x_prequeued_reply (r_tx s)"
    "all_ended (r_tx (take_registers s)) = all_ended (r_tx s)"
    "x_saved_enable (r_tx (take_registers s)) = hw_control (r_hw s) AND TEST_ENABLE"
    by (simp_all add: take_registers_def take_timing_def Let_def followup_status_def all_ended_def)
  have "(hw_control (r_hw s) AND TEST_ENABLE) AND RADIO_ABORT = 0"
    by (simp add: and.assoc TEST_ENABLE_def RADIO_ABORT_def)
  then have i: "tx_inv (r_tx (take_registers s))" using fields g by (simp add: tx_inv_def Let_def)
  have "outside (take_registers s) = outside s"
    using g taken_bits [OF bits] taken_test
    by (simp add: take_registers_def take_timing_def Let_def followup_status_def outside_def registers_def)
  then show ?thesis using i by (simp add: sound_def)
qed

lemma retry_begin_quiet [simp]: "reg_view (retry_begin rom s) = reg_view s" "r_tx (retry_begin rom s) = r_tx s"
  "r_hw (retry_begin rom s) = r_hw s"
  by (simp_all add: retry_begin_def Let_def)

lemma start_event_sound:
  assumes law: "rom_law rom" and inv: "tx_inv (r_tx s)" and p: "tx_phase_of s = ULL_TX_QUEUED"
    and bits: "hw_control (r_hw s) AND (TEST_ENABLE OR RADIO_ABORT) = 0"
  shows "sound s (start_event rom s)"
proof -
  let ?a = "on_tx (\<lambda>x. x\<lparr>x_program_index := hw_producer (r_hw s)\<rparr>) s"
  let ?f = "set_tx_phase ULL_TX_FAULT (arb_remove rom 1 (on_result (\<lambda>r. r\<lparr>rs_fault_detail := 4\<rparr>) ?a))"
  obtain b ok where b: "configure_slots rom ?a = (b, ok)" by fastforce
  have va: "reg_view ?a = reg_view s" by (simp add: view_tx held_bits_def)
  have la: "life (r_tx ?a) = life (r_tx s)" by (simp add: life_def all_ended_def)
  have vb: "reg_view b = reg_view s" "r_tx b = r_tx ?a" using slots_quiet [OF law, of ?a] b va by simp_all
  have r: "sound t (tx_refuse (arb_remove rom 1 t))" if "tx_inv (r_tx t)" for t
  proof -
    have q: "sound t (arb_remove rom 1 t)" by (rule sound_quiet [OF that]) (simp_all add: remove_quiet(1) [OF law] remove_quiet(2))
    then have "tx_inv (r_tx (arb_remove rom 1 t))" by (simp add: sound_def)
    then show ?thesis using sound_trans [OF q refuse_sound] by blast
  qed
  have "outside ?f = outside s" using va by (intro outside_view) (simp add: remove_quiet(1) [OF law])
  moreover have "tx_inv (r_tx ?f)" using inv by (simp add: remove_quiet(2) set_tx_phase_def tx_inv_def Let_def)
  ultimately have f: "sound s ?f" by (simp add: sound_def)
  have lb: "life (r_tx b) = life (r_tx s)" using vb(2) la by (simp only:)
  have sb: "sound s b" by (rule sound_quiet [OF inv vb(1) lb])
  then have ib: "tx_inv (r_tx b)" by (simp only: sound_def)
  have "hw_control (r_hw b) = hw_control (r_hw s)" using vb(1) by (simp add: reg_view_def registers_def)
  moreover have "tx_phase_of b = ULL_TX_QUEUED" using p lb by (simp only: tx_phase_of_def life_def prod.inject)
  ultimately have t: "sound b (take_registers b)" using take_registers_sound [OF ib] bits by simp
  then have it: "tx_inv (r_tx (take_registers b))" by (simp only: sound_def)
  have g: "sound s (push_programs rom (take_registers b))"
    using sound_trans [OF sound_trans [OF sb t]] programs_running [OF law it] unfolding running_def by blast
  have h: "sound s (tx_refuse (arb_remove rom 1 b))" using sound_trans [OF sb r [OF ib]] .
  show ?thesis unfolding start_event_def Let_def b prod.case using r [OF inv] f g h by (simp only: split: if_split) simp
qed

lemma started_sound:
  assumes law: "rom_law rom" and inv: "tx_inv (r_tx s)"
  shows "sound s (tx_started rom own s)"
proof -
  let ?a = "retry_begin rom s"
  have a: "sound s ?a" by (rule sound_quiet [OF inv]) simp_all
  then have ia: "tx_inv (r_tx ?a)" by (simp add: sound_def)
  have q: "sound ?a (remove_if_ours rom ?a)"
    by (rule sound_quiet [OF ia]) (simp_all add: remove_if_ours_quiet(1) [OF law] remove_if_ours_quiet(2))
  then have "tx_inv (r_tx (remove_if_ours rom ?a))" by (simp only: sound_def)
  from refuse_sound [OF this] have r: "sound s (tx_refuse (remove_if_ours rom ?a))" using a q by (meson sound_trans)
  have "start_allowed own ?a \<Longrightarrow> sound ?a (start_event rom ?a)"
    by (rule start_event_sound [OF law ia]) (simp_all add: start_allowed_def)
  then show ?thesis unfolding tx_started_def Let_def using r sound_trans [OF a] by simp
qed

lemma cancel_sound:
  assumes law: "rom_law rom" and inv: "tx_inv (r_tx s)"
  shows "sound s (ull_radio_tx_cancel rom s)"
proof -
  let ?a = "on_tx (\<lambda>x. x\<lparr>x_followup_pending := False\<rparr>)
              (on_trace (\<lambda>t. t\<lparr>tr_insert_pending := False, tr_insert_cancelled := True\<rparr>) s)"
  obtain h st where rem: "rm_remove rom (r_hw ?a) 0 = (h, st)" by fastforce
  let ?b = "?a\<lparr>r_hw := h\<rparr>"
  have la: "life (r_tx ?a) = life (r_tx s)" by (simp add: life_def all_ended_def)
  have a: "sound s ?a" by (rule sound_quiet [OF inv _ la]) (simp add: view_tx held_bits_def)
  then have ia: "tx_inv (r_tx ?a)" by (simp only: sound_def)
  have "registers h = registers (r_hw ?a)" using law rem unfolding rom_law_def by (metis fst_conv)
  then have vb: "reg_view ?b = reg_view ?a" by (simp add: reg_view_def)
  have b: "sound s ?b" by (rule sound_trans [OF a sound_quiet [OF ia vb]]) simp
  have c: "tx_phase_of ?a = ULL_TX_QUEUED \<Longrightarrow> sound s (set_tx_phase ULL_TX_CANCELLED ?b)"
  proof -
    assume p: "tx_phase_of ?a = ULL_TX_QUEUED"
    have o: "outside (set_tx_phase ULL_TX_CANCELLED ?b) = outside ?b" by (rule outside_view) simp
    have "tx_inv (r_tx (set_tx_phase ULL_TX_CANCELLED ?b))"
      using ia p by (auto simp: tx_inv_def tx_phase_of_def set_tx_phase_def Let_def)
    then show ?thesis using o b by (simp add: sound_def)
  qed
  show ?thesis unfolding ull_radio_tx_cancel_def Let_def rem prod.case
    using a b c sound_trans [OF a fault_sound [OF ia]] sound_trans [OF a abort_sound [OF ia]]
    by (simp only: split: if_split) simp
qed


section \<open>Submitting\<close>

text \<open>The loan: what a submission has saved of the borrowed storage, and what decides how it goes back.\<close>

definition loan :: "tx_state \<Rightarrow> (u16 list \<times> u16 list \<times> u16 list) \<times> (u16 list \<times> u16 list) \<times> u16 \<times> bool \<times> bool \<times> bool" where
  "loan x = ((x_saved_cs x, x_saved_reply_cs x, x_saved_stop_cs x), (x_saved_descriptor x, x_saved_repeat_descriptor x),
     x_payload_offset x, x_prequeued_reply x, x_repeat_payload x, x_storage_set x)"

definition fresh :: "tx_state \<Rightarrow> bool" where
  "fresh x \<longleftrightarrow> \<not> x_globals_set x \<and> \<not> x_rx_timing_set x \<and> \<not> x_first_ended x \<and> x_saved_enable x = 0"

lemma fill_parts:
  "loan (r_tx (fill_payload bs s)) = loan (r_tx s)" "fresh (r_tx (fill_payload bs s)) = fresh (r_tx s)"
  "reg_view (fill_payload bs s) = reg_view s"
  "r_tx (fill_descriptors r s) = r_tx s" "reg_view (fill_descriptors r s) = reg_view s"
  "r_tx (fill_first rom r s) = r_tx s" "reg_view (fill_first rom r s) = reg_view s"
  "r_tx (fill_reply r s) = r_tx s" "reg_view (fill_reply r s) = reg_view s"
  "r_tx (fill_stop r s) = r_tx s" "reg_view (fill_stop r s) = reg_view s"
  by (simp_all add: fill_payload_def fill_descriptors_def fill_first_def fill_reply_def fill_stop_def Let_def loan_def
      fresh_def view_hw registers_def)

lemma program_parts:
  "loan (first_program rom r x) = loan x" "fresh (first_program rom r x) = fresh x"
  "held_bits (first_program rom r x) = held_bits x"
  "loan (reply_programs rom r x) = loan x" "fresh (reply_programs rom r x) = fresh x"
  "held_bits (reply_programs rom r x) = held_bits x"
  "loan (stop_programs rom r x) = loan x" "fresh (stop_programs rom r x) = fresh x"
  "held_bits (stop_programs rom r x) = held_bits x"
  by (simp_all add: first_program_def reply_programs_def stop_programs_def Let_def loan_def fresh_def held_bits_def split_def)

definition filled :: "'x radio \<Rightarrow> 'x radio \<Rightarrow> bool" where
  "filled s t \<longleftrightarrow> loan (r_tx t) = loan (r_tx s) \<and> fresh (r_tx t) = fresh (r_tx s) \<and> reg_view t = reg_view s"

lemma filled_if: "filled s t \<Longrightarrow> filled t u \<Longrightarrow> filled s (if b then u else t)"
  by (simp add: filled_def)

lemma filled_stages:
  "filled s (fill_first rom r (fill_descriptors r (fill_payload bs s)))" "filled s (fill_reply r s)" "filled s (fill_stop r s)"
  "filled s (on_tx (first_program rom r) s)" "filled s (on_tx (reply_programs rom r) s)" "filled s (on_tx (stop_programs rom r) s)"
  by (simp_all add: filled_def fill_parts program_parts view_tx)

lemma fill_event_parts:
  "filled s (fill_event rom r bs s)" "tx_phase_of (fill_event rom r bs s) = ULL_TX_QUEUED"
proof -
  have q: "filled t (set_tx_phase p t)" for t p by (simp add: filled_def set_tx_phase_def loan_def fresh_def)
  have tr: "filled a b \<Longrightarrow> filled b c \<Longrightarrow> filled a c" for a b c by (simp add: filled_def)
  show "filled s (fill_event rom r bs s)" unfolding fill_event_def Let_def
    by (rule tr [OF _ q], intro filled_if tr [OF _ filled_stages(4)] filled_stages)
  show "tx_phase_of (fill_event rom r bs s) = ULL_TX_QUEUED" by (simp add: fill_event_def Let_def)
qed

lemma save_parts:
  "fresh (r_tx (save_storage s)) = fresh (r_tx s)" "reg_view (save_storage s) = reg_view s" "r_hw (save_storage s) = r_hw s"
  by (simp_all add: save_storage_def Let_def fresh_def view_tx held_bits_def)

lemma measure_parts:
  "r_tx (fst (measure_before rom s)) = r_tx s" "r_hw (fst (measure_before rom s)) = r_hw s"
  "r_tx (measure_failure rom r now before status s) = r_tx s" "r_hw (measure_failure rom r now before status s) = r_hw s"
  "r_tx (measure_after rom m status s) = r_tx s" "r_hw (measure_after rom m status s) = r_hw s"
  by (simp_all add: measure_before_def measure_failure_def measure_after_def record_retry_failure_def Let_def split: option.split)

lemma insert_event_parts:
  assumes "insert_event rom r now s = (t, status)"
  shows "r_tx t = r_tx s" and "r_hw t = fst (rm_insert rom (r_hw s) (x_arb (r_tx s)))"
    and "status = snd (rm_insert rom (r_hw s) (x_arb (r_tx s)))"
proof -
  obtain a m where a: "measure_before rom s = (a, m)" by fastforce
  let ?b = "if rq_repeat_payload r \<noteq> 0 then clock_read a else a"
  have "r_tx ?b = r_tx s" "r_hw ?b = r_hw s" using measure_parts(1,2) [of rom s] a by simp_all
  then have "r_tx (fst (arb_insert rom ?b)) = r_tx s" "r_hw (fst (arb_insert rom ?b)) = fst (rm_insert rom (r_hw s) (x_arb (r_tx s)))"
    "snd (arb_insert rom ?b) = snd (rm_insert rom (r_hw s) (x_arb (r_tx s)))"
    by (simp_all only: arb_insert_def Let_def split_def fst_conv snd_conv) simp_all
  then show "r_tx t = r_tx s" "r_hw t = fst (rm_insert rom (r_hw s) (x_arb (r_tx s)))"
    "status = snd (rm_insert rom (r_hw s) (x_arb (r_tx s)))"
    using assms a unfolding insert_event_def Let_def split_def by (auto simp: measure_parts split: if_splits)
qed

text \<open>A submission that reached the insertion: the state it inserts and the answer of the scheduler.\<close>

definition prepared :: "'x radio_rom \<Rightarrow> ull_radio_tx_request \<Rightarrow> bytes \<Rightarrow> u16 \<Rightarrow> u32 \<times> u32 \<times> u32 \<Rightarrow> 'x radio \<Rightarrow> 'x radio" where
  "prepared rom r bs payload slots s =
     (let (p, reply, stop) = slots in
      fill_event rom r bs (save_storage (on_trace (\<lambda>t. t\<lparr>tr_insert_cancelled := False\<rparr>) (on_tx (\<lambda>_. claimed r payload p reply stop) s))))"

lemma claimed_parts:
  "fresh (claimed r payload p reply stop)" "held_bits (claimed r payload p reply stop) = (False, False, 0, 0, 0)"
  "x_payload_offset (claimed r payload p reply stop) = payload"
  "x_prequeued_reply (claimed r payload p reply stop) = (rq_prequeued_reply r \<noteq> 0)"
  "x_repeat_payload (claimed r payload p reply stop) = (rq_repeat_payload r \<noteq> 0)"
  by (simp_all add: claimed_def Let_def split_def fresh_def held_bits_def tx_zero_def)

lemma prepared_parts:
  shows "fresh (r_tx (prepared rom r bs payload slots s))" and "tx_phase_of (prepared rom r bs payload slots s) = ULL_TX_QUEUED"
    and "registers (r_hw (prepared rom r bs payload slots s)) = registers (r_hw s)"
    and "x_payload_offset (r_tx (prepared rom r bs payload slots s)) = payload"
    and "x_prequeued_reply (r_tx (prepared rom r bs payload slots s)) = (rq_prequeued_reply r \<noteq> 0)"
    and "x_repeat_payload (r_tx (prepared rom r bs payload slots s)) = (rq_repeat_payload r \<noteq> 0)"
    and "x_storage_set (r_tx (prepared rom r bs payload slots s))"
    and "x_saved_cs (r_tx (prepared rom r bs payload slots s)) = hw_cs (r_hw s) 1"
    and "x_saved_descriptor (r_tx (prepared rom r bs payload slots s)) = hw_descriptor (r_hw s) 1"
    and "rq_prequeued_reply r \<noteq> 0 \<Longrightarrow> x_saved_reply_cs (r_tx (prepared rom r bs payload slots s)) = hw_cs (r_hw s) 2"
    and "rq_repeat_payload r \<noteq> 0 \<Longrightarrow> x_saved_stop_cs (r_tx (prepared rom r bs payload slots s)) = hw_cs (r_hw s) 3"
    and "rq_repeat_payload r \<noteq> 0 \<Longrightarrow> x_saved_repeat_descriptor (r_tx (prepared rom r bs payload slots s)) = hw_descriptor (r_hw s) 2"
proof -
  obtain p reply stop where slots: "slots = (p, reply, stop)" by (cases slots) auto
  let ?a = "on_trace (\<lambda>t. t\<lparr>tr_insert_cancelled := False\<rparr>) (on_tx (\<lambda>_. claimed r payload p reply stop) s)"
  let ?b = "save_storage ?a"
  have f: "filled ?b (prepared rom r bs payload slots s)" using fill_event_parts(1) by (simp add: prepared_def slots)
  then have l: "loan (r_tx (prepared rom r bs payload slots s)) = loan (r_tx ?b)" by (simp only: filled_def)
  show "fresh (r_tx (prepared rom r bs payload slots s))" using f by (simp add: filled_def save_parts claimed_parts)
  show "tx_phase_of (prepared rom r bs payload slots s) = ULL_TX_QUEUED" by (simp add: prepared_def slots fill_event_parts)
  have "reg_view (prepared rom r bs payload slots s) = reg_view ?b" using f by (simp only: filled_def)
  then show "registers (r_hw (prepared rom r bs payload slots s)) = registers (r_hw s)" by (simp add: reg_view_def save_parts)
  show "x_payload_offset (r_tx (prepared rom r bs payload slots s)) = payload"
    "x_prequeued_reply (r_tx (prepared rom r bs payload slots s)) = (rq_prequeued_reply r \<noteq> 0)"
    "x_repeat_payload (r_tx (prepared rom r bs payload slots s)) = (rq_repeat_payload r \<noteq> 0)"
    "x_storage_set (r_tx (prepared rom r bs payload slots s))"
    "x_saved_cs (r_tx (prepared rom r bs payload slots s)) = hw_cs (r_hw s) 1"
    "x_saved_descriptor (r_tx (prepared rom r bs payload slots s)) = hw_descriptor (r_hw s) 1"
    "rq_prequeued_reply r \<noteq> 0 \<Longrightarrow> x_saved_reply_cs (r_tx (prepared rom r bs payload slots s)) = hw_cs (r_hw s) 2"
    "rq_repeat_payload r \<noteq> 0 \<Longrightarrow> x_saved_stop_cs (r_tx (prepared rom r bs payload slots s)) = hw_cs (r_hw s) 3"
    "rq_repeat_payload r \<noteq> 0 \<Longrightarrow> x_saved_repeat_descriptor (r_tx (prepared rom r bs payload slots s)) = hw_descriptor (r_hw s) 2"
    using l by (simp_all add: loan_def save_storage_def Let_def claimed_parts)
qed


text \<open>How the borrowed storage looks when it goes back, just before the payload buffer is freed.\<close>

definition given_back :: "tx_state \<Rightarrow> 'x radio_hw \<Rightarrow> 'x radio_hw" where
  "given_back x h = h\<lparr>hw_cs := restored_cs x (hw_cs h), hw_descriptor := restored_descriptor x (hw_descriptor h)\<rparr>"

lemma release_parts:
  "x_storage_set (r_tx s) \<Longrightarrow> r_hw (tx_release_storage rom s) = rm_free rom (given_back (r_tx s) (r_hw s)) (x_payload_offset (r_tx s))"
  "\<not> x_storage_set (r_tx s) \<Longrightarrow> r_hw (tx_release_storage rom s) = r_hw s"
  by (simp_all add: tx_release_storage_def Let_def given_back_def)

lemma release_registers: "rom_law rom \<Longrightarrow> registers (r_hw (tx_release_storage rom s)) = registers (r_hw s)"
  by (cases "x_storage_set (r_tx s)") (simp_all add: release_parts rom_law_def, simp add: given_back_def registers_def)

lemma reset_parts [simp]: "r_tx (tx_reset s) = tx_zero" "r_hw (tx_reset s) = r_hw s"
  by (simp_all add: tx_reset_def)

lemma submit_cases:
  assumes "ull_radio_tx_submit rom request s = (t, status)"
  obtains (refused) "status \<in> {0x12, 0x0c, ULL_TX_TIME_EXPIRED}" "r_tx t = r_tx s" "r_hw t = r_hw s"
  | (no_buffer) "status = 0x07" "r_tx t = r_tx s" "r_hw t = fst (rm_alloc rom (r_hw s))" "snd (rm_alloc rom (r_hw s)) = 0"
  | (inserted) r bs slots payload a st h q where "request = Some r" "tx_phase_of s = ULL_TX_IDLE" "r_tx a = r_tx s"
      "rm_alloc rom (r_hw s) = (r_hw a, payload)" "payload \<noteq> 0" "q = prepared rom r bs payload slots a"
      "rm_insert rom (r_hw q) (x_arb (r_tx q)) = (h, st)"
      "if st = 0 then status = 0 \<and> r_tx t = r_tx q \<and> r_hw t = h
       else status = ULL_TX_SCHEDULE_CONFLICT \<and> r_tx t = tx_zero \<and> r_hw t = rm_free rom (given_back (r_tx q) h) payload"
proof (cases "\<exists>r bs. request = Some r \<and> rq_payload r = Some bs \<and> request_ok r \<and> tx_phase_of s = ULL_TX_IDLE \<and> hw_tables (r_hw s)")
  case False
  then show thesis using assms refused by (fastforce simp: ull_radio_tx_submit_def split: option.splits if_splits)
next
  case True
  then obtain r bs where r: "request = Some r" "rq_payload r = Some bs" "request_ok r" "tx_phase_of s = ULL_TX_IDLE" "hw_tables (r_hw s)"
    by blast
  let ?now = "radio_now rom s"
  show thesis
  proof (cases "submit_slots r (clock_read s)")
    case None
    then have "t = clock_read s" "status = 0x0c" using assms r by (simp_all add: ull_radio_tx_submit_def)
    then show thesis using refused by simp
  next
    case (Some slots)
    note slots = Some
    show thesis
    proof (cases "submit_late r ?now (r_hw s)")
      case True
      then have "t = submit_expired r ?now (clock_read s)" "status = ULL_TX_TIME_EXPIRED"
        using assms r slots by (simp_all add: ull_radio_tx_submit_def)
      then show thesis using refused by (simp add: submit_expired_def record_retry_failure_def Let_def)
    next
      case False
      obtain h0 payload where alloc: "rm_alloc rom (r_hw s) = (h0, payload)" by fastforce
      let ?a = "(clock_read s)\<lparr>r_hw := h0\<rparr>"
      show thesis
      proof (cases "payload = 0")
        case True
        then have "t = ?a" "status = 0x07" using assms r slots False alloc by (simp_all add: ull_radio_tx_submit_def)
        then show thesis using no_buffer alloc True by simp
      next
        case nz: False
        let ?q = "prepared rom r (take (rq_length r) bs) payload slots ?a"
        obtain b st where ins: "insert_event rom r ?now ?q = (b, st)" by fastforce
        have res: "(t, status) = (if st \<noteq> 0 then (tx_reset (tx_release_storage rom b), ULL_TX_SCHEDULE_CONFLICT) else (b, 0))"
          using assms r slots False alloc nz ins
          by (cases slots) (auto simp: ull_radio_tx_submit_def submit_queue_def prepared_def split: if_splits)
        have parts: "r_tx b = r_tx ?q" "rm_insert rom (r_hw ?q) (x_arb (r_tx ?q)) = (r_hw b, st)"
          using insert_event_parts [OF ins] by simp_all
        have set: "x_storage_set (r_tx ?q)" "x_payload_offset (r_tx ?q) = payload"
          by (rule prepared_parts)+
        show thesis
          by (rule inserted [of r ?a payload ?q "take (rq_length r) bs" slots "r_hw b" st])
            (use r alloc nz parts res set release_parts(1) [of b rom] in \<open>auto split: if_splits\<close>)
      qed
    qed
  qed
qed


lemma zero_inv [simp]: "tx_inv tx_zero" "\<not> x_globals_set tx_zero" "\<not> x_storage_set tx_zero" "rs_phase (x_result tx_zero) = ULL_TX_IDLE"
  by (simp_all add: tx_inv_def tx_zero_def result_zero_def all_ended_def Let_def)

lemma outside_idle: "\<not> x_globals_set (r_tx s) \<Longrightarrow> outside s = registers (r_hw s)"
  by (simp add: outside_def)

lemma idle_free: "tx_inv (r_tx s) \<Longrightarrow> tx_phase_of s = ULL_TX_IDLE \<Longrightarrow> \<not> x_globals_set (r_tx s)"
  by (auto simp: tx_inv_def tx_phase_of_def Let_def)

lemma submit_sound:
  assumes law: "rom_law rom" and inv: "tx_inv (r_tx s)" and run: "ull_radio_tx_submit rom request s = (t, status)"
  shows "sound s t"
  using run
proof (cases rule: submit_cases)
  case refused
  then show ?thesis using inv by (simp add: sound_def outside_def)
next
  case no_buffer
  then show ?thesis using inv law by (simp add: sound_def outside_def rom_law_def registers_def)
next
  case (inserted r bs slots payload a st h q)
  have idle: "\<not> x_globals_set (r_tx s)" using idle_free [OF inv inserted(2)] .
  have regs: "registers (r_hw a) = registers (r_hw s)" "registers h = registers (r_hw q)"
    using law inserted(4,7) unfolding rom_law_def by (metis fst_conv)+
  have q: "fresh (r_tx q)" "tx_phase_of q = ULL_TX_QUEUED" "registers (r_hw q) = registers (r_hw a)"
    using inserted(6) by (simp_all add: prepared_parts)
  have free: "registers (rm_free rom (given_back (r_tx q) h) payload) = registers h"
    using law by (simp add: rom_law_def) (simp add: given_back_def registers_def)
  show ?thesis
  proof (cases "st = 0")
    case True
    then have t: "r_tx t = r_tx q" "r_hw t = h" using inserted(8) by simp_all
    then have "tx_inv (r_tx t)" using q by (simp add: tx_inv_def fresh_def all_ended_def tx_phase_of_def)
    then show ?thesis using t q idle regs by (simp add: sound_def outside_idle fresh_def)
  next
    case False
    then show ?thesis using inserted(8) idle regs q free by (simp add: sound_def outside_idle)
  qed
qed

lemma pdu_submit_sound:
  assumes "rom_law rom" and "tx_inv (r_tx s)" and "ull_radio_pdu_submit rom request s = (t, status)"
  shows "sound s t"
  using assms submit_sound [OF assms(1,2)] by (auto simp: ull_radio_pdu_submit_def sound_def split: option.splits)

section \<open>Collecting\<close>

lemma fine_timeout_sound:
  assumes inv: "tx_inv (r_tx s)"
  shows "sound s (fine_timeout rom s)"
proof -
  let ?a = "on_tx (\<lambda>x. x\<lparr>x_stop_abort_requested := True\<rparr>) (clock_read s)"
  have l: "life (r_tx ?a) = life (r_tx s)" by (simp add: life_def all_ended_def)
  have a: "sound s ?a" by (rule sound_quiet [OF inv _ l]) (simp add: view_tx held_bits_def)
  then have "tx_inv (r_tx ?a)" by (simp only: sound_def)
  then have b: "sound s (tx_abort_active rom ?a)" using a abort_sound by (meson sound_trans)
 have "outside (clock_read s) = outside s" by (rule outside_view) simp
  then have "sound s (clock_read s)" "sound s s" using inv by (simp_all add: sound_def)
  then show ?thesis using b by (simp add: fine_timeout_def Let_def)
qed

text \<open>The state in which a collection decides whether it can reclaim.\<close>

fun step_state :: "'x collect_step \<Rightarrow> 'x radio" where
  "step_state (COLLECT_LOST t) = t"
| "step_state (COLLECT_WAIT t) = t"
| "step_state (COLLECT_ON t) = t"

lemma collect_queued_sound:
  assumes law: "rom_law rom" and inv: "tx_inv (r_tx s)"
  shows "sound s (step_state (collect_queued rom s))"
proof -
  let ?l = "on_trace (\<lambda>t. t\<lparr>tr_insert_pending := False\<rparr>) (fault 0x21 s)"
  have "sound s (fault 0x21 s)" by (rule fault_sound [OF inv])
  then have l: "sound s ?l" using outside_view [of ?l "fault 0x21 s"] by (simp add: sound_def)
  have r: "sound s (remove_if_ours rom (tx_restore_globals s))" if e: "x_prequeued_reply (r_tx s) \<and> all_ended (r_tx s)"
  proof -
    have "tx_inv (r_tx (tx_restore_globals s))"
      using inv e restore_fields(2) [OF inv] by (auto simp: tx_inv_def restore_fields(1,3,4,5,6) Let_def)
    moreover have "outside (remove_if_ours rom (tx_restore_globals s)) = outside s"
      using outside_view [OF remove_if_ours_quiet(1) [OF law]] restore_outside by metis
    ultimately show ?thesis by (simp add: sound_def remove_if_ours_quiet(2))
  qed
  have "sound s s" using inv by (simp add: sound_def)
  then show ?thesis using l r by (auto simp: collect_queued_def)
qed

lemma collect_release_parts:
  "r_tx (collect_release rom s) = tx_zero"
  "r_hw (collect_release rom s) = r_hw (tx_release_storage rom s)"
  by (simp_all add: collect_release_def Let_def tx_release_storage_def)

lemma collect_cases:
  assumes "ull_radio_tx_collect rom wanted s = (t, result, v)"
  obtains (not_asked) "v = - 1" "t = s"
  | (lost) "v = - 1" "r_tx t = r_tx s" "r_hw t = r_hw s"
  | (pending) "v \<le> 0" "t = step_state (collect_queued rom (fine_timeout rom s))"
  | (reclaimed) u where "v = 1" "u = step_state (collect_queued rom (fine_timeout rom s))" "\<not> collect_busy u" "t = collect_release rom u"
proof (cases "wanted \<and> \<not> collect_lost s")
  case False
  then show thesis using assms not_asked lost by (auto simp: ull_radio_tx_collect_def split: if_splits)
next
  case True
  then show thesis using assms pending reclaimed
    by (cases "collect_queued rom (fine_timeout rom s)") (auto simp: ull_radio_tx_collect_def split: if_splits)
qed

lemma collect_sound:
  assumes law: "rom_law rom" and inv: "tx_inv (r_tx s)" and run: "ull_radio_tx_collect rom wanted s = (t, result, v)"
  shows "sound s t \<and> (v = 1 \<longrightarrow> \<not> x_globals_set (r_tx t))"
proof -
  let ?u = "step_state (collect_queued rom (fine_timeout rom s))"
  have f: "sound s (fine_timeout rom s)" by (rule fine_timeout_sound [OF inv])
  then have "tx_inv (r_tx (fine_timeout rom s))" by (simp only: sound_def)
  then have u: "sound s ?u" using sound_trans [OF f collect_queued_sound [OF law]] by blast
  from run show ?thesis
  proof (cases rule: collect_cases)
    case (reclaimed w)
    have "\<not> x_globals_set (r_tx w)" using reclaimed(3) by (simp add: collect_busy_def)
    then show ?thesis using reclaimed(4) u reclaimed(2) release_registers [OF law]
      by (simp add: sound_def collect_release_parts outside_idle)
  qed (use inv u in \<open>simp_all add: sound_def outside_def\<close>)
qed


section \<open>Steps of the program and of its surroundings\<close>

text \<open>One operation of the code; the flag says that it was a collection that returned 1.\<close>

inductive own_step :: "'x radio_rom \<Rightarrow> 'x radio \<Rightarrow> bool \<Rightarrow> 'x radio \<Rightarrow> bool" for rom where
  submit: "ull_radio_tx_submit rom request s = (t, status) \<Longrightarrow> own_step rom s False t"
| submit_pdu: "ull_radio_pdu_submit rom pdu s = (t, status) \<Longrightarrow> own_step rom s False t"
| cancel: "own_step rom s False (ull_radio_tx_cancel rom s)"
| collect: "ull_radio_tx_collect rom wanted s = (t, result, v) \<Longrightarrow> own_step rom s (v = 1) t"
| start: "own_step rom s False (tx_started rom own s)"
| stop: "own_step rom s False (tx_stopped rom own s)"
| drop: "own_step rom s False (tx_cancelled own s)"
| deadline: "own_step rom s False (tx_deadline rom own s)"
| frame: "own_step rom s False (tx_frame_done rom hs context reason s)"
| enable: "own_step rom s False (ull_radio_tx_retry_trace_enable enabled s)"

inductive_cases own_stepE: "own_step rom s k t"

text \<open>
  Between two operations the rest of the controller and the hardware may change the hardware in any way
  that keeps \<open>outside\<close> while the registers are held: the owned bits may even change by themselves.
\<close>

inductive radio_step :: "'x radio_rom \<Rightarrow> 'x radio \<Rightarrow> 'x radio \<Rightarrow> bool" for rom where
  own: "own_step rom s k t \<Longrightarrow> radio_step rom s t"
| others: "(x_globals_set (r_tx s) \<Longrightarrow> outside (s\<lparr>r_hw := h\<rparr>) = outside s) \<Longrightarrow> radio_step rom s (s\<lparr>r_hw := h\<rparr>)"

inductive quiet_step :: "'x radio_rom \<Rightarrow> 'x radio \<Rightarrow> 'x radio \<Rightarrow> bool" for rom where
  own_quiet: "own_step rom s k t \<Longrightarrow> quiet_step rom s t"
| others_quiet: "outside (s\<lparr>r_hw := h\<rparr>) = outside s \<Longrightarrow> quiet_step rom s (s\<lparr>r_hw := h\<rparr>)"

lemma own_step_sound:
  assumes "own_step rom s k t" and law: "rom_law rom" and inv: "tx_inv (r_tx s)"
  shows "sound s t \<and> (k \<longrightarrow> \<not> x_globals_set (r_tx t))"
  using assms(1)
proof (cases rule: own_step.cases)
  case (submit request status)
  then show ?thesis using submit_sound [OF law inv] by blast
next
  case (submit_pdu pdu status)
  then show ?thesis using pdu_submit_sound [OF law inv] by blast
next
  case (collect wanted result v)
  then show ?thesis using collect_sound [OF law inv] by blast
next
  case (enable enabled)
  have "sound s (ull_radio_tx_retry_trace_enable enabled s)"
    by (rule sound_quiet [OF inv]) (simp_all add: ull_radio_tx_retry_trace_enable_def)
  then show ?thesis using enable by simp
qed (use law inv in \<open>simp_all add: cancel_sound started_sound stopped_sound cancelled_sound deadline_sound frame_done_sound\<close>)

lemma radio_inv: "(radio_step rom)\<^sup>*\<^sup>* s t \<Longrightarrow> rom_law rom \<Longrightarrow> tx_inv (r_tx s) \<Longrightarrow> tx_inv (r_tx t)"
proof (induction rule: rtranclp_induct)
  case (step t u)
  then have i: "tx_inv (r_tx t)" by blast
  from step(2) show ?case
  proof (cases rule: radio_step.cases)
    case (own k)
    then show ?thesis using own_step_sound [OF own step(4) i] by (simp add: sound_def)
  qed (use i in simp)
qed

lemma quiet_run: "(quiet_step rom)\<^sup>*\<^sup>* s t \<Longrightarrow> rom_law rom \<Longrightarrow> tx_inv (r_tx s) \<Longrightarrow> sound s t"
proof (induction rule: rtranclp_induct)
  case base
  then show ?case by (simp add: sound_def)
next
  case (step t u)
  then have st: "sound s t" by blast
  then have i: "tx_inv (r_tx t)" by (simp add: sound_def)
  from step(2) show ?case
  proof (cases rule: quiet_step.cases)
    case (own_quiet k)
    then show ?thesis using sound_trans [OF st] own_step_sound [OF own_quiet step(4) i] by blast
  qed (use st in \<open>simp add: sound_def\<close>)
qed

text \<open>C18:
  The transmitter gives the three radio registers back exactly as it found them. From any state that
  operations, callbacks and the rest of the controller can reach with no register held, and as long as
  nobody else changes the registers outside the owned bits, every state that no longer holds them has the
  same three registers; and a collection that reclaims never leaves them held.
\<close>

theorem registers_given_back:
  assumes law: "rom_law rom" and reach: "(radio_step rom)\<^sup>*\<^sup>* s0 s" and zero: "r_tx s0 = tx_zero"
    and idle: "\<not> x_globals_set (r_tx s)" and run: "(quiet_step rom)\<^sup>*\<^sup>* s t"
  shows "(\<not> x_globals_set (r_tx t) \<longrightarrow> registers (r_hw t) = registers (r_hw s)) \<and>
    (own_step rom t True u \<longrightarrow> registers (r_hw u) = registers (r_hw s))"
proof -
  have i: "tx_inv (r_tx s)" using radio_inv [OF reach law] zero by simp
  have st: "sound s t" by (rule quiet_run [OF run law i])
  then have it: "tx_inv (r_tx t)" by (simp add: sound_def)
  have "registers (r_hw u) = registers (r_hw s)" if u: "own_step rom t True u"
    using own_step_sound [OF u law it] st idle by (metis outside_idle sound_def)
  then show ?thesis using st idle by (metis outside_idle sound_def)
qed


section \<open>Aborting only the own event\<close>

definition abort_set :: "'x radio \<Rightarrow> bool" where "abort_set s \<longleftrightarrow> hw_control (r_hw s) AND RADIO_ABORT \<noteq> 0"

definition abort_right :: "'x radio \<Rightarrow> bool" where
  "abort_right s \<longleftrightarrow> (tx_phase_of s = ULL_TX_ACTIVE \<or> tx_phase_of s = ULL_TX_ABORTING) \<and> tx_active_is_ours (r_hw s) \<and>
     tx_program_is_ours (r_hw s) (r_tx s) True"

definition guarded :: "'x radio \<Rightarrow> 'x radio \<Rightarrow> bool" where
  "guarded s t \<longleftrightarrow> (abort_set t \<longrightarrow> abort_set s \<or> abort_right s)"

definition stakes :: "'x radio \<Rightarrow> (arb_owner \<times> (u8 \<Rightarrow> tx_entry) \<times> u8) \<times> (u8 \<times> tx_program) \<times> (bool \<times> u8 \<times> tx_program) \<times>
    (bool \<times> u8 \<times> tx_program) \<times> tx_phase" where
  "stakes s = (ring (r_hw s), (x_program_index (r_tx s), x_program (r_tx s)),
     (x_prequeued_reply (r_tx s), x_reply_index (r_tx s), x_reply_program (r_tx s)),
     (x_repeat_payload (r_tx s), x_stop_index (r_tx s), x_stop_program (r_tx s)), tx_phase_of s)"

lemma right_stakes: "stakes t = stakes s \<Longrightarrow> abort_right t = abort_right s"
  by (simp add: stakes_def abort_right_def tx_active_is_ours_def tx_program_is_ours_def tx_entry_is_ours_def ring_def)

lemma abort_view: "reg_view t = reg_view s \<Longrightarrow> abort_set t = abort_set s"
  by (simp add: abort_set_def reg_view_def registers_def)

lemma guarded_view: "reg_view t = reg_view s \<Longrightarrow> guarded s t"
  using abort_view [of t s] by (simp add: guarded_def)

lemma guarded_before: "guarded t u \<Longrightarrow> reg_view t = reg_view s \<Longrightarrow> stakes t = stakes s \<Longrightarrow> guarded s u"
  using right_stakes [of t s] abort_view [of t s] by (simp add: guarded_def)

lemma guarded_after: "guarded s t \<Longrightarrow> (abort_set u \<Longrightarrow> abort_set t) \<Longrightarrow> guarded s u"
  by (auto simp: guarded_def)

lemma stakes_simps [simp]:
  "stakes (clock_read s) = stakes s" "stakes (retry_record rom k st r s) = stakes s" "stakes (on_trace f s) = stakes s"
  "stakes (observe_registers s) = stakes s"
  by (simp_all add: stakes_def observe_registers_def) (simp add: tx_phase_of_def)

lemma stakes_result: "rs_phase (f (x_result (r_tx s))) = rs_phase (x_result (r_tx s)) \<Longrightarrow> stakes (on_result f s) = stakes s"
  by (simp add: stakes_def tx_phase_of_def)

lemma abort_guarded: "guarded s (tx_abort_active rom s)"
proof -
  let ?a = "abort_trace rom s"
  let ?b = "on_result (\<lambda>r. r\<lparr>rs_abort_checks := abort_checks ?a\<rparr>) ?a"
  have a: "reg_view ?a = reg_view s" "stakes ?a = stakes s" by (simp_all add: abort_trace_def)
  have b: "reg_view ?b = reg_view s" "stakes ?b = stakes s" using a by (simp_all add: stakes_result)
  have "reg_view (fault 1 ?b) = reg_view s" using b by simp
  then have quiet: "guarded s ?a" "guarded s (fault 1 ?b)" using a by (simp_all only: guarded_view)
  have "abort_checks ?a = 3 \<Longrightarrow> tx_active_is_ours (r_hw ?a) \<and> tx_program_is_ours (r_hw ?a) (r_tx ?a) True"
    by (simp add: abort_checks_def split: if_splits)
  then have "tx_phase_of ?a = ULL_TX_ACTIVE \<or> tx_phase_of ?a = ULL_TX_ABORTING \<Longrightarrow> abort_checks ?a = 3 \<Longrightarrow> abort_right ?a"
    by (simp add: abort_right_def)
  then have "tx_phase_of ?a = ULL_TX_ACTIVE \<or> tx_phase_of ?a = ULL_TX_ABORTING \<Longrightarrow> abort_checks ?a = 3 \<Longrightarrow> abort_right s"
    using right_stakes [OF a(2)] by simp
  then show ?thesis using quiet by (auto simp: tx_abort_active_def Let_def guarded_def)
qed

lemma deadline_guarded: "guarded s (tx_deadline rom own s)"
proof (cases own)
  case True
  let ?u = "retry_record rom 6 255 0 (on_tx (\<lambda>x. x\<lparr>x_alarm_set := False\<rparr>) s)"
  let ?v = "on_result (\<lambda>r. r\<lparr>rs_deadline_fired := 1, rs_deadline_hs := rt_hs (radio_now rom ?u),
              rs_deadline_hus := ucast (rt_hus (radio_now rom ?u))\<rparr>) (clock_read ?u)"
  have "reg_view ?v = reg_view s" "stakes ?v = stakes s"
    by (simp_all add: view_tx held_bits_def stakes_result) (simp add: stakes_def tx_phase_of_def)
  from guarded_before [OF abort_guarded this] show ?thesis using True by (simp add: tx_deadline_def Let_def)
qed (simp add: tx_deadline_def guarded_def)

lemma rx_loop_stakes: "rom_law rom \<Longrightarrow> stakes (rx_loop rom a n s) = stakes s"
proof (induction n arbitrary: s)
  case (Suc n)
  have "stakes (rx_take rom d t) = stakes t" for d t by (simp add: rx_take_def Let_def stakes_result)
  moreover have "stakes (rx_release rom t) = stakes t" for t
    using Suc.prems by (simp add: rx_release_def stakes_result) (simp add: stakes_def tx_phase_of_def rom_law_def)
  moreover have "stakes (rx_invalid t) = stakes t" for t :: "'a radio" by (simp add: rx_invalid_def stakes_result)
  ultimately show ?case using Suc by (simp add: Let_def)
qed simp

lemma receive_stakes: "rom_law rom \<Longrightarrow> stakes (tx_receive_owned rom a s) = stakes s"
  by (simp add: tx_receive_owned_def rx_loop_stakes) (simp add: rx_invalid_def stakes_result)

lemma frame_received_guarded:
  assumes law: "rom_law rom"
  shows "guarded s (frame_received rom stage s)"
proof -
  let ?s1 = "on_result (\<lambda>r. r\<lparr>rs_rx_callbacks := rs_rx_callbacks r + 1\<rparr>) s"
  let ?s2 = "tx_receive_owned rom (stage_activity stage) ?s1"
  let ?s3 = "followup_status 7 (on_tx (\<lambda>x. x\<lparr>x_followup_pending := False\<rparr>) ?s2)"
  have v2: "reg_view ?s2 = reg_view s" by (simp add: receive_quiet(1) [OF law])
  have k2: "stakes ?s2 = stakes s" by (simp add: receive_stakes [OF law] stakes_result)
  have v3: "reg_view ?s3 = reg_view s" using v2 by (simp add: view_tx held_bits_def)
  have "stakes ?s3 = stakes ?s2" by (simp add: followup_status_def stakes_def tx_phase_of_def)
  then have k3: "stakes ?s3 = stakes s" using k2 by simp
  show ?thesis unfolding frame_received_def Let_def
    using guarded_view [OF v2] guarded_before [OF abort_guarded v2 k2] guarded_before [OF abort_guarded v3 k3] by auto
qed

lemma restore_abort:
  assumes "tx_inv (r_tx s)" and "abort_set (tx_restore_globals s)"
  shows "abort_set s"
proof (cases "x_globals_set (r_tx s)")
  case False
  then show ?thesis using assms(2) by (simp add: tx_restore_globals_def)
next
  case True
  have "x_saved_enable (r_tx s) AND RADIO_ABORT = 0" using assms(1) by (simp add: tx_inv_def Let_def)
  then have "((c AND NOT (TEST_ENABLE OR RADIO_ABORT)) OR x_saved_enable (r_tx s)) AND RADIO_ABORT = 0" for c
    by (simp add: bit.conj_disj_distrib2 and.assoc)
  moreover have "hw_control (r_hw (tx_restore_timing s)) = hw_control (r_hw s)"
    "x_saved_enable (r_tx (tx_restore_timing s)) = x_saved_enable (r_tx s)"
    by (simp_all add: tx_restore_timing_def)
  ultimately show ?thesis using assms(2) True by (simp add: abort_set_def tx_restore_globals_def Let_def)
qed

lemma single_frame_view: "rom_law rom \<Longrightarrow> reg_view (single_frame_ended rom reason t) = reg_view (single_end rom reason t)"
  by (simp add: single_frame_ended_def Let_def followup_view)

lemma frame_ended_guarded:
  assumes law: "rom_law rom" and inv: "tx_inv (r_tx s)"
  shows "guarded s (frame_ended rom stage reason s)"
proof -
  let ?t = "if reason \<noteq> 4 then tx_receive_owned rom (stage_activity stage) s else s"
  have vt: "reg_view ?t = reg_view s" by (simp add: receive_quiet(1) [OF law])
  have it: "tx_inv (r_tx ?t)" using receive_sound [OF law inv] inv by (simp add: sound_def)
  have q: "reg_view (queued_frame_ended rom stage reason ?t) = reg_view ?t"
    by (simp add: queued_frame_ended_def Let_def mark_quiet alarm_quiet [OF law])
  let ?a = "clear_alarm rom ?t"
  let ?b = "note_end rom reason (if x_followup_active (r_tx ?a) then ?a else count_transmitted ?a)"
  have b: "reg_view ?b = reg_view ?t" by (simp add: alarm_quiet [OF law])
  have lb: "life (r_tx ?b) = life (r_tx ?t)" by simp
  have ib: "tx_inv (r_tx ?b)" using it inv_life [OF lb] by simp
  have "reg_view (single_end rom reason ?t) = reg_view (tx_restore_globals ?b)"
    by (simp add: single_end_def Let_def remove_if_ours_quiet(1) [OF law])
  with single_frame_view [OF law] have v: "reg_view (single_frame_ended rom reason ?t) = reg_view (tx_restore_globals ?b)"
    by (rule trans)
  have "abort_set (single_frame_ended rom reason ?t) \<Longrightarrow> abort_set ?t"
    unfolding abort_view [OF v] by (drule restore_abort [OF ib]) (simp only: abort_view [OF b])
  then have "guarded s (single_frame_ended rom reason ?t)" using abort_view [OF vt] by (simp add: guarded_def)
  moreover have "guarded s (queued_frame_ended rom stage reason ?t)" using q vt by (intro guarded_view) simp
  ultimately show ?thesis unfolding frame_ended_def Let_def by simp
qed

lemma frame_done_guarded:
  assumes law: "rom_law rom" and inv: "tx_inv (r_tx s)"
  shows "guarded s (tx_frame_done rom hs context reason s)"
proof -
  let ?a = "retry_record rom 4 (stage_number (r_tx s) context) (ucast reason) s"
  let ?c = "observe_registers ?a"
  have vc: "reg_view ?c = reg_view s" "stakes ?c = stakes s" by simp_all
  have "sound s ?c" by (rule sound_quiet [OF inv]) simp_all
  then have ic: "tx_inv (r_tx ?c)" by (simp only: sound_def)
  have q: "guarded s ?a" "guarded s ?c" "guarded s (fault d ?a)"
    "guarded s (fault d (on_result (\<lambda>r. r\<lparr>rs_callback_reason := reason\<rparr>) ?a))"
    "guarded s (on_result (\<lambda>r. r\<lparr>rs_tx_callbacks := rs_tx_callbacks r + 1\<rparr>) ?c)" for d
    by (simp_all add: guarded_view)
  show ?thesis unfolding tx_frame_done_def Let_def
    using guarded_before [OF frame_received_guarded [OF law] vc] guarded_before [OF frame_ended_guarded [OF law ic] vc] q
    by (simp only: split: if_split) simp
qed

lemma started_guarded:
  assumes law: "rom_law rom" and inv: "tx_inv (r_tx s)"
  shows "guarded s (tx_started rom own s)"
proof -
  let ?s = "retry_begin rom s"
  let ?a = "on_tx (\<lambda>x. x\<lparr>x_program_index := hw_producer (r_hw ?s)\<rparr>) ?s"
  obtain b ok where b: "configure_slots rom ?a = (b, ok)" by fastforce
  have va: "reg_view ?a = reg_view s" by (simp add: view_tx held_bits_def)
  have vb: "reg_view b = reg_view s" using slots_quiet [OF law, of ?a] b va by simp
  have bits: "abort_set (take_registers b) \<Longrightarrow> abort_set b"
  proof -
    have "hw_control (r_hw (take_registers b)) = hw_control (r_hw b) AND NOT TEST_ENABLE"
      by (simp add: take_registers_def take_timing_def Let_def)
    moreover have "(c AND NOT TEST_ENABLE) AND RADIO_ABORT = c AND RADIO_ABORT" for c
      by (simp add: and.assoc TEST_ENABLE_def RADIO_ABORT_def)
    ultimately show "abort_set (take_registers b) \<Longrightarrow> abort_set b" by (simp add: abort_set_def)
  qed
  have run: "abort_set (push_programs rom (take_registers b)) \<Longrightarrow> abort_set s" if "start_allowed own ?s"
  proof -
    have l: "life (r_tx b) = life (r_tx s)" using slots_quiet [OF law, of ?a] b by (simp add: life_def all_ended_def)
    have ib: "tx_inv (r_tx b)" using inv inv_life [OF l] by simp
    have "tx_phase_of b = ULL_TX_QUEUED" using that l by (simp add: start_allowed_def tx_phase_of_def life_def)
    moreover have "hw_control (r_hw b) AND (TEST_ENABLE OR RADIO_ABORT) = 0"
      using vb that by (simp add: reg_view_def registers_def start_allowed_def)
    ultimately have "tx_inv (r_tx (take_registers b))" using take_registers_sound [OF ib] by (simp add: sound_def)
    from programs_running [OF law this] have "abort_set (push_programs rom (take_registers b)) = abort_set (take_registers b)"
      by (intro abort_view) (simp add: running_def)
    then show "abort_set (push_programs rom (take_registers b)) \<Longrightarrow> abort_set s" using bits abort_view [OF vb] by simp
  qed
  have r: "guarded s (tx_refuse (remove_if_ours rom ?s))" "guarded s (tx_refuse (arb_remove rom 1 ?s))"
    "guarded s (tx_refuse (arb_remove rom 1 b))"
    "guarded s (set_tx_phase ULL_TX_FAULT (arb_remove rom 1 (on_result (\<lambda>r. r\<lparr>rs_fault_detail := 4\<rparr>) ?a)))"
    using va vb by (simp_all add: guarded_view remove_if_ours_quiet(1) [OF law] remove_quiet(1) [OF law])
  show ?thesis unfolding tx_started_def start_event_def Let_def b prod.case
    using r run by (auto simp: guarded_def)
qed

lemma cancel_guarded:
  assumes law: "rom_law rom"
  shows "guarded s (ull_radio_tx_cancel rom s)"
proof -
  let ?a = "on_tx (\<lambda>x. x\<lparr>x_followup_pending := False\<rparr>)
              (on_trace (\<lambda>t. t\<lparr>tr_insert_pending := False, tr_insert_cancelled := True\<rparr>) s)"
  obtain h st where rem: "rm_remove rom (r_hw ?a) 0 = (h, st)" by fastforce
  have va: "reg_view ?a = reg_view s" by (simp add: view_tx held_bits_def)
  have ka: "stakes ?a = stakes s" by (simp add: stakes_def tx_phase_of_def)
  have "registers h = registers (r_hw ?a)" using law rem unfolding rom_law_def by (metis fst_conv)
  then have "reg_view (?a\<lparr>r_hw := h\<rparr>) = reg_view s" using va by (simp add: reg_view_def)
  then show ?thesis unfolding ull_radio_tx_cancel_def Let_def rem prod.case
    using va guarded_before [OF abort_guarded va ka] by (simp add: guarded_view)
qed

lemma submit_registers:
  assumes law: "rom_law rom" and run: "ull_radio_tx_submit rom request s = (t, status)"
  shows "registers (r_hw t) = registers (r_hw s)"
  using run
proof (cases rule: submit_cases)
  case (inserted r bs slots payload a st h q)
  have regs: "registers (r_hw a) = registers (r_hw s)" "registers h = registers (r_hw q)"
    using law inserted(4,7) unfolding rom_law_def by (metis fst_conv)+
  moreover have "registers (r_hw q) = registers (r_hw a)" using inserted(6) by (simp add: prepared_parts)
  moreover have "registers (rm_free rom (given_back (r_tx q) h) payload) = registers h"
    using law by (simp add: rom_law_def) (simp add: given_back_def registers_def)
  ultimately show ?thesis using inserted(8) by (simp split: if_splits)
qed (use law in \<open>simp_all add: rom_law_def\<close>)

lemma fine_timeout_guarded: "guarded s (fine_timeout rom s)"
proof -
  let ?a = "on_tx (\<lambda>x. x\<lparr>x_stop_abort_requested := True\<rparr>) (clock_read s)"
  have "reg_view ?a = reg_view s" "stakes ?a = stakes s" by (simp_all add: view_tx held_bits_def stakes_def tx_phase_of_def)
  from guarded_before [OF abort_guarded this] show ?thesis
    by (simp add: fine_timeout_def Let_def guarded_view)
qed

lemma collect_guarded:
  assumes law: "rom_law rom" and inv: "tx_inv (r_tx s)" and run: "ull_radio_tx_collect rom wanted s = (t, result, v)"
  shows "guarded s t"
proof -
  let ?f = "fine_timeout rom s"
  let ?u = "step_state (collect_queued rom ?f)"
  have i: "tx_inv (r_tx ?f)" using fine_timeout_sound [OF inv] by (simp only: sound_def)
  have "abort_set (remove_if_ours rom (tx_restore_globals ?f)) \<Longrightarrow> abort_set ?f"
    using restore_abort [OF i] abort_view [OF remove_if_ours_quiet(1) [OF law]] by blast
  moreover have "abort_set (on_trace g (fault 0x21 ?f)) = abort_set ?f" for g by (rule abort_view) simp
  ultimately have "abort_set ?u \<Longrightarrow> abort_set ?f" by (auto simp: collect_queued_def split: if_splits)
  then have u: "guarded s ?u" by (rule guarded_after [OF fine_timeout_guarded])
  from run show ?thesis
  proof (cases rule: collect_cases)
    case (reclaimed w)
    have "registers (r_hw t) = registers (r_hw w)" using reclaimed(4) release_registers [OF law] by (simp add: collect_release_parts)
    then have "abort_set t = abort_set w" by (simp add: abort_set_def registers_def)
    then show ?thesis using u reclaimed(2) by (simp add: guarded_def)
  qed (use u in \<open>auto simp: guarded_def abort_set_def\<close>)
qed

lemma own_step_guarded:
  assumes "own_step rom s k t" and law: "rom_law rom" and inv: "tx_inv (r_tx s)"
  shows "guarded s t"
  using assms(1)
proof (cases rule: own_step.cases)
  case (submit request status)
  then show ?thesis using submit_registers [OF law] by (simp add: guarded_def abort_set_def registers_def)
next
  case (submit_pdu pdu status)
  then have "registers (r_hw t) = registers (r_hw s)"
    using submit_registers [OF law] by (auto simp: ull_radio_pdu_submit_def split: option.splits)
  then show ?thesis by (simp add: guarded_def abort_set_def registers_def)
next
  case (collect wanted result v)
  then show ?thesis using collect_guarded [OF law inv] by blast
next
  case (stop own)
  then show ?thesis by (simp add: tx_stopped_def abort_guarded) (simp add: guarded_def)
next
  case (drop own)
  then show ?thesis by (auto simp: tx_cancelled_def guarded_view)
next
  case (enable enabled)
  then show ?thesis by (simp add: guarded_view ull_radio_tx_retry_trace_enable_def)
qed (use law inv in \<open>simp_all add: cancel_guarded started_guarded deadline_guarded frame_done_guarded\<close>)

text \<open>C21:
  No operation and no callback of the transmitter aborts somebody else's event: when it sets the abort bit
  of the radio, the active element of the scheduler is its own, the entry the radio is executing is one of
  its own programs, and its event is active or already aborting.
\<close>

theorem abort_only_own:
  assumes law: "rom_law rom" and reach: "(radio_step rom)\<^sup>*\<^sup>* s0 s" and zero: "r_tx s0 = tx_zero"
    and step: "own_step rom s k t"
    and set: "hw_control (r_hw t) AND RADIO_ABORT \<noteq> 0" and clear: "hw_control (r_hw s) AND RADIO_ABORT = 0"
  shows "hw_active (r_hw s) = OURS \<and> tx_program_is_ours (r_hw s) (r_tx s) True \<and>
    tx_phase_of s \<in> {ULL_TX_ACTIVE, ULL_TX_ABORTING}"
proof -
  have "tx_inv (r_tx s)" using radio_inv [OF reach law] zero by simp
  then have "guarded s t" by (rule own_step_guarded [OF step law])
  then show ?thesis using set clear by (simp add: guarded_def abort_set_def abort_right_def tx_active_is_ours_def)
qed

section \<open>The loan of storage\<close>

definition lends :: "'x radio \<Rightarrow> 'x radio \<Rightarrow> bool" where
  "lends s t \<longleftrightarrow> loan (r_tx t) = loan (r_tx s) \<and> (tx_phase_of s \<noteq> ULL_TX_IDLE \<longrightarrow> tx_phase_of t \<noteq> ULL_TX_IDLE)"

lemma lends_refl [simp]: "lends s s"
  by (simp add: lends_def)

lemma lends_trans: "lends s t \<Longrightarrow> lends t u \<Longrightarrow> lends s u"
  by (simp add: lends_def)

lemma lends_tx: "loan (r_tx t) = loan (r_tx s) \<Longrightarrow> rs_phase (x_result (r_tx t)) = rs_phase (x_result (r_tx s)) \<Longrightarrow> lends s t"
  by (simp add: lends_def tx_phase_of_def)

lemma lends_same [intro]: "r_tx t = r_tx s \<Longrightarrow> lends s t"
  by (simp add: lends_tx)

lemma lends_phase [intro]: "p \<noteq> ULL_TX_IDLE \<Longrightarrow> lends s (set_tx_phase p s)" "lends s (fault d s)" "lends s (end_unless_fault s)"
  by (simp_all add: lends_def set_tx_phase_def fault_def end_unless_fault_def loan_def) (simp_all add: tx_phase_of_def)

lemma lends_result: "rs_phase (f (x_result (r_tx s))) = rs_phase (x_result (r_tx s)) \<Longrightarrow> lends s (on_result f s)"
  by (simp add: lends_tx loan_def)

lemma loan_result [simp]: "loan (x\<lparr>x_result := r\<rparr>) = loan x"
  by (simp add: loan_def)

lemma abort_lends: "lends s (tx_abort_active rom s)"
proof -
  let ?a = "abort_trace rom s"
  let ?b = "on_result (\<lambda>r. r\<lparr>rs_abort_checks := abort_checks ?a\<rparr>) ?a"
  have a: "lends s ?a" by (simp add: lends_same abort_trace_def)
  have b: "lends ?a ?b" by (simp add: lends_result)
  have w: "lends ?b (abort_write ?b)"
    by (simp add: lends_def abort_write_def Let_def set_tx_phase_def tx_phase_of_def) (simp add: loan_def)
  have f: "lends s (fault 1 ?b)" by (rule lends_trans [OF lends_trans [OF a b] lends_phase(2)])
  show ?thesis unfolding tx_abort_active_def Let_def
    using a f lends_trans [OF lends_trans [OF a b] w] by (simp only: split: if_split) blast
qed

lemma deadline_lends: "lends s (tx_deadline rom own s)"
proof (cases own)
  case True
  let ?u = "retry_record rom 6 255 0 (on_tx (\<lambda>x. x\<lparr>x_alarm_set := False\<rparr>) s)"
  let ?v = "on_result (\<lambda>r. r\<lparr>rs_deadline_fired := 1, rs_deadline_hs := rt_hs (radio_now rom ?u),
              rs_deadline_hus := ucast (rt_hus (radio_now rom ?u))\<rparr>) (clock_read ?u)"
  have "lends s ?v" by (rule lends_tx) (simp_all add: loan_def)
  from lends_trans [OF this abort_lends] show ?thesis using True by (simp add: tx_deadline_def Let_def)
qed (simp add: tx_deadline_def)

lemma rx_loop_lends: "lends s (rx_loop rom a n s)"
proof (induction n arbitrary: s)
  case (Suc n)
  have "lends s (rx_invalid s)" by (simp add: rx_invalid_def lends_result)
  moreover have "lends s (rx_release rom (rx_take rom d s))" "lends s (rx_release rom s)" for d
    by (simp_all add: rx_release_def rx_take_def Let_def lends_tx loan_def)
  ultimately show ?case using Suc lends_trans by (simp add: Let_def) blast
qed simp

lemma receive_lends: "lends s (tx_receive_owned rom a s)"
  by (simp add: tx_receive_owned_def rx_loop_lends) (simp add: rx_invalid_def lends_result)

lemma frame_received_lends: "lends s (frame_received rom stage s)"
proof -
  let ?s1 = "on_result (\<lambda>r. r\<lparr>rs_rx_callbacks := rs_rx_callbacks r + 1\<rparr>) s"
  let ?s2 = "tx_receive_owned rom (stage_activity stage) ?s1"
  let ?s3 = "followup_status 7 (on_tx (\<lambda>x. x\<lparr>x_followup_pending := False\<rparr>) ?s2)"
  have "lends s ?s1" by (simp add: lends_result)
  then have a: "lends s ?s2" using receive_lends by (rule lends_trans)
  have "lends ?s2 ?s3" by (rule lends_tx) (simp_all add: followup_status_def loan_def)
  with a have b: "lends s ?s3" by (rule lends_trans)
  show ?thesis unfolding frame_received_def Let_def
    using a lends_trans [OF a abort_lends] lends_trans [OF b abort_lends] by (simp only: split: if_split) blast
qed

lemma end_lends:
  "lends s (clear_alarm rom s)" "lends s (first_end rom s)" "lends s (note_end rom r s)" "lends s (count_transmitted s)"
  "lends s (followup_status v s)" "lends s (tx_restore_globals s)" "lends s (remove_if_ours rom s)"
  "lends s (mark_ended rom r stage s)" "lends s (observe_registers s)"
  by (simp_all add: clear_alarm_def first_end_def note_end_def count_transmitted_def followup_status_def
      tx_restore_globals_def tx_restore_timing_def remove_if_ours_def arb_remove_def observe_registers_def Let_def
      lends_tx loan_def) (cases stage; simp add: first_end_def count_transmitted_def followup_status_def Let_def lends_tx loan_def)

lemma followup_lends: "lends s (tx_queue_followup rom s)"
proof -
  let ?a = "on_tx (\<lambda>x. x\<lparr>x_followup_pending := False\<rparr>) s"
  let ?p = "followup_prepare (clock_read ?a)"
  obtain h st where ins: "arb_insert rom ?p = (h, st)" by fastforce
  have a: "lends s ?a" by (rule lends_tx) (simp_all add: loan_def)
  have "lends s ?p" by (simp add: lends_def followup_prepare_def Let_def set_tx_phase_def followup_program_def)
    (simp add: loan_def tx_phase_of_def)
  moreover have "r_tx h = r_tx ?p" using ins by (auto simp: arb_insert_def Let_def split_def)
  then have "lends ?p h" by (rule lends_same)
  ultimately have h: "lends s h" by (rule lends_trans)
  have "lends s (followup_status 1 h)" "lends s (set_tx_phase ULL_TX_ENDED (followup_status 5 h))"
    using lends_trans [OF h end_lends(5)] lends_trans [OF lends_trans [OF h end_lends(5)] lends_phase(1)] by simp_all
  moreover have "lends s (followup_status 4 (clock_read ?a))"
    by (rule lends_tx) (simp_all add: followup_status_def loan_def)
  ultimately show ?thesis using lends_trans [OF a lends_phase(2)] lends_trans [OF a end_lends(5)] ins
    by (simp add: tx_queue_followup_def Let_def)
qed

lemma single_end_lends: "lends s (single_end rom r s)"
proof -
  have "lends s (if b then clear_alarm rom s else count_transmitted (clear_alarm rom s))" for b
    by (simp add: end_lends(1) lends_trans [OF end_lends(1) end_lends(4)])
  from lends_trans [OF lends_trans [OF lends_trans [OF lends_trans [OF this end_lends(3)] end_lends(6)] end_lends(7)] lends_phase(3)]
  have a: "lends s (end_unless_fault (remove_if_ours rom (tx_restore_globals (note_end rom r
      (if b then clear_alarm rom s else count_transmitted (clear_alarm rom s))))))" for b .
  show ?thesis unfolding single_end_def Let_def using a lends_trans [OF a end_lends(5)] by (simp only: split: if_split) blast
qed

lemma queued_lends: "lends t (queued_frame_ended rom stage reason t)"
  using end_lends(8) [of t rom reason stage]
    lends_trans [OF lends_trans [OF lends_trans [OF end_lends(8) end_lends(1)] end_lends(3)] lends_phase(3), of t]
  by (simp add: queued_frame_ended_def Let_def)

lemma frame_ended_lends: "lends s (frame_ended rom stage reason s)"
proof -
  let ?t = "if reason \<noteq> 4 then tx_receive_owned rom (stage_activity stage) s else s"
  let ?d = "single_end rom reason ?t"
  have t: "lends s ?t" by (simp add: receive_lends)
  have q: "lends ?t (queued_frame_ended rom stage reason ?t)" by (rule queued_lends)
  have d: "lends ?t ?d" by (rule single_end_lends)
  have "lends ?t (tx_queue_followup rom (first_end rom ?d))"
    by (rule lends_trans [OF lends_trans [OF d end_lends(2)] followup_lends])
  with d have "lends ?t (single_frame_ended rom reason ?t)" by (simp only: single_frame_ended_def Let_def split: if_split) blast
  then show ?thesis using lends_trans [OF t q] lends_trans [OF t]
    by (simp only: frame_ended_def Let_def split: if_split) blast
qed

lemma frame_done_lends: "lends s (tx_frame_done rom hs context reason s)"
proof -
  let ?a = "retry_record rom 4 (stage_number (r_tx s) context) (ucast reason) s"
  let ?c = "observe_registers ?a"
  have a: "lends s ?a" by (simp add: lends_same)
  have c: "lends s ?c" by (rule lends_trans [OF a end_lends(9)])
  have q: "lends s (fault d ?a)" "lends s (fault d (on_result (\<lambda>r. r\<lparr>rs_callback_reason := reason\<rparr>) ?a))"
    "lends s (on_result (\<lambda>r. r\<lparr>rs_tx_callbacks := rs_tx_callbacks r + 1\<rparr>) ?c)" for d
    using lends_trans [OF a lends_phase(2)] lends_trans [OF lends_trans [OF a lends_result] lends_phase(2)]
      lends_trans [OF c lends_result] by simp_all
  show ?thesis unfolding tx_frame_done_def Let_def
    using a c q lends_trans [OF c frame_received_lends] lends_trans [OF c frame_ended_lends]
    by (simp only: split: if_split) simp
qed

lemma programs_lends: "lends s (push_programs rom s)"
proof -
  have first: "lends t (fst (push_first rom t))" for t
    by (simp add: push_first_def Let_def fault_def lends_def loan_def tx_phase_of_def)
  have reply: "lends t (fst (push_reply rom t))" for t
    by (simp add: push_reply_def Let_def fault_def followup_status_def lends_def loan_def tx_phase_of_def)
  have stop: "lends t (fst (push_stop rom t))" for t
    by (simp add: push_stop_def Let_def fault_def lends_def loan_def tx_phase_of_def)
  obtain a ka where a: "push_first rom s = (a, ka)" by fastforce
  obtain b kb where b: "(if x_prequeued_reply (r_tx a) then push_reply rom a else (a, True)) = (b, kb)" by fastforce
  obtain c kc where c: "(if x_repeat_payload (r_tx b) then push_stop rom b else (b, True)) = (c, kc)" by fastforce
  have "lends s a" "lends a b" "lends b c"
    using first [of s] reply [of a] stop [of b] a b c by (auto split: if_splits)
  moreover have "lends c (set_alarm rom c)" by (rule lends_tx) (simp_all add: set_alarm_def loan_def)
  ultimately have "lends s a" "lends s b" "lends s c" "lends s (set_alarm rom c)" by (meson lends_trans)+
  then show ?thesis using a b c by (simp add: push_programs_def)
qed

lemma configure_lends: "r_tx (fst (configure_slots rom s)) = r_tx s"
proof -
  have slot: "r_tx (fst (configure_slot rom i f k t)) = r_tx t" for i f k t
    by (simp add: configure_slot_def Let_def split_def)
  have "r_tx (fst (configure_reply rom t)) = r_tx t" "r_tx (fst (configure_stop rom t)) = r_tx t" for t
    by (simp_all add: configure_reply_def configure_stop_def slot)
  then show ?thesis by (simp add: configure_slots_def Let_def split_def slot)
qed

lemma started_lends: "lends s (tx_started rom own s)"
proof -
  let ?s = "retry_begin rom s"
  let ?a = "on_tx (\<lambda>x. x\<lparr>x_program_index := hw_producer (r_hw ?s)\<rparr>) ?s"
  obtain b ok where b: "configure_slots rom ?a = (b, ok)" by fastforce
  have s: "lends s ?s" by (simp add: lends_same)
  have a: "lends s ?a" by (rule lends_tx) (simp_all add: loan_def)
  have "r_tx b = r_tx ?a" using configure_lends [of rom ?a] b by simp
  then have ab: "lends s b" using lends_trans [OF a lends_same] by simp
  have "lends b (take_registers b)"
    by (simp add: lends_def take_registers_def take_timing_def Let_def followup_status_def loan_def tx_phase_of_def)
  with ab have "lends s (take_registers b)" by (rule lends_trans)
  then have p: "lends s (push_programs rom (take_registers b))" using programs_lends by (rule lends_trans)
  have refuse: "lends t (tx_refuse (arb_remove rom 1 t))" "lends t (tx_refuse (remove_if_ours rom t))"
    "lends t (set_tx_phase ULL_TX_FAULT (arb_remove rom 1 (on_result (\<lambda>r. r\<lparr>rs_fault_detail := 4\<rparr>) t)))" for t
    by (simp_all add: lends_def tx_refuse_def remove_if_ours_def arb_remove_def set_tx_phase_def tx_phase_of_def)
  show ?thesis unfolding tx_started_def start_event_def Let_def b prod.case
    using p lends_trans [OF s refuse(1)] lends_trans [OF s refuse(2)] lends_trans [OF ab refuse(1)] lends_trans [OF a refuse(3)]
    by (simp only: split: if_split) blast
qed

lemma cancel_lends: "lends s (ull_radio_tx_cancel rom s)"
proof -
  let ?a = "on_tx (\<lambda>x. x\<lparr>x_followup_pending := False\<rparr>)
              (on_trace (\<lambda>t. t\<lparr>tr_insert_pending := False, tr_insert_cancelled := True\<rparr>) s)"
  obtain h st where rem: "rm_remove rom (r_hw ?a) 0 = (h, st)" by fastforce
  have a: "lends s ?a" by (rule lends_tx) (simp_all add: loan_def)
  have b: "lends s (?a\<lparr>r_hw := h\<rparr>)" by (rule lends_trans [OF a lends_same]) simp
  show ?thesis unfolding ull_radio_tx_cancel_def Let_def rem prod.case
    using a b lends_trans [OF b lends_phase(1), of ULL_TX_CANCELLED] lends_trans [OF a lends_phase(2)] lends_trans [OF a abort_lends]
    by (simp only: split: if_split) blast
qed

lemma collect_step_lends: "lends s (step_state (collect_queued rom (fine_timeout rom s)))"
proof -
  let ?a = "on_tx (\<lambda>x. x\<lparr>x_stop_abort_requested := True\<rparr>) (clock_read s)"
  have "lends s ?a" by (rule lends_tx) (simp_all add: loan_def)
  from lends_trans [OF this abort_lends] have f: "lends s (fine_timeout rom s)"
    by (simp add: fine_timeout_def Let_def lends_same)
  have "lends t (step_state (collect_queued rom t))" for t
    using lends_trans [OF end_lends(6) end_lends(7), of t] lends_phase(2) [of t]
    by (auto simp: collect_queued_def lends_def)
  from lends_trans [OF f this] show ?thesis .
qed

text \<open>What happens between the submission and the collection that reclaims: operations that do not
  reclaim, and any change whatever to the hardware.\<close>

inductive hold_step :: "'x radio_rom \<Rightarrow> 'x radio \<Rightarrow> 'x radio \<Rightarrow> bool" for rom where
  hold_own: "own_step rom s False t \<Longrightarrow> hold_step rom s t"
| hold_others: "hold_step rom s (s\<lparr>r_hw := h\<rparr>)"

lemma submit_busy:
  assumes "ull_radio_tx_submit rom request s = (t, status)" and "tx_phase_of s \<noteq> ULL_TX_IDLE"
  shows "r_tx t = r_tx s"
  using assms(1) by (cases rule: submit_cases) (use assms(2) in simp_all)

lemma own_step_lends:
  assumes "own_step rom s False t" and "tx_phase_of s \<noteq> ULL_TX_IDLE"
  shows "lends s t"
  using assms(1)
proof (cases rule: own_step.cases)
  case (submit request status)
  then show ?thesis using submit_busy assms(2) by blast
next
  case (submit_pdu pdu status)
  then show ?thesis using submit_busy [OF _ assms(2)] by (fastforce simp: ull_radio_pdu_submit_def split: option.splits)
next
  case (collect wanted result v)
  from collect(2) show ?thesis
  proof (cases rule: collect_cases)
    case pending
    then show ?thesis using collect_step_lends by simp
  qed (use collect(1) in \<open>simp_all add: lends_same\<close>)
next
  case (stop own)
  then show ?thesis by (simp add: tx_stopped_def abort_lends)
next
  case (drop own)
  then show ?thesis by (simp add: tx_cancelled_def lends_phase)
next
  case (enable enabled)
  then show ?thesis by (simp add: lends_same ull_radio_tx_retry_trace_enable_def)
qed (simp_all add: cancel_lends started_lends deadline_lends frame_done_lends)

lemma hold_lends: "(hold_step rom)\<^sup>*\<^sup>* s t \<Longrightarrow> tx_phase_of s \<noteq> ULL_TX_IDLE \<Longrightarrow> lends s t"
proof (induction rule: rtranclp_induct)
  case (step t u)
  then have st: "lends s t" by blast
  then have "tx_phase_of t \<noteq> ULL_TX_IDLE" using step.prems by (simp add: lends_def)
  with step(2) have "lends t u" by (cases rule: hold_step.cases) (auto intro: own_step_lends)
  then show ?case using st lends_trans by blast
qed simp

lemma given_back_loan:
  assumes "loan x = loan y"
  shows "given_back x h = given_back y h"
  using assms by (simp add: loan_def given_back_def restored_cs_def restored_descriptor_def Let_def)

text \<open>What is lent: the control structure of the first event, of the reply and of the stopper, and the
  two descriptors.\<close>

definition same_storage :: "ull_radio_tx_request \<Rightarrow> 'x radio_hw \<Rightarrow> 'x radio_hw \<Rightarrow> bool" where
  "same_storage r h k \<longleftrightarrow> hw_cs h 1 = hw_cs k 1 \<and> hw_descriptor h 1 = hw_descriptor k 1 \<and>
     (rq_prequeued_reply r \<noteq> 0 \<longrightarrow> hw_cs h 2 = hw_cs k 2) \<and>
     (rq_repeat_payload r \<noteq> 0 \<longrightarrow> hw_cs h 3 = hw_cs k 3 \<and> hw_descriptor h 2 = hw_descriptor k 2)"

lemma prepared_given_back: "same_storage r (given_back (r_tx (prepared rom r bs payload slots a)) h) (r_hw a)"
  using prepared_parts(10,11,12) [of r rom bs payload slots a]
  by (simp add: same_storage_def given_back_def restored_cs_def restored_descriptor_def Let_def prepared_parts)

text \<open>C23:
  A submission that was accepted gets everything back at the end. Whatever its callbacks, cancellations,
  unsuccessful collections and refused submissions did in the meantime, and whatever the rest of the
  controller and the hardware wrote, the collection that returns 1 leaves the control structures and
  descriptors with the words they had when they were borrowed, then frees exactly the payload buffer
  that the submission allocated, and is idle and empty afterwards.
\<close>

theorem storage_given_back:
  assumes submit: "ull_radio_tx_submit rom (Some r) s = (s1, 0)" and run: "(hold_step rom)\<^sup>*\<^sup>* s1 t"
    and collect: "ull_radio_tx_collect rom True t = (u, result, 1)"
  shows "\<exists>h. r_hw u = rm_free rom h (snd (rm_alloc rom (r_hw s))) \<and>
    same_storage r h (fst (rm_alloc rom (r_hw s))) \<and> r_tx u = tx_zero"
  using submit
proof (cases rule: submit_cases)
  case (inserted r' bs slots payload a st h q)
  have ok: "st = 0 \<and> r_tx s1 = r_tx q" using inserted(8) by (auto simp: ULL_TX_SCHEDULE_CONFLICT_def split: if_splits)
  have r: "r' = r" using inserted(1) by simp
  have q: "tx_phase_of q = ULL_TX_QUEUED" "x_storage_set (r_tx q)" "x_payload_offset (r_tx q) = payload"
    using inserted(6) by (simp_all add: prepared_parts)
  then have "tx_phase_of s1 \<noteq> ULL_TX_IDLE" using ok by (simp add: tx_phase_of_def)
  then have st: "lends s1 t" by (rule hold_lends [OF run])
  let ?w = "step_state (collect_queued rom (fine_timeout rom t))"
  have "loan (r_tx ?w) = loan (r_tx q)" using st collect_step_lends [of t rom] ok by (simp add: lends_def)
  then have w: "x_storage_set (r_tx ?w)" "x_payload_offset (r_tx ?w) = payload" 
    "given_back (r_tx ?w) (r_hw ?w) = given_back (r_tx q) (r_hw ?w)"
    using q given_back_loan [of "r_tx ?w" "r_tx q"] by (simp_all add: loan_def)
  have u: "u = collect_release rom ?w" using collect by (cases rule: collect_cases) auto
  have "r_hw u = rm_free rom (given_back (r_tx q) (r_hw ?w)) payload"
    using u release_parts(1) [OF w(1), of rom] w(2,3) by (simp add: collect_release_parts)
  moreover have "same_storage r (given_back (r_tx q) (r_hw ?w)) (r_hw a)"
    using prepared_given_back inserted(6) r by blast
  ultimately show ?thesis using inserted(4) u by (auto simp: collect_release_parts)
qed (simp_all add: ULL_TX_TIME_EXPIRED_def)

text \<open>C34:
  A submission that is not accepted leaves nothing behind. With status 0x12, 0x0c or \<open>ULL_TX_TIME_EXPIRED\<close>
  neither the state of the transmitter nor the hardware has changed, with 0x07 only the failing allocation
  ran, and with \<open>ULL_TX_SCHEDULE_CONFLICT\<close> the borrowed words are back as they were, the allocated buffer is
  freed and the transmitter is idle; there is no other failing status.
\<close>

theorem rejected_submit_leaves_nothing:
  assumes "ull_radio_tx_submit rom (Some r) s = (t, status)" and "status \<noteq> 0"
  shows "(status \<in> {0x12, 0x0c, ULL_TX_TIME_EXPIRED} \<and> r_tx t = r_tx s \<and> r_hw t = r_hw s) \<or>
    (status = 0x07 \<and> r_tx t = r_tx s \<and> r_hw t = fst (rm_alloc rom (r_hw s)) \<and> snd (rm_alloc rom (r_hw s)) = 0) \<or>
    (status = ULL_TX_SCHEDULE_CONFLICT \<and> r_tx t = tx_zero \<and>
     (\<exists>h. r_hw t = rm_free rom h (snd (rm_alloc rom (r_hw s))) \<and> same_storage r h (fst (rm_alloc rom (r_hw s)))))"
  using assms(1)
proof (cases rule: submit_cases)
  case (inserted r' bs slots payload a st h q)
  then have "st \<noteq> 0" using assms(2) by (auto split: if_splits)
  moreover have "same_storage r (given_back (r_tx q) h) (r_hw a)" using prepared_given_back inserted(1,6) by blast
  ultimately show ?thesis using inserted(4,8) by auto
qed simp_all

section \<open>One event from submission to collection\<close>

definition ex_entry :: tx_entry where
  "ex_entry = \<lparr>en_hs = 0, en_callback = NO_CALLBACK, en_context = 0, en_used = 0\<rparr>"

definition ex_tx_memory :: "u32 \<Rightarrow> u8" where
  "ex_tx_memory a =
     (if a = 0x3fc8000a then 0xc9 else if a = 0x3fc8000b then 0x3f
      else if a = 0x3fc90046 then 0xca else if a = 0x3fc90047 then 0x3f
      else if a = 0x3fc90084 then 1 else if a = 0x3fca0000 then 0xee else 0)"

definition ex_tx_view :: controller_view where
  "ex_tx_view = \<lparr>cv_mem = ex_tx_memory, cv_llm_env = 0x3fc80000, cv_adv_env = \<lambda>_. 0, cv_con_env = \<lambda>_. 0, cv_control = \<lambda>_ _. 0\<rparr>"

definition ex_hw :: "unit radio_hw" where
  "ex_hw = \<lparr>hw_control = 0x1003, hw_test = 5, hw_timing = 0x00020407, hw_cs = \<lambda>i. replicate 45 (of_nat i),
     hw_descriptor = \<lambda>i. replicate 7 (of_nat i), hw_event = \<lambda>_. 0, hw_payload = \<lambda>_ _. 0, hw_active = NOBODY,
     hw_head = False, hw_entries = \<lambda>_. ex_entry, hw_consumer = 0, hw_producer = 0, hw_queued = 0, hw_prog_delay = 3,
     hw_view = ex_tx_view, hw_tables = True, hw_rx_checker = True, hw_rx_slot = 0,
     hw_rx_descriptor = \<lambda>_. replicate 10 0, hw_rest = ()\<rparr>"

definition ex_push :: "unit radio_hw \<Rightarrow> tx_program \<Rightarrow> unit radio_hw" where
  "ex_push h p = h\<lparr>hw_entries := (hw_entries h)(hw_producer h :=
     \<lparr>en_hs = tp_hs p, en_callback = tp_callback p, en_context = tp_context p, en_used = 1\<rparr>),
     hw_producer := hw_producer h + 1, hw_queued := hw_queued h + 1\<rparr>"

definition ex_routines :: "unit radio_rom" where
  "ex_routines = \<lparr>rm_insert = \<lambda>h a. (h, 0), rm_remove = \<lambda>h k. (h\<lparr>hw_active := NOBODY\<rparr>, 0), rm_push = ex_push,
     rm_alarm_set = \<lambda>h t. h, rm_alarm_clear = \<lambda>h. h, rm_alloc = \<lambda>h. (h, 0x2000), rm_free = \<lambda>h p. h,
     rm_antenna = \<lambda>h f i. (0, 0), rm_power = \<lambda>h i f. h, rm_rx_ready = \<lambda>h a. False, rm_rx_free = \<lambda>h. h,
     rm_rx_capacity = \<lambda>h. 64, rm_clock = \<lambda>n. \<lparr>rt_hs = 100, rt_hus = 0\<rparr>, rm_context = 0x3fc81000, rm_window_option = 7\<rparr>"

lemma ex_routines_law: "rom_law ex_routines"
  by (simp add: rom_law_def ex_routines_def registers_def ring_def ex_push_def)

definition ex_request :: ull_radio_tx_request where
  "ex_request = \<lparr>rq_start_hs = 120, rq_start_hus = 0, rq_access_address = 0x71764129, rq_crc_init = 0x555555,
     rq_payload = Some [1, 2, 3], rq_length = 3, rq_channel = 5, rq_header = 1, rq_phy = 2, rq_receive_us = 0,
     rq_tx_receive_us = 0, rq_followup_delay_us = 0, rq_followup_window_us = 0, rq_followup_channel = 0,
     rq_prequeued_reply = 0, rq_repeat_payload = 0\<rparr>"

definition ex_idle :: "unit radio" where
  "ex_idle = \<lparr>r_tx = tx_zero, r_trace = trace_zero, r_hw = ex_hw, r_reads = 0\<rparr>"

definition ex_queued :: "unit radio" where "ex_queued = fst (ull_radio_tx_submit ex_routines (Some ex_request) ex_idle)"

definition ex_active :: "unit radio" where
  "ex_active = tx_started ex_routines True (ex_queued\<lparr>r_hw := (r_hw ex_queued)\<lparr>hw_active := OURS\<rparr>\<rparr>)"

definition ex_ended :: "unit radio" where "ex_ended = tx_frame_done ex_routines 120 0x3fc81000 0 ex_active"

definition ex_freed :: "unit radio" where
  "ex_freed = ex_ended\<lparr>r_hw := (r_hw ex_ended)\<lparr>hw_entries := \<lambda>_. ex_entry, hw_queued := 0\<rparr>\<rparr>"

lemma ex_submitted: "ull_radio_tx_submit ex_routines (Some ex_request) ex_idle = (ex_queued, 0)"
proof -
  have "snd (ull_radio_tx_submit ex_routines (Some ex_request) ex_idle) = 0" by code_simp
  then show ?thesis by (simp add: ex_queued_def prod_eq_iff)
qed

lemma ex_collected: "snd (snd (ull_radio_tx_collect ex_routines True ex_freed)) = 1"
  by code_simp

lemma ex_bits: "\<not> x_globals_set (r_tx ex_queued)" "x_globals_set (r_tx ex_active)" "\<not> x_globals_set (r_tx ex_ended)"
  by code_simp+

text \<open>The event in terms of steps: it is taken into the active slot, started, its frame ends, its entry retires.\<close>

lemma ex_run: "(hold_step ex_routines)\<^sup>*\<^sup>* ex_queued ex_freed"
proof -
  have "hold_step ex_routines ex_queued (ex_queued\<lparr>r_hw := (r_hw ex_queued)\<lparr>hw_active := OURS\<rparr>\<rparr>)" by (rule hold_others)
  moreover have "hold_step ex_routines (ex_queued\<lparr>r_hw := (r_hw ex_queued)\<lparr>hw_active := OURS\<rparr>\<rparr>) ex_active"
    unfolding ex_active_def by (intro hold_own own_step.start)
  moreover have "hold_step ex_routines ex_active ex_ended" unfolding ex_ended_def by (intro hold_own own_step.frame)
  moreover have "hold_step ex_routines ex_ended ex_freed" unfolding ex_freed_def by (rule hold_others)
  ultimately show ?thesis by (meson rtranclp.rtrancl_into_rtrancl rtranclp.rtrancl_refl)
qed

lemma ex_quiet: "(quiet_step ex_routines)\<^sup>*\<^sup>* ex_queued ex_active" "(quiet_step ex_routines)\<^sup>*\<^sup>* ex_queued ex_ended"
proof -
  have "outside (ex_queued\<lparr>r_hw := (r_hw ex_queued)\<lparr>hw_active := OURS\<rparr>\<rparr>) = outside ex_queued"
    using ex_bits(1) by (simp add: outside_def registers_def)
  then have "quiet_step ex_routines ex_queued (ex_queued\<lparr>r_hw := (r_hw ex_queued)\<lparr>hw_active := OURS\<rparr>\<rparr>)" by (rule others_quiet)
  moreover have "quiet_step ex_routines (ex_queued\<lparr>r_hw := (r_hw ex_queued)\<lparr>hw_active := OURS\<rparr>\<rparr>) ex_active"
    unfolding ex_active_def by (rule own_quiet [OF own_step.start])
  moreover have "quiet_step ex_routines ex_active ex_ended" unfolding ex_ended_def by (rule own_quiet [OF own_step.frame])
  ultimately show "(quiet_step ex_routines)\<^sup>*\<^sup>* ex_queued ex_active" "(quiet_step ex_routines)\<^sup>*\<^sup>* ex_queued ex_ended"
    by (meson rtranclp.rtrancl_into_rtrancl rtranclp.rtrancl_refl)+
qed

lemma quiet_radio: "(quiet_step rom)\<^sup>*\<^sup>* s t \<Longrightarrow> (radio_step rom)\<^sup>*\<^sup>* s t"
proof (induction rule: rtranclp_induct)
  case (step t u)
  from step(2) have "radio_step rom t u" by (cases rule: quiet_step.cases) (auto intro: radio_step.intros)
  then show ?case using step(3) by (rule rtranclp.rtrancl_into_rtrancl [rotated])
qed simp

lemma ex_reach: "(radio_step ex_routines)\<^sup>*\<^sup>* ex_idle ex_queued" "(radio_step ex_routines)\<^sup>*\<^sup>* ex_idle ex_active"
proof -
  have "radio_step ex_routines ex_idle ex_queued" by (rule radio_step.own) (rule own_step.submit [OF ex_submitted])
  then show q: "(radio_step ex_routines)\<^sup>*\<^sup>* ex_idle ex_queued" by (rule r_into_rtranclp)
  show "(radio_step ex_routines)\<^sup>*\<^sup>* ex_idle ex_active" by (rule rtranclp_trans [OF q quiet_radio [OF ex_quiet(1)]])
qed

lemma ex_idle_zero: "r_tx ex_idle = tx_zero"
  by (simp add: ex_idle_def)

lemma registers_given_back_witness:
  "x_globals_set (r_tx ex_active) \<and> \<not> x_globals_set (r_tx ex_ended) \<and> registers (r_hw ex_ended) = registers (r_hw ex_queued)"
  using registers_given_back [OF ex_routines_law ex_reach(1) ex_idle_zero ex_bits(1) ex_quiet(2)] ex_bits by blast

lemma abort_only_own_witness:
  "hw_active (r_hw ex_active) = OURS \<and> tx_program_is_ours (r_hw ex_active) (r_tx ex_active) True \<and>
   tx_phase_of ex_active \<in> {ULL_TX_ACTIVE, ULL_TX_ABORTING}"
proof -
  have "hw_control (r_hw (tx_deadline ex_routines True ex_active)) AND RADIO_ABORT \<noteq> 0" "hw_control (r_hw ex_active) AND RADIO_ABORT = 0"
    by code_simp+
  then show ?thesis by (rule abort_only_own [OF ex_routines_law ex_reach(2) ex_idle_zero own_step.deadline])
qed

lemma storage_given_back_witness:
  "\<exists>u. fst (ull_radio_tx_collect ex_routines True ex_freed) = u \<and> hw_cs (r_hw u) 1 = replicate 45 1 \<and> r_tx u = tx_zero"
proof -
  let ?c = "ull_radio_tx_collect ex_routines True ex_freed"
  have c: "?c = (fst ?c, fst (snd ?c), 1)" using ex_collected by (simp add: prod_eq_iff)
  obtain h where h: "r_hw (fst ?c) = rm_free ex_routines h (snd (rm_alloc ex_routines (r_hw ex_idle)))"
    "same_storage ex_request h (fst (rm_alloc ex_routines (r_hw ex_idle)))" "r_tx (fst ?c) = tx_zero"
    using storage_given_back [OF ex_submitted ex_run c] by blast
  have "hw_cs h 1 = replicate 45 1" using h(2) by (simp add: same_storage_def ex_routines_def ex_idle_def ex_hw_def)
  then show ?thesis using h(1,3) by (simp add: ex_routines_def)
qed

lemma rejected_submit_leaves_nothing_witness:
  "let (t, status) = ull_radio_tx_submit ex_routines (Some (ex_request\<lparr>rq_start_hs := 102\<rparr>)) ex_idle
   in status = ULL_TX_TIME_EXPIRED \<and> r_tx t = tx_zero \<and> hw_control (r_hw t) = 0x1003"
proof -
  let ?r = "ull_radio_tx_submit ex_routines (Some (ex_request\<lparr>rq_start_hs := 102\<rparr>)) ex_idle"
  have s: "snd ?r = ULL_TX_TIME_EXPIRED" by code_simp
  have r: "?r = (fst ?r, snd ?r)" by simp
  have "snd ?r \<noteq> 0" using s by (simp add: ULL_TX_TIME_EXPIRED_def)
  from rejected_submit_leaves_nothing [OF r this] s
  have "r_tx (fst ?r) = tx_zero" "r_hw (fst ?r) = ex_hw"
    by (simp_all add: ULL_TX_TIME_EXPIRED_def ULL_TX_SCHEDULE_CONFLICT_def ex_idle_def)
  then show ?thesis using s by (simp add: split_def ex_hw_def)
qed

end
