(* ===== verification/ToneFrame.thy ===== *)
theory ToneFrame
  imports AudioSource TonePacket AirFeedback RawLlcp PhyPacket
begin

text \<open>
  The frames of \<^verbatim>\<open>firmware/radio/src/tone_trial.c\<close>: what one prepared frame holds, how it is built from
  the session plan, the sequence numbers and the audio of its event, and when a frame prepared earlier may
  stand for it. The building routine threads the audio source and the key cache of the CCM envelope; its
  result is the frame and whether it was built. The build options are those of the source: two receive-only
  intervals, then transmission with a second-slot reply window, empty bootstrap records and the parent poll.
\<close>

section \<open>Build options\<close>

definition ULL_RX_DIAGNOSTIC :: nat where "ULL_RX_DIAGNOSTIC = 4"
definition ULL_SEQUENCE_CONTROL :: bool where "ULL_SEQUENCE_CONTROL = False"
definition ULL_CONTROL_GAP :: bool where "ULL_CONTROL_GAP = False"
definition ULL_EMPTY_BOOTSTRAP :: bool where "ULL_EMPTY_BOOTSTRAP = True"
definition ULL_PARENT_POLL :: bool where "ULL_PARENT_POLL = True"
definition ULL_POLL_TX_SHIFT_US :: u32 where "ULL_POLL_TX_SHIFT_US = 20"
definition ULL_AUDIO_REPEAT :: bool where "ULL_AUDIO_REPEAT = False"

lemmas build_options = ULL_RX_DIAGNOSTIC_def ULL_SEQUENCE_CONTROL_def ULL_CONTROL_GAP_def ULL_EMPTY_BOOTSTRAP_def
  ULL_PARENT_POLL_def ULL_AUDIO_REPEAT_def

section \<open>Prepared frames\<close>

record prepared_frame =
  pf_inner_hs :: u32
  pf_outer_hs :: u32
  pf_build_us :: u32
  pf_generation :: u32
  pf_inner_hus :: u16
  pf_outer_hus :: u16
  pf_index :: u32
  pf_channel :: u8
  pf_header :: u8
  pf_stream_mask :: u8
  pf_poll_header :: u8
  pf_tx_sequence :: bytes
  pf_ack_sequence :: bytes
  pf_parent :: ull_parent_pdu
  pf_valid :: bool
  pf_receive :: bool
  pf_stereo_audio :: bool
  pf_cache_reused :: bool
  pf_length :: nat
  pf_wire :: bytes

definition frame_zero :: prepared_frame where
  "frame_zero = \<lparr>pf_inner_hs = 0, pf_outer_hs = 0, pf_build_us = 0, pf_generation = 0, pf_inner_hus = 0, pf_outer_hus = 0,
     pf_index = 0, pf_channel = 0, pf_header = 0, pf_stream_mask = 0, pf_poll_header = 0, pf_tx_sequence = [0, 0],
     pf_ack_sequence = [0, 0], pf_parent = parent_pdu_zero, pf_valid = False, pf_receive = False,
     pf_stereo_audio = False, pf_cache_reused = False, pf_length = 0, pf_wire = replicate ULL_PHY_PACKET_MAX 0\<rparr>"

definition receive_frame :: "u32 \<Rightarrow> bool" where
  "receive_frame index \<longleftrightarrow> ULL_RX_DIAGNOSTIC = 1 \<or> (ULL_RX_DIAGNOSTIC = 2 \<and> index AND 1 = 0) \<or>
     (ULL_RX_DIAGNOSTIC \<ge> 3 \<and> index < 2)"

text \<open>The code adds up the half-microseconds in 32 bits and carries into the clock.\<close>

definition shifted :: "u32 \<Rightarrow> u32 \<times> u16 \<Rightarrow> u32 \<times> u16" where
  "shifted half_us t =
     (let fine = ucast (snd t) + half_us in ((fst t + fine div 625) AND CLOCK_MASK, ucast (fine mod 625)))"

definition receive_time_shift :: "u32 \<Rightarrow> u32 \<times> u16 \<Rightarrow> u32 \<times> u16" where
  "receive_time_shift index t =
     (if \<not> receive_frame index then t else shifted (if ULL_RX_DIAGNOSTIC = 1 then 4440 else 1600) t)"

definition aa_valid :: "u32 \<Rightarrow> bool" where
  "aa_valid aa =
     (let difference = aa XOR 0x8e89bed6; b = (\<lambda>k. ucast (drop_bit k aa) :: u8);
          flips = (\<lambda>i. bit aa i \<noteq> bit aa (i - 1));
          run = fold (\<lambda>i (run, ok). if flips i then (1, ok) else (run + 1, ok \<and> run + 1 \<le> 6)) [1..<32] (1 :: nat, True)
      in difference \<noteq> 0 \<and> difference AND (difference - 1) \<noteq> 0 \<and>
         \<not> (b 0 = b 8 \<and> b 0 = b 16 \<and> b 0 = b 24) \<and> snd run \<and>
         length (filter flips [1..<32]) \<le> 24 \<and> length (filter flips [27..<32]) \<ge> 2)"

section \<open>Building a frame\<close>

definition frame_poll :: "u32 \<Rightarrow> u8 \<Rightarrow> bool" where
  "frame_poll index streams \<longleftrightarrow> ULL_PARENT_POLL \<and> ULL_EMPTY_BOOTSTRAP \<and> streams = 2 \<and> \<not> receive_frame index"

definition frame_parent_ack :: "u32 \<Rightarrow> u8 \<Rightarrow> ull_parent_pdu \<Rightarrow> bool" where
  "frame_parent_ack index streams parent \<longleftrightarrow> streams = 6 \<and> \<not> receive_frame index \<and> pp_header parent \<noteq> 0"

definition frame_header :: "u32 \<Rightarrow> u8 \<Rightarrow> ull_parent_pdu \<Rightarrow> u8" where
  "frame_header index streams parent =
     push_bit 3 streams OR (if frame_poll index streams then 1 else if frame_parent_ack index streams parent then 2 else 0)"

definition frame_options :: "u32 \<Rightarrow> u8 \<Rightarrow> bytes \<Rightarrow> bytes \<Rightarrow> ull_parent_pdu \<Rightarrow> ull_tone_packet_options" where
  "frame_options index streams sq ack parent =
     (let header = frame_header index streams parent in
      \<lparr>op_event_index = index, op_packet_counter = 0, op_direction = 1, op_header = header, op_aad = header AND 0xe3,
       op_tx_sequence = take 2 sq, op_ack_sequence = take 2 ack, op_stream_mask = streams\<rparr>)"

text \<open>The audio of the event: the source afterwards, and its frames, \<open>None\<close> for an empty record; the whole
  result is missing when the source refuses the event.\<close>

definition frame_audio :: "u32 \<Rightarrow> u8 \<Rightarrow> ull_audio_source option \<Rightarrow>
    ull_audio_source option \<times> (bool \<times> bytes list) option" where
  "frame_audio index streams source =
     (let silent = ULL_EMPTY_BOOTSTRAP \<and> streams = 2 in
      case source of None \<Rightarrow> (None, Some (silent, silence))
      | Some a \<Rightarrow>
          if silent then (source, Some (True, silence))
          else
            (case ull_audio_source_select a index (Some silence) of
               (a, selected, out) \<Rightarrow>
                 if selected < 0 then (Some a, None)
                 else (Some a, Some (selected = 0, case out of Some f \<Rightarrow> f | None \<Rightarrow> silence))))"

definition frame_packet :: "'c mbedtls_ccm \<Rightarrow> tone_table \<Rightarrow> ull_air_session_plan \<Rightarrow> u32 \<Rightarrow> u8 \<Rightarrow> ull_tone_packet_options \<Rightarrow>
    ull_parent_pdu \<Rightarrow> bool \<Rightarrow> bool \<Rightarrow> bytes list \<Rightarrow> 'c ccm_session \<Rightarrow> (tone_error + ull_tone_packet) \<times> 'c ccm_session" where
  "frame_packet mb tone plan index streams op parent live silent audio s =
     (if frame_parent_ack index streams parent then
        if silent then ull_empty_parent_ack_packet_build mb tone (Some plan) (Some op) (pp_header parent) True s
        else if live then ull_audio_parent_ack_packet_build mb tone (Some plan) (Some op) (Some audio) (pp_header parent) True s
        else ull_tone_parent_ack_packet_build mb tone (Some plan) (Some op) (pp_header parent) True s
      else if frame_poll index streams then
        if pp_length parent \<noteq> 0
        then ull_control_packet_build mb tone (Some plan) (Some op) (pp_header parent) (Some (pp_payload parent))
               (unat (pp_length parent)) True s
        else ull_poll_packet_build mb tone (Some plan) (Some op) (pp_header parent) True s
      else if silent then ull_empty_packet_build mb tone (Some plan) (Some op) True s
      else if live then ull_audio_packet_build mb tone (Some plan) (Some op) (Some audio) True s
      else ull_tone_packet_build mb tone (Some plan) (Some op) True s)"

definition packet_fits :: "u32 \<Rightarrow> u8 \<Rightarrow> ull_parent_pdu \<Rightarrow> bool \<Rightarrow> u8 \<Rightarrow> ull_tone_packet \<Rightarrow> bool" where
  "packet_fits index streams parent silent header packet \<longleftrightarrow>
     unat (tp_length packet) =
       (if frame_poll index streams then 13 + unat (pp_length parent)
        else (if silent then (if streams = 6 then 15 else 11) else if streams = 6 then 205 else 106)
          + (if frame_parent_ack index streams parent then 2 else 0)) \<and>
     tp_pdu packet ! 0 = header \<and> unat (tp_pdu packet ! 1) = unat (tp_length packet) - 2"

text \<open>The assignments after a built packet, in the order of the code; the last one can still fail, in the channel
  of a receive interval.\<close>

definition frame_times :: "u32 \<Rightarrow> u8 \<Rightarrow> ull_tone_packet \<Rightarrow> u32 \<times> u16" where
  "frame_times index streams packet =
     (let t = (tp_start_hs packet, tp_start_hus packet) in
      receive_time_shift index (if frame_poll index streams then shifted (2 * ULL_POLL_TX_SHIFT_US) t else t))"

definition fill_frame :: "u32 \<Rightarrow> u8 \<Rightarrow> ull_tone_packet \<Rightarrow> prepared_frame \<Rightarrow> prepared_frame" where
  "fill_frame index streams packet p =
     (let n = unat (tp_length packet) - 2; t = frame_times index streams packet in
      p\<lparr>pf_length := n, pf_wire := memcpy_at (pf_wire p) 0 (block 2 n (tp_pdu packet)), pf_header := tp_pdu packet ! 0,
        pf_outer_hs := fst t, pf_outer_hus := snd t, pf_inner_hs := fst t, pf_inner_hus := snd t,
        pf_channel := tp_channel packet, pf_index := index, pf_receive := receive_frame index\<rparr>)"

definition receive_channel :: "ull_air_session_plan \<Rightarrow> u32 \<Rightarrow> u8 option" where
  "receive_channel plan index =
     ull_ble_csa2_subevent (pl_access_address plan) (ucast (pl_event_counter plan + index)) (Some (drop 19 (pl_e2 plan)))
       (if ULL_RX_DIAGNOSTIC = 1 then 2 else 1) True"

definition complete_frame :: "u32 \<Rightarrow> u8 \<Rightarrow> bytes \<Rightarrow> bytes \<Rightarrow> ull_parent_pdu \<Rightarrow> bool \<Rightarrow> u32 \<Rightarrow> u32 \<Rightarrow> prepared_frame \<Rightarrow> prepared_frame" where
  "complete_frame index streams sq ack parent silent generation elapsed p =
     p\<lparr>pf_generation := generation, pf_stream_mask := streams, pf_poll_header := pp_header parent,
       pf_parent := (if frame_poll index streams \<or> frame_parent_ack index streams parent then parent else parent_pdu_zero),
       pf_stereo_audio := (streams = 6 \<and> \<not> silent), pf_tx_sequence := take 2 sq, pf_ack_sequence := take 2 ack,
       pf_build_us := elapsed, pf_cache_reused := False, pf_valid := True\<rparr>"

definition finish_frame :: "ull_air_session_plan \<Rightarrow> u32 \<Rightarrow> u32 \<Rightarrow> u32 \<Rightarrow> u8 \<Rightarrow> bytes \<Rightarrow> bytes \<Rightarrow> ull_parent_pdu \<Rightarrow> bool \<Rightarrow>
    ull_tone_packet \<Rightarrow> prepared_frame \<Rightarrow> prepared_frame \<times> bool" where
  "finish_frame plan generation elapsed index streams sq ack parent silent packet p =
     (let p = fill_frame index streams packet p in
      if receive_frame index
      then (case receive_channel plan index of None \<Rightarrow> (p, False)
            | Some ch \<Rightarrow> (complete_frame index streams sq ack parent silent generation elapsed (p\<lparr>pf_channel := ch\<rparr>), True))
      else (complete_frame index streams sq ack parent silent generation elapsed p, True))"

definition build_prepared_frame :: "'c mbedtls_ccm \<Rightarrow> tone_table \<Rightarrow> ull_air_session_plan \<Rightarrow> u32 \<Rightarrow> u32 \<Rightarrow> u32 \<Rightarrow> u8 \<Rightarrow>
    bytes \<Rightarrow> bytes \<Rightarrow> ull_parent_pdu \<Rightarrow> prepared_frame \<Rightarrow> ull_audio_source option \<times> 'c ccm_session \<Rightarrow>
    (ull_audio_source option \<times> 'c ccm_session) \<times> prepared_frame \<times> bool" where
  "build_prepared_frame mb tone plan generation elapsed index streams sq ack parent p s =
     (let p = p\<lparr>pf_valid := False\<rparr>; (source, ccm) = s in
      if frame_parent_ack index streams parent \<and> (pp_length parent \<noteq> 0 \<or> pp_header parent AND NOT 12 \<noteq> 1) then (s, p, False)
      else
        (case frame_audio index streams source of
           (source, None) \<Rightarrow> ((source, ccm), p, False)
         | (source, Some (silent, audio)) \<Rightarrow>
             (let op = frame_options index streams sq ack parent in
              case frame_packet mb tone plan index streams op parent (source \<noteq> None) silent audio ccm of
                (Inl _, ccm) \<Rightarrow> ((source, ccm), p, False)
              | (Inr packet, ccm) \<Rightarrow>
                  if \<not> packet_fits index streams parent silent (op_header op) packet then ((source, ccm), p, False)
                  else ((source, ccm), finish_frame plan generation elapsed index streams sq ack parent silent packet p))))"

section \<open>Reusing a frame\<close>

definition parent_matches :: "prepared_frame \<Rightarrow> ull_parent_pdu \<Rightarrow> bool" where
  "parent_matches p parent \<longleftrightarrow> pp_header (pf_parent p) = pp_header parent \<and> pp_length (pf_parent p) = pp_length parent \<and>
     take (unat (pp_length parent)) (pp_payload (pf_parent p)) = take (unat (pp_length parent)) (pp_payload parent)"

definition frame_matches :: "prepared_frame \<Rightarrow> u32 \<Rightarrow> u8 \<Rightarrow> bytes \<Rightarrow> bytes \<Rightarrow> ull_parent_pdu \<Rightarrow> bool" where
  "frame_matches p index streams sq ack parent \<longleftrightarrow>
     pp_length parent \<le> 68 \<and> pf_valid p \<and> pf_index p = index \<and> pf_stream_mask p = streams \<and> parent_matches p parent \<and>
     pf_tx_sequence p = take 2 sq \<and> pf_ack_sequence p = take 2 ack"

definition cache_vector :: "bytes \<Rightarrow> bytes \<Rightarrow> u32" where
  "cache_vector sq ack = ucast (sq ! 0) OR push_bit 8 (ucast (sq ! 1)) OR push_bit 16 (ucast (ack ! 0)) OR push_bit 24 (ucast (ack ! 1))"

definition cache_parent_matches :: "prepared_frame \<Rightarrow> ull_parent_pdu \<Rightarrow> bool" where
  "cache_parent_matches p parent \<longleftrightarrow> pp_length parent \<le> 68 \<and> parent_matches p parent"

end
