(* ===== verification/RetryPolicy.thy ===== *)
theory RetryPolicy
  imports RadioTx
begin

text \<open>
  Model of the repeat policy of \<^verbatim>\<open>firmware/radio/src/tone_trial.c\<close>: who may ask for a frame to be sent
  twice (an explicit probe, an explicit burst or the automatic policy), the budgets and the cooldown of each,
  and their diagnostic snapshots. The controller task runs each routine to its end; the routines of the
  console that arm a test share atomic variables with it and are also given as sequences of single atomic
  actions. The clock in milliseconds, the radio time and the position of the trial are arguments.
\<close>

section \<open>State\<close>

record retry =
  rt_owner :: u32
  rt_burst :: "u32 list"
  rt_burst_started_ms :: u32
  rt_burst_active :: bool
  rt_burst_watch :: bool
  rt_burst_lead :: bool
  rt_auto_enabled :: bool
  rt_auto :: "u32 list"
  rt_errors :: "u32 list"
  rt_auto_last_frame :: u32
  rt_skip_pending :: bool
  rt_cooldown :: u32
  rt_stable :: u32
  rt_recoveries :: u32
  rt_cooldown_since :: u32
  rt_last_repeat :: bool
  rt_cooldown_probe :: u32
  rt_cache_work :: "u32 list"
  rt_cache_failure :: "u32 list"
  rt_probe_state :: u32
  rt_probe_values :: "u32 list"
  rt_probe_active :: bool
  rt_probe_next :: bool
  rt_probe_ticket :: bool
  rt_attempts :: "u32 list"
  rt_attempt_row :: u32
  rt_probe_start_hs :: u32
  rt_probe_start_hus :: u16
  rt_probe_skip_start :: u32
  rt_fallback :: "u32 list"
  rt_trace_on :: bool
  rt_stream :: "u32 list"

definition retry_zero :: retry where
  "retry_zero = \<lparr>rt_owner = 0, rt_burst = replicate 6 0, rt_burst_started_ms = 0, rt_burst_active = False,
     rt_burst_watch = False, rt_burst_lead = False, rt_auto_enabled = True, rt_auto = replicate 7 0,
     rt_errors = replicate 2 0, rt_auto_last_frame = - 1, rt_skip_pending = False, rt_cooldown = 0, rt_stable = 0,
     rt_recoveries = 0, rt_cooldown_since = 0, rt_last_repeat = False, rt_cooldown_probe = 0,
     rt_cache_work = replicate 16 0, rt_cache_failure = replicate 16 0, rt_probe_state = 0,
     rt_probe_values = replicate 16 0, rt_probe_active = False, rt_probe_next = False, rt_probe_ticket = False,
     rt_attempts = replicate 64 0, rt_attempt_row = - 1, rt_probe_start_hs = 0, rt_probe_start_hus = 0,
     rt_probe_skip_start = 0, rt_fallback = replicate 3 0, rt_trace_on = True, rt_stream = replicate 8 0\<rparr>"

text \<open>The phases of a trial and the numbers the code gives them.\<close>

datatype trial_phase = IDLE | WAIT_E2 | TRANSMITTING | FINISHED | CANCELLED | FAILED | FAULT

definition phase_value :: "trial_phase \<Rightarrow> u32" where
  "phase_value p = (case p of IDLE \<Rightarrow> 0 | WAIT_E2 \<Rightarrow> 1 | TRANSMITTING \<Rightarrow> 2 | FINISHED \<Rightarrow> 3 | CANCELLED \<Rightarrow> 4 | FAILED \<Rightarrow> 5
     | FAULT \<Rightarrow> 6)"

text \<open>Storing and incrementing one element of an array of counters.\<close>

definition bump :: "nat \<Rightarrow> u32 list \<Rightarrow> u32 list" where "bump i xs = xs[i := xs ! i + 1]"

definition set_burst :: "nat \<Rightarrow> u32 \<Rightarrow> retry \<Rightarrow> retry" where "set_burst i v s = s\<lparr>rt_burst := (rt_burst s)[i := v]\<rparr>"

definition set_auto :: "nat \<Rightarrow> u32 \<Rightarrow> retry \<Rightarrow> retry" where "set_auto i v s = s\<lparr>rt_auto := (rt_auto s)[i := v]\<rparr>"

definition bump_burst :: "nat \<Rightarrow> retry \<Rightarrow> retry" where "bump_burst i s = s\<lparr>rt_burst := bump i (rt_burst s)\<rparr>"

definition bump_auto :: "nat \<Rightarrow> retry \<Rightarrow> retry" where "bump_auto i s = s\<lparr>rt_auto := bump i (rt_auto s)\<rparr>"

section \<open>Snapshots for the console\<close>

definition ull_tone_trial_stream_state :: "retry \<Rightarrow> u32 list" where "ull_tone_trial_stream_state s = rt_stream s"

definition ull_tone_trial_retry_auto_recovery_status :: "u32 \<Rightarrow> retry \<Rightarrow> u32 list" where
  "ull_tone_trial_retry_auto_recovery_status ms s =
     (let elapsed = ms - rt_cooldown_since s in
      [rt_cooldown s, rt_stable s, rt_recoveries s, if rt_cooldown s \<noteq> 0 \<and> elapsed < 250 then 250 - elapsed else 0])"

definition ull_tone_trial_retry_auto_enable :: "bool \<Rightarrow> retry \<Rightarrow> retry" where
  "ull_tone_trial_retry_auto_enable enabled s = s\<lparr>rt_auto_enabled := enabled\<rparr>"

definition ull_tone_trial_retry_auto_status :: "retry \<Rightarrow> u32 list" where
  "ull_tone_trial_retry_auto_status s = (if rt_auto_enabled s then 1 else 0) # rt_auto s"

definition ull_tone_trial_retry_error_counts :: "retry \<Rightarrow> u32 list" where
  "ull_tone_trial_retry_error_counts s = rt_errors s"

definition ull_tone_trial_retry_cache_failure :: "retry \<Rightarrow> u32 list" where
  "ull_tone_trial_retry_cache_failure s = rt_cache_failure s"

definition ull_tone_trial_retry_burst_status :: "retry \<Rightarrow> u32 list" where
  "ull_tone_trial_retry_burst_status s = rt_burst s"

definition ull_tone_trial_retry_probe_status :: "retry \<Rightarrow> u32 list" where
  "ull_tone_trial_retry_probe_status s = rt_probe_state s # rt_probe_values s"

definition ull_tone_trial_retry_attempts :: "retry \<Rightarrow> u32 list" where
  "ull_tone_trial_retry_attempts s = rt_attempts s"

definition ull_tone_trial_retry_fallback :: "retry \<Rightarrow> u32 list" where
  "ull_tone_trial_retry_fallback s = rt_fallback s"

section \<open>The automatic policy\<close>

definition auto_ordinary_completed :: "bool \<Rightarrow> retry \<Rightarrow> retry" where
  "auto_ordinary_completed stereo s =
     (if rt_cooldown s = 0 then s
      else if \<not> stereo \<or> rt_last_repeat s then s\<lparr>rt_stable := 0\<rparr>
      else if rt_stable s < 50 then s\<lparr>rt_stable := rt_stable s + 1\<rparr> else s)"

definition auto_release :: "retry \<Rightarrow> retry" where
  "auto_release s = (let s = set_auto 0 0 s in if rt_owner s = 3 then s\<lparr>rt_owner := 0\<rparr> else s)"

definition auto_block :: "retry \<Rightarrow> retry" where
  "auto_block s = auto_release ((set_auto 1 1 (s\<lparr>rt_cooldown := 0, rt_stable := 0\<rparr>))\<lparr>rt_burst_watch := False, rt_burst_lead := False\<rparr>)"

definition auto_cooldown_start :: "u32 \<Rightarrow> retry \<Rightarrow> retry" where
  "auto_cooldown_start ms s =
     auto_release (s\<lparr>rt_cooldown_since := ms, rt_stable := 0, rt_cooldown := 1, rt_burst_watch := False, rt_burst_lead := False\<rparr>)"

definition recovering_blocked :: "u32 \<Rightarrow> retry \<Rightarrow> bool" where
  "recovering_blocked ms s \<longleftrightarrow> rt_cooldown s \<noteq> 0 \<and> (rt_stable s < 50 \<or> ms - rt_cooldown_since s < 250)"

definition warm_up :: "u32 \<Rightarrow> retry \<Rightarrow> retry" where
  "warm_up frame s =
     (if rt_auto_last_frame s = frame then s
      else let s = s\<lparr>rt_auto_last_frame := frame\<rparr> in if rt_auto s ! 6 < 1000 then bump_auto 6 s else s)"

definition auto_accept :: "retry \<Rightarrow> retry" where
  "auto_accept s =
     (let s = s\<lparr>rt_owner := 3\<rparr>;
          s = (if rt_cooldown s \<noteq> 0 then s\<lparr>rt_cooldown := 0, rt_recoveries := rt_recoveries s + 1\<rparr> else s)
      in (bump_auto 2 (set_auto 0 1 s))\<lparr>rt_burst_active := True, rt_trace_on := False\<rparr>)"

definition auto_take :: "u32 \<Rightarrow> bool \<Rightarrow> u32 \<Rightarrow> bool \<Rightarrow> retry \<Rightarrow> retry \<times> bool" where
  "auto_take ms cancel frame eligible s =
     (if \<not> eligible \<or> cancel \<or> \<not> rt_auto_enabled s \<or> rt_auto s ! 1 \<noteq> 0 then (s, False)
      else if rt_owner s \<noteq> 0 \<and> rt_owner s \<noteq> 3 then (s, False)
      else if rt_owner s = 3 \<and> \<not> rt_burst_active s \<and> rt_cooldown_probe s = 1
        then (auto_cooldown_start ms (s\<lparr>rt_cooldown_probe := 2\<rparr>), False)
      else if recovering_blocked ms s then (s, False)
      else
        let s = warm_up frame s in
        if rt_auto s ! 6 < 1000 \<or> frame < 1000 then (s, False) else (auto_accept s, True))"

definition retry_cache_publish :: "u32 \<Rightarrow> u32 \<Rightarrow> retry \<Rightarrow> retry" where
  "retry_cache_publish reason frame s =
     (if rt_cache_failure s ! 0 \<noteq> 0 then s
      else
        let work = (rt_cache_work s)[1 := reason, 2 := frame] in
        s\<lparr>rt_cache_work := work, rt_cache_failure := 1 # drop 1 work\<rparr>)"

section \<open>The burst\<close>

definition burst_open :: "retry \<Rightarrow> bool" where "burst_open s \<longleftrightarrow> rt_burst s ! 0 = 1 \<or> rt_burst s ! 0 = 2"

definition burst_end :: "u32 \<Rightarrow> retry \<Rightarrow> retry" where
  "burst_end reason s =
     (let s = (if burst_open s then set_burst 0 3 (set_burst 1 reason s) else s) in
      if \<not> rt_burst_active s \<and> \<not> rt_burst_watch s \<and> rt_owner s = 2 then s\<lparr>rt_owner := 0\<rparr> else s)"

definition burst_tick :: "u32 \<Rightarrow> retry \<Rightarrow> retry" where
  "burst_tick ms s =
     (let s = (if rt_owner s = 3 \<and> \<not> rt_auto_enabled s \<and> \<not> rt_burst_active s \<and> \<not> rt_burst_watch s then auto_release s else s) in
      if burst_open s \<and> ms - rt_burst_started_ms s \<ge> 125000 then burst_end 2 s else s)"

definition burst_take :: "u32 \<Rightarrow> bool \<Rightarrow> retry \<Rightarrow> retry \<times> bool" where
  "burst_take ms eligible s =
     (let s = burst_tick ms s in
      if \<not> eligible \<or> \<not> burst_open s then (s, False)
      else if rt_burst s ! 2 \<ge> 24000 then (burst_end 1 s, False)
      else ((bump_burst 2 (set_burst 0 2 s))\<lparr>rt_burst_active := True, rt_trace_on := False\<rparr>, True))"

definition count_error :: "u8 \<Rightarrow> retry \<Rightarrow> retry" where
  "count_error error s =
     (if error = ULL_TX_SCHEDULE_CONFLICT then s\<lparr>rt_errors := bump 0 (rt_errors s)\<rparr>
      else if error = ULL_TX_TIME_EXPIRED then s\<lparr>rt_errors := bump 1 (rt_errors s)\<rparr> else s)"

definition auto_failed :: "u32 \<Rightarrow> u32 \<Rightarrow> u8 \<Rightarrow> retry \<Rightarrow> retry" where
  "auto_failed ms frame error s =
     (let s = (if error \<noteq> 0 then count_error error ((retry_cache_publish 6 frame s)\<lparr>rt_skip_pending := True\<rparr>) else s);
          s = bump_auto 4 s
      in if error = ULL_TX_TIME_EXPIRED \<or> error = ULL_TX_SCHEDULE_CONFLICT then auto_cooldown_start ms s else auto_block s)"

definition watch_next :: "retry \<Rightarrow> retry" where "watch_next s = s\<lparr>rt_burst_watch := True, rt_burst_lead := True\<rparr>"

text \<open>The end of a repeated frame; the result is missing after a failed submission.\<close>

definition burst_done :: "u32 \<Rightarrow> u32 \<Rightarrow> ull_radio_tx_result option \<Rightarrow> u8 \<Rightarrow> retry \<Rightarrow> retry" where
  "burst_done ms frame result error s =
     (let ended = (case result of None \<Rightarrow> False | Some r \<Rightarrow> rs_phase r = ULL_TX_ENDED) in
      if \<not> rt_burst_active s then s
      else
        let s = s\<lparr>rt_burst_active := False, rt_trace_on := True\<rparr> in
        if rt_owner s = 3
        then (if error \<noteq> 0 \<or> \<not> ended then auto_failed ms frame error s else watch_next (bump_auto 3 s))
        else if error \<noteq> 0 then burst_end 6 (bump_burst 4 (retry_cache_publish 6 frame s))
        else if \<not> ended then burst_end 4 s
        else
          let s = watch_next (bump_burst 3 s) in if rt_burst s ! 2 \<ge> 24000 then burst_end 1 s else s)"

definition skip_counted :: "retry \<Rightarrow> retry" where
  "skip_counted s =
     (let s = (if rt_cooldown s \<noteq> 0 then s\<lparr>rt_stable := 0\<rparr> else s) in
      if rt_skip_pending s then (bump_auto 5 s)\<lparr>rt_skip_pending := False\<rparr> else s)"

definition burst_skip :: "u32 \<Rightarrow> u32 \<Rightarrow> retry \<Rightarrow> retry" where
  "burst_skip ms next_frame s =
     (let s = skip_counted s in
      if \<not> rt_burst_watch s
      then (if rt_auto s ! 0 = 0 \<and> rt_cooldown s = 0 then (set_auto 6 0 s)\<lparr>rt_auto_last_frame := - 1\<rparr> else s)
      else if rt_owner s = 3 then auto_cooldown_start ms (bump_auto 5 (retry_cache_publish 5 next_frame s))
      else burst_end 5 ((bump_burst 5 (retry_cache_publish 5 next_frame s))\<lparr>rt_burst_watch := False, rt_burst_lead := False\<rparr>))"

definition burst_submitted :: "retry \<Rightarrow> retry" where
  "burst_submitted s =
     (let s = s\<lparr>rt_burst_watch := False\<rparr>;
          s = (if rt_owner s = 3 \<and> \<not> rt_burst_active s \<and> \<not> rt_auto_enabled s then auto_release s else s)
      in if rt_burst s ! 0 = 3 then burst_end (rt_burst s ! 1) s else s)"

section \<open>The probe\<close>

definition retry_probe_take :: "bool \<Rightarrow> u32 \<Rightarrow> u32 \<Rightarrow> u16 \<Rightarrow> u32 \<Rightarrow> retry \<Rightarrow> retry \<times> bool" where
  "retry_probe_take eligible frame hs hus skipped s =
     (if \<not> eligible \<or> rt_probe_state s \<noteq> 1 then (s, False)
      else (s\<lparr>rt_probe_state := 2, rt_probe_values := (rt_probe_values s)[0 := frame], rt_probe_start_hs := hs,
              rt_probe_start_hus := hus, rt_probe_skip_start := skipped, rt_probe_active := True\<rparr>, True))"

definition phase_number :: "tx_phase \<Rightarrow> u32" where
  "phase_number p = (case p of ULL_TX_IDLE \<Rightarrow> 0 | ULL_TX_QUEUED \<Rightarrow> 1 | ULL_TX_ACTIVE \<Rightarrow> 2 | ULL_TX_ABORTING \<Rightarrow> 3
     | ULL_TX_ENDED \<Rightarrow> 4 | ULL_TX_CANCELLED \<Rightarrow> 5 | ULL_TX_REFUSED \<Rightarrow> 6 | ULL_TX_FAULT \<Rightarrow> 7)"

definition probe_result :: "ull_radio_tx_result \<Rightarrow> u32 list \<Rightarrow> u32 list" where
  "probe_result r xs = xs[2 := phase_number (rs_phase r), 3 := ucast (rs_followup_status r), 4 := ucast (rs_tx_callbacks r),
     5 := ucast (rs_rx_callbacks r), 6 := ucast (rs_rx_snapshots r), 7 := ucast (rs_fault_detail r)]"

definition retry_probe_done :: "ull_radio_tx_result option \<Rightarrow> u8 \<Rightarrow> retry \<Rightarrow> retry" where
  "retry_probe_done result submit_error s =
     (if \<not> rt_probe_active s then s
      else
        let xs = (rt_probe_values s)[1 := ucast submit_error];
            ended = (case result of None \<Rightarrow> False | Some r \<Rightarrow> rs_phase r = ULL_TX_ENDED);
            faulted = (case result of None \<Rightarrow> False | Some r \<Rightarrow> rs_phase r = ULL_TX_FAULT);
            next_pending = (submit_error = 0 \<and> ended);
            s = s\<lparr>rt_probe_values := (case result of None \<Rightarrow> xs | Some r \<Rightarrow> probe_result r xs), rt_probe_next := next_pending,
                  rt_probe_ticket := next_pending, rt_probe_active := False\<rparr>;
            s = (if \<not> next_pending then s\<lparr>rt_owner := 0\<rparr> else s)
        in s\<lparr>rt_probe_state := if submit_error \<noteq> 0 \<or> faulted then 4 else 3\<rparr>)"

definition retry_prepare_minimum :: "u32 \<Rightarrow> bool \<Rightarrow> u32 \<times> bool" where
  "retry_prepare_minimum minimum one_attempt = (minimum + (if one_attempt then 0 else 1), False)"

definition retry_elapsed :: "radio_time \<Rightarrow> retry \<Rightarrow> u32" where
  "retry_elapsed now s =
     (let elapsed = uint ((rt_hs now - rt_probe_start_hs s) AND CLOCK_MASK) * 625 + uint (rt_hus now) - uint (rt_probe_start_hus s)
      in if 0 \<le> elapsed \<and> elapsed < 200000 then word_of_int (elapsed div 2) else - 1)"

definition retry_attempt_begin :: "radio_time \<Rightarrow> u32 \<Rightarrow> u32 \<Rightarrow> u32 \<Rightarrow> retry \<Rightarrow> retry" where
  "retry_attempt_begin now frame ahead minimum s =
     (let s = s\<lparr>rt_attempt_row := - 1\<rparr>; count = rt_attempts s ! 0; row = 1 + count * 8; n = unat row in
      if \<not> rt_probe_next s \<or> count \<ge> 7 then s
      else s\<lparr>rt_attempt_row := row,
             rt_attempts := (rt_attempts s)[n := frame, n + 1 := retry_elapsed now s, n + 2 := ahead, n + 3 := minimum,
                                            n + 7 := 0x100, 0 := count + 1]\<rparr>)"

definition retry_attempt_mark :: "nat \<Rightarrow> u32 \<Rightarrow> retry \<Rightarrow> retry" where
  "retry_attempt_mark slot v s =
     (if rt_probe_next s \<and> rt_attempt_row s \<noteq> - 1
      then s\<lparr>rt_attempts := (rt_attempts s)[unat (rt_attempt_row s) + slot := v]\<rparr> else s)"

definition retry_attempt_time :: "radio_time \<Rightarrow> nat \<Rightarrow> retry \<Rightarrow> retry" where
  "retry_attempt_time now slot s = (if rt_probe_next s then retry_attempt_mark slot (retry_elapsed now s) s else s)"

definition retry_next_mark :: "radio_time \<Rightarrow> nat \<Rightarrow> retry \<Rightarrow> retry" where
  "retry_next_mark now slot s =
     (if rt_probe_next s then s\<lparr>rt_probe_values := (rt_probe_values s)[slot := retry_elapsed now s]\<rparr> else s)"

text \<open>The frame after the probe has been submitted: its report, and the owner is free again.\<close>

definition probe_next_submitted :: "radio_time \<Rightarrow> u32 \<Rightarrow> u32 \<Rightarrow> retry \<Rightarrow> retry" where
  "probe_next_submitted now frame skipped s =
     (if rt_probe_next s \<and> frame > rt_probe_values s ! 0
      then
        let s = s\<lparr>rt_probe_values := (rt_probe_values s)[8 := frame, 9 := retry_elapsed now s, 10 := skipped - rt_probe_skip_start s],
                  rt_probe_next := False\<rparr>
        in if rt_owner s = 1 then s\<lparr>rt_owner := 0\<rparr> else s
      else s)"

section \<open>One submission\<close>

record repeat_choice = ch_probe :: bool ch_burst :: bool ch_automatic :: bool

definition take_repeat :: "u32 \<Rightarrow> bool \<Rightarrow> u32 \<Rightarrow> u32 \<Rightarrow> u16 \<Rightarrow> u32 \<Rightarrow> bool \<Rightarrow> retry \<Rightarrow> retry \<times> repeat_choice" where
  "take_repeat ms cancel frame hs hus skipped eligible s =
     (let (s, probe) = retry_probe_take eligible frame hs hus skipped s;
          (s, burst) = burst_take ms eligible s;
          (s, automatic) = (if \<not> probe \<and> \<not> burst then auto_take ms cancel frame eligible s else (s, False))
      in (s, \<lparr>ch_probe = probe, ch_burst = burst, ch_automatic = automatic\<rparr>))"

definition single_request :: "ull_radio_tx_request \<Rightarrow> ull_radio_tx_request" where
  "single_request r = r\<lparr>rq_repeat_payload := 0, rq_prequeued_reply := 0, rq_followup_delay_us := 2350\<rparr>"

section \<open>The end of a trial\<close>

definition retry_finish :: "u32 \<Rightarrow> u32 \<Rightarrow> bool \<Rightarrow> u32 \<Rightarrow> retry \<Rightarrow> retry" where
  "retry_finish ms phase was_cancelled frame s =
     (let s = (if rt_cooldown_probe s = 1 then s\<lparr>rt_cooldown_probe := 2\<rparr> else s);
          s = s\<lparr>rt_stream := (rt_stream s)[0 := phase]\<rparr>;
          s = (if rt_probe_state s = 1 then s\<lparr>rt_probe_state := 4\<rparr> else s);
          s = (if rt_probe_active s then retry_probe_done None 0xff s else s);
          s = s\<lparr>rt_probe_next := False, rt_probe_ticket := False, rt_burst_watch := False, rt_burst_lead := False\<rparr>;
          s = (if rt_burst_active s then burst_done ms frame None 0 s else s);
          s = burst_end (if was_cancelled then 3 else 4) s;
          s = s\<lparr>rt_cooldown := 0, rt_stable := 0\<rparr>
      in (set_auto 1 1 (set_auto 0 0 s))\<lparr>rt_owner := 0\<rparr>)"

definition retry_rearm :: "retry \<Rightarrow> retry" where
  "retry_rearm s = (set_auto 6 0 (set_auto 1 0 (set_auto 0 0 s)))\<lparr>rt_auto_last_frame := - 1, rt_skip_pending := False,
     rt_cooldown := 0, rt_stable := 0, rt_last_repeat := False, rt_stream := replicate 8 0\<rparr>"

section \<open>Arming a test from the console\<close>

text \<open>Each routine as the sequence of its atomic actions: the position after the action just taken.\<close>

datatype arm_pc = CONSOLE_IDLE
  | PROBE_START | PROBE_OWN | PROBE_ARM | PROBE_CHECK | PROBE_FAIL | PROBE_FREE
  | BURST_START | BURST_OWN | BURST_TIME | BURST_ARM | BURST_CHECK | BURST_REASON | BURST_FAIL | BURST_FREE
  | COOL_ENABLED | COOL_OWNER | COOL_BLOCKED | COOL_ARM | COOL_ENABLED2 | COOL_OWNER2 | COOL_BLOCKED2 | COOL_CLOSE

fun arm_action :: "u32 \<Rightarrow> arm_pc \<Rightarrow> retry \<Rightarrow> retry \<times> arm_pc" where
  "arm_action ms CONSOLE_IDLE s = (s, CONSOLE_IDLE)"
| "arm_action ms PROBE_START s = (s, if rt_stream s ! 0 = phase_value TRANSMITTING then PROBE_OWN else CONSOLE_IDLE)"
| "arm_action ms PROBE_OWN s = (if rt_owner s = 0 then (s\<lparr>rt_owner := 1\<rparr>, PROBE_ARM) else (s, CONSOLE_IDLE))"
| "arm_action ms PROBE_ARM s = (if rt_probe_state s = 0 then (s\<lparr>rt_probe_state := 1\<rparr>, PROBE_CHECK) else (s, PROBE_FREE))"
| "arm_action ms PROBE_CHECK s = (s, if rt_stream s ! 0 = phase_value TRANSMITTING then CONSOLE_IDLE else PROBE_FAIL)"
| "arm_action ms PROBE_FAIL s = (s\<lparr>rt_probe_state := 4\<rparr>, PROBE_FREE)"
| "arm_action ms PROBE_FREE s = (s\<lparr>rt_owner := 0\<rparr>, CONSOLE_IDLE)"
| "arm_action ms BURST_START s = (s, if rt_stream s ! 0 = phase_value TRANSMITTING then BURST_OWN else CONSOLE_IDLE)"
| "arm_action ms BURST_OWN s = (if rt_owner s = 0 then (s\<lparr>rt_owner := 2\<rparr>, BURST_TIME) else (s, CONSOLE_IDLE))"
| "arm_action ms BURST_TIME s = (s\<lparr>rt_burst_started_ms := ms\<rparr>, BURST_ARM)"
| "arm_action ms BURST_ARM s = (if rt_burst s ! 0 = 0 then (set_burst 0 1 s, BURST_CHECK) else (s, BURST_FREE))"
| "arm_action ms BURST_CHECK s = (s, if rt_stream s ! 0 = phase_value TRANSMITTING then CONSOLE_IDLE else BURST_REASON)"
| "arm_action ms BURST_REASON s = (set_burst 1 4 s, BURST_FAIL)"
| "arm_action ms BURST_FAIL s = (set_burst 0 3 s, BURST_FREE)"
| "arm_action ms BURST_FREE s = (s\<lparr>rt_owner := 0\<rparr>, CONSOLE_IDLE)"
| "arm_action ms COOL_ENABLED s = (s, if rt_auto_enabled s then COOL_OWNER else CONSOLE_IDLE)"
| "arm_action ms COOL_OWNER s = (s, if rt_owner s = 3 then COOL_BLOCKED else CONSOLE_IDLE)"
| "arm_action ms COOL_BLOCKED s = (s, if rt_auto s ! 1 = 0 then COOL_ARM else CONSOLE_IDLE)"
| "arm_action ms COOL_ARM s = (if rt_cooldown_probe s = 0 then (s\<lparr>rt_cooldown_probe := 1\<rparr>, COOL_ENABLED2) else (s, CONSOLE_IDLE))"
| "arm_action ms COOL_ENABLED2 s = (s, if rt_auto_enabled s then COOL_OWNER2 else COOL_CLOSE)"
| "arm_action ms COOL_OWNER2 s = (s, if rt_owner s = 3 then COOL_BLOCKED2 else COOL_CLOSE)"
| "arm_action ms COOL_BLOCKED2 s = (s, if rt_auto s ! 1 = 0 then CONSOLE_IDLE else COOL_CLOSE)"
| "arm_action ms COOL_CLOSE s = (if rt_cooldown_probe s = 1 then s\<lparr>rt_cooldown_probe := 2\<rparr> else s, CONSOLE_IDLE)"

text \<open>The routines when nothing interleaves with them.\<close>

definition ull_tone_trial_retry_probe_arm :: "retry \<Rightarrow> retry \<times> bool" where
  "ull_tone_trial_retry_probe_arm s =
     (if rt_stream s ! 0 \<noteq> phase_value TRANSMITTING \<or> rt_owner s \<noteq> 0 then (s, False)
      else if rt_probe_state s \<noteq> 0 then (s\<lparr>rt_owner := 0\<rparr>, False)
      else (s\<lparr>rt_owner := 1, rt_probe_state := 1\<rparr>, True))"

definition ull_tone_trial_retry_burst_arm :: "u32 \<Rightarrow> retry \<Rightarrow> retry \<times> bool" where
  "ull_tone_trial_retry_burst_arm ms s =
     (if rt_stream s ! 0 \<noteq> phase_value TRANSMITTING \<or> rt_owner s \<noteq> 0 then (s, False)
      else
        let s = s\<lparr>rt_owner := 2, rt_burst_started_ms := ms\<rparr> in
        if rt_burst s ! 0 \<noteq> 0 then (s\<lparr>rt_owner := 0\<rparr>, False) else (set_burst 0 1 s, True))"

definition ull_tone_trial_retry_cooldown_probe_arm :: "retry \<Rightarrow> retry \<times> bool" where
  "ull_tone_trial_retry_cooldown_probe_arm s =
     (if \<not> rt_auto_enabled s \<or> rt_owner s \<noteq> 3 \<or> rt_auto s ! 1 \<noteq> 0 \<or> rt_cooldown_probe s \<noteq> 0 then (s, False)
      else (s\<lparr>rt_cooldown_probe := 1\<rparr>, True))"

lemma probe_arm_actions:
  "\<exists>n \<le> 6. ((\<lambda>(s, pc). arm_action ms pc s) ^^ n) (s, PROBE_START) = (fst (ull_tone_trial_retry_probe_arm s), CONSOLE_IDLE)"
proof (cases "rt_stream s ! 0 = phase_value TRANSMITTING")
  case False
  then show ?thesis by (intro exI [of _ 1]) (simp add: ull_tone_trial_retry_probe_arm_def)
next
  case True
  then show ?thesis
    by (intro exI [of _ "if rt_owner s \<noteq> 0 then 2 else 4"]) (simp add: ull_tone_trial_retry_probe_arm_def eval_nat_numeral)
qed

lemma burst_arm_actions:
  "\<exists>n \<le> 7. ((\<lambda>(s, pc). arm_action ms pc s) ^^ n) (s, BURST_START) = (fst (ull_tone_trial_retry_burst_arm ms s), CONSOLE_IDLE)"
proof (cases "rt_stream s ! 0 = phase_value TRANSMITTING")
  case False
  then show ?thesis by (intro exI [of _ 1]) (simp add: ull_tone_trial_retry_burst_arm_def)
next
  case True
  then show ?thesis
    by (intro exI [of _ "if rt_owner s \<noteq> 0 then 2 else 5"])
      (simp add: ull_tone_trial_retry_burst_arm_def set_burst_def eval_nat_numeral)
qed

end
