(* ===== verification/TrialState.thy ===== *)
theory TrialState
  imports ToneFrame RetryPolicy ParentAir "HOL-Library.State_Monad"
begin

text \<open>
  Model of the rest of \<^verbatim>\<open>firmware/radio/src/tone_trial.c\<close>: a trial, from the session it prepares over the
  frames it submits to its end. The routines run in the controller task; they are state transformers over a
  world that holds the trial itself and the parts it drives: the repeat policy, the audio source, the
  authenticated feedback with the key cache, the link-layer transactions, the transmitter and the log of
  emitted records. What is read from outside, in the order of the readings, is the record \<open>trial_env\<close>. The
  build is the live one (\<^verbatim>\<open>ULL_LIVE_USB\<close>).
\<close>

section \<open>State\<close>

record tone_trial =
  tl_plan :: ull_air_session_plan
  tl_next_frame :: u32
  tl_submitted :: u32
  tl_skipped :: u32
  tl_reports :: u32
  tl_tx_count :: u32
  tl_phase :: trial_phase
  tl_reason :: u8
  tl_cancel :: bool
  tl_requested_hs :: u32
  tl_build_us :: u32
  tl_crc_init :: u32
  tl_requested_hus :: u16
  tl_active_frame :: u32
  tl_preparation_failure :: u8
  tl_first_confirmed :: bool
  tl_second_requested :: bool
  tl_second_committed :: bool
  tl_second_confirmed :: bool
  tl_stream_starts :: "u32 list"
  tl_feedback :: ull_air_feedback
  tl_received_valid :: u32
  tl_received_rejected :: u32
  tl_setup_started_us :: int
  tl_prepared :: "prepared_frame list"
  tl_alternate :: "prepared_frame list"
  tl_gap :: "prepared_frame list"

definition feedback_zero :: ull_air_feedback where
  "feedback_zero = \<lparr>fb_generation = 0, fb_channels =
     replicate 2 \<lparr>fc_frame = 0, fc_expected_tx = 0, fc_next_ack = 0, fc_valid = 0, fc_after_tx = 0\<rparr>\<rparr>"

definition trial_zero :: tone_trial where
  "trial_zero = \<lparr>tl_plan = plan_zero, tl_next_frame = 0, tl_submitted = 0, tl_skipped = 0, tl_reports = 0, tl_tx_count = 0,
     tl_phase = IDLE, tl_reason = 0, tl_cancel = False, tl_requested_hs = 0, tl_build_us = 0, tl_crc_init = 0,
     tl_requested_hus = 0, tl_active_frame = 0, tl_preparation_failure = 0, tl_first_confirmed = False,
     tl_second_requested = False, tl_second_committed = False, tl_second_confirmed = False, tl_stream_starts = [0, 0],
     tl_feedback = feedback_zero, tl_received_valid = 0, tl_received_rejected = 0, tl_setup_started_us = 0,
     tl_prepared = replicate 2 frame_zero, tl_alternate = replicate 2 frame_zero, tl_gap = replicate 2 frame_zero\<rparr>"

record trial_counters =
  lv_position :: u32
  lv_feedback :: u32
  lv_collect_us :: u32
  lv_build_us :: u32
  lv_delivery :: "u32 list"
  lv_repeat_delivery :: "u32 list"
  lv_channels :: "u32 list list"
  lv_last_data_ms :: u32
  lv_retry_policy :: "u32 list"

definition counters_zero :: trial_counters where
  "counters_zero = \<lparr>lv_position = 0, lv_feedback = 0, lv_collect_us = 0, lv_build_us = 0, lv_delivery = replicate 8 0,
     lv_repeat_delivery = replicate 6 0, lv_channels = replicate 37 (replicate 3 0), lv_last_data_ms = 0,
     lv_retry_policy = replicate 3 0\<rparr>"

record ('c, 'x) trial_world =
  tw_trial :: tone_trial
  tw_continuous :: bool
  tw_source :: "ull_audio_source option"
  tw_retry :: retry
  tw_live :: trial_counters
  tw_rx :: "'c feedback_world"
  tw_raw :: raw_llcp
  tw_radio :: "'x radio"
  tw_out :: "raw_effect list"
  tw_reads :: nat

record ('c, 'x) trial_env =
  te_mb :: "'c mbedtls_ccm"
  te_tone :: tone_table
  te_rom :: "'x radio_rom"
  te_us :: "nat \<Rightarrow> int"
  te_controller :: "nat \<Rightarrow> controller"
  te_answers :: "nat \<Rightarrow> send_answers"
  te_random :: "nat \<Rightarrow> u32"
  te_fill :: "nat \<Rightarrow> nat \<Rightarrow> bytes"

type_synonym ('c, 'x, 'a) trial_op = "(('c, 'x) trial_world, 'a) state"

section \<open>Elementary steps\<close>

definition gets :: "(('c, 'x) trial_world \<Rightarrow> 'a) \<Rightarrow> ('c, 'x, 'a) trial_op" where
  "gets f = State (\<lambda>w. (f w, w))"

definition modify :: "(('c, 'x) trial_world \<Rightarrow> ('c, 'x) trial_world) \<Rightarrow> ('c, 'x, unit) trial_op" where
  "modify f = State (\<lambda>w. ((), f w))"

definition ret :: "'a \<Rightarrow> ('c, 'x, 'a) trial_op" where "ret = State_Monad.return"

definition only_if :: "bool \<Rightarrow> ('c, 'x, unit) trial_op \<Rightarrow> ('c, 'x, unit) trial_op" where
  "only_if b m = (if b then m else ret ())"

definition reading :: "(nat \<Rightarrow> 'a) \<Rightarrow> ('c, 'x, 'a) trial_op" where
  "reading f = State (\<lambda>w. (f (tw_reads w), w\<lparr>tw_reads := tw_reads w + 1\<rparr>))"

definition trial :: "(tone_trial \<Rightarrow> 'a) \<Rightarrow> ('c, 'x, 'a) trial_op" where "trial f = gets (\<lambda>w. f (tw_trial w))"

definition on_trial :: "(tone_trial \<Rightarrow> tone_trial) \<Rightarrow> ('c, 'x, unit) trial_op" where
  "on_trial f = modify (\<lambda>w. w\<lparr>tw_trial := f (tw_trial w)\<rparr>)"

definition on_live :: "(trial_counters \<Rightarrow> trial_counters) \<Rightarrow> ('c, 'x, unit) trial_op" where
  "on_live f = modify (\<lambda>w. w\<lparr>tw_live := f (tw_live w)\<rparr>)"

definition on_ccm_reset :: "('c, 'x, unit) trial_op" where
  "on_ccm_reset = modify (\<lambda>w. w\<lparr>tw_rx := (tw_rx w)\<lparr>w_ccm := ull_ble_ccm_reset\<rparr>\<rparr>)"

text \<open>The repeat policy switches the trace of the transmitter.\<close>

definition set_retry :: "retry \<Rightarrow> ('c, 'x) trial_world \<Rightarrow> ('c, 'x) trial_world" where
  "set_retry r w = w\<lparr>tw_retry := r, tw_radio := ull_radio_tx_retry_trace_enable (rt_trace_on r) (tw_radio w)\<rparr>"

definition on_retry :: "(retry \<Rightarrow> retry) \<Rightarrow> ('c, 'x, unit) trial_op" where
  "on_retry f = modify (\<lambda>w. set_retry (f (tw_retry w)) w)"

definition on_radio :: "('x radio \<Rightarrow> 'x radio \<times> 'a) \<Rightarrow> ('c, 'x, 'a) trial_op" where
  "on_radio f = State (\<lambda>w. let (s, a) = f (tw_radio w) in (a, w\<lparr>tw_radio := s\<rparr>))"

text \<open>A call of the link-layer transactions; its effects join the log.\<close>

definition on_raw :: "(raw_llcp \<Rightarrow> raw_llcp \<times> 'a \<times> raw_effect list) \<Rightarrow> ('c, 'x, 'a) trial_op" where
  "on_raw f = State (\<lambda>w. let (s, a, effects) = f (tw_raw w) in (a, w\<lparr>tw_raw := s, tw_out := tw_out w @ effects\<rparr>))"

definition diag :: "bytes \<Rightarrow> ('c, 'x, unit) trial_op" where
  "diag bs = modify (\<lambda>w. w\<lparr>tw_out := tw_out w @ [DIAG bs]\<rparr>)"

primrec mapM_diag :: "bytes list \<Rightarrow> ('c, 'x, unit) trial_op" where
  "mapM_diag [] = ret ()"
| "mapM_diag (r # rs) = do { diag r; mapM_diag rs }"

definition milliseconds :: "('c, 'x) trial_env \<Rightarrow> ('c, 'x, u32) trial_op" where
  "milliseconds e = do { us \<leftarrow> reading (te_us e); ret (word_of_int (us div 1000)) }"

definition radio_time_now :: "('c, 'x) trial_env \<Rightarrow> ('c, 'x, radio_time) trial_op" where
  "radio_time_now e = on_radio (\<lambda>s. (clock_read s, radio_now (te_rom e) s))"

definition ascii :: "nat list \<Rightarrow> bytes" where "ascii = map of_nat"

definition lead :: "('c, 'x) trial_env \<Rightarrow> u32 \<Rightarrow> ('c, 'x, u32) trial_op" where
  "lead e hs = do { now \<leftarrow> radio_time_now e; ret ((hs - rt_hs now) AND CLOCK_MASK) }"

definition on_retry_ms :: "('c, 'x) trial_env \<Rightarrow> (u32 \<Rightarrow> retry \<Rightarrow> retry) \<Rightarrow> ('c, 'x, unit) trial_op" where
  "on_retry_ms e f = do { ms \<leftarrow> milliseconds e; on_retry (f ms) }"

definition on_retry_time :: "('c, 'x) trial_env \<Rightarrow> (radio_time \<Rightarrow> retry \<Rightarrow> retry) \<Rightarrow> ('c, 'x, unit) trial_op" where
  "on_retry_time e f = do { now \<leftarrow> radio_time_now e; on_retry (f now) }"

definition retry_burst_done :: "('c, 'x) trial_env \<Rightarrow> ull_radio_tx_result option \<Rightarrow> u8 \<Rightarrow> ('c, 'x, unit) trial_op" where
  "retry_burst_done e result error = do { frame \<leftarrow> trial tl_active_frame; on_retry_ms e (\<lambda>ms. burst_done ms frame result error) }"

definition retry_burst_skip :: "('c, 'x) trial_env \<Rightarrow> ('c, 'x, unit) trial_op" where
  "retry_burst_skip e = do { frame \<leftarrow> trial tl_next_frame; on_retry_ms e (\<lambda>ms. burst_skip ms frame) }"

section \<open>Settings and snapshots\<close>

definition ULL_USB_STREAM_FRAME_COUNT :: u32 where "ULL_USB_STREAM_FRAME_COUNT = 60000"

definition frame_limit :: "('c, 'x) trial_world \<Rightarrow> u32" where
  "frame_limit w = (if tw_source w \<noteq> None then (if tw_continuous w then - 2 else ULL_USB_STREAM_FRAME_COUNT)
     else of_nat ULL_TONE_FRAME_COUNT)"

definition ull_tone_trial_continuous :: "bool \<Rightarrow> ('c, 'x, bool) trial_op" where
  "ull_tone_trial_continuous v = do {
     phase \<leftarrow> trial tl_phase;
     if phase \<noteq> IDLE then ret False
     else do { modify (\<lambda>w. w\<lparr>tw_continuous := v\<rparr>); ret True } }"

definition ull_tone_trial_set_audio_source :: "ull_audio_source option \<Rightarrow> ('c, 'x, bool) trial_op" where
  "ull_tone_trial_set_audio_source source = do {
     phase \<leftarrow> trial tl_phase;
     if phase \<noteq> IDLE then ret False
     else do { modify (\<lambda>w. w\<lparr>tw_source := source\<rparr>); ret True } }"

definition ull_tone_trial_control_retry_status :: "u32 \<Rightarrow> trial_counters \<Rightarrow> u32 list" where
  "ull_tone_trial_control_retry_status ms c =
     lv_retry_policy c @ [if lv_last_data_ms c \<noteq> 0 then ms - lv_last_data_ms c else - 1]"

definition ull_tone_trial_retry_delivery :: "trial_counters \<Rightarrow> u32 list" where
  "ull_tone_trial_retry_delivery c = lv_repeat_delivery c"

definition ull_tone_trial_channel_stats :: "trial_counters \<Rightarrow> u32 list list" where
  "ull_tone_trial_channel_stats c = lv_channels c"

definition ull_tone_trial_delivery :: "trial_counters \<Rightarrow> u32 list" where "ull_tone_trial_delivery c = lv_delivery c"

definition ull_tone_trial_progress :: "trial_counters \<Rightarrow> u32 list" where
  "ull_tone_trial_progress c = [lv_position c, lv_feedback c, lv_collect_us c, lv_build_us c]"

definition control_retry_quiet :: "u32 \<Rightarrow> trial_counters \<Rightarrow> bool" where
  "control_retry_quiet ms c \<longleftrightarrow> lv_last_data_ms c = 0 \<or> ms - lv_last_data_ms c \<ge> 5000"

definition control_retry_slot :: "tone_trial \<Rightarrow> prepared_frame \<Rightarrow> bool" where
  "control_retry_slot t p \<longleftrightarrow> pf_index p \<ge> tl_stream_starts t ! 1 \<and> ((pf_index p - tl_stream_starts t ! 1) div 6) mod 4 \<noteq> 0"

definition control_poll_due :: "tone_trial \<Rightarrow> u32 \<Rightarrow> bool" where
  "control_poll_due t index \<longleftrightarrow> index \<ge> tl_stream_starts t ! 1 \<and> (index - tl_stream_starts t ! 1) mod 6 = 0"

definition retry_audio_eligible :: "u32 \<Rightarrow> ('c, 'x) trial_world \<Rightarrow> prepared_frame \<Rightarrow> bool" where
  "retry_audio_eligible ms w p \<longleftrightarrow> tw_source w \<noteq> None \<and> \<not> pf_receive p \<and> pf_stereo_audio p \<and> pf_stream_mask p = 6 \<and>
     ((pf_length p = 203 \<and> pf_header p = 0x30) \<or>
      (pf_length p = 205 \<and> pf_header p = 0x32 \<and> pf_cache_reused p \<and> control_retry_quiet ms (tw_live w) \<and>
       control_retry_slot (tw_trial w) p))"

section \<open>Reports and the end of a trial\<close>

definition half_microseconds :: "radio_time \<Rightarrow> u32 \<Rightarrow> u16 \<Rightarrow> int" where
  "half_microseconds now hs hus = uint ((rt_hs now - hs) AND CLOCK_MASK) * 625 + uint (rt_hus now) - uint hus"

definition fault_record :: "tone_trial \<Rightarrow> ull_radio_tx_result \<Rightarrow> bytes" where
  "fault_record t r = [0x55, 0x4c, 0x4c, 0x21, 1, rs_fault_detail r, rs_callback_reason r, rs_abort_checks r,
     rs_followup_status r, rs_rx_snapshots r] @ put16 (ucast (tl_active_frame t))"

text \<open>The live build only reports a collected result.\<close>

definition radio_report :: "('c, 'x) trial_env \<Rightarrow> u8 \<Rightarrow> ull_radio_tx_result option \<Rightarrow> ('c, 'x, unit) trial_op" where
  "radio_report e stage result = (case result of
       None \<Rightarrow> ret ()
     | Some r \<Rightarrow>
         if stage \<noteq> 2 then ret ()
         else do {
           t \<leftarrow> trial id;
           only_if (rs_phase r = ULL_TX_FAULT) (diag (fault_record t r));
           now \<leftarrow> radio_time_now e;
           let elapsed = half_microseconds now (tl_requested_hs t) (tl_requested_hus t);
           only_if (0 \<le> elapsed \<and> elapsed < 200000) (on_live (\<lambda>c. c\<lparr>lv_collect_us := word_of_int (elapsed div 2)\<rparr>));
           on_live (\<lambda>c. c\<lparr>lv_build_us := tl_build_us t\<rparr>) })"

definition stream_values :: "('c, 'x) trial_world \<Rightarrow> u32 list" where
  "stream_values w = (let t = tw_trial w in
     [phase_value (tl_phase t), ucast (tl_reason t), tl_next_frame t, tl_submitted t, tl_skipped t, tl_received_valid t,
      tl_received_rejected t, if tw_continuous w then 1 else 0])"

definition summary_record :: "tone_trial \<Rightarrow> bytes" where
  "summary_record t = [0x55, 0x4c, 0x4c, 0x41, 1, ucast (phase_value (tl_phase t)), tl_reason t, 0]
     @ put16 (ucast (tl_next_frame t)) @ put16 (ucast (tl_submitted t)) @ put16 (ucast (tl_skipped t))
     @ put16 (ucast (tl_reports t)) @ put16 (ucast (tl_tx_count t))"

definition report :: "('c, 'x, unit) trial_op" where
  "report = do {
     t \<leftarrow> trial id;
     values \<leftarrow> gets stream_values;
     on_retry (\<lambda>r. r\<lparr>rt_stream := values\<rparr>);
     on_live (\<lambda>c. c\<lparr>lv_position := (tl_next_frame t AND 65535) OR push_bit 16 (tl_submitted t),
                    lv_feedback := (tl_skipped t AND 65535) OR push_bit 16 (tl_received_valid t)\<rparr>);
     only_if (phase_value (tl_phase t) \<ge> phase_value FINISHED) (diag (summary_record t)) }"

definition wiped :: "tone_trial \<Rightarrow> tone_trial" where
  "wiped t = t\<lparr>tl_plan := plan_zero, tl_prepared := replicate 2 frame_zero, tl_alternate := replicate 2 frame_zero,
     tl_gap := replicate 2 frame_zero, tl_feedback := feedback_zero\<rparr>"

definition finish :: "('c, 'x) trial_env \<Rightarrow> trial_phase \<Rightarrow> u8 \<Rightarrow> ('c, 'x, unit) trial_op" where
  "finish e phase reason = do {
     frame \<leftarrow> trial tl_active_frame;
     on_retry_ms e (\<lambda>ms. retry_finish ms (phase_value phase) (phase = CANCELLED) frame);
     on_trial (\<lambda>t. t\<lparr>tl_phase := phase, tl_reason := reason\<rparr>);
     on_ccm_reset;
     on_trial wiped;
     report }"

end
