(* ===== verification/ToneTrial.thy ===== *)
theory ToneTrial
  imports TrialState
begin

text \<open>
  The operations of a trial (\<^verbatim>\<open>firmware/radio/src/tone_trial.c\<close>): preparing the next frame with its two
  alternates, starting a session, joining the second stream, and the step that the controller task takes on
  every timer tick: collect the event in flight, fold its replies, search the next frame that can still be
  sent in time, and submit it.
\<close>

section \<open>Preparing a frame\<close>

datatype frame_store = PREPARED | ALTERNATE | GAP

definition slot_of :: "u32 \<Rightarrow> nat" where "slot_of index = unat (index AND 1)"

definition frames_of :: "frame_store \<Rightarrow> tone_trial \<Rightarrow> prepared_frame list" where
  "frames_of k t = (case k of PREPARED \<Rightarrow> tl_prepared t | ALTERNATE \<Rightarrow> tl_alternate t | GAP \<Rightarrow> tl_gap t)"

definition frame_at :: "frame_store \<Rightarrow> u32 \<Rightarrow> tone_trial \<Rightarrow> prepared_frame" where
  "frame_at k index t = frames_of k t ! slot_of index"

definition put_frame :: "frame_store \<Rightarrow> u32 \<Rightarrow> prepared_frame \<Rightarrow> tone_trial \<Rightarrow> tone_trial" where
  "put_frame k index p t =
     (case k of PREPARED \<Rightarrow> t\<lparr>tl_prepared := (tl_prepared t)[slot_of index := p]\<rparr>
      | ALTERNATE \<Rightarrow> t\<lparr>tl_alternate := (tl_alternate t)[slot_of index := p]\<rparr>
      | GAP \<Rightarrow> t\<lparr>tl_gap := (tl_gap t)[slot_of index := p]\<rparr>)"

text \<open>The builder on the world: the frame is built in its place.\<close>

definition built_frame :: "('c, 'x) trial_env \<Rightarrow> u32 \<Rightarrow> u32 \<Rightarrow> u8 \<Rightarrow> bytes \<Rightarrow> bytes \<Rightarrow> ull_parent_pdu \<Rightarrow> frame_store \<Rightarrow>
    ('c, 'x) trial_world \<Rightarrow> bool \<times> ('c, 'x) trial_world" where
  "built_frame e elapsed index streams sq ack parent k w =
     (let t = tw_trial w;
          ((source, ccm), p, ok) = build_prepared_frame (te_mb e) (te_tone e) (tl_plan t) (fb_generation (tl_feedback t)) elapsed
            index streams sq ack parent (frame_at k index t) (tw_source w, w_ccm (tw_rx w))
      in (ok, w\<lparr>tw_trial := put_frame k index p t, tw_source := source, tw_rx := (tw_rx w)\<lparr>w_ccm := ccm\<rparr>\<rparr>))"

definition build_into :: "('c, 'x) trial_env \<Rightarrow> u32 \<Rightarrow> u8 \<Rightarrow> bytes \<Rightarrow> bytes \<Rightarrow> ull_parent_pdu \<Rightarrow> frame_store \<Rightarrow> ('c, 'x, bool) trial_op" where
  "build_into e index streams sq ack parent k = do {
     t0 \<leftarrow> reading (te_us e);
     t1 \<leftarrow> reading (te_us e);
     State (built_frame e (word_of_int (t1 - t0)) index streams sq ack parent k) }"

definition frame_mask :: "tone_trial \<Rightarrow> u32 \<Rightarrow> u8" where
  "frame_mask t index =
     (if tl_second_confirmed t \<and> index \<ge> tl_stream_starts t ! 1 \<and> fc_valid (fb_channels (tl_feedback t) ! 1) \<noteq> 0 then 6 else 2)"

text \<open>The parent PDU that goes with the frame; \<open>None\<close> when a poll cannot be formed.\<close>

definition air_poll :: "('c, 'x) trial_env \<Rightarrow> ('c, 'x, ull_parent_pdu option) trial_op" where
  "air_poll e = do {
     c \<leftarrow> reading (te_controller e);
     c2 \<leftarrow> reading (te_controller e);
     r \<leftarrow> on_raw (\<lambda>s. let (status, pdu, effects) = ull_raw_parent_air_pdu s c c2 True in (s, (status, pdu), effects));
     ret (if fst r \<noteq> 0 then None else Some (case snd r of Some pdu \<Rightarrow> pdu | None \<Rightarrow> parent_pdu_zero)) }"

definition detached_poll :: "('c, 'x) trial_env \<Rightarrow> ('c, 'x, ull_parent_pdu option) trial_op" where
  "detached_poll e = do {
     c \<leftarrow> reading (te_controller e);
     pdu \<leftarrow> on_raw (\<lambda>s. let (s, _, pdu) = ull_raw_detached_parent_air_pdu s c True in (s, pdu, []));
     ret (Some (case pdu of Some pdu \<Rightarrow> pdu | None \<Rightarrow> parent_pdu_zero)) }"

definition parent_for :: "('c, 'x) trial_env \<Rightarrow> u32 \<Rightarrow> u8 \<Rightarrow> ('c, 'x, ull_parent_pdu option) trial_op" where
  "parent_for e index streams = do {
     due \<leftarrow> trial (\<lambda>t. control_poll_due t index);
     if ULL_PARENT_POLL \<and> ULL_EMPTY_BOOTSTRAP \<and> streams = 2 \<and> \<not> receive_frame index then air_poll e
     else if streams = 6 \<and> \<not> receive_frame index \<and> due then detached_poll e
     else ret (Some parent_pdu_zero) }"

definition frame_sequences :: "tone_trial \<Rightarrow> u32 \<Rightarrow> bytes \<times> bytes" where
  "frame_sequences t index =
     (let (sq, ack) = ull_air_feedback_sequences (tl_feedback t) index (tl_stream_starts t) in
      (if ULL_SEQUENCE_CONTROL \<and> \<not> receive_frame index \<and> index AND 2 \<noteq> 0 then sq[0 := (sq ! 0 + 8) AND 15] else sq, ack))"

text \<open>The cache diagnostic, filled while a repeat is possible.\<close>

definition cache_capture :: "retry \<Rightarrow> bool" where
  "cache_capture r \<longleftrightarrow> rt_burst r ! 0 = 1 \<or> rt_burst r ! 0 = 2 \<or> rt_owner r = 3"

definition cache_flags :: "prepared_frame \<Rightarrow> prepared_frame \<Rightarrow> u32 \<Rightarrow> ull_parent_pdu \<Rightarrow> u32" where
  "cache_flags p a index parent =
     (if pf_valid p then 1 else 0) OR (if pf_valid a then 2 else 0) OR (if pf_index p = index then 4 else 0) OR
     (if pf_index a = index then 8 else 0) OR (if cache_parent_matches p parent then 16 else 0) OR
     (if cache_parent_matches a parent then 32 else 0)"

definition cache_candidates :: "prepared_frame \<Rightarrow> prepared_frame \<Rightarrow> u32 \<Rightarrow> u8 \<Rightarrow> bytes \<Rightarrow> bytes \<Rightarrow> ull_parent_pdu \<Rightarrow> retry \<Rightarrow> retry" where
  "cache_candidates p a index streams sq ack parent r =
     (if \<not> cache_capture r then r
      else r\<lparr>rt_cache_work := (rt_cache_work r)[3 := index, 4 := cache_vector sq ack,
               5 := cache_vector (pf_tx_sequence p) (pf_ack_sequence p), 6 := cache_vector (pf_tx_sequence a) (pf_ack_sequence a),
               7 := pf_index p, 8 := pf_index a, 9 := cache_flags p a index parent, 10 := 0, 11 := 0, 12 := 0,
               13 := ucast streams, 14 := ucast (pf_stream_mask p), 15 := ucast (pf_stream_mask a)]\<rparr>)"

definition cache_outcome :: "bool \<Rightarrow> u32 \<Rightarrow> u32 \<Rightarrow> bool \<Rightarrow> retry \<Rightarrow> retry" where
  "cache_outcome capture mode build_us ok r =
     (if \<not> capture then r
      else r\<lparr>rt_cache_work := (rt_cache_work r)[10 := mode, 11 := build_us, 12 := if ok then 1 else 0]\<rparr>)"

definition cache_hit :: "bool \<Rightarrow> u32 \<Rightarrow> retry \<Rightarrow> retry" where
  "cache_hit capture mode r = (if \<not> capture then r else r\<lparr>rt_cache_work := (rt_cache_work r)[10 := mode, 12 := 1]\<rparr>)"

text \<open>Which of the three stored frames stands for the wanted one.\<close>

definition cached_choice :: "tone_trial \<Rightarrow> u32 \<Rightarrow> u8 \<Rightarrow> bytes \<Rightarrow> bytes \<Rightarrow> ull_parent_pdu \<Rightarrow> (u32 \<times> prepared_frame) option" where
  "cached_choice t index streams sq ack parent =
     (if frame_matches (frame_at PREPARED index t) index streams sq ack parent then Some (1, frame_at PREPARED index t)
      else if frame_matches (frame_at ALTERNATE index t) index streams sq ack parent then Some (2, frame_at ALTERNATE index t)
      else if frame_matches (frame_at GAP index t) index streams sq ack parent then Some (4, frame_at GAP index t)
      else None)"

definition reuse_frame :: "u32 \<Rightarrow> prepared_frame \<Rightarrow> tone_trial \<Rightarrow> tone_trial" where
  "reuse_frame index q t = put_frame PREPARED index (q\<lparr>pf_generation := fb_generation (tl_feedback t), pf_cache_reused := True\<rparr>) t"

definition select_frame :: "('c, 'x) trial_env \<Rightarrow> u32 \<Rightarrow> u8 \<Rightarrow> bytes \<Rightarrow> bytes \<Rightarrow> ull_parent_pdu \<Rightarrow> ('c, 'x, bool) trial_op" where
  "select_frame e index streams sq ack parent = do {
     t \<leftarrow> trial id;
     capture \<leftarrow> gets (\<lambda>w. cache_capture (tw_retry w));
     on_retry (cache_candidates (frame_at PREPARED index t) (frame_at ALTERNATE index t) index streams sq ack parent);
     case cached_choice t index streams sq ack parent of
       Some (mode, q) \<Rightarrow> do { on_retry (cache_hit capture mode); on_trial (reuse_frame index q); ret True }
     | None \<Rightarrow> do {
         ok \<leftarrow> build_into e index streams sq ack parent PREPARED;
         build_us \<leftarrow> trial (\<lambda>t. pf_build_us (frame_at PREPARED index t));
         on_retry (cache_outcome capture 3 (if ok then build_us else 0) ok);
         ret ok } }"

definition prepare_frame :: "('c, 'x) trial_env \<Rightarrow> u32 \<Rightarrow> ('c, 'x, bool) trial_op" where
  "prepare_frame e index = do {
     limit \<leftarrow> gets frame_limit;
     if index \<ge> limit then ret True
     else do {
       streams \<leftarrow> trial (\<lambda>t. frame_mask t index);
       parent \<leftarrow> parent_for e index streams;
       (case parent of None \<Rightarrow> ret False
        | Some parent \<Rightarrow> do {
            s \<leftarrow> trial (\<lambda>t. frame_sequences t index);
            select_frame e index streams (fst s) (snd s) parent }) } }"

text \<open>The acknowledgements the alternates assume.\<close>

definition next_ack :: "u32 \<Rightarrow> prepared_frame \<Rightarrow> u8" where
  "next_ack index p =
     (if pf_stream_mask p = 6 then (pf_ack_sequence p ! 0 + 1) AND 15
      else ucast ((if index \<noteq> 0 then index - 1 else 0) AND 15))"

definition gap_ack :: "tone_trial \<Rightarrow> u32 \<Rightarrow> prepared_frame \<Rightarrow> u8 option" where
  "gap_ack t index p =
     (let mic = fb_channels (tl_feedback t) ! 0; advance = index - 1 - fc_frame mic;
          a = ucast ((ucast (pf_ack_sequence p ! 0) + advance) AND 15)
      in if pf_stream_mask p = 6 \<and> index \<noteq> 0 \<and> fc_valid mic \<noteq> 0 \<and> fc_frame mic \<ge> tl_stream_starts t ! 0 \<and>
            fc_frame mic < index - 1 \<and> advance > 1 \<and> a \<noteq> pf_ack_sequence p ! 0 \<and> a \<noteq> next_ack index p
         then Some a else None)"

definition drop_alternates :: "u32 \<Rightarrow> tone_trial \<Rightarrow> tone_trial" where
  "drop_alternates index t =
     put_frame GAP index ((frame_at GAP index t)\<lparr>pf_valid := False\<rparr>)
       (put_frame ALTERNATE index ((frame_at ALTERNATE index t)\<lparr>pf_valid := False\<rparr>) t)"

definition prepare_alternate :: "('c, 'x) trial_env \<Rightarrow> u32 \<Rightarrow> ('c, 'x, bool) trial_op" where
  "prepare_alternate e index = do {
     limit \<leftarrow> gets frame_limit;
     if index \<ge> limit then ret True
     else do {
       on_trial (drop_alternates index);
       p \<leftarrow> trial (frame_at PREPARED index);
       if \<not> pf_valid p \<or> pf_index p \<noteq> index \<or> pf_receive p \<or> (pf_stream_mask p \<noteq> 2 \<and> pf_stream_mask p \<noteq> 6) then ret True
       else if next_ack index p = pf_ack_sequence p ! 0 then ret True
       else do {
         ok \<leftarrow> build_into e index (pf_stream_mask p) (pf_tx_sequence p) ((pf_ack_sequence p)[0 := next_ack index p]) (pf_parent p) ALTERNATE;
         if \<not> ok then ret False
         else do {
           g \<leftarrow> trial (\<lambda>t. gap_ack t index p);
           (case g of None \<Rightarrow> ret True
            | Some a \<Rightarrow> build_into e index 6 (pf_tx_sequence p) ((pf_ack_sequence p)[0 := a]) (pf_parent p) GAP) } } } }"

section \<open>Starting a session\<close>

primrec random_address :: "('c, 'x) trial_env \<Rightarrow> nat \<Rightarrow> ('c, 'x, u32 option) trial_op" where
  "random_address e 0 = ret None"
| "random_address e (Suc n) = do { aa \<leftarrow> reading (te_random e); if aa_valid aa then ret (Some aa) else random_address e n }"

definition session_iv :: "u32 \<Rightarrow> bytes \<Rightarrow> bytes" where
  "session_iv aa iv = map (\<lambda>i. if i < 4 then iv ! i XOR ucast (drop_bit (8 * i) aa) else iv ! i) [0..<8]"

definition trial_seed :: "u32 \<Rightarrow> bytes \<Rightarrow> bytes \<Rightarrow> bytes \<Rightarrow> ull_air_session_seed" where
  "trial_seed aa cmap iv key =
     \<lparr>sd_access_address = aa, sd_event_counter = 0, sd_channel_map = cmap, sd_receive_enabled = 1, sd_iv = session_iv aa iv, sd_key = key\<rparr>"

definition crc_bytes :: "u32 \<Rightarrow> bytes" where
  "crc_bytes crc = [ucast crc, ucast (drop_bit 8 crc), ucast (drop_bit 16 crc)]"

definition start_records :: "tone_trial \<Rightarrow> bytes list" where
  "start_records t =
     [[0x55, 0x4c, 0x4c, 0x46, 1] @ crc_bytes (tl_crc_init t),
      [0x55, 0x4c, 0x4c, 0x56, 1] @ put32 (pl_access_address (tl_plan t)) @ crc_bytes (tl_crc_init t),
      [0x55, 0x4c, 0x4c, 0x48, 1] @ put16 (ucast (if ULL_PARENT_POLL then ULL_POLL_TX_SHIFT_US else 0))]"

definition session_map :: "('c, 'x) trial_env \<Rightarrow> ('c, 'x, u8 \<times> bytes) trial_op" where
  "session_map e = do {
     c \<leftarrow> reading (te_controller e);
     raw \<leftarrow> gets tw_raw;
     ret (case ull_raw_session_channel_map raw c True of (status, m) \<Rightarrow> (status, case m of Some m \<Rightarrow> m | None \<Rightarrow> replicate 5 0)) }"

definition session_crc :: "('c, 'x) trial_env \<Rightarrow> ('c, 'x, u8 \<times> u32 option) trial_op" where
  "session_crc e = do {
     c \<leftarrow> reading (te_controller e);
     raw \<leftarrow> gets tw_raw;
     ret (ull_raw_session_crc_init raw c True) }"

definition prepare_plan :: "('c, 'x) trial_env \<Rightarrow> ull_air_session_seed \<Rightarrow> ('c, 'x, u8) trial_op" where
  "prepare_plan e seed = do {
     c \<leftarrow> reading (te_controller e);
     r \<leftarrow> on_raw (\<lambda>s. let (s, status, plan, effects) = ull_raw_prepare_session s c (Some seed) 2500 True in (s, (status, plan), effects));
     (case snd r of None \<Rightarrow> ret () | Some p \<Rightarrow> on_trial (\<lambda>t. t\<lparr>tl_plan := p\<rparr>));
     ret (fst r) }"

definition commit_plan :: "('c, 'x) trial_env \<Rightarrow> ull_air_session_plan \<Rightarrow> ('c, 'x, u8) trial_op" where
  "commit_plan e plan = do {
     c \<leftarrow> reading (te_controller e);
     a \<leftarrow> reading (te_answers e);
     on_raw (\<lambda>s. ull_raw_commit_session s c a (Some plan)) }"

definition wipe_plan :: "('c, 'x, unit) trial_op" where "wipe_plan = on_trial (\<lambda>t. t\<lparr>tl_plan := plan_zero\<rparr>)"

definition refuse_start :: "u8 \<Rightarrow> ('c, 'x, u8) trial_op" where
  "refuse_start status = do { on_ccm_reset; wipe_plan; ret status }"

definition session_started :: "('c, 'x) trial_env \<Rightarrow> ('c, 'x, u8) trial_op" where
  "session_started e = do {
     plan \<leftarrow> trial tl_plan;
     continuous \<leftarrow> gets tw_continuous;
     only_if (\<not> continuous) (diag ([0x55, 0x4c, 0x4c, 0x4b, 1] @ block 44 24 (pl_e2 plan)));
     us \<leftarrow> reading (te_us e);
     on_trial (\<lambda>t. t\<lparr>tl_setup_started_us := us, tl_cancel := False, tl_phase := WAIT_E2\<rparr>);
     report;
     ret 0 }"

definition session_commit :: "('c, 'x) trial_env \<Rightarrow> ('c, 'x, u8) trial_op" where
  "session_commit e = do {
     t \<leftarrow> trial id;
     mapM_diag (start_records t);
     ok \<leftarrow> prepare_frame e 0;
     if \<not> ok then refuse_start 0x0c
     else do {
       plan \<leftarrow> trial tl_plan;
       status \<leftarrow> commit_plan e plan;
       if status \<noteq> 0
       then do { on_trial (\<lambda>t. t\<lparr>tl_prepared := replicate 2 frame_zero\<rparr>); refuse_start status }
       else session_started e } }"

definition ull_tone_trial_start :: "('c, 'x) trial_env \<Rightarrow> ('c, 'x, u8) trial_op" where
  "ull_tone_trial_start e = do {
     phase \<leftarrow> trial tl_phase;
     if phase \<noteq> IDLE then ret 0x0c
     else do {
       on_ccm_reset;
       on_trial (\<lambda>t. t\<lparr>tl_stream_starts := (tl_stream_starts t)[1 := - 1]\<rparr>);
       aa \<leftarrow> random_address e 128;
       (case aa of None \<Rightarrow> ret 0x0c
        | Some aa \<Rightarrow> do {
            m \<leftarrow> session_map e;
            if fst m \<noteq> 0 then ret (fst m)
            else do {
              diag ([0x55, 0x4c, 0x4c, 0x4d, 1] @ snd m);
              iv \<leftarrow> reading (\<lambda>n. te_fill e n 8);
              key \<leftarrow> reading (\<lambda>n. te_fill e n 16);
              status \<leftarrow> prepare_plan e (trial_seed aa (snd m) iv key);
              if status \<noteq> 0 then ret status
              else do {
                crc \<leftarrow> session_crc e;
                (case snd crc of None \<Rightarrow> ret () | Some v \<Rightarrow> on_trial (\<lambda>t. t\<lparr>tl_crc_init := v\<rparr>));
                if fst crc \<noteq> 0 then do { wipe_plan; ret (fst crc) } else session_commit e } } }) } }"

section \<open>The second stream\<close>

definition confirm_second :: "('c, 'x, u8) trial_op" where
  "confirm_second = do {
     confirmed \<leftarrow> gets (\<lambda>w. ull_raw_session_confirmed (tw_raw w));
     only_if confirmed (on_trial (\<lambda>t. t\<lparr>tl_second_confirmed := True\<rparr>));
     ret 0 }"

definition request_second :: "('c, 'x) trial_env \<Rightarrow> ('c, 'x, u8) trial_op" where
  "request_second e = do {
     c \<leftarrow> reading (te_controller e);
     a \<leftarrow> reading (te_answers e);
     plan \<leftarrow> trial tl_plan;
     status \<leftarrow> on_raw (\<lambda>s. ull_raw_request_second_stream s c a (Some plan));
     if status = 0x0c then ret 0
     else if status \<noteq> 0 then ret 8
     else do {
       on_trial (\<lambda>t. t\<lparr>tl_second_requested := True\<rparr>);
       diag [0x55, 0x4c, 0x4c, 0x4a, 1, 1];
       ret 0 } }"

definition prepare_second :: "('c, 'x) trial_env \<Rightarrow> ('c, 'x, ull_air_session_plan option) trial_op" where
  "prepare_second e = do {
     c0 \<leftarrow> reading (te_controller e);
     c1 \<leftarrow> reading (te_controller e);
     c2 \<leftarrow> reading (te_controller e);
     plan \<leftarrow> trial tl_plan;
     r \<leftarrow> on_raw (\<lambda>s. let (s, status, second, effects) = ull_raw_prepare_second_stream s c0 c1 c2 (Some plan) True
           in (s, (status, second), effects));
     if fst r \<noteq> 0 then ret None
     else do {
       crc \<leftarrow> session_crc e;
       expected \<leftarrow> trial tl_crc_init;
       ret (if fst crc \<noteq> 0 \<or> snd crc \<noteq> Some expected then None else snd r) } }"

definition join_second :: "('c, 'x) trial_env \<Rightarrow> ull_air_session_plan \<Rightarrow> ('c, 'x, u8) trial_op" where
  "join_second e second = do {
     status \<leftarrow> commit_plan e second;
     if status \<noteq> 0 then ret 11
     else do {
       on_trial (\<lambda>t. t\<lparr>tl_second_committed := True,
         tl_stream_starts := (tl_stream_starts t)[1 := pl_event_counter second - pl_event_counter (tl_plan t)]\<rparr>);
       diag ([0x55, 0x4c, 0x4c, 0x4a, 1, 2] @ put32 (pl_event_counter second) @ put16 (pl_acl_instant second));
       ret 0 } }"

definition advance_second_stream :: "('c, 'x) trial_env \<Rightarrow> ('c, 'x, u8) trial_op" where
  "advance_second_stream e = do {
     t \<leftarrow> trial id;
     if tl_second_committed t then confirm_second
     else do {
       us \<leftarrow> reading (te_us e);
       if us - tl_setup_started_us t > 2000000 then ret 7
       else if \<not> tl_second_requested t then request_second e
       else do {
         ready \<leftarrow> gets (\<lambda>w. ull_raw_second_stream_ready (tw_raw w));
         if \<not> ready then ret 0
         else do {
           second \<leftarrow> prepare_second e;
           (case second of None \<Rightarrow> ret 9 | Some second \<Rightarrow> join_second e second) } } } }"

section \<open>Folding the replies\<close>

definition live_delivery :: "nat \<Rightarrow> u32 \<Rightarrow> trial_counters \<Rightarrow> trial_counters" where
  "live_delivery i n c = c\<lparr>lv_delivery := (lv_delivery c)[i := lv_delivery c ! i + n]\<rparr>"

definition live_repeat :: "nat \<Rightarrow> trial_counters \<Rightarrow> trial_counters" where
  "live_repeat i c = c\<lparr>lv_repeat_delivery := bump i (lv_repeat_delivery c)\<rparr>"

definition live_policy :: "nat \<Rightarrow> trial_counters \<Rightarrow> trial_counters" where
  "live_policy i c = c\<lparr>lv_retry_policy := bump i (lv_retry_policy c)\<rparr>"

definition live_channel :: "nat \<Rightarrow> nat \<Rightarrow> trial_counters \<Rightarrow> trial_counters" where
  "live_channel ch i c = c\<lparr>lv_channels := (lv_channels c)[ch := bump i (lv_channels c ! ch)]\<rparr>"

text \<open>What the replies to one frame add up to; bit 0 and bit 1 stand for the two streams.\<close>

record reply_sum =
  rp_acknowledged :: u32
  rp_heard :: bool
  rp_first_valid :: bool
  rp_second_valid :: bool
  rp_first_ack :: u32

definition no_replies :: reply_sum where
  "no_replies = \<lparr>rp_acknowledged = 0, rp_heard = False, rp_first_valid = False, rp_second_valid = False, rp_first_ack = 0\<rparr>"

definition stream_acknowledged :: "tone_trial \<Rightarrow> prepared_frame \<Rightarrow> nat \<Rightarrow> bool" where
  "stream_acknowledged t sent ch \<longleftrightarrow>
     (let f = fb_channels (tl_feedback t) ! ch in
      fc_valid f \<noteq> 0 \<and> fc_frame f = tl_active_frame t \<and> fc_after_tx f \<noteq> 0 \<and>
      fc_expected_tx f = (pf_tx_sequence sent ! ch + 1) AND 15)"

definition acknowledged_streams :: "tone_trial \<Rightarrow> prepared_frame \<Rightarrow> u32" where
  "acknowledged_streams t sent =
     (if stream_acknowledged t sent 0 then 1 else 0) OR (if stream_acknowledged t sent 1 then 2 else 0)"

definition reply_control :: "('c, 'x) trial_env \<Rightarrow> ull_radio_tx_result \<Rightarrow> prepared_frame \<Rightarrow> ull_air_control_rx \<Rightarrow> ('c, 'x, unit) trial_op" where
  "reply_control e result sent control = do {
     frame \<leftarrow> trial tl_active_frame;
     only_if (cr_present control \<noteq> 0 \<and> \<not> pf_receive sent \<and> pf_index sent = frame \<and> rs_phase result = ULL_TX_ENDED) (do {
       ms \<leftarrow> milliseconds e;
       only_if (cr_length control \<noteq> 0)
         (on_live (\<lambda>c. live_policy 2 (c\<lparr>lv_last_data_ms := if ms \<noteq> 0 then ms else 1\<rparr>)));
       c \<leftarrow> reading (te_controller e);
       c2 \<leftarrow> reading (te_controller e);
       on_raw (\<lambda>s. let (s, _, effects) = ull_raw_receive_air_control s c c2 (Some control) (Some (pf_parent sent)) in (s, (), effects)) }) }"

definition ULL_AIR_WINDOW_HUS :: int where "ULL_AIR_WINDOW_HUS = uint (ULL_AIR_SUBINTERVAL_US * 2)"

definition note_window :: "bool \<Rightarrow> int \<Rightarrow> reply_sum \<Rightarrow> reply_sum" where
  "note_window repeated elapsed r =
     (if repeated \<and> 0 \<le> elapsed \<and> elapsed < 6000
      then (if elapsed < ULL_AIR_WINDOW_HUS then r\<lparr>rp_first_valid := True\<rparr> else r\<lparr>rp_second_valid := True\<rparr>) else r)"

definition note_sent :: "prepared_frame \<Rightarrow> tone_trial \<Rightarrow> tone_trial" where
  "note_sent sent t = t\<lparr>tl_feedback := ull_air_feedback_note_tx (tl_feedback t) (tl_active_frame t) (pf_stream_mask sent) (pf_tx_sequence sent)\<rparr>"

definition note_acknowledged :: "tone_trial \<Rightarrow> prepared_frame \<Rightarrow> bool \<Rightarrow> bool \<Rightarrow> int \<Rightarrow> reply_sum \<Rightarrow> reply_sum" where
  "note_acknowledged t sent audio_sent repeated elapsed r =
     (let r = (if audio_sent then r\<lparr>rp_acknowledged := rp_acknowledged r OR acknowledged_streams t sent\<rparr> else r) in
      if repeated \<and> elapsed < ULL_AIR_WINDOW_HUS then r\<lparr>rp_first_ack := rp_acknowledged r\<rparr> else r)"

text \<open>A reply the feedback accepted.\<close>

definition reply_accepted :: "('c, 'x) trial_env \<Rightarrow> ull_radio_tx_result \<Rightarrow> bool \<Rightarrow> ull_radio_rx_snapshot \<Rightarrow> ull_air_control_rx \<Rightarrow>
    reply_sum \<Rightarrow> ('c, 'x, reply_sum) trial_op" where
  "reply_accepted e result audio_sent rx control r = do {
     on_trial (\<lambda>t. t\<lparr>tl_received_valid := tl_received_valid t + 1\<rparr>);
     t \<leftarrow> trial id;
     let sent = frame_at PREPARED (tl_active_frame t) t;
     reply_control e result sent control;
     last_repeat \<leftarrow> gets (\<lambda>w. rt_last_repeat (tw_retry w));
     let repeated = (audio_sent \<and> last_repeat);
     let elapsed = half_microseconds \<lparr>rt_hs = sn_hs rx, rt_hus = ucast (sn_hus rx)\<rparr> (tl_requested_hs t) (tl_requested_hus t);
     let r = note_window repeated elapsed (r\<lparr>rp_heard := True\<rparr>);
     if ULL_RX_DIAGNOSTIC \<ge> 3 \<and> \<not> pf_receive sent \<and> pf_index sent = tl_active_frame t \<and> 0 \<le> elapsed \<and> elapsed < 6000
     then do {
       on_trial (note_sent sent);
       t \<leftarrow> trial id;
       ret (note_acknowledged t sent audio_sent repeated elapsed r) }
     else ret r }"

definition feedback_call :: "('c, 'x) trial_env \<Rightarrow> ull_radio_rx_snapshot \<Rightarrow> ('c, 'x, int \<times> ull_air_control_rx option) trial_op" where
  "feedback_call e rx = State (\<lambda>w.
     let t = tw_trial w;
         (code, st, control, rxw) = ull_air_feedback_accept_frame (te_mb e) (Some (tl_feedback t)) (Some (tl_plan t)) (Some rx)
           (tl_active_frame t) (tw_rx w)
     in ((code, control), w\<lparr>tw_rx := rxw, tw_trial := t\<lparr>tl_feedback := (case st of Some f \<Rightarrow> f | None \<Rightarrow> tl_feedback t)\<rparr>\<rparr>))"

definition fold_reply :: "('c, 'x) trial_env \<Rightarrow> ull_radio_tx_result \<Rightarrow> bool \<Rightarrow> ull_radio_rx_snapshot \<Rightarrow> reply_sum \<Rightarrow> ('c, 'x, reply_sum) trial_op" where
  "fold_reply e result audio_sent rx r =
     (if sn_copied rx < 7 then ret r
      else do {
        a \<leftarrow> feedback_call e rx;
        if fst a = 0
        then reply_accepted e result audio_sent rx (case snd a of Some c \<Rightarrow> c | None \<Rightarrow> no_control_rx) r
        else do {
          on_trial (\<lambda>t. t\<lparr>tl_received_rejected := tl_received_rejected t + 1\<rparr>);
          on_live (live_delivery 6 1);
          ret r } })"

primrec fold_replies :: "('c, 'x) trial_env \<Rightarrow> ull_radio_tx_result \<Rightarrow> bool \<Rightarrow> ull_radio_rx_snapshot list \<Rightarrow> reply_sum \<Rightarrow>
    ('c, 'x, reply_sum) trial_op" where
  "fold_replies e result audio_sent [] r = ret r"
| "fold_replies e result audio_sent (rx # rest) r = do {
     r \<leftarrow> fold_reply e result audio_sent rx r;
     fold_replies e result audio_sent rest r }"

text \<open>The counters of one completed event, before and after its replies are folded.\<close>

definition count_completed :: "ull_radio_tx_result \<Rightarrow> bool \<Rightarrow> trial_counters \<Rightarrow> trial_counters" where
  "count_completed result audio_sent c =
     (let c = live_delivery 1 (ucast (rs_tx_callbacks result)) (live_delivery 0 1 c);
          c = (if rs_tx_callbacks result = 0 then live_delivery 2 1 c else c);
          c = (if audio_sent then live_delivery 3 1 c else c)
      in if rs_rx_snapshots result = 0 then live_delivery 7 1 c else c)"

definition count_repeat :: "reply_sum \<Rightarrow> trial_counters \<Rightarrow> trial_counters" where
  "count_repeat r c =
     (let c = live_repeat 0 c;
          c = (if rp_first_valid r then live_repeat 1 c else c);
          c = (if rp_second_valid r then live_repeat 2 c else c)
      in if rp_first_ack r = 3 then live_repeat 3 c else if rp_acknowledged r = 3 then live_repeat 4 c else live_repeat 5 c)"

definition count_replies :: "bool \<Rightarrow> bool \<Rightarrow> u8 \<Rightarrow> reply_sum \<Rightarrow> trial_counters \<Rightarrow> trial_counters" where
  "count_replies audio_sent repeated channel r c =
     (let c = (if repeated then count_repeat r c else c);
          c = (if rp_acknowledged r AND 1 \<noteq> 0 then live_delivery 4 1 c else c);
          c = (if rp_acknowledged r AND 2 \<noteq> 0 then live_delivery 5 1 c else c)
      in if audio_sent \<and> channel < 37
         then
           let n = unat channel; c = live_channel n 0 c; c = (if rp_heard r then live_channel n 1 c else c)
           in if rp_acknowledged r = 3 then live_channel n 2 c else c
         else c)"

section \<open>The event in flight\<close>

definition radio_cancel :: "('c, 'x) trial_env \<Rightarrow> ('c, 'x, unit) trial_op" where
  "radio_cancel e = on_radio (\<lambda>s. (ull_radio_tx_cancel (te_rom e) s, ()))"

definition radio_collect :: "('c, 'x) trial_env \<Rightarrow> ('c, 'x, int \<times> ull_radio_tx_result) trial_op" where
  "radio_collect e = on_radio (\<lambda>s. let (s, result, code) = ull_radio_tx_collect (te_rom e) True s
     in (s, code, case result of Some r \<Rightarrow> r | None \<Rightarrow> result_zero))"

definition stop_with :: "('c, 'x) trial_env \<Rightarrow> u8 \<Rightarrow> ('c, 'x, unit) trial_op" where
  "stop_with e error = do {
     on_trial (\<lambda>t. t\<lparr>tl_preparation_failure := error, tl_cancel := True\<rparr>);
     radio_cancel e }"

text \<open>A routine that may end the step returns the status of the step; \<open>None\<close> is to go on.\<close>

definition finish_step :: "('c, 'x) trial_env \<Rightarrow> trial_phase \<Rightarrow> u8 \<Rightarrow> u8 \<Rightarrow> ('c, 'x, u8 option) trial_op" where
  "finish_step e phase reason status = do { finish e phase reason; ret (Some status) }"

definition wait_for_session :: "('c, 'x) trial_env \<Rightarrow> u32 \<Rightarrow> ('c, 'x, u8 option) trial_op" where
  "wait_for_session e minimum = do {
     t \<leftarrow> trial id;
     confirmed \<leftarrow> gets (\<lambda>w. ull_raw_session_confirmed (tw_raw w));
     if tl_cancel t then finish_step e CANCELLED 0 0
     else if \<not> tl_first_confirmed t \<and> \<not> confirmed
     then do {
       ahead \<leftarrow> lead e (pl_start_hs (tl_plan t));
       only_if (ahead < minimum + 1 \<or> ahead > 3200) (finish e FAILED 1);
       ret (Some 0) }
     else do { on_trial (\<lambda>t. t\<lparr>tl_first_confirmed := True\<rparr>); ret None } }"

definition still_in_flight :: "('c, 'x) trial_env \<Rightarrow> ('c, 'x, u8 option) trial_op" where
  "still_in_flight e = do {
     cancelling \<leftarrow> trial tl_cancel;
     only_if (\<not> cancelling) (do {
       error \<leftarrow> advance_second_stream e;
       only_if (error \<noteq> 0) (stop_with e error) });
     ret (Some 0) }"

definition audio_was_sent :: "tone_trial \<Rightarrow> ull_radio_tx_result \<Rightarrow> bool" where
  "audio_was_sent t result \<longleftrightarrow> (let p = frame_at PREPARED (tl_active_frame t) t in
     pf_valid p \<and> pf_index p = tl_active_frame t \<and> pf_stereo_audio p \<and> rs_phase result = ULL_TX_ENDED)"

text \<open>A reservation that was cancelled before it was transmitted is tried again while its instant is usable.\<close>

definition retry_cancelled :: "('c, 'x) trial_env \<Rightarrow> u32 \<Rightarrow> ull_radio_tx_result \<Rightarrow> ('c, 'x, unit) trial_op" where
  "retry_cancelled e minimum result =
     only_if (rs_phase result = ULL_TX_CANCELLED \<and> rs_tx_count result = 0) (do {
       t \<leftarrow> trial id;
       ahead \<leftarrow> lead e (tl_requested_hs t);
       if ahead \<ge> minimum + 1 \<and> ahead \<le> 3200
       then on_trial (\<lambda>t. t\<lparr>tl_next_frame := tl_active_frame t\<rparr>)
       else do { on_trial (\<lambda>t. t\<lparr>tl_skipped := tl_skipped t + 1\<rparr>); retry_burst_skip e } })"

definition fold_event :: "('c, 'x) trial_env \<Rightarrow> u32 \<Rightarrow> ull_radio_tx_result \<Rightarrow> ('c, 'x, u8 option) trial_op" where
  "fold_event e minimum result = do {
     t \<leftarrow> trial id;
     let audio_sent = audio_was_sent t result;
     on_retry (auto_ordinary_completed audio_sent);
     on_live (count_completed result audio_sent);
     r \<leftarrow> fold_replies e result audio_sent (take (min (unat (rs_rx_snapshots result)) 3) (rs_rx result)) no_replies;
     last_repeat \<leftarrow> gets (\<lambda>w. rt_last_repeat (tw_retry w));
     on_live (count_replies audio_sent (audio_sent \<and> last_repeat) (pf_channel (frame_at PREPARED (tl_active_frame t) t)) r);
     on_retry_time e (\<lambda>now. retry_next_mark now 12);
     retry_cancelled e minimum result;
     report;
     ret None }"

definition event_collected :: "('c, 'x) trial_env \<Rightarrow> u32 \<Rightarrow> ull_radio_tx_result \<Rightarrow> ('c, 'x, u8 option) trial_op" where
  "event_collected e minimum result = do {
     retry_burst_done e (Some result) 0;
     on_retry (retry_probe_done (Some result) 0);
     on_retry_time e (\<lambda>now. retry_next_mark now 11);
     radio_report e 2 (Some result);
     on_trial (\<lambda>t. t\<lparr>tl_reports := tl_reports t + 1, tl_tx_count := (tl_tx_count t + ucast (rs_tx_count result)) AND 0xffff\<rparr>);
     t \<leftarrow> trial id;
     if rs_phase result \<noteq> ULL_TX_ENDED \<and> rs_phase result \<noteq> ULL_TX_CANCELLED then finish_step e FAILED 3 0
     else if tl_cancel t
     then finish_step e (if tl_preparation_failure t \<noteq> 0 then FAILED else CANCELLED) (tl_preparation_failure t) 0
     else if rs_rx_invalid result \<noteq> 0 then finish_step e FAILED 13 0
     else fold_event e minimum result }"

definition collect_event :: "('c, 'x) trial_env \<Rightarrow> u32 \<Rightarrow> ('c, 'x, u8 option) trial_op" where
  "collect_event e minimum = do {
     c \<leftarrow> radio_collect e;
     if fst c < 0
     then do {
       retry_burst_done e (Some (snd c)) 0;
       on_retry (retry_probe_done (Some (snd c)) 0);
       radio_report e 2 (Some (snd c));
       finish_step e FAULT 2 3 }
     else if fst c = 0 then still_in_flight e
     else event_collected e minimum (snd c) }"

section \<open>The next frame\<close>

definition skip_frame :: "('c, 'x) trial_env \<Rightarrow> ('c, 'x, unit) trial_op" where
  "skip_frame e = do {
     on_trial (\<lambda>t. t\<lparr>tl_next_frame := tl_next_frame t + 1, tl_skipped := tl_skipped t + 1\<rparr>);
     retry_burst_skip e }"

text \<open>One try: the status of a step that ends, \<open>Some None\<close> when the frame is ready, \<open>None\<close> to go on searching.\<close>

definition ready_in_time :: "('c, 'x) trial_env \<Rightarrow> u32 \<Rightarrow> ('c, 'x, bool) trial_op" where
  "ready_in_time e minimum = do {
     t \<leftarrow> trial id;
     on_retry_time e (\<lambda>now. retry_next_mark now 14);
     ahead \<leftarrow> lead e (pf_outer_hs (frame_at PREPARED (tl_next_frame t) t));
     on_retry_time e (\<lambda>now. retry_attempt_time now 4);
     on_retry (retry_attempt_mark 5 ahead);
     on_retry (retry_attempt_mark 7 0x101);
     ret (ahead \<ge> minimum \<and> ahead \<le> 3200) }"

definition try_frame :: "('c, 'x) trial_env \<Rightarrow> u32 \<Rightarrow> u32 \<Rightarrow> u32 \<Rightarrow> ('c, 'x, u8 option option) trial_op" where
  "try_frame e minimum preparation_min hs = do {
     next \<leftarrow> trial tl_next_frame;
     ahead \<leftarrow> lead e hs;
     on_retry_time e (\<lambda>now. retry_attempt_begin now next ahead preparation_min);
     on_retry_time e (\<lambda>now. retry_next_mark now 13);
     if ahead \<ge> preparation_min \<and> ahead \<le> 3200
     then do {
       ok \<leftarrow> prepare_frame e next;
       if \<not> ok then do { finish e FAILED 5; ret (Some (Some 0)) }
       else do {
         ready \<leftarrow> ready_in_time e minimum;
         if ready then ret (Some None) else do { skip_frame e; ret None } } }
     else do { skip_frame e; ret None } }"

text \<open>The search; the fuel is the number of frames that are left, so it never runs out before the limit is met.\<close>

primrec search_frames :: "('c, 'x) trial_env \<Rightarrow> u32 \<Rightarrow> nat \<Rightarrow> bool \<Rightarrow> ('c, 'x, u8 option) trial_op" where
  "search_frames e minimum 0 one_attempt = ret None"
| "search_frames e minimum (Suc n) one_attempt = do {
     next \<leftarrow> trial tl_next_frame;
     plan \<leftarrow> trial tl_plan;
     limit \<leftarrow> gets frame_limit;
     if next \<ge> limit then ret None
     else if ULL_CONTROL_GAP \<and> ULL_RX_DIAGNOSTIC \<ge> 3 \<and> next mod 6 = 5
     then do { skip_frame e; search_frames e minimum n one_attempt }
     else
       (case ull_air_session_time (Some plan) next 0 True of
          None \<Rightarrow> finish_step e FAILED 4 0
        | Some time \<Rightarrow> do {
            let (preparation_min, one_attempt) = retry_prepare_minimum minimum one_attempt;
            r \<leftarrow> try_frame e minimum preparation_min (fst (receive_time_shift next time));
            (case r of None \<Rightarrow> search_frames e minimum n one_attempt | Some status \<Rightarrow> ret status) }) }"

definition search_from :: "('c, 'x) trial_env \<Rightarrow> u32 \<Rightarrow> ('c, 'x, u8 option) trial_op" where
  "search_from e minimum = do {
     one_attempt \<leftarrow> gets (\<lambda>w. rt_probe_ticket (tw_retry w) \<or> rt_burst_lead (tw_retry w));
     on_retry (\<lambda>r. r\<lparr>rt_burst_lead := False, rt_probe_ticket := False\<rparr>);
     next \<leftarrow> trial tl_next_frame;
     limit \<leftarrow> gets frame_limit;
     search_frames e minimum (unat limit - unat next) one_attempt }"

section \<open>Submitting a frame\<close>

definition request_for :: "tone_trial \<Rightarrow> prepared_frame \<Rightarrow> bool \<Rightarrow> bool \<Rightarrow> bool \<Rightarrow> u8 \<Rightarrow> ull_radio_tx_request" where
  "request_for t p repeat prequeued paired reply_channel =
     \<lparr>rq_start_hs = pf_outer_hs p, rq_start_hus = pf_outer_hus p, rq_access_address = pl_access_address (tl_plan t),
      rq_crc_init = tl_crc_init t, rq_payload = Some (pf_wire p), rq_length = pf_length p, rq_channel = pf_channel p,
      rq_header = pf_header p, rq_phy = 2, rq_receive_us = (if pf_receive p then 600 else 0),
      rq_tx_receive_us = (if ULL_RX_DIAGNOSTIC = 3 \<and> \<not> pf_receive p \<and> \<not> repeat then 600 else 0),
      rq_followup_delay_us = (if repeat then ucast ULL_AIR_SUBINTERVAL_US else if prequeued then 950 else if paired then 2350 else 0),
      rq_followup_window_us = (if paired then 150 else 0), rq_followup_channel = reply_channel,
      rq_prequeued_reply = (if prequeued then 1 else 0), rq_repeat_payload = (if repeat then 1 else 0)\<rparr>"

definition single_request :: "ull_radio_tx_request \<Rightarrow> ull_radio_tx_request" where
  "single_request r = r\<lparr>rq_repeat_payload := 0, rq_prequeued_reply := 0, rq_followup_delay_us := 2350\<rparr>"

definition radio_submit :: "('c, 'x) trial_env \<Rightarrow> ull_radio_tx_request \<Rightarrow> ('c, 'x, u8) trial_op" where
  "radio_submit e request = on_radio (ull_radio_tx_submit (te_rom e) (Some request))"

text \<open>The status, whether the single frame replaced the repeated one, and whether the failure has been recorded.\<close>

definition submit_with_retry_fallback :: "('c, 'x) trial_env \<Rightarrow> ull_radio_tx_request \<Rightarrow> bool \<Rightarrow> ('c, 'x, u8 \<times> bool \<times> bool) trial_op" where
  "submit_with_retry_fallback e request automatic = do {
     status \<leftarrow> radio_submit e request;
     if \<not> automatic \<or> status \<noteq> ULL_TX_SCHEDULE_CONFLICT then ret (status, False, False)
     else do {
       retry_burst_done e None status;
       on_retry (\<lambda>r. r\<lparr>rt_fallback := bump 0 (rt_fallback r)\<rparr>);
       single_status \<leftarrow> radio_submit e (single_request request);
       if single_status = 0
       then do {
         on_retry (\<lambda>r. r\<lparr>rt_skip_pending := False, rt_fallback := bump 1 (rt_fallback r)\<rparr>);
         ret (0, True, True) }
       else do {
         on_retry (\<lambda>r. r\<lparr>rt_fallback := bump 2 (rt_fallback r)\<rparr>);
         ret (status, False, True) } } }"

definition choose_repeat :: "('c, 'x) trial_env \<Rightarrow> bool \<Rightarrow> ('c, 'x, repeat_choice) trial_op" where
  "choose_repeat e eligible = do {
     t \<leftarrow> trial id;
     ms \<leftarrow> milliseconds e;
     State (\<lambda>w. let (r, choice) = take_repeat ms (tl_cancel t) (tl_active_frame t) (tl_requested_hs t) (tl_requested_hus t)
                  (tl_skipped t) eligible (tw_retry w)
                in (choice, set_retry r w)) }"

definition reply_channel_for :: "tone_trial \<Rightarrow> u8 option" where
  "reply_channel_for t =
     ull_ble_csa2_subevent (pl_access_address (tl_plan t)) (ucast (pl_event_counter (tl_plan t) + tl_next_frame t))
       (Some (drop 19 (pl_e2 (tl_plan t)))) 2 True"

text \<open>The channel of the reply, when there is one to choose.\<close>

definition reply_channel :: "tone_trial \<Rightarrow> prepared_frame \<Rightarrow> bool \<Rightarrow> bool \<Rightarrow> bool \<Rightarrow> u8 option" where
  "reply_channel t p repeat prequeued paired =
     (if paired \<and> (\<not> prequeued \<or> repeat) then reply_channel_for t
      else Some (if prequeued \<and> \<not> repeat then pf_channel p else 0))"

definition submission_noted :: "('c, 'x) trial_env \<Rightarrow> bool \<Rightarrow> u8 \<times> bool \<times> bool \<Rightarrow> ('c, 'x, unit) trial_op" where
  "submission_noted e repeat outcome = (case outcome of (status, fallback, recorded) \<Rightarrow> do {
     t \<leftarrow> trial id;
     on_retry_time e (\<lambda>now. retry_attempt_time now 6);
     on_retry (retry_attempt_mark 7 (ucast status));
     on_retry_time e (\<lambda>now. retry_next_mark now 15);
     (if status \<noteq> 0
      then do { only_if (\<not> recorded) (retry_burst_done e None status); on_retry (retry_probe_done None status) }
      else do {
        on_retry (\<lambda>r. r\<lparr>rt_last_repeat := repeat \<and> \<not> fallback\<rparr>);
        on_retry burst_submitted;
        on_retry_time e (\<lambda>now. probe_next_submitted now (tl_active_frame t) (tl_skipped t)) });
     radio_report e 1 None })"

text \<open>After a submission the following frame and its alternates are built while the reservation is pending.\<close>

definition submitted_ok :: "('c, 'x) trial_env \<Rightarrow> ('c, 'x, u8) trial_op" where
  "submitted_ok e = do {
     on_trial (\<lambda>t. t\<lparr>tl_next_frame := tl_next_frame t + 1, tl_submitted := tl_submitted t + 1, tl_phase := TRANSMITTING\<rparr>);
     next \<leftarrow> trial tl_next_frame;
     ok \<leftarrow> prepare_frame e next;
     ok \<leftarrow> (if ok then prepare_alternate e next else ret False);
     only_if (\<not> ok) (stop_with e 5);
     ret 0 }"

definition submission_result :: "('c, 'x) trial_env \<Rightarrow> u8 \<Rightarrow> ('c, 'x, u8) trial_op" where
  "submission_result e status =
     (if status = ULL_TX_SCHEDULE_CONFLICT \<or> status = ULL_TX_TIME_EXPIRED
      then do { skip_frame e; on_trial (\<lambda>t. t\<lparr>tl_phase := WAIT_E2\<rparr>); report; ret 0 }
      else if status \<noteq> 0 then do { finish e FAILED 6; ret 0 }
      else submitted_ok e)"

definition take_frame :: "prepared_frame \<Rightarrow> tone_trial \<Rightarrow> tone_trial" where
  "take_frame p t = t\<lparr>tl_build_us := pf_build_us p, tl_active_frame := tl_next_frame t, tl_requested_hs := pf_inner_hs p,
     tl_requested_hus := pf_inner_hus p\<rparr>"

definition submit_frame :: "('c, 'x) trial_env \<Rightarrow> ('c, 'x, u8) trial_op" where
  "submit_frame e = do {
     p \<leftarrow> trial (\<lambda>t. frame_at PREPARED (tl_next_frame t) t);
     on_trial (take_frame p);
     ms \<leftarrow> milliseconds e;
     eligible \<leftarrow> gets (\<lambda>w. retry_audio_eligible ms w p);
     only_if (pf_stereo_audio p \<and> pf_header p = 0x32 \<and> pf_length p = 205) (on_live (live_policy (if eligible then 0 else 1)));
     choice \<leftarrow> choose_repeat e eligible;
     let repeat = ((ULL_AUDIO_REPEAT \<and> eligible) \<or> ch_probe choice \<or> ch_burst choice \<or> ch_automatic choice);
     let prequeued = (repeat \<or> (ULL_RX_DIAGNOSTIC = 5 \<and> \<not> pf_receive p \<and> pf_stream_mask p \<noteq> 6));
     let paired = ((ULL_RX_DIAGNOSTIC = 4 \<and> \<not> pf_receive p) \<or> prequeued);
     t \<leftarrow> trial id;
     (case reply_channel t p repeat prequeued paired of
        None \<Rightarrow> do { finish e FAILED 4; ret 0 }
      | Some channel \<Rightarrow> do {
          outcome \<leftarrow> submit_with_retry_fallback e (request_for t p repeat prequeued paired channel) (ch_automatic choice);
          submission_noted e repeat outcome;
          submission_result e (fst outcome) }) }"

definition next_submission :: "('c, 'x) trial_env \<Rightarrow> u32 \<Rightarrow> ('c, 'x, u8) trial_op" where
  "next_submission e minimum = do {
     join_error \<leftarrow> advance_second_stream e;
     if join_error \<noteq> 0 then do { finish e FAILED join_error; ret 0 }
     else do {
       r \<leftarrow> search_from e minimum;
       (case r of
          Some status \<Rightarrow> ret status
        | None \<Rightarrow> do {
            at_end \<leftarrow> gets (\<lambda>w. tl_next_frame (tw_trial w) = frame_limit w);
            joined \<leftarrow> gets (\<lambda>w. tl_second_committed (tw_trial w) \<and> ull_raw_session_confirmed (tw_raw w));
            if at_end then do { finish e (if joined then FINISHED else FAILED) (if joined then 0 else 12); ret 0 }
            else submit_frame e }) } }"

section \<open>The operations\<close>

definition ull_tone_trial_step :: "('c, 'x) trial_env \<Rightarrow> ('c, 'x, u8) trial_op" where
  "ull_tone_trial_step e = do {
     on_retry_ms e burst_tick;
     minimum \<leftarrow> gets (\<lambda>w. ull_radio_tx_min_lead (r_hw (tw_radio w)));
     phase \<leftarrow> trial tl_phase;
     if phase = IDLE then do { report; ret 0x0c }
     else if phase_value phase \<ge> phase_value FINISHED then do { report; ret (if phase = FAULT then 3 else 0) }
     else do {
       r \<leftarrow> (if phase = WAIT_E2 then wait_for_session e minimum else collect_event e minimum);
       (case r of Some status \<Rightarrow> ret status | None \<Rightarrow> next_submission e minimum) } }"

definition ull_tone_trial_cancel :: "('c, 'x) trial_env \<Rightarrow> ('c, 'x, u8) trial_op" where
  "ull_tone_trial_cancel e = do {
     on_retry (\<lambda>r. (burst_end 3 r)\<lparr>rt_burst_lead := False\<rparr>);
     on_trial (\<lambda>t. t\<lparr>tl_cancel := True\<rparr>);
     phase \<leftarrow> trial tl_phase;
     only_if (phase = TRANSMITTING) (radio_cancel e);
     ull_tone_trial_step e }"

definition ull_tone_trial_status :: "('c, 'x, u8) trial_op" where
  "ull_tone_trial_status = do { report; phase \<leftarrow> trial tl_phase; ret (if phase = FAULT then 3 else 0) }"

definition ull_tone_trial_active :: "tone_trial \<Rightarrow> bool" where
  "ull_tone_trial_active t \<longleftrightarrow> tl_phase t = WAIT_E2 \<or> tl_phase t = TRANSMITTING"

definition ull_tone_trial_rearm :: "('c, 'x) trial_env \<Rightarrow> ('c, 'x, bool) trial_op" where
  "ull_tone_trial_rearm e = do {
     phase \<leftarrow> trial tl_phase;
     if phase_value phase < phase_value FINISHED \<or> phase_value phase \<ge> phase_value FAULT then ret False
     else do {
       c \<leftarrow> radio_collect e;
       if fst c \<noteq> 1 then ret False
       else do {
         modify (\<lambda>w. w\<lparr>tw_trial := trial_zero, tw_source := None, tw_continuous := False\<rparr>);
         on_retry retry_rearm;
         ret True } } }"

end
