(* ===== verification/Spec2Isabelle.thy ===== *)
theory Spec2Isabelle
  imports AirFrame AirSession PhyPacket ParentAck TonePacket AirFeedback AudioSource UsbAudio ControlLog LlcpPool PcmStream RadioProgram AutoKeeper SessionKey ParentAir RadioOwned ToneTrial
begin

text \<open>
  Verification library of the radio and codec firmware of the receiver.
\<close>

end
